(* ===== verification/Prelude.thy ===== *)
theory Prelude
  imports Main "HOL-Library.Word"
begin

text \<open>
  Shared vocabulary of the development: bytes and Go's \<open>error\<close> values, slices, the sequencing of
  fallible calls, the two named collections the component theories fill, and the generic lemmas on
  lists and sums they share.

  Go's functions return a pair of a value and an \<open>error\<close>; a model returns \<open>go_error + 'a\<close>, \<open>Inl\<close> for a
  non-nil error. All packages share one \<open>error\<close> interface, so one datatype names every error value the
  modelled code creates or tests; a sentinel (\<open>ErrMalformed\<close>, \<open>ErrCRC\<close>, ...) keeps its package in its
  name, an \<open>errors.New\<close> text that no caller inspects is a \<open>Failure\<close>.
\<close>

unbundle bit_operations_syntax

type_synonym byte = "8 word"

datatype go_error =
    ModemMalformed           \<comment> \<open>modem.ErrMalformed\<close>
  | ModemCRC                 \<comment> \<open>modem.ErrCRC\<close>
  | ModemVersion byte        \<comment> \<open>modem.ErrVersion, wrapped with the version seen\<close>
  | ModemTimeout             \<comment> \<open>modem.ErrTimeout\<close>
  | PayloadTooLong nat
  | PubMalformed             \<comment> \<open>publication.ErrMalformed\<close>
  | HashMismatch             \<comment> \<open>publication.ErrHashMismatch\<close>
  | NodeMalformed            \<comment> \<open>node.ErrMalformed\<close>
  | NotExist                 \<comment> \<open>os.ErrNotExist\<close>
  | IOError                  \<comment> \<open>any other error of a file-system or serial call\<close>
  | ModemFailed "16 word" "byte list" \<comment> \<open>an error the modem reported: its code and message\<close>
  | Failure string

text \<open>
  An instant (\<open>time.Time\<close>) is an \<open>int\<close>, the nanoseconds since Go's zero instant, so that \<open>IsZero\<close> is \<open>= 0\<close>; a
  \<open>time.Duration\<close> is an \<open>int\<close> of nanoseconds.
\<close>

type_synonym instant = int
type_synonym duration = int

definition Millisecond :: duration where [simp]: "Millisecond = 1000000"
definition Second :: duration where [simp]: "Second = 1000000000"

text \<open>\<open>named_theorems\<close>: the facts that evaluate the codecs, and the guards an accepted input passed.\<close>

named_theorems codec "round trips and layout equations of the encoders and decoders"
named_theorems accepted "what is known of an input a decoder or a handler accepted"

text \<open>Sequencing of fallible calls: \<open>x, err := f(); if err != nil { return err }\<close>.\<close>

fun bind_err :: "go_error + 'a \<Rightarrow> ('a \<Rightarrow> go_error + 'b) \<Rightarrow> go_error + 'b" where
  "bind_err (Inl e) k = Inl e"
| "bind_err (Inr x) k = k x"

lemma bind_err_Inr_iff [simp]:
  "bind_err r k = Inr y \<longleftrightarrow> (\<exists>x. r = Inr x \<and> k x = Inr y)"
  by (cases r) auto

text \<open>An encoder whose error the caller drops, \<open>wire, _ := Encode(...)\<close>: a nil slice is the empty one.\<close>

definition wire_or_nil :: "go_error + byte list \<Rightarrow> byte list" where
  "wire_or_nil x = (case x of Inl _ \<Rightarrow> [] | Inr wire \<Rightarrow> wire)"

text \<open>Go's half-open slice \<open>xs[i:j]\<close>; every use in the model is guarded by the code's length test.\<close>

definition gslice :: "'a list \<Rightarrow> nat \<Rightarrow> nat \<Rightarrow> 'a list" where
  "gslice xs i j = take (j - i) (drop i xs)"

lemma length_gslice [simp]: "length (gslice xs i j) = min (length xs - i) (j - i)"
  by (simp add: gslice_def min.commute)

lemma gslice_append_left:
  "length xs = i \<Longrightarrow> length ys = j - i \<Longrightarrow> gslice (xs @ ys @ zs) i j = ys"
  by (simp add: gslice_def)

lemma gslice_cover:
  assumes "i \<le> j" "j \<le> k"
  shows "gslice xs i j @ gslice xs j k = gslice xs i k"
proof -
  have "take (k - j) (drop j xs) = take (k - j) (drop (j - i) (drop i xs))"
    using assms(1) by simp
  moreover have "k - i = (j - i) + (k - j)" using assms by simp
  ultimately show ?thesis by (simp add: gslice_def take_add)
qed

lemma gslice_from_0: "gslice xs 0 j = take j xs"
  by (simp add: gslice_def)

lemma gslice_to_length: "gslice xs i (length xs) = drop i xs"
  by (simp add: gslice_def)

lemma gslice_nth: "k < j - i \<Longrightarrow> i + k < length xs \<Longrightarrow> gslice xs i j ! k = xs ! (i + k)"
  by (simp add: gslice_def)

lemma gslices_join:
  "concat (map (\<lambda>i. gslice xs (i * s) (min ((i + 1) * s) (length xs))) [0..<n]) = take (n * s) xs"
proof (induction n)
  case 0
  then show ?case by simp
next
  case (Suc n)
  have "take (n * s) xs @ gslice xs (n * s) (min ((n + 1) * s) (length xs)) = take ((n + 1) * s) xs"
  proof (cases "n * s \<le> length xs")
    case True
    then have "gslice xs 0 (n * s) @ gslice xs (n * s) (min ((n + 1) * s) (length xs)) =
        gslice xs 0 (min ((n + 1) * s) (length xs))"
      by (intro gslice_cover) simp_all
    then show ?thesis by (simp add: gslice_from_0 min_def)
  next
    case False
    then show ?thesis by (simp add: gslice_def)
  qed
  with Suc show ?case by simp
qed

lemma nth_eq_take_iff:
  "length xs = n \<Longrightarrow> n \<le> length ys \<Longrightarrow> (\<forall>i<n. xs ! i = ys ! i) \<longleftrightarrow> take n ys = xs"
  by (auto simp: list_eq_iff_nth_eq)

text \<open>Lengths that fit their field survive it.\<close>

lemma unat_of_nat_fits: "n < 2 ^ LENGTH('a) \<Longrightarrow> unat (of_nat n :: 'a::len word) = n"
  by (simp add: unat_of_nat)

lemma of_nat_word_inject:
  "m < 2 ^ LENGTH('a) \<Longrightarrow> n < 2 ^ LENGTH('a) \<Longrightarrow> (of_nat m :: 'a::len word) = of_nat n \<longleftrightarrow> m = n"
  by (metis unat_of_nat_fits)

lemma unat_ucast_up:
  assumes "LENGTH('a) \<le> LENGTH('b)"
  shows "unat (ucast (w :: 'a::len word) :: 'b::len word) = unat w"
proof -
  have "unat w < 2 ^ LENGTH('a)" by (rule unsigned_less)
  also have "(2::nat) ^ LENGTH('a) \<le> 2 ^ LENGTH('b)" using assms by simp
  finally show ?thesis by (simp add: unsigned_ucast_eq take_bit_nat_eq_self)
qed

lemma unat_plus_fits:
  "unat x + unat y < 2 ^ LENGTH('a) \<Longrightarrow> unat (x + y :: 'a::len word) = unat x + unat y"
  by (simp add: unat_word_ariths)

lemma unat_times_fits:
  "unat x * unat y < 2 ^ LENGTH('a) \<Longrightarrow> unat (x * y :: 'a::len word) = unat x * unat y"
  by (simp add: unat_word_ariths)

lemma word_xor_cancel [simp]:
  "x XOR a = y XOR a \<longleftrightarrow> x = (y :: 'a::len word)"
  "a XOR x = a XOR y \<longleftrightarrow> x = (y :: 'a::len word)"
  by (auto simp: bit_eq_iff bit_simps)

lemma ucast_up_inject:
  assumes "LENGTH('a) \<le> LENGTH('b)"
  shows "(ucast v :: 'b::len word) = ucast w \<longleftrightarrow> v = (w :: 'a::len word)"
  by (metis assms unat_ucast_up word_unat_eq_iff)

lemma append_eq_tail: "us @ a = vs @ b \<Longrightarrow> length a = length b \<Longrightarrow> us = vs \<and> a = b"
  by simp

lemma all_less_three: "(\<forall>i<3::nat. P i) \<longleftrightarrow> P 0 \<and> P 1 \<and> P 2"
proof -
  have "i < 3 \<longleftrightarrow> i = 0 \<or> i = 1 \<or> i = 2" for i :: nat by arith
  then show ?thesis by auto
qed

lemma replicate_3: "replicate 3 x = [x, x, x]"
  by (simp add: numeral_3_eq_3)

lemma list_update_snoc_middle: "(xs @ y # zs)[length xs := v] = xs @ v # zs"
  by simp

lemma concat_eq_nth_mono:
  "length xs = n \<Longrightarrow> (\<And>i. i < n \<Longrightarrow> xs ! i = f i) \<Longrightarrow> xs = map f [0..<n]"
  by (simp add: list_eq_iff_nth_eq)

end
