(* ===== verification/Bytes.thy ===== *)
theory Bytes
  imports Prelude "HOL-Library.List_Lexorder"
begin

text \<open>
  Fixed-size byte arrays (Go's \<open>[16]byte\<close>, \<open>[32]byte\<close>, \<open>[64]byte\<close>) and the little-endian integers of
  \<open>encoding/binary\<close>. An array type is a subtype of the byte lists, its length in the type as it is in Go;
  \<open>copy_array\<close> is \<open>var a [n]byte; copy(a[:], xs)\<close>. Arrays are ordered as the code orders identifiers,
  by \<open>string(a[:]) < string(b[:])\<close>, so that the library's \<open>sort\<close> is the code's \<open>sort.Slice\<close>.
\<close>

section \<open>Fixed-size arrays\<close>

typedef (overloaded) ('n::len) array = "{bs :: byte list. length bs = LENGTH('n)}"
  morphisms array_bytes Abs_array
  by (rule exI [of _ "replicate LENGTH('n) 0"]) simp

lemma length_array_bytes [simp]: "length (array_bytes (a :: 'n::len array)) = LENGTH('n)"
  using array_bytes [of a] by simp

lemma array_eq_iff: "a = b \<longleftrightarrow> array_bytes a = array_bytes b"
  by (simp add: array_bytes_inject)

definition copy_array :: "byte list \<Rightarrow> 'n::len array" where
  "copy_array xs = Abs_array (take LENGTH('n) (xs @ replicate LENGTH('n) 0))"

lemma array_bytes_copy:
  "array_bytes (copy_array xs :: 'n::len array) = take LENGTH('n) (xs @ replicate LENGTH('n) 0)"
  unfolding copy_array_def by (rule Abs_array_inverse) simp

lemma array_bytes_copy_exact [simp]:
  "length xs = LENGTH('n) \<Longrightarrow> array_bytes (copy_array xs :: 'n::len array) = xs"
  by (simp add: array_bytes_copy)

lemma array_bytes_copy_long:
  "LENGTH('n) \<le> length xs \<Longrightarrow> array_bytes (copy_array xs :: 'n::len array) = take LENGTH('n) xs"
  by (simp add: array_bytes_copy)

lemma copy_array_bytes [simp]: "copy_array (array_bytes a) = a"
  by (simp add: array_eq_iff)

lemma copy_array_inject:
  "length xs = LENGTH('n) \<Longrightarrow> length ys = LENGTH('n) \<Longrightarrow>
   (copy_array xs :: 'n::len array) = copy_array ys \<longleftrightarrow> xs = ys"
  by (metis array_bytes_copy_exact)

instantiation array :: (len) linorder
begin

definition less_eq_array :: "'a array \<Rightarrow> 'a array \<Rightarrow> bool" where
  "less_eq_array a b \<longleftrightarrow> array_bytes a \<le> array_bytes b"

definition less_array :: "'a array \<Rightarrow> 'a array \<Rightarrow> bool" where
  "less_array a b \<longleftrightarrow> array_bytes a < array_bytes b"

instance
  by intro_classes (auto simp: less_eq_array_def less_array_def array_eq_iff)

end

instantiation array :: (len) equal
begin

definition equal_array :: "'a array \<Rightarrow> 'a array \<Rightarrow> bool" where
  "equal_array a b \<longleftrightarrow> array_bytes a = array_bytes b"

instance
  by intro_classes (simp add: equal_array_def array_eq_iff)

end

section \<open>Little-endian integers\<close>

text \<open>
  \<open>binary.LittleEndian.PutUintN\<close> as the bytes it writes, \<open>binary.LittleEndian.UintN\<close> as the value of
  the bytes it reads, once for every width.
\<close>

definition put_le :: "nat \<Rightarrow> 'a::len word \<Rightarrow> byte list" where
  "put_le n w = map (\<lambda>i. ucast (drop_bit (8 * i) w)) [0..<n]"

primrec get_le :: "byte list \<Rightarrow> 'a::len word" where
  "get_le [] = 0"
| "get_le (b # bs) = ucast b OR push_bit 8 (get_le bs)"

lemma length_put_le [simp]: "length (put_le n w) = n"
  by (simp add: put_le_def)

lemma bit_get_le:
  "bit (get_le bs :: 'a::len word) k \<longleftrightarrow>
     k < LENGTH('a) \<and> k div 8 < length bs \<and> bit (bs ! (k div 8)) (k mod 8)"
proof (induction bs arbitrary: k)
  case Nil
  then show ?case by simp
next
  case (Cons b bs)
  show ?case
  proof (cases "k < 8")
    case True
    then show ?thesis by (auto simp: bit_simps)
  next
    case False
    then have "k div 8 = Suc ((k - 8) div 8)" "(k - 8) mod 8 = k mod 8"
      by (simp_all add: le_div_geq le_mod_geq)
    moreover from False have "\<not> bit b k" by (auto dest: bit_imp_le_length)
    ultimately show ?thesis using False by (auto simp: bit_simps Cons.IH)
  qed
qed

lemma get_put_le [codec]:
  assumes "LENGTH('a) = 8 * n"
  shows "get_le (put_le n (w :: 'a::len word)) = w"
proof (rule bit_word_eqI)
  fix k assume k: "k < LENGTH('a)"
  with assms have "k div 8 < n" by simp
  moreover have "k mod 8 + 8 * (k div 8) = k" by simp
  ultimately show "bit (get_le (put_le n w) :: 'a word) k = bit w k"
    using k by (simp add: bit_get_le put_le_def bit_simps add.commute) arith
qed

lemma put_get_le [codec]:
  assumes "length bs = n" "LENGTH('a) = 8 * n"
  shows "put_le n (get_le bs :: 'a::len word) = bs"
proof (rule nth_equalityI)
  show "length (put_le n (get_le bs :: 'a word)) = length bs" using assms by simp
next
  fix i assume "i < length (put_le n (get_le bs :: 'a word))"
  then have i: "i < n" by simp
  show "put_le n (get_le bs :: 'a word) ! i = bs ! i"
  proof (rule bit_word_eqI)
    fix k assume k: "k < LENGTH(8)"
    then have "(8 * i + k) div 8 = i" "(8 * i + k) mod 8 = k" by simp_all
    moreover from i k assms have "8 * i + k < LENGTH('a)" by simp
    ultimately show "bit (put_le n (get_le bs :: 'a word) ! i) k = bit (bs ! i) k"
      using i k assms by (simp add: put_le_def bit_simps bit_get_le)
  qed
qed

lemma get_le_inject:
  assumes "length xs = n" "length ys = n" "LENGTH('a) = 8 * n"
  shows "(get_le xs :: 'a::len word) = get_le ys \<longleftrightarrow> xs = ys"
  by (metis assms put_get_le)

abbreviation le16 :: "16 word \<Rightarrow> byte list" where "le16 \<equiv> put_le 2"
abbreviation le32 :: "32 word \<Rightarrow> byte list" where "le32 \<equiv> put_le 4"
abbreviation le64 :: "64 word \<Rightarrow> byte list" where "le64 \<equiv> put_le 8"
abbreviation uint16_le :: "byte list \<Rightarrow> 16 word" where "uint16_le \<equiv> get_le"
abbreviation uint32_le :: "byte list \<Rightarrow> 32 word" where "uint32_le \<equiv> get_le"
abbreviation uint64_le :: "byte list \<Rightarrow> 64 word" where "uint64_le \<equiv> get_le"

section \<open>The interface of an encoder and its decoder\<close>

text \<open>
  What a wire format promises its users: what was encoded is decoded to the value itself. From it come
  the facts the protocol proofs use again and again: no two values share an encoding, and the encoding
  determines the value.
\<close>

locale wire_format =
  fixes enc :: "'a \<Rightarrow> go_error + byte list"
    and dec :: "byte list \<Rightarrow> go_error + 'a"
  assumes dec_enc: "enc x = Inr b \<Longrightarrow> dec b = Inr x"
begin

lemma enc_injective: "enc x = Inr b \<Longrightarrow> enc y = Inr b \<Longrightarrow> x = y"
  by (metis dec_enc sum.inject(2))

lemma enc_separates: "x \<noteq> y \<Longrightarrow> enc x = Inr b \<Longrightarrow> enc y \<noteq> Inr b"
  using enc_injective by blast

end

text \<open>A format is canonical where, besides, every accepted input is the encoding of what was read.\<close>

locale canonical_format = wire_format +
  assumes enc_dec: "dec b = Inr x \<Longrightarrow> enc x = Inr b"
begin

lemma dec_iff: "dec b = Inr x \<longleftrightarrow> enc x = Inr b"
  using dec_enc enc_dec by blast

lemma dec_injective: "dec b = Inr x \<Longrightarrow> dec c = Inr x \<Longrightarrow> b = c"
  by (metis enc_dec sum.inject(2))

lemma rejected_iff: "(\<exists>e. dec b = Inl e) \<longleftrightarrow> (\<forall>x. enc x \<noteq> Inr b)"
  by (metis dec_iff obj_sumE sum.distinct(1))

end

end
