(* ===== verification/Modem_Protocol.thy ===== *)
theory Modem_Protocol
  imports Bytes
begin

text \<open>
  \<open>internal/modem/protocol.go\<close>: the serial record between host and modem. \<open>EncodeFrame\<close> lays a message
  out behind the magic, the version and its length, appends the IEEE CRC-32 of \<open>hash/crc32\<close>, stuffs the
  record with COBS so that it holds no zero byte, and ends it with a zero; \<open>DecodeFrame\<close> takes one
  record without its delimiter. The COBS routines keep the source's state: the encoder patches the code
  byte of the open block in the output it has already written, the decoder walks an index over its input.

  Lemmas: the encoder's output is a sequence of blocks (\<open>cobs_run\<close>), so it never contains a zero, grows
  by one byte per 254 and decodes to its input; a frame decodes to itself, and a record the decoder
  accepts is the layout of the frame it returns. The 32-bit floats of the radio settings are carried
  as their bit patterns (\<open>math.Float32bits\<close>).
\<close>

section \<open>Constants and message types\<close>

definition ProtocolVersion :: byte where [simp]: "ProtocolVersion = 1"
definition MaxRadioPayload :: nat where [simp]: "MaxRadioPayload = 255"
definition MaxFramePayload :: nat where [simp]: "MaxFramePayload = 512"
definition magic :: "byte list" where [simp]: "magic = [0x47, 0x43]" \<comment> \<open>'G', 'C'\<close>

definition MsgInfoRequest :: byte where [simp]: "MsgInfoRequest = 0x01"
definition MsgTXRequest :: byte where [simp]: "MsgTXRequest = 0x02"
definition MsgSetConfig :: byte where [simp]: "MsgSetConfig = 0x03"
definition MsgSetOLED :: byte where [simp]: "MsgSetOLED = 0x04"
definition MsgRXPacket :: byte where [simp]: "MsgRXPacket = 0x81"
definition MsgTXResult :: byte where [simp]: "MsgTXResult = 0x82"
definition MsgStatus :: byte where [simp]: "MsgStatus = 0x83"
definition MsgError :: byte where [simp]: "MsgError = 0x84"

text \<open>\<open>MessageType\<close> is a byte: a record of any other type decodes as well, so the model keeps the byte.\<close>

record Frame =
  frame_type :: byte
  frame_seq :: "16 word"
  frame_payload :: "byte list"

section \<open>CRC-32 (\<open>hash/crc32\<close>, IEEE polynomial)\<close>

definition crc_bit :: "32 word \<Rightarrow> 32 word" where
  "crc_bit c = (if bit c 0 then drop_bit 1 c XOR 0xEDB88320 else drop_bit 1 c)"

primrec crc_bits :: "nat \<Rightarrow> 32 word \<Rightarrow> 32 word" where
  "crc_bits 0 c = c"
| "crc_bits (Suc n) c = crc_bits n (crc_bit c)"

definition crc_byte :: "32 word \<Rightarrow> byte \<Rightarrow> 32 word" where
  "crc_byte c b = crc_bits 8 (c XOR ucast b)"

definition ChecksumIEEE :: "byte list \<Rightarrow> 32 word" where
  "ChecksumIEEE bs = NOT (foldl crc_byte 0xFFFFFFFF bs)"

lemma crc_bits_8 [codec]:
  "crc_bits 8 c = crc_bit (crc_bit (crc_bit (crc_bit (crc_bit (crc_bit (crc_bit (crc_bit c)))))))"
  by (simp add: eval_nat_numeral)

text \<open>The check value every CRC-32 implementation is tested with, on the ASCII digits 1 to 9.\<close>

lemma ChecksumIEEE_check_value:
  "ChecksumIEEE [0x31, 0x32, 0x33, 0x34, 0x35, 0x36, 0x37, 0x38, 0x39] = 0xCBF43926"
  by code_simp

text \<open>
  The register of the checksum never merges two states: each step is injective in the register and in the
  byte, so a change confined to one byte of the input always shows in the result.
\<close>

lemma crc_bit_top: "bit (crc_bit c) 31 \<longleftrightarrow> bit c 0"
proof -
  have "bit (0xEDB88320 :: 32 word) 31" by simp
  then show ?thesis by (auto simp: crc_bit_def bit_simps dest: bit_imp_le_length)
qed

lemma crc_bit_inject: "crc_bit c = crc_bit d \<longleftrightarrow> c = d"
proof
  assume eq: "crc_bit c = crc_bit d"
  then have low: "bit c 0 \<longleftrightarrow> bit d 0" by (metis crc_bit_top)
  have drop: "drop_bit 1 c = drop_bit 1 d"
  proof (cases "bit c 0")
    case True
    with eq low show ?thesis unfolding crc_bit_def by (simp only: if_True word_xor_cancel)
  next
    case False
    then show ?thesis using eq low by (simp add: crc_bit_def)
  qed
  show "c = d"
  proof (rule bit_word_eqI)
    fix n assume "n < LENGTH(32)"
    show "bit c n \<longleftrightarrow> bit d n"
    proof (cases n)
      case 0
      then show ?thesis using low by simp
    next
      case (Suc k)
      then show ?thesis using drop by (metis bit_drop_bit_eq comp_apply plus_1_eq_Suc)
    qed
  qed
qed simp

lemma crc_bits_inject: "crc_bits n c = crc_bits n d \<longleftrightarrow> c = d"
  by (induction n arbitrary: c d) (simp_all add: crc_bit_inject)

lemma crc_byte_inject_state: "crc_byte c b = crc_byte d b \<longleftrightarrow> c = d"
  by (simp add: crc_byte_def crc_bits_inject)

lemma crc_byte_inject_byte: "crc_byte c a = crc_byte c b \<longleftrightarrow> a = b"
  by (simp add: crc_byte_def crc_bits_inject ucast_up_inject)

lemma foldl_crc_inject_state: "foldl crc_byte c bs = foldl crc_byte d bs \<longleftrightarrow> c = d"
  by (induction bs arbitrary: c d) (simp_all add: crc_byte_inject_state)

lemma ChecksumIEEE_byte_change:
  "ChecksumIEEE (xs @ a # ys) = ChecksumIEEE (xs @ b # ys) \<longleftrightarrow> a = b"
  by (simp add: ChecksumIEEE_def foldl_crc_inject_state crc_byte_inject_byte)

section \<open>COBS\<close>

text \<open>The loop body over one source byte; the state is \<open>(dst, codeIndex, code)\<close>.\<close>

fun cobs_step :: "byte list \<times> nat \<times> byte \<Rightarrow> byte \<Rightarrow> byte list \<times> nat \<times> byte" where
  "cobs_step (dst, codeIndex, code) b =
     (if b = 0 then (dst[codeIndex := code] @ [0], length dst, 1)
      else let dst = dst @ [b]; code = code + 1
           in if code = 0xff then (dst[codeIndex := code] @ [0], length dst, 1)
              else (dst, codeIndex, code))"

definition cobsEncode :: "byte list \<Rightarrow> byte list" where
  "cobsEncode src =
     (let (dst, codeIndex, code) = foldl cobs_step ([0], 0, 1) src in dst[codeIndex := code])"

function cobs_decode_from :: "byte list \<Rightarrow> nat \<Rightarrow> byte list \<Rightarrow> go_error + byte list" where
  "cobs_decode_from src index dst =
     (if index < length src then
        let code = unat (src ! index) in
        if code = 0 \<or> index + code > length src + 1 then Inl ModemMalformed
        else let index = index + 1; end = index + code - 1 in
          if end > length src then Inl ModemMalformed
          else let dst = dst @ gslice src index end; index = end in
            cobs_decode_from src index
              (if code \<noteq> 0xff \<and> index < length src then dst @ [0] else dst)
      else Inr dst)"
  by pat_completeness auto
termination
  by (relation "measure (\<lambda>(src, index, dst). length src - index)") auto

declare cobs_decode_from.simps [simp del]

definition cobsDecode :: "byte list \<Rightarrow> go_error + byte list" where
  "cobsDecode src = (if length src = 0 then Inl ModemMalformed else cobs_decode_from src 0 [])"

subsection \<open>The encoder's output as blocks\<close>

text \<open>
  A block is a code byte and up to 254 non-zero bytes; a block of 254 stands for its bytes alone, a
  shorter one for its bytes and the zero that ended it.
\<close>

definition cobs_block :: "byte list \<Rightarrow> byte list" where
  "cobs_block p = of_nat (length p + 1) # p"

definition cobs_plain :: "byte list \<Rightarrow> byte list" where
  "cobs_plain p = p @ (if length p = 254 then [] else [0])"

definition cobs_ok :: "byte list \<Rightarrow> bool" where
  "cobs_ok p \<longleftrightarrow> 0 \<notin> set p \<and> length p \<le> 254"

lemma of_nat_byte_eq:
  "m < 256 \<Longrightarrow> n < 256 \<Longrightarrow> (of_nat m :: byte) = of_nat n \<longleftrightarrow> m = n"
  by (rule of_nat_word_inject) simp_all

definition cobs_run :: "byte list \<Rightarrow> byte list \<times> nat \<times> byte \<Rightarrow> byte list list \<Rightarrow> byte list \<Rightarrow> bool" where
  "cobs_run xs s bs pend \<longleftrightarrow>
     s = (concat (map cobs_block bs) @ 0 # pend, length (concat (map cobs_block bs)),
          of_nat (length pend + 1)) \<and>
     xs = concat (map cobs_plain bs) @ pend \<and> list_all cobs_ok bs \<and> 0 \<notin> set pend \<and> length pend < 254"

lemma cobs_run_step:
  assumes "cobs_run xs s bs pend"
  shows "\<exists>bs' pend'. cobs_run (xs @ [b]) (cobs_step s b) bs' pend'"
proof -
  let ?D = "concat (map cobs_block bs)"
  have s: "s = (?D @ 0 # pend, length ?D, of_nat (length pend + 1))"
    and p: "0 \<notin> set pend" "length pend < 254" using assms by (auto simp: cobs_run_def)
  consider "b = 0" | "b \<noteq> 0" "length pend = 253" | "b \<noteq> 0" "length pend < 253" using p(2) by linarith
  then show ?thesis
  proof cases
    case 1
    with p assms have "cobs_run (xs @ [b]) (cobs_step s b) (bs @ [pend]) []"
      by (auto simp: cobs_run_def cobs_block_def cobs_plain_def cobs_ok_def list_update_append)
    then show ?thesis by blast
  next
    case 2
    with p assms have "cobs_run (xs @ [b]) (cobs_step s b) (bs @ [pend @ [b]]) []"
      by (auto simp: cobs_run_def cobs_block_def cobs_plain_def cobs_ok_def list_update_append Let_def)
    then show ?thesis by blast
  next
    case 3
    then have "of_nat (length pend + 2) \<noteq> (0xff :: byte)"
      using of_nat_byte_eq [of "length pend + 2" 255] by simp
    with 3 p assms have "cobs_run (xs @ [b]) (cobs_step s b) bs (pend @ [b])"
      by (auto simp: cobs_run_def Let_def add.commute)
    then show ?thesis by blast
  qed
qed

lemma cobs_run_exists: "\<exists>bs pend. cobs_run xs (foldl cobs_step ([0], 0, 1) xs) bs pend"
proof (induction xs rule: rev_induct)
  case Nil
  have "cobs_run [] ([0], 0, 1) [] []" by (simp add: cobs_run_def)
  then show ?case by (simp, blast)
next
  case (snoc b xs)
  then show ?case by (metis cobs_run_step foldl_Cons foldl_Nil foldl_append)
qed

lemma cobsEncode_blocks:
  obtains bs pend where "cobsEncode xs = concat (map cobs_block bs) @ cobs_block pend"
    and "xs = concat (map cobs_plain bs) @ pend" and "list_all cobs_ok bs"
    and "0 \<notin> set pend" and "length pend < 254"
proof -
  obtain bs pend where run: "cobs_run xs (foldl cobs_step ([0], 0, 1) xs) bs pend"
    using cobs_run_exists by blast
  then have "foldl cobs_step ([0], 0, 1) xs =
      (concat (map cobs_block bs) @ 0 # pend, length (concat (map cobs_block bs)), of_nat (length pend + 1))"
    unfolding cobs_run_def by (rule conjunct1)
  then have "cobsEncode xs = concat (map cobs_block bs) @ cobs_block pend"
    by (simp add: cobsEncode_def cobs_block_def list_update_append)
  with run that show thesis by (auto simp: cobs_run_def)
qed

subsection \<open>No zero byte, bounded growth, and decoding\<close>

lemma cobs_code_nonzero: "length p \<le> 254 \<Longrightarrow> (of_nat (length p + 1) :: byte) \<noteq> 0"
  using of_nat_byte_eq [of "length p + 1" 0] by simp

lemma cobs_block_nonzero: "cobs_ok p \<Longrightarrow> 0 \<notin> set (cobs_block p)"
  using cobs_code_nonzero [of p] by (auto simp: cobs_ok_def cobs_block_def)

lemma cobsEncode_no_zero: "0 \<notin> set (cobsEncode xs)"
proof -
  obtain bs pend where "cobsEncode xs = concat (map cobs_block bs) @ cobs_block pend"
    "list_all cobs_ok bs" "cobs_ok pend"
    by (rule cobsEncode_blocks [of xs]) (auto simp: cobs_ok_def)
  then show ?thesis by (auto simp: list_all_iff cobs_block_nonzero)
qed

lemma cobs_blocks_length:
  "list_all cobs_ok bs \<Longrightarrow>
   254 * length (concat (map cobs_block bs)) \<le> 255 * length (concat (map cobs_plain bs))"
  by (induction bs) (auto simp: cobs_ok_def cobs_block_def cobs_plain_def)

lemma cobsEncode_length: "254 * length (cobsEncode xs) \<le> 255 * length xs + 254"
proof -
  obtain bs pend where "cobsEncode xs = concat (map cobs_block bs) @ cobs_block pend"
    "xs = concat (map cobs_plain bs) @ pend" "list_all cobs_ok bs"
    by (rule cobsEncode_blocks [of xs])
  then show ?thesis using cobs_blocks_length [of bs] by (simp add: cobs_block_def)
qed

lemma cobsEncode_not_Nil [simp]: "cobsEncode xs \<noteq> []"
  by (rule cobsEncode_blocks [of xs]) (simp add: cobs_block_def)

lemma cobs_decode_block:
  assumes "length p \<le> 254"
  shows "cobs_decode_from (pre @ cobs_block p @ suf) (length pre) dst =
    cobs_decode_from (pre @ cobs_block p @ suf) (length (pre @ cobs_block p))
      (if length p \<noteq> 254 \<and> suf \<noteq> [] then dst @ p @ [0] else dst @ p)"
proof -
  let ?code = "of_nat (length p + 1) :: byte"
  have code: "unat ?code = length p + 1"
    using assms by (intro unat_of_nat_fits) simp
  have full: "?code = 0xff \<longleftrightarrow> length p = 254"
    using assms of_nat_byte_eq [of "length p + 1" 255] by simp
  have at: "(pre @ cobs_block p @ suf) ! length pre = ?code"
    by (simp add: cobs_block_def)
  have full': "unat ?code = 255 \<longleftrightarrow> length p = 254" using code by simp
  show ?thesis
    unfolding cobs_decode_from.simps [of "pre @ cobs_block p @ suf" "length pre"] Let_def at code
    using full full' by (auto simp: cobs_block_def gslice_def)
qed

abbreviation blocks :: "byte list list \<Rightarrow> byte list" where "blocks bs \<equiv> concat (map cobs_block bs)"

text \<open>The decoder walks over whole blocks, whatever bytes they hold, when something follows them.\<close>

lemma cobs_decode_walk:
  assumes "\<forall>p \<in> set bs. length p \<le> 254" "suf \<noteq> []"
  shows "cobs_decode_from (pre @ blocks bs @ suf) (length pre) dst =
    cobs_decode_from (pre @ blocks bs @ suf) (length (pre @ blocks bs)) (dst @ concat (map cobs_plain bs))"
  using assms(1)
proof (induction bs arbitrary: pre dst)
  case (Cons p bs)
  have "cobs_decode_from (pre @ cobs_block p @ blocks bs @ suf) (length pre) dst =
      cobs_decode_from ((pre @ cobs_block p) @ blocks bs @ suf) (length (pre @ cobs_block p)) (dst @ cobs_plain p)"
    using cobs_decode_block [of p pre "blocks bs @ suf" dst] Cons.prems assms(2) by (simp add: cobs_plain_def)
  then show ?case using Cons.IH [of "pre @ cobs_block p" "dst @ cobs_plain p"] Cons.prems by simp
qed simp

lemma cobs_decode_blocks:
  assumes "\<forall>p \<in> set bs. length p \<le> 254" "length pend \<le> 254"
  shows "cobsDecode (blocks bs @ cobs_block pend) = Inr (concat (map cobs_plain bs) @ pend)"
proof -
  have ne: "cobs_block pend \<noteq> []" by (simp add: cobs_block_def)
  have "cobs_decode_from (blocks bs @ cobs_block pend) 0 [] =
      cobs_decode_from (blocks bs @ cobs_block pend @ []) (length (blocks bs)) (concat (map cobs_plain bs))"
    using cobs_decode_walk [OF assms(1) ne, of "[]" "[]"] by simp
  also have "\<dots> = Inr (concat (map cobs_plain bs) @ pend)"
    using cobs_decode_block [OF assms(2), of "blocks bs" "[]" "concat (map cobs_plain bs)"]
    by (simp add: cobs_decode_from.simps [of _ "length (blocks bs) + length (cobs_block pend)"])
  finally show ?thesis using ne by (simp add: cobsDecode_def)
qed

lemma cobsDecode_cobsEncode [codec]: "cobsDecode (cobsEncode xs) = Inr xs"
proof -
  obtain bs pend where "cobsEncode xs = concat (map cobs_block bs) @ cobs_block pend"
    "xs = concat (map cobs_plain bs) @ pend" "list_all cobs_ok bs" "length pend < 254"
    by (rule cobsEncode_blocks [of xs])
  then show ?thesis
    using cobs_decode_blocks [of bs pend] by (simp add: list_all_iff cobs_ok_def)
qed

section \<open>Frames\<close>

definition frame_body :: "Frame \<Rightarrow> byte list" where
  "frame_body f = magic @ [ProtocolVersion, frame_type f] @ le16 (frame_seq f) @
     le16 (of_nat (length (frame_payload f))) @ frame_payload f"

definition EncodeFrame :: "Frame \<Rightarrow> go_error + byte list" where
  "EncodeFrame f =
     (if length (frame_payload f) > MaxFramePayload
      then Inl (PayloadTooLong (length (frame_payload f)))
      else let body = frame_body f;
               raw = body @ le32 (ChecksumIEEE body)
           in Inr (cobsEncode raw @ [0]))"

definition DecodeFrame :: "byte list \<Rightarrow> go_error + Frame" where
  "DecodeFrame encoded = bind_err (cobsDecode encoded) (\<lambda>raw.
     if length raw < 12 \<or> raw ! 0 \<noteq> magic ! 0 \<or> raw ! 1 \<noteq> magic ! 1 then Inl ModemMalformed
     else if raw ! 2 \<noteq> ProtocolVersion then Inl (ModemVersion (raw ! 2))
     else let payloadLen = unat (uint16_le (gslice raw 6 8)) in
       if payloadLen > MaxFramePayload \<or> length raw \<noteq> 8 + payloadLen + 4 then Inl ModemMalformed
       else let wantCRC = uint32_le (drop (length raw - 4) raw) in
         if ChecksumIEEE (take (length raw - 4) raw) \<noteq> wantCRC then Inl ModemCRC
         else Inr \<lparr>frame_type = raw ! 3, frame_seq = uint16_le (gslice raw 4 6),
                   frame_payload = gslice raw 8 (8 + payloadLen)\<rparr>)"

text \<open>The record a frame is laid out as, field by field.\<close>

lemma length_frame_body: "length (frame_body f) = 8 + length (frame_payload f)"
  by (simp add: frame_body_def)

lemma frame_body_fields:
  "frame_body f ! 0 = 0x47" "frame_body f ! 1 = 0x43" "frame_body f ! 2 = 1"
  "frame_body f ! 3 = frame_type f" "gslice (frame_body f) 4 6 = le16 (frame_seq f)"
  "gslice (frame_body f) 6 8 = le16 (of_nat (length (frame_payload f)))"
  "drop 8 (frame_body f) = frame_payload f"
  by (simp_all add: frame_body_def gslice_def numeral_eq_Suc put_le_def)

lemma DecodeFrame_EncodeFrame:
  assumes "EncodeFrame f = Inr b"
  obtains enc where "b = enc @ [0]" "0 \<notin> set enc" "DecodeFrame enc = Inr f"
proof -
  let ?B = "frame_body f" and ?crc = "le32 (ChecksumIEEE (frame_body f))"
  let ?raw = "?B @ ?crc" and ?n = "length (frame_payload f)"
  have n: "?n \<le> 512" and b: "b = cobsEncode ?raw @ [0]"
    using assms by (simp_all add: EncodeFrame_def Let_def split: if_splits)
  have len: "length ?raw = 12 + ?n" by (simp add: length_frame_body)
  have pl: "unat (uint16_le (gslice ?raw 6 8)) = ?n"
    using n frame_body_fields(6) [of f]
    by (simp add: gslice_def length_frame_body get_put_le unat_of_nat_fits)
  have sq: "uint16_le (gslice ?raw 4 6) = frame_seq f"
    using frame_body_fields(5) [of f] by (simp add: gslice_def length_frame_body get_put_le)
  have pay: "gslice ?raw 8 (8 + ?n) = frame_payload f"
    using frame_body_fields(7) [of f] by (simp add: gslice_def length_frame_body)
  have crc: "take (length ?raw - 4) ?raw = ?B" "drop (length ?raw - 4) ?raw = ?crc"
    by (simp_all add: length_frame_body)
  have hd: "?raw ! 0 = 0x47" "?raw ! 1 = 0x43" "?raw ! 2 = 1" "?raw ! 3 = frame_type f"
    using frame_body_fields(1-4) [of f] by (simp_all add: nth_append length_frame_body)
  have "DecodeFrame (cobsEncode ?raw) = Inr f"
    unfolding DecodeFrame_def cobsDecode_cobsEncode bind_err.simps crc Let_def pl sq pay hd
    using n len by (simp add: get_put_le)
  with b that cobsEncode_no_zero show thesis by blast
qed

text \<open>
  Conversely the decoder returns nothing but what the record says: the COBS payload of an accepted
  record is the layout of the returned frame with its checksum behind it.
\<close>

lemma DecodeFrame_accepts [accepted]:
  assumes "DecodeFrame enc = Inr f"
  shows "cobsDecode enc = Inr (frame_body f @ le32 (ChecksumIEEE (frame_body f)))"
    and "length (frame_payload f) \<le> MaxFramePayload"
proof -
  obtain raw where raw: "cobsDecode enc = Inr raw" and "12 \<le> length raw"
    and hd: "raw ! 0 = 0x47" "raw ! 1 = 0x43" "raw ! 2 = 1"
    and len: "length raw = 12 + unat (uint16_le (gslice raw 6 8))"
    and pl: "unat (uint16_le (gslice raw 6 8)) \<le> 512"
    and crc: "ChecksumIEEE (take (length raw - 4) raw) = uint32_le (drop (length raw - 4) raw)"
    and f: "f = \<lparr>frame_type = raw ! 3, frame_seq = uint16_le (gslice raw 4 6),
                 frame_payload = gslice raw 8 (8 + unat (uint16_le (gslice raw 6 8)))\<rparr>"
    using assms by (auto simp: DecodeFrame_def Let_def split: if_splits)
  let ?n = "unat (uint16_le (gslice raw 6 8))"
  have pay: "frame_payload f = gslice raw 8 (8 + ?n)" and n: "length (frame_payload f) = ?n"
    using f len by simp_all
  have four: "take 4 raw = [0x47, 0x43, 1, frame_type f]"
    using hd \<open>12 \<le> length raw\<close> f by (simp add: list_eq_iff_nth_eq nth_Cons' numeral_eq_Suc less_Suc_eq)
  have "frame_body f = take 4 raw @ gslice raw 4 6 @ gslice raw 6 8 @ gslice raw 8 (8 + ?n)"
    using \<open>12 \<le> length raw\<close> four n pay f by (simp add: frame_body_def put_get_le)
  also have "\<dots> = take (8 + ?n) raw"
    by (simp add: gslice_from_0 [symmetric] gslice_cover)
  finally have body: "frame_body f = take (length raw - 4) raw" using len by simp
  have "le32 (ChecksumIEEE (frame_body f)) = drop (length raw - 4) raw"
    unfolding body crc using len by (simp add: put_get_le)
  with body raw show "cobsDecode enc = Inr (frame_body f @ le32 (ChecksumIEEE (frame_body f)))"
    by simp
  show "length (frame_payload f) \<le> MaxFramePayload" using n pl by simp
qed

section \<open>Damaged records\<close>

text \<open>The positions from which the loop of \<open>cobsDecode\<close> reads a code byte.\<close>

function cobs_codes :: "byte list \<Rightarrow> nat \<Rightarrow> nat list" where
  "cobs_codes src index =
     (if index < length src \<and> src ! index \<noteq> 0 then index # cobs_codes src (index + unat (src ! index)) else [])"
  by pat_completeness auto
termination
  by (relation "measure (\<lambda>(src, index). length src - index)") (auto simp: unat_gt_0 intro!: diff_less_mono2)

declare cobs_codes.simps [simp del]

lemma length_cobs_block [simp]: "length (cobs_block p) = Suc (length p)"
  by (simp add: cobs_block_def)

text \<open>Every position of a sequence of blocks is the code byte of one of them or a byte in one of them.\<close>

lemma cobs_codes_blocks:
  assumes "\<forall>p \<in> set bs. length p \<le> 254" "length pre \<le> i" "i < length (pre @ blocks bs)"
  shows "i \<in> set (cobs_codes (pre @ blocks bs) (length pre)) \<and>
      (\<exists>ps p qs. bs = ps @ p # qs \<and> i = length (pre @ blocks ps)) \<or>
    (\<exists>ps p qs j. bs = ps @ p # qs \<and> j < length p \<and> i = length (pre @ blocks ps) + Suc j)"
  using assms
proof (induction bs arbitrary: pre)
  case (Cons p bs)
  have code: "unat (of_nat (length p + 1) :: byte) = length p + 1" using Cons.prems(1) by (intro unat_of_nat_fits) simp
  have at: "(pre @ blocks (p # bs)) ! length pre = of_nat (length p + 1)" by (simp add: cobs_block_def nth_append)
  have "(of_nat (length p + 1) :: byte) \<noteq> 0" using Cons.prems(1) by (intro cobs_code_nonzero) simp
  then have walk: "cobs_codes (pre @ blocks (p # bs)) (length pre) =
      length pre # cobs_codes ((pre @ cobs_block p) @ blocks bs) (length (pre @ cobs_block p))"
    unfolding cobs_codes.simps [of "pre @ blocks (p # bs)" "length pre"] at code by (simp add: add.commute)
  consider "i = length pre" | j where "i = length pre + Suc j" "j < length p" | "length (pre @ cobs_block p) \<le> i"
  proof (cases "i = length pre")
    case False
    then obtain j where "i = length pre + Suc j" using Cons.prems(2) less_imp_Suc_add [of "length pre" i] by auto
    then show thesis using that by (cases "j < length p") auto
  qed
  then show ?case
  proof cases
    case 1
    then have "i \<in> set (cobs_codes (pre @ blocks (p # bs)) (length pre))" unfolding walk by simp
    moreover have "p # bs = [] @ p # bs \<and> i = length (pre @ blocks [])" using 1 by simp
    ultimately show ?thesis by blast
  next
    case 2
    then show ?thesis by (intro disjI2 exI [of _ "[]"] exI [of _ p] exI [of _ bs] exI [of _ j]) simp
  next
    case 3
    have "i < length ((pre @ cobs_block p) @ blocks bs)" using Cons.prems(3) by simp
    from Cons.IH [OF _ 3 this] Cons.prems(1) consider
      ps q qs where "i \<in> set (cobs_codes ((pre @ cobs_block p) @ blocks bs) (length (pre @ cobs_block p)))"
        "bs = ps @ q # qs" "i = length ((pre @ cobs_block p) @ blocks ps)"
      | ps q qs j where "bs = ps @ q # qs" "j < length q" "i = length ((pre @ cobs_block p) @ blocks ps) + Suc j" by auto
    then show ?thesis
    proof cases
      case 1
      then have "i \<in> set (cobs_codes (pre @ blocks (p # bs)) (length pre))" unfolding walk by simp
      moreover have "p # bs = (p # ps) @ q # qs \<and> i = length (pre @ blocks (p # ps))" using 1 by simp
      ultimately show ?thesis by blast
    next
      case 2
      then have "p # bs = (p # ps) @ q # qs \<and> j < length q \<and> i = length (pre @ blocks (p # ps)) + Suc j" by simp
      then show ?thesis by blast
    qed
  qed
qed simp

text \<open>A byte that is no code byte, changed to any other, is one changed byte of the frame.\<close>

lemma cobs_data_byte:
  assumes "\<forall>p \<in> set (bs @ [pend]). length p \<le> 254" "bs @ [pend] = ps @ p # qs" "j < length p"
    and "i = length (blocks ps) + Suc j"
  obtains xs ys where "concat (map cobs_plain bs) @ pend = xs @ blocks (bs @ [pend]) ! i # ys"
    "cobsDecode ((blocks (bs @ [pend]))[i := b]) = Inr (xs @ b # ys)"
proof -
  have p: "p[j := b] = take j p @ b # drop (Suc j) p" "take j p @ p ! j # drop (Suc j) p = p"
    using assms(3) by (simp_all add: upd_conv_take_nth_drop id_take_nth_drop [symmetric])
  have at: "blocks (bs @ [pend]) ! i = p ! j" unfolding assms(2,4) using assms(3) by (simp add: cobs_block_def nth_append)
  have upd: "(blocks (bs @ [pend]))[i := b] = blocks (ps @ p[j := b] # qs)"
    unfolding assms(2,4) using assms(3) by (simp add: cobs_block_def list_update_append)
  have len: "\<forall>q \<in> set (ps @ p[j := b] # qs). length q \<le> 254" using assms(1) unfolding assms(2) by auto
  show thesis
  proof (cases qs rule: rev_cases)
    case Nil
    then have e: "bs = ps" "pend = p" using assms(2) by simp_all
    have "cobsDecode (blocks (ps @ p[j := b] # qs)) = Inr (concat (map cobs_plain ps) @ p[j := b])"
      using cobs_decode_blocks [of ps "p[j := b]"] len Nil by simp
    then show thesis using that [of "concat (map cobs_plain ps) @ take j p" "drop (Suc j) p"] p e at upd by simp
  next
    case (snoc qs' q)
    then have e: "bs = ps @ p # qs'" "pend = q" using assms(2) by simp_all
    let ?tail = "(if length p = 254 then [] else [0]) @ concat (map cobs_plain qs') @ pend"
    have "cobsDecode (blocks (ps @ p[j := b] # qs)) = Inr (concat (map cobs_plain (ps @ p[j := b] # qs')) @ pend)"
      using cobs_decode_blocks [of "ps @ p[j := b] # qs'" pend] len snoc e by simp
    also have "\<dots> = Inr (concat (map cobs_plain ps) @ take j p @ b # drop (Suc j) p @ ?tail)"
      by (simp add: cobs_plain_def) (simp add: p(1))
    finally show thesis
      using that [of "concat (map cobs_plain ps) @ take j p" "drop (Suc j) p @ ?tail"] p(2) e at upd by (simp add: cobs_plain_def)
  qed
qed

text \<open>A code byte changed to zero, and a record that ends inside a block, are refused.\<close>

lemma cobs_zero_code:
  assumes "\<forall>p \<in> set ps. length p \<le> 254"
  shows "cobsDecode ((blocks (ps @ p # qs))[length (blocks ps) := 0]) = Inl ModemMalformed"
proof -
  have upd: "(blocks (ps @ p # qs))[length (blocks ps) := 0] = blocks ps @ 0 # p @ blocks qs"
    by (simp add: cobs_block_def list_update_append)
  show ?thesis
    using cobs_decode_walk [OF assms, of "0 # p @ blocks qs" "[]" "[]"] unfolding upd
    by (simp add: cobsDecode_def cobs_decode_from.simps [of _ "length (blocks ps)"])
qed

lemma cobs_cut_block:
  assumes "\<forall>q \<in> set (ps @ [p]). length q \<le> 254" "j < length p"
  shows "cobsDecode (blocks ps @ take (Suc j) (cobs_block p)) = Inl ModemMalformed"
proof -
  have code: "unat (of_nat (length p + 1) :: byte) = length p + 1" using assms(1) by (intro unat_of_nat_fits) simp
  have cut: "take (Suc j) (cobs_block p) = of_nat (length p + 1) # take j p" by (simp add: cobs_block_def)
  show ?thesis
    using cobs_decode_walk [of ps "of_nat (length p + 1) # take j p" "[]" "[]"] assms unfolding cut
    by (simp add: cobsDecode_def cobs_decode_from.simps [of _ "length (blocks ps)"] code [simplified] Let_def)
qed

lemma splits_at_byte:
  assumes "b @ c = xs @ a # ys" "length xs < length b"
  obtains ys1 where "b = xs @ a # ys1" "ys = ys1 @ c"
proof -
  obtain us where "b = xs @ us" "us @ c = a # ys"
    using assms by (auto simp: append_eq_append_conv2)
  then show thesis using assms(2) that by (cases us) auto
qed

text \<open>One changed byte of a frame, header, payload or checksum, is found by the checksum or the checks before it.\<close>

lemma changed_frame_rejected:
  assumes "frame_body f @ le32 (ChecksumIEEE (frame_body f)) = xs @ a # ys" "a' \<noteq> a" "cobsDecode record = Inr (xs @ a' # ys)"
  shows "\<exists>e. DecodeFrame record = Inl e"
proof (rule ccontr)
  assume "\<nexists>e. DecodeFrame record = Inl e"
  then obtain g where "DecodeFrame record = Inr g" by (metis obj_sumE)
  from DecodeFrame_accepts(1) [OF this] assms(3)
  have g: "frame_body g @ le32 (ChecksumIEEE (frame_body g)) = xs @ a' # ys" by simp
  have len: "length (frame_body f) = length (frame_body g)"
    using arg_cong [OF assms(1), of length] arg_cong [OF g, of length] by simp
  show False
  proof (cases "length xs < length (frame_body f)")
    case True
    then obtain us vs where f: "frame_body f = xs @ a # us" "ys = us @ le32 (ChecksumIEEE (frame_body f))"
      and h: "frame_body g = xs @ a' # vs" "ys = vs @ le32 (ChecksumIEEE (frame_body g))"
      using splits_at_byte [OF assms(1)] splits_at_byte [OF g] len by metis
    have "us @ le32 (ChecksumIEEE (frame_body f)) = vs @ le32 (ChecksumIEEE (frame_body g))"
      using f(2) h(2) by argo
    then have same: "us = vs \<and> le32 (ChecksumIEEE (frame_body f)) = le32 (ChecksumIEEE (frame_body g))"
      by (rule append_eq_tail) simp
    have "ChecksumIEEE (frame_body f) = uint32_le (le32 (ChecksumIEEE (frame_body g)))"
      unfolding conjunct2 [OF same, symmetric] by (simp add: get_put_le)
    then have "ChecksumIEEE (xs @ a # us) = ChecksumIEEE (xs @ a' # us)"
      using f(1) h(1) conjunct1 [OF same] by (simp add: get_put_le)
    then show False using assms(2) by (simp add: ChecksumIEEE_byte_change)
  next
    case False
    then have "take (length (frame_body f)) (xs @ a # ys) = take (length (frame_body f)) (xs @ a' # ys)" by simp
    then have "frame_body f = frame_body g" using assms(1) g len by (metis append_eq_conv_conj)
    then show False using assms g by simp
  qed
qed

lemma frame_prefix_whole:
  assumes "frame_body f @ le32 (ChecksumIEEE (frame_body f)) = (frame_body g @ le32 (ChecksumIEEE (frame_body g))) @ zs"
    and "length (frame_payload f) \<le> MaxFramePayload" "length (frame_payload g) \<le> MaxFramePayload"
  shows "frame_body g @ le32 (ChecksumIEEE (frame_body g)) = frame_body f @ le32 (ChecksumIEEE (frame_body f))"
proof -
  let ?g = "frame_body g @ le32 (ChecksumIEEE (frame_body g))" and ?f = "frame_body f @ le32 (ChecksumIEEE (frame_body f))"
  have f: "gslice (h @ t) 6 8 = gslice h 6 8" if "8 \<le> length h" for h t :: "byte list" using that by (simp add: gslice_def)
  have "gslice (frame_body f) 6 8 = gslice (frame_body g) 6 8"
    using arg_cong [OF assms(1), of "\<lambda>x. gslice x 6 8"] by (simp add: f length_frame_body)
  then have "le16 (of_nat (length (frame_payload f))) = le16 (of_nat (length (frame_payload g)))" unfolding frame_body_fields(6) .
  then have "(of_nat (length (frame_payload f)) :: 16 word) = of_nat (length (frame_payload g))"
    by (metis (full_types) get_put_le [of 2, where 'a = 16, simplified])
  then have "length (frame_payload f) = length (frame_payload g)"
    using assms(2,3) by (subst (asm) of_nat_word_inject) simp_all
  then have "length ?f = length ?g" by (simp add: length_frame_body)
  then show ?thesis using assms(1) by simp
qed

lemma cut_record_prefix:
  assumes "\<forall>p \<in> set (bs @ [pend]). length p \<le> 254"
    and "k \<in> C \<and> (\<exists>ps p qs. bs @ [pend] = ps @ p # qs \<and> k = length (blocks ps)) \<or>
      (\<exists>ps p qs j. bs @ [pend] = ps @ p # qs \<and> j < length p \<and> k = length (blocks ps) + Suc j)"
    and "cobsDecode (take k (blocks (bs @ [pend]))) = Inr got"
  shows "\<exists>zs. concat (map cobs_plain bs) @ pend = got @ zs"
proof -
  from assms(2) consider ps p qs where "bs @ [pend] = ps @ p # qs" "k = length (blocks ps)"
    | ps p qs j where "bs @ [pend] = ps @ p # qs" "j < length p" "k = length (blocks ps) + Suc j" by blast
  then show ?thesis
  proof cases
    case 1
    have take: "take k (blocks (bs @ [pend])) = blocks ps" using 1(2) unfolding 1(1) by simp
    show ?thesis
    proof (cases ps rule: rev_cases)
      case Nil
      then show ?thesis using assms(3) unfolding take by (simp add: cobsDecode_def)
    next
      case (snoc ps' q)
      have len: "\<forall>q \<in> set (ps @ p # qs). length q \<le> 254" using assms(1) unfolding 1(1) .
      have got: "got = concat (map cobs_plain ps') @ q"
        using assms(3) cobs_decode_blocks [of ps' q] len unfolding take snoc by simp
      obtain rest where "bs = ps' @ q # rest" using 1(1) snoc by (cases qs rule: rev_cases) simp_all
      then show ?thesis using got by (simp add: cobs_plain_def)
    qed
  next
    case 2
    have "take k (blocks (bs @ [pend])) = blocks ps @ take (Suc j) (cobs_block p)" using 2(2,3) unfolding 2(1) by simp
    then have "cobsDecode (take k (blocks (bs @ [pend]))) = Inl ModemMalformed"
      using cobs_cut_block [of ps p j] assms(1) 2(2) unfolding 2(1) by simp
    then show ?thesis using assms(3) by simp
  qed
qed

section \<open>Payloads: settings, received packets, results\<close>

definition OLEDDiagnostic :: byte where [simp]: "OLEDDiagnostic = 0"
definition OLEDMinimal :: byte where [simp]: "OLEDMinimal = 1"
definition OLEDOff :: byte where [simp]: "OLEDOff = 2"

text \<open>A \<open>float32\<close> is its IEEE-754 bit pattern, an \<open>int8\<close> the byte \<open>byte(x)\<close> keeps.\<close>

type_synonym float32 = "32 word"

record RadioConfig =
  FrequencyMHz :: float32
  BandwidthKHz :: float32
  SpreadingFactor :: byte
  CodingRate :: byte
  TXPowerDBm :: byte
  PreambleSymbols :: "16 word"
  SyncWord :: byte

definition DefaultConfig :: RadioConfig where
  "DefaultConfig = \<lparr>FrequencyMHz = 0x4464C000 \<comment> \<open>915.0\<close>, BandwidthKHz = 0x42FA0000 \<comment> \<open>125.0\<close>,
     SpreadingFactor = 7, CodingRate = 5, TXPowerDBm = 5, PreambleSymbols = 8, SyncWord = 0x12\<rparr>"

definition EncodeConfig :: "RadioConfig \<Rightarrow> byte list" where
  "EncodeConfig c = le32 (FrequencyMHz c) @ le32 (BandwidthKHz c) @
     [SpreadingFactor c, CodingRate c, TXPowerDBm c] @ le16 (PreambleSymbols c) @ [SyncWord c, 0]"

definition DecodeConfig :: "byte list \<Rightarrow> go_error + RadioConfig" where
  "DecodeConfig b =
     (if length b \<noteq> 15 then Inl ModemMalformed
      else Inr \<lparr>FrequencyMHz = uint32_le (gslice b 0 4), BandwidthKHz = uint32_le (gslice b 4 8),
                SpreadingFactor = b ! 8, CodingRate = b ! 9, TXPowerDBm = b ! 10,
                PreambleSymbols = uint16_le (gslice b 11 13), SyncWord = b ! 13\<rparr>)"

lemma length_EncodeConfig: "length (EncodeConfig c) = 15"
  by (simp add: EncodeConfig_def)

lemma DecodeConfig_EncodeConfig [codec]: "DecodeConfig (EncodeConfig c) = Inr c"
  by (simp add: DecodeConfig_def length_EncodeConfig)
     (simp add: EncodeConfig_def gslice_def nth_append get_put_le)

record RXPacket =
  rx_RSSI :: float32
  rx_SNR :: float32
  rx_Payload :: "byte list"

definition DecodeRXPacket :: "byte list \<Rightarrow> go_error + RXPacket" where
  "DecodeRXPacket b =
     (if length b < 8 then Inl ModemMalformed
      else Inr \<lparr>rx_RSSI = uint32_le (gslice b 0 4), rx_SNR = uint32_le (gslice b 4 8),
                rx_Payload = drop 8 b\<rparr>)"

record Result =
  result_Code :: "16 word" \<comment> \<open>int16, read by \<open>sint\<close>\<close>
  result_Message :: "byte list"

definition DecodeResult :: "byte list \<Rightarrow> go_error + Result" where
  "DecodeResult b =
     (if length b < 2 then Inl ModemMalformed
      else Inr \<lparr>result_Code = uint16_le (gslice b 0 2), result_Message = drop 2 b\<rparr>)"

section \<open>Properties\<close>

text \<open>
  COBS transports every byte string: what \<open>cobsEncode\<close> produces decodes to its input, holds no zero
  byte, and is longer by one byte and one more per 254 bytes at most.
\<close>

theorem cobs_transport:
  "cobsDecode (cobsEncode xs) = Inr xs \<and> 0 \<notin> set (cobsEncode xs) \<and>
   254 * length (cobsEncode xs) \<le> 255 * length xs + 254"
  by (simp add: cobsDecode_cobsEncode cobsEncode_no_zero cobsEncode_length)

text \<open>
  C32: \<open>EncodeFrame\<close> succeeds exactly on payloads of at most 512 bytes, and its record, without the
  delimiter, decodes to the frame itself; the delimiter is the only zero byte.
\<close>

theorem frame_round_trip:
  "if length (frame_payload f) \<le> MaxFramePayload
   then \<exists>enc. EncodeFrame f = Inr (enc @ [0]) \<and> 0 \<notin> set enc \<and> DecodeFrame enc = Inr f
   else EncodeFrame f = Inl (PayloadTooLong (length (frame_payload f)))"
proof (cases "length (frame_payload f) \<le> MaxFramePayload")
  case True
  then obtain b where "EncodeFrame f = Inr b" by (simp add: EncodeFrame_def Let_def)
  then show ?thesis using True DecodeFrame_EncodeFrame by metis
next
  case False
  then show ?thesis by (simp add: EncodeFrame_def)
qed

text \<open>
  C36: A damaged record is not delivered. Take the record \<open>EncodeFrame\<close> puts on the line for a frame and change any
  byte before its delimiter, to any other value (zero included): \<open>DecodeFrame\<close> answers with an error. The one
  exception is a COBS code byte changed to another non-zero value, which moves the zeros of the whole
  frame, so that the checksum need not find it. A record cut short anywhere is never taken for another frame.
\<close>

theorem corrupted_record_rejected:
  assumes "EncodeFrame f = Inr (enc @ [0])"
  shows "(\<forall>i b. i < length enc \<and> b \<noteq> enc ! i \<and> (i \<in> set (cobs_codes enc 0) \<longrightarrow> b = 0) \<longrightarrow> (\<exists>e. DecodeFrame (enc[i := b]) = Inl e)) \<and>
    (\<forall>k g. k < length enc \<and> DecodeFrame (take k enc) = Inr g \<longrightarrow> g = f)"
proof (intro conjI allI impI)
  let ?raw = "frame_body f @ le32 (ChecksumIEEE (frame_body f))"
  have enc: "enc = cobsEncode ?raw" using assms by (simp add: EncodeFrame_def Let_def split: if_splits)
  obtain bs pend where e: "enc = blocks (bs @ [pend])" "?raw = concat (map cobs_plain bs) @ pend" "\<forall>p \<in> set (bs @ [pend]). length p \<le> 254"
    by (rule cobsEncode_blocks [of ?raw]) (auto simp: enc list_all_iff cobs_ok_def)
  have place: "i \<in> set (cobs_codes enc 0) \<and> (\<exists>ps p qs. bs @ [pend] = ps @ p # qs \<and> i = length (blocks ps)) \<or>
      (\<exists>ps p qs j. bs @ [pend] = ps @ p # qs \<and> j < length p \<and> i = length (blocks ps) + Suc j)" if "i < length enc" for i
    using cobs_codes_blocks [OF e(3), of "[]" i] that unfolding e(1) by simp
  show "\<exists>e. DecodeFrame (enc[i := b]) = Inl e" if "i < length enc \<and> b \<noteq> enc ! i \<and> (i \<in> set (cobs_codes enc 0) \<longrightarrow> b = 0)" for i b
  proof -
    from place [of i] that consider ps p qs where "b = 0" "bs @ [pend] = ps @ p # qs" "i = length (blocks ps)"
      | ps p qs j where "bs @ [pend] = ps @ p # qs" "j < length p" "i = length (blocks ps) + Suc j" by blast
    then show ?thesis
    proof cases
      case 1
      then have "cobsDecode (enc[i := b]) = Inl ModemMalformed" using cobs_zero_code [of ps p qs] e(1,3) by simp
      then show ?thesis by (simp add: DecodeFrame_def)
    next
      case 2
      obtain xs ys where "?raw = xs @ enc ! i # ys" "cobsDecode (enc[i := b]) = Inr (xs @ b # ys)"
        using cobs_data_byte [OF e(3) 2] unfolding e(1,2) by blast
      then show ?thesis using changed_frame_rejected that by blast
    qed
  qed
  show "g = f" if k: "k < length enc \<and> DecodeFrame (take k enc) = Inr g" for k g
  proof -
    let ?got = "frame_body g @ le32 (ChecksumIEEE (frame_body g))"
    note g = DecodeFrame_accepts [OF conjunct2 [OF k]]
    obtain zs where "?raw = ?got @ zs" using cut_record_prefix [OF e(3) place [of k]] g(1) k unfolding e(1,2) by blast
    then have "?got = ?raw" using g(2) assms by (intro frame_prefix_whole) (auto simp: EncodeFrame_def Let_def split: if_splits)
    then have "cobsDecode (take k enc) = cobsDecode enc" using g(1) enc cobsDecode_cobsEncode by simp
    then have "DecodeFrame (take k enc) = DecodeFrame enc" by (simp add: DecodeFrame_def)
    moreover have "DecodeFrame enc = Inr f" by (rule DecodeFrame_EncodeFrame [OF assms]) simp
    ultimately show ?thesis using k by simp
  qed
qed

theorem corrupted_record_rejected_witness:
  "\<exists>e. DecodeFrame [6, 71, 67, 1, 1, 1, 1, 1, 5, 9, 230, 24, 125] = Inl e"
proof -
  have "EncodeFrame \<lparr>frame_type = MsgInfoRequest, frame_seq = 1, frame_payload = []\<rparr> = Inr ([6, 71, 67, 1, 1, 1, 1, 1, 5, 9, 230, 25, 125] @ [0])"
    by code_simp
  from corrupted_record_rejected [OF this, THEN conjunct1, rule_format, of 11 24] show ?thesis
    by (simp add: cobs_codes.simps)
qed

end
