(* ===== verification/Stream_Decoder.thy ===== *)
theory Stream_Decoder
  imports Modem_Protocol
begin

text \<open>
  \<open>internal/modem/decoder.go\<close>: the incremental frame decoder. Its state is the bytes of the open record
  and a flag that discards an oversized record to its end; \<open>Push\<close> consumes a read of any size and
  returns the frames and errors it completed. Here \<open>push_byte\<close> is the loop body and \<open>Push\<close> the loop.

  Lemmas: the buffer never outgrows its bound; reads can be split anywhere; from any state one delimiter
  re-synchronises the decoder; and the encodings of a list of frames, cut into reads at any points, come
  out as exactly these frames.
\<close>

record StreamDecoder =
  buffer :: "byte list"
  discard :: bool

definition empty_decoder :: StreamDecoder where
  "empty_decoder = \<lparr>buffer = [], discard = False\<rparr>"

type_synonym pushed = "StreamDecoder \<times> Frame list \<times> go_error list"

fun push_byte :: "pushed \<Rightarrow> byte \<Rightarrow> pushed" where
  "push_byte (d, frames, errs) b =
     (if b = 0 then
        if discard d then (d\<lparr>discard := False, buffer := []\<rparr>, frames, errs)
        else if length (buffer d) = 0 then (d, frames, errs)
        else (case DecodeFrame (buffer d) of
                Inl err \<Rightarrow> (d\<lparr>buffer := []\<rparr>, frames, errs @ [err])
              | Inr frame \<Rightarrow> (d\<lparr>buffer := []\<rparr>, frames @ [frame], errs))
      else if discard d then (d, frames, errs)
      else if length (buffer d) \<ge> MaxFramePayload + 32
        then (d\<lparr>discard := True, buffer := []\<rparr>, frames, errs @ [ModemMalformed])
      else (d\<lparr>buffer := buffer d @ [b]\<rparr>, frames, errs))"

definition Push :: "StreamDecoder \<Rightarrow> byte list \<Rightarrow> pushed" where
  "Push d data = foldl push_byte (d, [], []) data"

text \<open>Successive reads, their frames and errors collected.\<close>

fun push_reads :: "StreamDecoder \<Rightarrow> byte list list \<Rightarrow> pushed" where
  "push_reads d [] = (d, [], [])"
| "push_reads d (r # rs) =
     (let (d', fs, es) = Push d r; (d'', fs', es') = push_reads d' rs in (d'', fs @ fs', es @ es'))"

section \<open>The bound on the buffer\<close>

definition decoder_inv :: "StreamDecoder \<Rightarrow> bool" where
  "decoder_inv d \<longleftrightarrow> length (buffer d) \<le> MaxFramePayload + 32 \<and> 0 \<notin> set (buffer d) \<and>
     (discard d \<longrightarrow> buffer d = [])"

lemma push_byte_inv: "decoder_inv d \<Longrightarrow> decoder_inv (fst (push_byte (d, fs, es) b))"
  by (auto simp: decoder_inv_def split: sum.splits)

lemma foldl_push_inv: "decoder_inv d \<Longrightarrow> decoder_inv (fst (foldl push_byte (d, fs, es) data))"
proof (induction data arbitrary: d fs es)
  case Nil
  then show ?case by simp
next
  case (Cons b data)
  then show ?case
    using push_byte_inv [of d fs es b] by (cases "push_byte (d, fs, es) b") (simp del: push_byte.simps)
qed

lemma Push_inv: "decoder_inv d \<Longrightarrow> decoder_inv (fst (Push d data))"
  by (simp add: Push_def foldl_push_inv)

section \<open>Reads may be cut anywhere\<close>

lemma foldl_push_output:
  "foldl push_byte (d, fs, es) data =
     (case foldl push_byte (d, [], []) data of (d', fs', es') \<Rightarrow> (d', fs @ fs', es @ es'))"
proof (induction data arbitrary: d fs es)
  case Nil
  then show ?case by simp
next
  case (Cons b data)
  obtain d' fs' es' where step: "push_byte (d, [], []) b = (d', fs', es')"
    by (cases "push_byte (d, [], []) b") auto
  then have step': "push_byte (d, fs, es) b = (d', fs @ fs', es @ es')"
    by (auto split: if_splits sum.splits)
  show ?case
    unfolding foldl_Cons step step'
    by (subst Cons.IH, subst (2) Cons.IH) (simp split: prod.splits)
qed

lemma Push_append:
  "Push d (xs @ ys) =
     (let (d', fs, es) = Push d xs; (d'', fs', es') = Push d' ys in (d'', fs @ fs', es @ es'))"
proof -
  obtain d' fs es where "Push d xs = (d', fs, es)" by (cases "Push d xs") auto
  then show ?thesis
    using foldl_push_output [of d' fs es ys] by (simp add: Push_def)
qed

lemma push_reads_concat: "push_reads d rs = Push d (concat rs)"
proof (induction rs arbitrary: d)
  case Nil
  then show ?case by (simp add: Push_def)
next
  case (Cons r rs)
  then show ?case by (simp add: Push_append)
qed

section \<open>Synchronisation and delivery\<close>

lemma Push_delimiter_synchronises:
  assumes "decoder_inv d"
  shows "fst (Push d [0]) = empty_decoder"
  using assms by (cases d) (auto simp: Push_def decoder_inv_def empty_decoder_def split: sum.splits)

lemma Push_nonzero:
  assumes "0 \<notin> set xs" and "length pre + length xs \<le> MaxFramePayload + 32"
  shows "Push \<lparr>buffer = pre, discard = False\<rparr> xs = (\<lparr>buffer = pre @ xs, discard = False\<rparr>, [], [])"
  using assms
proof (induction xs arbitrary: pre)
  case Nil
  then show ?case by (simp add: Push_def)
next
  case (Cons x xs)
  then have "x \<noteq> 0" and "length pre < MaxFramePayload + 32" by auto
  then show ?case
    using Cons.IH [of "pre @ [x]"] Cons.prems by (simp add: Push_def)
qed

lemma Push_record:
  assumes "0 \<notin> set enc" "enc \<noteq> []" "length enc \<le> MaxFramePayload + 32" "DecodeFrame enc = Inr f"
  shows "Push empty_decoder (enc @ [0]) = (empty_decoder, [f], [])"
proof -
  have "Push empty_decoder enc = (\<lparr>buffer = enc, discard = False\<rparr>, [], [])"
    using Push_nonzero [of enc "[]"] assms by (simp add: empty_decoder_def)
  then show ?thesis
    using assms by (simp add: Push_append) (simp add: Push_def empty_decoder_def)
qed

lemma EncodeFrame_length:
  assumes "EncodeFrame f = Inr (enc @ [0])"
  shows "length enc \<le> MaxFramePayload + 32"
proof -
  let ?raw = "frame_body f @ le32 (ChecksumIEEE (frame_body f))"
  have "length ?raw \<le> 524" and "enc = cobsEncode ?raw"
    using assms by (simp_all add: EncodeFrame_def Let_def length_frame_body split: if_splits)
  then show ?thesis using cobsEncode_length [of ?raw] by simp
qed

lemma Push_EncodeFrame:
  assumes "EncodeFrame f = Inr b"
  shows "Push empty_decoder b = (empty_decoder, [f], [])"
proof -
  obtain enc where enc: "b = enc @ [0]" "0 \<notin> set enc" "DecodeFrame enc = Inr f"
    using DecodeFrame_EncodeFrame [OF assms] by metis
  moreover have "enc \<noteq> []" using enc(3) by (auto simp: DecodeFrame_def cobsDecode_def)
  ultimately show ?thesis using Push_record EncodeFrame_length assms by blast
qed

lemma Push_EncodeFrames:
  assumes "list_all2 (\<lambda>f b. EncodeFrame f = Inr b) fs bs"
  shows "Push empty_decoder (concat bs) = (empty_decoder, fs, [])"
  using assms
proof (induction rule: list_all2_induct)
  case Nil
  then show ?case by (simp add: Push_def)
next
  case (Cons f fs b bs)
  then show ?case by (simp add: Push_append Push_EncodeFrame)
qed

section \<open>Properties\<close>

lemma Push_delimited:
  obtains pre es where "Push empty_decoder (noise @ [0]) = (empty_decoder, pre, es)"
proof -
  have inv: "decoder_inv (fst (Push empty_decoder noise))"
    by (rule Push_inv) (simp add: decoder_inv_def empty_decoder_def)
  obtain d fs es where d: "Push empty_decoder noise = (d, fs, es)" by (cases "Push empty_decoder noise") auto
  obtain d' fs' es' where d': "Push d [0] = (d', fs', es')" by (cases "Push d [0]") auto
  have "d' = empty_decoder" using Push_delimiter_synchronises [of d] inv d d' by simp
  then show thesis using that d d' by (simp add: Push_append)
qed

text \<open>
  C11: Frames survive a noisy stream and any fragmentation. After whatever bytes a fresh decoder has read,
  one delimiter re-synchronises it, and the encodings of a list of frames that follow come out as
  exactly those frames, in order and without a further error, however the stream is cut into reads.
\<close>

theorem frames_delivered_after_noise:
  assumes "list_all2 (\<lambda>f b. EncodeFrame f = Inr b) fs bs"
    and "concat reads = noise @ [0] @ concat bs"
  shows "\<exists>pre errs. Push empty_decoder (noise @ [0]) = (empty_decoder, pre, errs) \<and>
    push_reads empty_decoder reads = (empty_decoder, pre @ fs, errs)"
proof -
  obtain pre es where pre: "Push empty_decoder (noise @ [0]) = (empty_decoder, pre, es)"
    by (rule Push_delimited)
  have "push_reads empty_decoder reads = Push empty_decoder ((noise @ [0]) @ concat bs)"
    using assms(2) by (simp add: push_reads_concat)
  then show ?thesis using pre Push_EncodeFrames [OF assms(1)] by (simp only: Push_append) simp
qed

theorem frames_delivered_after_noise_witness:
  "\<exists>pre errs. Push empty_decoder ([9, 9] @ [0]) = (empty_decoder, pre, errs) \<and>
    push_reads empty_decoder [[9, 9, 0, 6, 71, 67, 1, 1, 7], [1, 1, 5, 213, 185], [], [114, 88, 0]] =
      (empty_decoder, pre @ [\<lparr>frame_type = MsgInfoRequest, frame_seq = 7, frame_payload = []\<rparr>], errs)"
proof -
  let ?f = "\<lparr>frame_type = MsgInfoRequest, frame_seq = 7, frame_payload = []\<rparr>"
  have "EncodeFrame ?f = Inr [6, 71, 67, 1, 1, 7, 1, 1, 5, 213, 185, 114, 88, 0]" by code_simp
  then show ?thesis
    by (intro frames_delivered_after_noise [where bs = "[[6, 71, 67, 1, 1, 7, 1, 1, 5, 213, 185, 114, 88, 0]]"])
       simp_all
qed

text \<open>
  The decoder's memory is bounded whatever it reads: from a fresh decoder the buffer holds at most
  544 bytes after any reads, and discarding an oversized record leaves it empty.
\<close>

theorem decoder_memory_bounded:
  "case push_reads empty_decoder reads of
     (d, fs, errs) \<Rightarrow> length (buffer d) \<le> 544 \<and> \<not> (discard d \<and> buffer d \<noteq> [])"
proof -
  have "decoder_inv (fst (push_reads empty_decoder reads))"
    unfolding push_reads_concat by (rule Push_inv) (simp add: decoder_inv_def empty_decoder_def)
  then show ?thesis by (auto simp: decoder_inv_def)
qed

end
