(* ===== verification/Pub_Protocol.thy ===== *)
theory Pub_Protocol
  imports Bytes
begin

text \<open>
  \<open>internal/publication/protocol.go\<close>: the legacy GP packets and, inside them, the manifest body that the
  node protocol reuses. A publication is named by the first 16 bytes of its SHA-256; its manifest fixes
  the filename, the length and the chunk geometry.

  Lemmas: every encoder's output decodes to its argument; a packet or manifest that the decoder accepts
  is the encoding of what it returns, and an accepted manifest has the one chunk count its length allows
  (\<open>geometry\<close>), the fact the assembly and the store build on.
\<close>

section \<open>Constants, identifiers and packets\<close>

definition Version :: byte where [simp]: "Version = 1"
definition MaxPacketSize :: nat where [simp]: "MaxPacketSize = 200"
definition HeaderSize :: nat where [simp]: "HeaderSize = 20"
definition ChunkDataSize :: nat where [simp]: "ChunkDataSize = MaxPacketSize - HeaderSize - 2"
definition MaxFilenameBytes :: nat where [simp]: "MaxFilenameBytes = MaxPacketSize - HeaderSize - 45"
definition MaxChunks :: nat where [simp]: "MaxChunks = (MaxPacketSize - HeaderSize - 2) * 8"

definition TypeManifest :: byte where [simp]: "TypeManifest = 1"
definition TypeChunk :: byte where [simp]: "TypeChunk = 2"
definition TypeQuery :: byte where [simp]: "TypeQuery = 3"
definition TypeReceipt :: byte where [simp]: "TypeReceipt = 4"
definition TypeComplete :: byte where [simp]: "TypeComplete = 5"
definition TypeError :: byte where [simp]: "TypeError = 6"

type_synonym ID = "16 array"
type_synonym hash256 = "32 array"

record Packet =
  packet_Type :: byte
  packet_ID :: ID
  packet_Body :: "byte list"

definition EncodePacket :: "Packet \<Rightarrow> go_error + byte list" where
  "EncodePacket packet =
     (if length (packet_Body packet) + HeaderSize > MaxPacketSize then Inl PubMalformed
      else Inr ([0x47, 0x50, Version, packet_Type packet] @ array_bytes (packet_ID packet) @
                packet_Body packet))"

definition DecodePacket :: "byte list \<Rightarrow> go_error + Packet" where
  "DecodePacket b =
     (if length b < HeaderSize \<or> length b > MaxPacketSize \<or> b ! 0 \<noteq> 0x47 \<or> b ! 1 \<noteq> 0x50 \<or> b ! 2 \<noteq> Version
      then Inl PubMalformed
      else Inr \<lparr>packet_Type = b ! 3, packet_ID = copy_array (gslice b 4 20), packet_Body = drop 20 b\<rparr>)"

section \<open>Manifests\<close>

record Signature =
  PublicKey :: "32 array"
  sig_Value :: "64 array"

record Manifest =
  m_Version :: "16 word"
  m_ID :: ID
  m_Filename :: "byte list"
  m_Length :: "64 word"
  m_SHA256 :: hash256
  m_ChunkSize :: "16 word"
  m_ChunkCount :: "16 word"
  m_Signature :: "Signature option"

definition IDMatchesHash :: "ID \<Rightarrow> hash256 \<Rightarrow> bool" where
  "IDMatchesHash pid hash = list_all (\<lambda>i. array_bytes pid ! i = array_bytes hash ! i) [0..<16]"

definition manifest_body :: "Manifest \<Rightarrow> byte list" where
  "manifest_body m = le64 (m_Length m) @ array_bytes (m_SHA256 m) @ le16 (m_ChunkSize m) @
     le16 (m_ChunkCount m) @ [of_nat (length (m_Filename m))] @ m_Filename m"

definition EncodeManifest :: "Manifest \<Rightarrow> go_error + byte list" where
  "EncodeManifest m =
     (if length (m_Filename m) > MaxFilenameBytes \<or> m_ChunkSize m = 0 \<or>
         unat (m_ChunkSize m) > ChunkDataSize \<or> unat (m_ChunkCount m) > MaxChunks \<or>
         \<not> IDMatchesHash (m_ID m) (m_SHA256 m)
      then Inl PubMalformed
      else EncodePacket \<lparr>packet_Type = TypeManifest, packet_ID = m_ID m, packet_Body = manifest_body m\<rparr>)"

definition NormalizeManifest :: "Manifest \<Rightarrow> Manifest" where
  "NormalizeManifest m = (if m_Version m = 0 then m\<lparr>m_Version := 1\<rparr> else m)"

definition DecodeManifest :: "Packet \<Rightarrow> go_error + Manifest" where
  "DecodeManifest packet =
     (let body = packet_Body packet in
      if packet_Type packet \<noteq> TypeManifest \<or> length body < 45 \<or>
         int (unat (body ! 44)) \<noteq> int (length body) - 45
      then Inl PubMalformed
      else
        let m = \<lparr>m_Version = 1, m_ID = packet_ID packet, m_Filename = drop 45 body,
                 m_Length = uint64_le (gslice body 0 8), m_SHA256 = copy_array (gslice body 8 40),
                 m_ChunkSize = uint16_le (gslice body 40 42),
                 m_ChunkCount = uint16_le (gslice body 42 44), m_Signature = None\<rparr> in
        if m_ChunkSize m = 0 \<or> unat (m_ChunkSize m) > ChunkDataSize \<or>
           unat (m_ChunkCount m) > MaxChunks \<or>
           m_Length m > of_nat MaxChunks * ucast (m_ChunkSize m) \<or>
           \<not> IDMatchesHash (m_ID m) (m_SHA256 m)
        then Inl PubMalformed
        else
          let expected = (if m_Length m > 0 then (m_Length m - 1) div ucast (m_ChunkSize m) + 1 else 0) in
          if ucast (m_ChunkCount m) \<noteq> expected then Inl PubMalformed else Inr m)"

section \<open>Chunks, receipts and the rest\<close>

definition EncodeChunk :: "ID \<Rightarrow> 16 word \<Rightarrow> byte list \<Rightarrow> go_error + byte list" where
  "EncodeChunk pid index data =
     (if length data > ChunkDataSize then Inl PubMalformed
      else EncodePacket \<lparr>packet_Type = TypeChunk, packet_ID = pid, packet_Body = le16 index @ data\<rparr>)"

definition DecodeChunk :: "Packet \<Rightarrow> go_error + 16 word \<times> byte list" where
  "DecodeChunk packet =
     (let body = packet_Body packet in
      if packet_Type packet \<noteq> TypeChunk \<or> length body < 2 \<or> length body - 2 > ChunkDataSize
      then Inl PubMalformed
      else Inr (uint16_le (take 2 body), drop 2 body))"

definition EncodeSimple :: "byte \<Rightarrow> ID \<Rightarrow> go_error + byte list" where
  "EncodeSimple t pid = EncodePacket \<lparr>packet_Type = t, packet_ID = pid, packet_Body = []\<rparr>"

text \<open>The loop of \<open>EncodeReceipt\<close> over \<open>received\<close>, setting one bit per received chunk.\<close>

fun set_receipt_bits :: "nat \<Rightarrow> bool list \<Rightarrow> byte list \<Rightarrow> byte list" where
  "set_receipt_bits i [] body = body"
| "set_receipt_bits i (ok # received) body =
     set_receipt_bits (Suc i) received
       (if ok then body[2 + i div 8 := body ! (2 + i div 8) OR push_bit (i mod 8) 1] else body)"

definition EncodeReceipt :: "ID \<Rightarrow> 16 word \<Rightarrow> bool list \<Rightarrow> go_error + byte list" where
  "EncodeReceipt pid chunkCount received =
     (if unat chunkCount \<noteq> length received \<or> unat chunkCount > MaxChunks then Inl PubMalformed
      else let body = le16 chunkCount @ replicate ((length received + 7) div 8) 0
           in EncodePacket \<lparr>packet_Type = TypeReceipt, packet_ID = pid,
                packet_Body = set_receipt_bits 0 received body\<rparr>)"

definition DecodeReceipt :: "Packet \<Rightarrow> go_error + bool list" where
  "DecodeReceipt packet =
     (let body = packet_Body packet in
      if packet_Type packet \<noteq> TypeReceipt \<or> length body < 2 then Inl PubMalformed
      else let count = unat (uint16_le (take 2 body)) in
        if count > MaxChunks \<or> length body \<noteq> 2 + (count + 7) div 8 then Inl PubMalformed
        else Inr (map (\<lambda>i. body ! (2 + i div 8) AND push_bit (i mod 8) 1 \<noteq> 0) [0..<count]))"

definition EncodeError :: "ID \<Rightarrow> byte list \<Rightarrow> go_error + byte list" where
  "EncodeError pid message =
     (let message = (if length message > MaxPacketSize - HeaderSize
                     then take (MaxPacketSize - HeaderSize) message else message)
      in EncodePacket \<lparr>packet_Type = TypeError, packet_ID = pid, packet_Body = message\<rparr>)"

section \<open>Packets\<close>

lemma DecodePacket_EncodePacket: "EncodePacket p = Inr b \<Longrightarrow> DecodePacket b = Inr p"
  by (cases p) (auto simp: EncodePacket_def DecodePacket_def gslice_def split: if_splits)

lemma EncodePacket_DecodePacket: "DecodePacket b = Inr p \<Longrightarrow> EncodePacket p = Inr b"
proof -
  assume dec: "DecodePacket b = Inr p"
  then have len: "20 \<le> length b" "length b \<le> 200" and hd: "b ! 0 = 0x47" "b ! 1 = 0x50" "b ! 2 = 1"
    and p: "p = \<lparr>packet_Type = b ! 3, packet_ID = copy_array (gslice b 4 20), packet_Body = drop 20 b\<rparr>"
    by (auto simp: DecodePacket_def split: if_splits)
  have "take 4 b = [0x47, 0x50, 1, b ! 3]"
    using hd len by (simp add: list_eq_iff_nth_eq nth_Cons' numeral_eq_Suc less_Suc_eq)
  then have "[0x47, 0x50, 1, b ! 3] @ gslice b 4 20 @ drop 20 b = take 4 b @ gslice b 4 20 @ gslice b 20 (length b)"
    by (simp add: gslice_to_length)
  also have "\<dots> = b" using len by (simp add: gslice_from_0 [symmetric] gslice_cover) (simp add: gslice_def)
  finally show ?thesis using p len by (simp add: EncodePacket_def)
qed

interpretation gp: canonical_format EncodePacket DecodePacket
  by unfold_locales (rule DecodePacket_EncodePacket EncodePacket_DecodePacket, assumption)+

section \<open>Manifests: what the decoder accepts\<close>

text \<open>The chunk geometry on natural numbers, free of the 64-bit arithmetic the decoder computes it with.\<close>

definition chunk_total :: "nat \<Rightarrow> nat \<Rightarrow> nat" where
  "chunk_total n s = (n + s - 1) div s"

definition geometry :: "Manifest \<Rightarrow> bool" where
  "geometry m \<longleftrightarrow> 0 < m_ChunkSize m \<and> unat (m_ChunkSize m) \<le> ChunkDataSize \<and>
     unat (m_ChunkCount m) \<le> MaxChunks \<and> unat (m_Length m) \<le> MaxChunks * unat (m_ChunkSize m) \<and>
     unat (m_ChunkCount m) = chunk_total (unat (m_Length m)) (unat (m_ChunkSize m))"

definition manifest_ok :: "Manifest \<Rightarrow> bool" where
  "manifest_ok m \<longleftrightarrow> geometry m \<and> IDMatchesHash (m_ID m) (m_SHA256 m) \<and>
     length (m_Filename m) \<le> MaxFilenameBytes"

lemma chunk_total_pos: "0 < n \<Longrightarrow> 0 < s \<Longrightarrow> chunk_total n s = (n - 1) div s + 1"
  by (cases n) (simp_all add: chunk_total_def div_add_self2)

lemma chunk_total_0 [simp]: "0 < s \<Longrightarrow> chunk_total 0 s = 0"
  by (simp add: chunk_total_def)

lemma length_limit_iff:
  assumes "unat (c :: 16 word) \<le> 178"
  shows "(l :: 64 word) > of_nat MaxChunks * ucast c \<longleftrightarrow> unat l > MaxChunks * unat c"
proof -
  have c: "unat (ucast c :: 64 word) = unat c" by (rule unat_ucast_up) simp
  have k: "unat (of_nat MaxChunks :: 64 word) = 1424" by simp
  have "unat (of_nat MaxChunks * ucast c :: 64 word) = 1424 * unat c"
    unfolding c [symmetric] k [symmetric]
    by (rule unat_times_fits) (use assms c k in simp)
  then show ?thesis unfolding word_less_nat_alt by simp
qed

lemma expected_count_iff:
  assumes "0 < (c :: 16 word)"
  shows "(ucast k :: 64 word) = (if l > 0 then (l - 1) div ucast c + 1 else 0) \<longleftrightarrow>
    unat (k :: 16 word) = chunk_total (unat (l :: 64 word)) (unat c)"
proof (cases "l = 0")
  case True
  have "0 < unat c" using assms by (simp add: unat_gt_0)
  moreover have "(ucast k :: 64 word) = 0 \<longleftrightarrow> unat k = 0"
    using unat_ucast_up [of k, where 'b = 64] by (simp add: unat_eq_zero [symmetric])
  ultimately show ?thesis using True by simp
next
  case False
  have c: "unat (ucast c :: 64 word) = unat c" and k: "unat (ucast k :: 64 word) = unat k"
    by (rule unat_ucast_up, simp)+
  have pos: "0 < unat l" "0 < unat c" using False assms by (simp_all add: unat_gt_0)
  have l1: "unat (l - 1) = unat l - 1" using False by (simp add: unat_minus_one)
  have "unat l < 2 ^ 64" using unsigned_less [of l] by simp
  moreover have "(unat l - 1) div unat c \<le> unat l - 1" by simp
  ultimately have "(unat l - 1) div unat c + 1 < 2 ^ 64" using pos by linarith
  then have "unat ((l - 1) div ucast c + 1 :: 64 word) = (unat l - 1) div unat c + 1"
    by (subst unat_plus_fits) (simp_all add: unat_div l1 c)
  then show ?thesis
    using False pos by (simp add: word_unat_eq_iff k chunk_total_pos word_less_nat_alt)
qed

lemma length_manifest_body [simp]: "length (manifest_body m) = 45 + length (m_Filename m)"
  by (simp add: manifest_body_def)

lemma manifest_body_fields:
  "gslice (manifest_body m) 0 8 = le64 (m_Length m)"
  "gslice (manifest_body m) 8 40 = array_bytes (m_SHA256 m)"
  "gslice (manifest_body m) 40 42 = le16 (m_ChunkSize m)"
  "gslice (manifest_body m) 42 44 = le16 (m_ChunkCount m)"
  "manifest_body m ! 44 = of_nat (length (m_Filename m))"
  "drop 45 (manifest_body m) = m_Filename m"
  by (simp_all add: manifest_body_def gslice_def nth_append)

text \<open>The fields \<open>DecodeManifest\<close> reads, without its tests.\<close>

definition manifest_of :: "ID \<Rightarrow> byte list \<Rightarrow> Manifest" where
  "manifest_of pid body = \<lparr>m_Version = 1, m_ID = pid, m_Filename = drop 45 body,
     m_Length = uint64_le (gslice body 0 8), m_SHA256 = copy_array (gslice body 8 40),
     m_ChunkSize = uint16_le (gslice body 40 42), m_ChunkCount = uint16_le (gslice body 42 44),
     m_Signature = None\<rparr>"

lemma DecodeManifest_iff:
  "DecodeManifest p = Inr m \<longleftrightarrow>
     packet_Type p = TypeManifest \<and> 45 \<le> length (packet_Body p) \<and>
     unat (packet_Body p ! 44) = length (packet_Body p) - 45 \<and>
     m = manifest_of (packet_ID p) (packet_Body p) \<and> geometry m \<and> IDMatchesHash (m_ID m) (m_SHA256 m)"
proof -
  let ?m = "manifest_of (packet_ID p) (packet_Body p)"
  have "geometry ?m \<longleftrightarrow> \<not> (m_ChunkSize ?m = 0 \<or> unat (m_ChunkSize ?m) > ChunkDataSize \<or>
       unat (m_ChunkCount ?m) > MaxChunks \<or> m_Length ?m > of_nat MaxChunks * ucast (m_ChunkSize ?m)) \<and>
     ucast (m_ChunkCount ?m) =
       (if m_Length ?m > 0 then (m_Length ?m - 1) div ucast (m_ChunkSize ?m) + 1 else 0)"
    using length_limit_iff [of "m_ChunkSize ?m" "m_Length ?m"]
      expected_count_iff [of "m_ChunkSize ?m" "m_ChunkCount ?m" "m_Length ?m"]
    unfolding geometry_def by (auto simp: word_greater_zero_iff)
  moreover have "int (unat (packet_Body p ! 44)) = int (length (packet_Body p)) - 45 \<longleftrightarrow>
      unat (packet_Body p ! 44) = length (packet_Body p) - 45"
    if "45 \<le> length (packet_Body p)" using that by linarith
  ultimately show ?thesis
    unfolding DecodeManifest_def Let_def manifest_of_def [symmetric] by (auto split: if_splits)
qed

lemma manifest_body_of:
  assumes "45 \<le> length body" "unat (body ! 44) = length body - 45"
  shows "manifest_body (manifest_of pid body) = body"
proof -
  have "(of_nat (length body - 45) :: byte) = body ! 44"
    using assms(2) by (metis of_nat_unat ucast_id)
  moreover have "[body ! 44] = gslice body 44 45"
    using assms(1) by (simp add: gslice_def list_eq_iff_nth_eq)
  ultimately have "manifest_body (manifest_of pid body) =
      gslice body 0 8 @ gslice body 8 40 @ gslice body 40 42 @ gslice body 42 44 @
      gslice body 44 45 @ gslice body 45 (length body)"
    using assms(1) by (simp add: manifest_body_def manifest_of_def put_get_le gslice_to_length)
  also have "\<dots> = body"
    using assms(1) by (simp add: gslice_cover) (simp add: gslice_def)
  finally show ?thesis .
qed

lemma DecodeManifest_manifest_ok [accepted]:
  "DecodeManifest p = Inr m \<Longrightarrow> length (packet_Body p) \<le> MaxPacketSize - HeaderSize \<Longrightarrow> manifest_ok m"
  by (auto simp: DecodeManifest_iff manifest_ok_def manifest_of_def)

lemma EncodeManifest_iff:
  assumes "geometry m"
  shows "(\<exists>b. EncodeManifest m = Inr b) \<longleftrightarrow> manifest_ok m"
  using assms by (auto simp: EncodeManifest_def EncodePacket_def manifest_ok_def geometry_def)

lemma manifest_of_body: "manifest_of (m_ID m) (manifest_body m) = m\<lparr>m_Version := 1, m_Signature := None\<rparr>"
  by (simp add: manifest_of_def manifest_body_fields get_put_le)

lemma DecodeManifest_EncodeManifest:
  assumes "EncodeManifest m = Inr b" "geometry m"
  obtains p where "DecodePacket b = Inr p"
    and "DecodeManifest p = Inr (m\<lparr>m_Version := 1, m_Signature := None\<rparr>)"
proof -
  let ?p = "\<lparr>packet_Type = TypeManifest, packet_ID = m_ID m, packet_Body = manifest_body m\<rparr>"
  have enc: "EncodePacket ?p = Inr b" and ok: "manifest_ok m"
    using assms by (auto simp: EncodeManifest_def manifest_ok_def split: if_splits)
  have "DecodeManifest ?p = Inr (m\<lparr>m_Version := 1, m_Signature := None\<rparr>)"
    using ok assms(2)
    by (auto simp: DecodeManifest_iff manifest_of_body manifest_body_fields manifest_ok_def geometry_def
        unat_of_nat_fits)
  with that gp.dec_enc [OF enc] show thesis by blast
qed

lemma EncodeManifest_DecodeManifest:
  assumes "DecodePacket b = Inr p" "DecodeManifest p = Inr m"
  shows "EncodeManifest m = Inr b"
proof -
  have "length (packet_Body p) \<le> 180"
    using assms(1) by (auto simp: DecodePacket_def split: if_splits)
  then have ok: "manifest_ok m" using assms(2) by (simp add: DecodeManifest_manifest_ok)
  have m: "m = manifest_of (packet_ID p) (packet_Body p)" "packet_Type p = TypeManifest"
    and "manifest_body m = packet_Body p"
    using assms(2) by (auto simp: DecodeManifest_iff manifest_body_of)
  then have "\<lparr>packet_Type = TypeManifest, packet_ID = m_ID m, packet_Body = manifest_body m\<rparr> = p"
    by (cases p) (simp add: manifest_of_def)
  then show ?thesis
    using ok gp.enc_dec [OF assms(1)] by (auto simp: EncodeManifest_def manifest_ok_def geometry_def)
qed

section \<open>Chunks and receipts\<close>

lemma DecodeChunk_EncodeChunk:
  assumes "EncodeChunk pid index data = Inr b"
  obtains p where "DecodePacket b = Inr p" "packet_ID p = pid" "DecodeChunk p = Inr (index, data)"
proof -
  let ?p = "\<lparr>packet_Type = TypeChunk, packet_ID = pid, packet_Body = le16 index @ data\<rparr>"
  have "EncodePacket ?p = Inr b" "length data \<le> ChunkDataSize"
    using assms by (auto simp: EncodeChunk_def split: if_splits)
  then show thesis using that [of ?p] gp.dec_enc [of ?p b] by (simp add: DecodeChunk_def get_put_le)
qed

lemma length_set_receipt_bits [simp]: "length (set_receipt_bits i received body) = length body"
  by (induction i received body rule: set_receipt_bits.induct) auto

lemma bit_set_receipt_bits:
  assumes "2 + (i + length received + 7) div 8 \<le> length body" and "k < 8" and "2 + j < length body"
  shows "bit (set_receipt_bits i received body ! (2 + j)) k \<longleftrightarrow>
    bit (body ! (2 + j)) k \<or> (i \<le> 8 * j + k \<and> 8 * j + k < i + length received \<and> received ! (8 * j + k - i))"
  using assms
proof (induction i received body rule: set_receipt_bits.induct)
  case (1 i body)
  then show ?case by auto
next
  case (2 i ok received body)
  let ?body = "if ok then body[2 + i div 8 := body ! (2 + i div 8) OR push_bit (i mod 8) 1] else body"
  have ib: "2 + i div 8 < length body" using "2.prems"(1) by simp
  have here: "8 * j + k = i \<longleftrightarrow> j = i div 8 \<and> k = i mod 8" using \<open>k < 8\<close> by auto
  have "bit (set_receipt_bits (Suc i) received ?body ! (2 + j)) k \<longleftrightarrow>
    bit (?body ! (2 + j)) k \<or>
      (Suc i \<le> 8 * j + k \<and> 8 * j + k < Suc i + length received \<and> received ! (8 * j + k - Suc i))"
    by (rule "2.IH") (use "2.prems" in simp_all)
  moreover have "bit (?body ! (2 + j)) k \<longleftrightarrow> bit (body ! (2 + j)) k \<or> (ok \<and> 8 * j + k = i)"
    using \<open>k < 8\<close> ib by (auto simp: here nth_list_update bit_simps)
  moreover have "(ok # received) ! (8 * j + k - i) =
      (if 8 * j + k = i then ok else received ! (8 * j + k - Suc i))" if "i \<le> 8 * j + k"
    using that by (simp add: nth_Cons')
  ultimately show ?case by (auto simp: le_less)
qed

lemma bit_as_mask: "(w AND push_bit k 1 \<noteq> (0 :: byte)) \<longleftrightarrow> bit w k"
  by (simp add: bit_iff_and_push_bit_not_eq_0)

lemma set_receipt_bits_prefix: "take 2 (set_receipt_bits i received body) = take 2 body"
  by (induction i received body rule: set_receipt_bits.induct) auto

lemma DecodeReceipt_EncodeReceipt:
  assumes "EncodeReceipt pid n received = Inr b"
  obtains p where "DecodePacket b = Inr p" "packet_ID p = pid" "DecodeReceipt p = Inr received"
proof -
  let ?zeros = "replicate ((length received + 7) div 8) (0 :: byte)"
  let ?body = "set_receipt_bits 0 received (le16 n @ ?zeros)"
  let ?p = "\<lparr>packet_Type = TypeReceipt, packet_ID = pid, packet_Body = ?body\<rparr>"
  have enc: "EncodePacket ?p = Inr b" and n: "unat n = length received" "length received \<le> MaxChunks"
    using assms by (auto simp: EncodeReceipt_def Let_def split: if_splits)
  have count: "uint16_le (take 2 ?body) = n"
    by (simp add: set_receipt_bits_prefix get_put_le)
  have bits: "(?body ! (2 + i div 8) AND push_bit (i mod 8) 1 \<noteq> 0) = received ! i"
    if "i < length received" for i
  proof -
    have "i div 8 < (length received + 7) div 8" using that by linarith
    then show ?thesis
      unfolding bit_as_mask
      using bit_set_receipt_bits [of 0 received "le16 n @ ?zeros" "i mod 8" "i div 8"] that
      by (simp add: nth_append)
  qed
  have all: "map (\<lambda>i. ?body ! (2 + i div 8) AND push_bit (i mod 8) 1 \<noteq> 0) [0..<length received] = received"
    by (rule nth_equalityI) (simp_all only: length_map length_upt diff_zero nth_map nth_upt bits add_0)
  have "length ?body = 2 + (length received + 7) div 8" by simp
  then have "DecodeReceipt ?p = Inr received"
    using n unfolding DecodeReceipt_def Let_def Packet.simps count n(1) all by simp
  with that gp.dec_enc [OF enc] show thesis by simp
qed

lemma EncodeReceipt_total:
  assumes "unat n = length received" "length received \<le> MaxChunks"
  shows "\<exists>b. EncodeReceipt pid n received = Inr b"
proof -
  have "(length received + 7) div 8 \<le> 178" using assms(2) by simp
  then show ?thesis using assms by (simp add: EncodeReceipt_def EncodePacket_def Let_def)
qed

lemma EncodeError_total: "\<exists>b. EncodeError pid message = Inr b"
  by (simp add: EncodeError_def EncodePacket_def)

text \<open>What acceptance says, on natural numbers.\<close>

lemma IDMatchesHash_iff: "IDMatchesHash pid hash \<longleftrightarrow> pid = copy_array (array_bytes hash)"
proof -
  have "IDMatchesHash pid hash \<longleftrightarrow> take 16 (array_bytes hash) = array_bytes pid"
    by (subst nth_eq_take_iff [symmetric]) (auto simp: IDMatchesHash_def list_all_iff)
  then show ?thesis by (auto simp: array_eq_iff array_bytes_copy)
qed

lemma accepted_packet_manifest_ok [accepted]:
  "DecodePacket b = Inr p \<Longrightarrow> DecodeManifest p = Inr m \<Longrightarrow> manifest_ok m"
  by (rule DecodeManifest_manifest_ok) (auto simp: DecodePacket_def split: if_splits)

text \<open>A five-byte publication in chunks of two, for evaluation.\<close>

definition example_manifest :: Manifest where
  "example_manifest = \<lparr>m_Version = 1, m_ID = copy_array [], m_Filename = [0x61, 0x2e, 0x62], m_Length = 5,
     m_SHA256 = copy_array [], m_ChunkSize = 2, m_ChunkCount = 3, m_Signature = None\<rparr>"

lemma example_manifest_ok: "manifest_ok example_manifest"
  by (simp add: manifest_ok_def example_manifest_def geometry_def IDMatchesHash_iff chunk_total_def
      array_eq_iff array_bytes_copy)

section \<open>Properties\<close>

text \<open>
  The GP envelope is a canonical format: a byte string decodes to a packet exactly when the packet
  encodes to it, so the decoder accepts no second spelling of a packet and never exceeds 200 bytes.
\<close>

theorem gp_packet_canonical:
  "(DecodePacket b = Inr p \<longleftrightarrow> EncodePacket p = Inr b) \<and>
   ((\<exists>b. EncodePacket p = Inr b) \<longleftrightarrow> length (packet_Body p) \<le> 180)"
  using gp.dec_iff by (simp add: EncodePacket_def)

text \<open>
  C35: A manifest the decoder accepts describes one possible cut of its content: the identifier is the
  head of the hash, the chunk size is between 1 and 178, the chunk count is the length divided by it
  rounded up, nothing wraps in the 64-bit arithmetic, and encoding the manifest again gives the packet.
\<close>

theorem accepted_manifest_sound:
  assumes "DecodePacket b = Inr p" and "DecodeManifest p = Inr m"
  shows "m_ID m = copy_array (array_bytes (m_SHA256 m)) \<and>
    0 < unat (m_ChunkSize m) \<and> unat (m_ChunkSize m) \<le> 178 \<and> unat (m_ChunkCount m) \<le> 1424 \<and>
    unat (m_ChunkCount m) = (unat (m_Length m) + unat (m_ChunkSize m) - 1) div unat (m_ChunkSize m) \<and>
    length (m_Filename m) \<le> 135 \<and> EncodeManifest m = Inr b"
proof -
  have "manifest_ok m" using assms by (rule accepted_packet_manifest_ok)
  then show ?thesis
    using EncodeManifest_DecodeManifest [OF assms]
    by (simp add: manifest_ok_def geometry_def IDMatchesHash_iff chunk_total_def unat_gt_0 word_greater_zero_iff)
qed

theorem accepted_manifest_sound_witness:
  "\<exists>b p. DecodePacket b = Inr p \<and> DecodeManifest p = Inr example_manifest \<and>
    EncodeManifest example_manifest = Inr b \<and> 0 < unat (m_ChunkSize example_manifest)"
proof -
  have geo: "geometry example_manifest" using example_manifest_ok by (simp add: manifest_ok_def)
  then obtain b where b: "EncodeManifest example_manifest = Inr b"
    using EncodeManifest_iff example_manifest_ok by blast
  have same: "example_manifest\<lparr>m_Version := 1, m_Signature := None\<rparr> = example_manifest"
    by (simp add: example_manifest_def)
  obtain p where "DecodePacket b = Inr p" "DecodeManifest p = Inr example_manifest"
    using DecodeManifest_EncodeManifest [OF b geo] unfolding same by blast
  then show ?thesis using accepted_manifest_sound [of b p example_manifest] by blast
qed

text \<open>
  A well-formed manifest crosses the wire unchanged up to its local fields: it encodes exactly when
  its geometry, its identifier and its filename length are right, and what the receiver decodes has
  version 1, no signature, and every other field equal.
\<close>

theorem manifest_round_trip:
  assumes "manifest_ok m"
  shows "\<exists>b p. EncodeManifest m = Inr b \<and> length b \<le> 200 \<and> DecodePacket b = Inr p \<and>
    DecodeManifest p = Inr (m\<lparr>m_Version := 1, m_Signature := None\<rparr>)"
proof -
  have geo: "geometry m" using assms by (simp add: manifest_ok_def)
  then obtain b where b: "EncodeManifest m = Inr b" using EncodeManifest_iff assms by blast
  then have "length b \<le> 200" by (auto simp: EncodeManifest_def EncodePacket_def split: if_splits)
  then show ?thesis using b DecodeManifest_EncodeManifest [OF b geo] by metis
qed

theorem manifest_round_trip_witness:
  "\<exists>b p. EncodeManifest example_manifest = Inr b \<and> length b \<le> 200 \<and> DecodePacket b = Inr p \<and>
    DecodeManifest p = Inr (example_manifest\<lparr>m_Version := 1, m_Signature := None\<rparr>)"
  by (rule manifest_round_trip) (rule example_manifest_ok)

text \<open>
  A receipt carries the received set exactly: one bit per chunk, every count up to 1424 fits a packet,
  and the reader recovers the very list the writer had.
\<close>

theorem receipt_round_trip:
  assumes "unat n = length received" and "length received \<le> MaxChunks"
  shows "\<exists>b p. EncodeReceipt pid n received = Inr b \<and> DecodePacket b = Inr p \<and> packet_ID p = pid \<and>
    DecodeReceipt p = Inr received"
  using EncodeReceipt_total [OF assms] DecodeReceipt_EncodeReceipt by metis

theorem receipt_round_trip_witness:
  "\<exists>b p. EncodeReceipt (copy_array [7]) 3 [True, False, True] = Inr b \<and> DecodePacket b = Inr p \<and>
    packet_ID p = copy_array [7] \<and> DecodeReceipt p = Inr [True, False, True]"
  by (rule receipt_round_trip) simp_all

end
