(* ===== verification/Assembly.thy ===== *)
theory Assembly
  imports Pub_Protocol
begin

text \<open>
  \<open>internal/publication/assembly.go\<close>: the receipt state of one publication, chunk by chunk. \<open>Add\<close> checks
  the index and the one length the geometry allows there, refuses a conflicting duplicate and accepts an
  identical one; \<open>Content\<close> joins the chunks and compares their SHA-256 with the manifest's. The hash of
  \<open>crypto/sha256\<close> is the argument \<open>sha256\<close>: nothing here depends on which function it is.

  Lemmas: the invariant \<open>assembly_inv\<close> (every received chunk has its length), the cut of a content into
  chunks and back, and the main result: chunks of one content, in any order and any number of times,
  assemble to that content.
\<close>

record Assembly =
  a_Manifest :: Manifest
  chunks :: "byte list list"
  received :: "bool list"

definition NewAssembly :: "Manifest \<Rightarrow> Assembly" where
  "NewAssembly manifest =
     \<lparr>a_Manifest = manifest, chunks = replicate (unat (m_ChunkCount manifest)) [],
      received = replicate (unat (m_ChunkCount manifest)) False\<rparr>"

text \<open>\<open>int(a.Manifest.Length) - int(index)*int(a.Manifest.ChunkSize)\<close>, in the 64-bit \<open>int\<close>.\<close>

definition last_chunk_size :: "Manifest \<Rightarrow> 16 word \<Rightarrow> int" where
  "last_chunk_size m index = sint (m_Length m - ucast index * ucast (m_ChunkSize m))"

definition Add :: "Assembly \<Rightarrow> 16 word \<Rightarrow> byte list \<Rightarrow> go_error + Assembly" where
  "Add a index data =
     (let i = unat index in
      if i \<ge> length (chunks a) then Inl PubMalformed
      else let expected = (if int i = int (length (chunks a)) - 1 then last_chunk_size (a_Manifest a) index
                           else int (unat (m_ChunkSize (a_Manifest a)))) in
        if int (length data) \<noteq> expected then Inl PubMalformed
        else if received a ! i then (if chunks a ! i \<noteq> data then Inl PubMalformed else Inr a)
        else Inr (a\<lparr>chunks := (chunks a)[i := data], received := (received a)[i := True]\<rparr>))"

definition Received :: "Assembly \<Rightarrow> bool list" where
  "Received a = received a"

definition Missing :: "Assembly \<Rightarrow> 16 word list" where
  "Missing a = map (\<lambda>(i, ok). of_nat i)
     (filter (\<lambda>(i, ok). \<not> ok) (zip [0..<length (received a)] (received a)))"

definition assembly_Complete :: "Assembly \<Rightarrow> bool" where
  "assembly_Complete a \<longleftrightarrow> length (Missing a) = 0"

definition Content :: "(byte list \<Rightarrow> hash256) \<Rightarrow> Assembly \<Rightarrow> go_error + byte list" where
  "Content sha256 a =
     (if \<not> assembly_Complete a then Inl (Failure ''publication is incomplete'')
      else let content = concat (chunks a) in
        if sha256 content \<noteq> m_SHA256 (a_Manifest a) then Inl HashMismatch else Inr content)"

text \<open>
  A receiver's run over the chunks it gets: a chunk that \<open>Add\<close> refuses is dropped (\<open>acceptChunk\<close> of the
  node and the legacy broadcaster both return without touching the assembly).
\<close>

definition add_or_drop :: "Assembly \<Rightarrow> 16 word \<times> byte list \<Rightarrow> Assembly" where
  "add_or_drop a c = (case Add a (fst c) (snd c) of Inl _ \<Rightarrow> a | Inr a' \<Rightarrow> a')"

definition receive_chunks :: "Assembly \<Rightarrow> (16 word \<times> byte list) list \<Rightarrow> Assembly" where
  "receive_chunks a cs = foldl add_or_drop a cs"

section \<open>Chunks of a content\<close>

definition chunk_of :: "Manifest \<Rightarrow> byte list \<Rightarrow> nat \<Rightarrow> byte list" where
  "chunk_of m content i =
     gslice content (i * unat (m_ChunkSize m)) (min ((i + 1) * unat (m_ChunkSize m)) (length content))"

definition chunk_len :: "Manifest \<Rightarrow> nat \<Rightarrow> nat" where
  "chunk_len m i = min (unat (m_ChunkSize m)) (unat (m_Length m) - i * unat (m_ChunkSize m))"

lemma chunk_total_covers: "0 < s \<Longrightarrow> n \<le> chunk_total n s * s"
proof -
  assume "0 < s"
  have "n + s - 1 < ((n + s - 1) div s + 1) * s"
    using \<open>0 < s\<close> by (metis div_less_iff_less_mult less_add_one)
  then show ?thesis unfolding chunk_total_def using \<open>0 < s\<close> by simp
qed

lemma chunks_join:
  assumes "geometry m" "length content = unat (m_Length m)"
  shows "concat (map (chunk_of m content) [0..<unat (m_ChunkCount m)]) = content"
proof -
  have "0 < unat (m_ChunkSize m)" "unat (m_ChunkCount m) = chunk_total (unat (m_Length m)) (unat (m_ChunkSize m))"
    using assms(1) by (simp_all add: geometry_def unat_gt_0 word_greater_zero_iff)
  then have "length content \<le> unat (m_ChunkCount m) * unat (m_ChunkSize m)"
    using chunk_total_covers assms(2) by metis
  moreover have "map (chunk_of m content) [0..<unat (m_ChunkCount m)] =
      map (\<lambda>i. gslice content (i * unat (m_ChunkSize m)) (min ((i + 1) * unat (m_ChunkSize m)) (length content)))
        [0..<unat (m_ChunkCount m)]"
    by (simp add: chunk_of_def)
  ultimately show ?thesis by (simp only: gslices_join) simp
qed

lemma length_chunk_of:
  "length content = unat (m_Length m) \<Longrightarrow> length (chunk_of m content i) = chunk_len m i"
  by (auto simp: chunk_of_def chunk_len_def min_def)

lemma sint_of_small:
  assumes "unat (w :: 64 word) < 2 ^ 63"
  shows "sint w = int (unat w)"
proof -
  have "uint w < 2 ^ 63" using assms by (metis uint_nat of_nat_less_iff of_nat_numeral of_nat_power)
  moreover have "0 \<le> uint w" by simp
  ultimately have "signed_take_bit 63 (uint w) = uint w"
    by (intro signed_take_bit_int_eq_self) linarith+
  then show ?thesis by (simp add: sint_uint)
qed

lemma chunk_bounds:
  assumes "geometry m" "i < unat (m_ChunkCount m)"
  shows "i * unat (m_ChunkSize m) < unat (m_Length m)"
    and "i + 1 < unat (m_ChunkCount m) \<Longrightarrow> (i + 1) * unat (m_ChunkSize m) \<le> unat (m_Length m)"
    and "i + 1 = unat (m_ChunkCount m) \<Longrightarrow> unat (m_Length m) \<le> (i + 1) * unat (m_ChunkSize m)"
proof -
  let ?s = "unat (m_ChunkSize m)" and ?n = "unat (m_Length m)"
  have s: "0 < ?s" and count: "unat (m_ChunkCount m) = chunk_total ?n ?s"
    using assms(1) by (simp_all add: geometry_def unat_gt_0 word_greater_zero_iff)
  have n: "0 < ?n" using assms(2) s count by (cases "?n = 0") auto
  have below: "j * ?s < ?n" if "j < unat (m_ChunkCount m)" for j
  proof -
    have "j \<le> (?n - 1) div ?s" using that count chunk_total_pos [OF n s] by simp
    then have "j * ?s \<le> ?n - 1" using s by (simp add: less_eq_div_iff_mult_less_eq)
    then show ?thesis using n by simp
  qed
  show "i * ?s < ?n" using assms(2) by (rule below)
  show "(i + 1) * ?s \<le> ?n" if "i + 1 < unat (m_ChunkCount m)" using below [OF that] by simp
  show "?n \<le> (i + 1) * ?s" if "i + 1 = unat (m_ChunkCount m)"
    using chunk_total_covers [OF s, of ?n] that count by simp
qed

section \<open>The invariant, and what \<open>Add\<close> does\<close>

lemma geometry_counts:
  assumes "geometry m" "i < unat (m_ChunkCount m)"
  shows "chunk_len m i = (if i + 1 = unat (m_ChunkCount m) then unat (m_Length m) - i * unat (m_ChunkSize m)
                          else unat (m_ChunkSize m))"
proof (cases "i + 1 = unat (m_ChunkCount m)")
  case True
  then have "unat (m_Length m) \<le> (i + 1) * unat (m_ChunkSize m)" using chunk_bounds(3) assms by blast
  then show ?thesis using True by (simp add: chunk_len_def)
next
  case False
  then have "(i + 1) * unat (m_ChunkSize m) \<le> unat (m_Length m)" using chunk_bounds(2) assms by simp
  then show ?thesis using False by (simp add: chunk_len_def)
qed

lemma last_chunk_size_eq:
  assumes "geometry m" "unat index < unat (m_ChunkCount m)"
  shows "last_chunk_size m index = int (unat (m_Length m) - unat index * unat (m_ChunkSize m))"
proof -
  let ?i = "ucast index :: 64 word" and ?s = "ucast (m_ChunkSize m) :: 64 word"
  have i: "unat ?i = unat index" and s: "unat ?s = unat (m_ChunkSize m)"
    by (rule unat_ucast_up, simp)+
  have n: "unat (m_Length m) \<le> 1424 * 178" and below: "unat index * unat (m_ChunkSize m) < unat (m_Length m)"
    using assms(1) chunk_bounds(1) [OF assms]
    by (auto simp: geometry_def intro: order_trans [OF _ mult_le_mono2])
  then have off: "unat (?i * ?s) = unat index * unat (m_ChunkSize m)"
    by (subst unat_times_fits) (simp_all add: i s)
  then have "unat (m_Length m - ?i * ?s) = unat (m_Length m) - unat index * unat (m_ChunkSize m)"
    using below by (subst unat_sub) (simp_all add: word_le_nat_alt off)
  moreover from this have "sint (m_Length m - ?i * ?s) = int (unat (m_Length m - ?i * ?s))"
    by (intro sint_of_small) (use n in simp)
  ultimately show ?thesis by (simp add: last_chunk_size_def)
qed

definition assembly_inv :: "Assembly \<Rightarrow> bool" where
  "assembly_inv a \<longleftrightarrow> geometry (a_Manifest a) \<and>
     length (chunks a) = unat (m_ChunkCount (a_Manifest a)) \<and>
     length (received a) = unat (m_ChunkCount (a_Manifest a)) \<and>
     (\<forall>i < length (chunks a).
        length (chunks a ! i) = (if received a ! i then chunk_len (a_Manifest a) i else 0))"

lemma NewAssembly_Manifest: "a_Manifest (NewAssembly m) = m"
  by (simp add: NewAssembly_def)

lemma NewAssembly_inv: "geometry m \<Longrightarrow> assembly_inv (NewAssembly m)"
  by (simp add: assembly_inv_def NewAssembly_def)

lemma Add_iff:
  assumes "assembly_inv a"
  shows "Add a index data = Inr a' \<longleftrightarrow>
    unat index < length (chunks a) \<and> length data = chunk_len (a_Manifest a) (unat index) \<and>
    (if received a ! unat index then chunks a ! unat index = data \<and> a' = a
     else a' = a\<lparr>chunks := (chunks a)[unat index := data], received := (received a)[unat index := True]\<rparr>)"
proof (cases "unat index < length (chunks a)")
  case True
  let ?m = "a_Manifest a"
  have geo: "geometry ?m" and i: "unat index < unat (m_ChunkCount ?m)" and n: "length (chunks a) = unat (m_ChunkCount ?m)"
    using assms True by (simp_all add: assembly_inv_def)
  have last: "int (unat index) = int (length (chunks a)) - 1 \<longleftrightarrow> unat index + 1 = unat (m_ChunkCount ?m)"
    using n by linarith
  have "(if int (unat index) = int (length (chunks a)) - 1 then last_chunk_size ?m index
         else int (unat (m_ChunkSize ?m))) = int (chunk_len ?m (unat index))"
    unfolding last last_chunk_size_eq [OF geo i] geometry_counts [OF geo i] by simp
  then show ?thesis using True by (simp only: Add_def Let_def) auto
next
  case False
  then show ?thesis by (simp add: Add_def Let_def)
qed

lemma Add_inv: "assembly_inv a \<Longrightarrow> Add a index data = Inr a' \<Longrightarrow> assembly_inv a'"
  by (auto simp: Add_iff split: if_splits) (auto simp: assembly_inv_def nth_list_update)

lemma Add_Manifest: "Add a index data = Inr a' \<Longrightarrow> a_Manifest a' = a_Manifest a"
  by (auto simp: Add_def Let_def split: if_splits)

lemma add_or_drop_inv: "assembly_inv a \<Longrightarrow> assembly_inv (add_or_drop a c)"
  by (auto simp: add_or_drop_def Add_inv split: sum.splits)

lemma add_or_drop_Manifest [simp]: "a_Manifest (add_or_drop a c) = a_Manifest a"
  by (auto simp: add_or_drop_def Add_Manifest split: sum.splits)

section \<open>Completeness and content\<close>

lemma assembly_Complete_iff: "assembly_Complete a \<longleftrightarrow> list_all id (received a)"
proof -
  have "assembly_Complete a \<longleftrightarrow> (\<forall>p \<in> set (zip [0..<length (received a)] (received a)). snd p)"
    by (auto simp: assembly_Complete_def Missing_def filter_empty_conv split: prod.splits)
  also have "\<dots> \<longleftrightarrow> (\<forall>ok \<in> snd ` set (zip [0..<length (received a)] (received a)). ok)" by simp
  also have "snd ` set (zip [0..<length (received a)] (received a)) = set (received a)"
    by (metis length_upt map_snd_zip minus_nat.diff_0 list.set_map)
  finally show ?thesis by (simp add: list_all_iff)
qed

lemma Missing_iff:
  assumes "length (received a) \<le> 2 ^ 16"
  shows "w \<in> set (Missing a) \<longleftrightarrow> unat w < length (received a) \<and> \<not> received a ! unat w"
proof -
  have "w \<in> set (Missing a) \<longleftrightarrow>
      (\<exists>p \<in> set (zip [0..<length (received a)] (received a)). w = of_nat (fst p) \<and> \<not> snd p)"
    by (auto simp: Missing_def image_iff split: prod.splits) force+
  also have "\<dots> \<longleftrightarrow> (\<exists>i < length (received a). w = of_nat i \<and> \<not> received a ! i)"
    by (force simp: set_zip)
  also have "\<dots> \<longleftrightarrow> unat w < length (received a) \<and> \<not> received a ! unat w"
    using assms by (auto simp: unat_of_nat_fits)
  finally show ?thesis .
qed

text \<open>\<open>holds a c\<close>: what has been received so far is part of the content \<open>c\<close>.\<close>

definition holds :: "Assembly \<Rightarrow> byte list \<Rightarrow> bool" where
  "holds a c \<longleftrightarrow> assembly_inv a \<and> length c = unat (m_Length (a_Manifest a)) \<and>
     (\<forall>i < length (chunks a). received a ! i \<longrightarrow> chunks a ! i = chunk_of (a_Manifest a) c i)"

lemma holds_NewAssembly:
  "geometry m \<Longrightarrow> length c = unat (m_Length m) \<Longrightarrow> holds (NewAssembly m) c"
  by (simp add: holds_def NewAssembly_inv) (simp add: NewAssembly_def)

lemma Add_chunk_of:
  assumes "holds a c" "unat index < length (chunks a)"
  obtains a' where "Add a index (chunk_of (a_Manifest a) c (unat index)) = Inr a'" "holds a' c"
    and "received a' = (received a)[unat index := True]"
proof -
  let ?d = "chunk_of (a_Manifest a) c (unat index)"
  have inv: "assembly_inv a" and len: "length ?d = chunk_len (a_Manifest a) (unat index)"
    using assms(1) by (simp_all add: holds_def length_chunk_of)
  show thesis
  proof (cases "received a ! unat index")
    case True
    then have "Add a index ?d = Inr a" using assms len inv by (simp add: Add_iff holds_def)
    moreover have "received a = (received a)[unat index := True]"
      using True by (metis list_update_id)
    ultimately show thesis using that assms(1) by simp
  next
    case False
    let ?a = "a\<lparr>chunks := (chunks a)[unat index := ?d], received := (received a)[unat index := True]\<rparr>"
    have add: "Add a index ?d = Inr ?a" using False assms(2) len inv by (simp add: Add_iff)
    moreover have "holds ?a c"
      using assms Add_inv [OF inv add] by (auto simp: holds_def assembly_inv_def nth_list_update)
    ultimately show thesis using that by simp
  qed
qed

lemma Content_holds:
  assumes "holds a c" "assembly_Complete a"
  shows "Content sha256 a = (if sha256 c = m_SHA256 (a_Manifest a) then Inr c else Inl HashMismatch)"
proof -
  let ?m = "a_Manifest a"
  have inv: "assembly_inv a" and c: "length c = unat (m_Length ?m)" using assms(1) by (simp_all add: holds_def)
  have "chunks a = map (chunk_of ?m c) [0..<length (chunks a)]"
    using assms inv
    by (intro nth_equalityI) (auto simp: holds_def assembly_inv_def assembly_Complete_iff list_all_length)
  then have "concat (chunks a) = c"
    using inv c by (metis assembly_inv_def chunks_join)
  then show ?thesis using assms(2) by (simp add: Content_def)
qed

lemma receive_chunks_holds:
  assumes "holds a c"
    and "\<forall>(index, data) \<in> set cs. unat index < length (chunks a) \<and> data = chunk_of (a_Manifest a) c (unat index)"
  shows "holds (receive_chunks a cs) c \<and> a_Manifest (receive_chunks a cs) = a_Manifest a \<and>
    length (chunks (receive_chunks a cs)) = length (chunks a) \<and>
    (\<forall>i < length (chunks a). received (receive_chunks a cs) ! i \<longleftrightarrow> received a ! i \<or> i \<in> unat ` fst ` set cs)"
  using assms
proof (induction cs arbitrary: a)
  case Nil
  then show ?case by (simp add: receive_chunks_def)
next
  case (Cons e cs)
  obtain index data where e: "e = (index, data)" by (cases e)
  with Cons.prems have i: "unat index < length (chunks a)" "data = chunk_of (a_Manifest a) c (unat index)" by auto
  obtain a' where add: "Add a index data = Inr a'" and h: "holds a' c"
    and r: "received a' = (received a)[unat index := True]"
    using Add_chunk_of [OF Cons.prems(1) i(1)] i(2) by metis
  have m: "a_Manifest a' = a_Manifest a" using add by (rule Add_Manifest)
  have n: "length (chunks a') = length (chunks a)" "length (received a) = length (chunks a)"
    using h Cons.prems(1) m by (simp_all add: holds_def assembly_inv_def)
  have IH: "holds (receive_chunks a' cs) c \<and> a_Manifest (receive_chunks a' cs) = a_Manifest a' \<and>
    length (chunks (receive_chunks a' cs)) = length (chunks a') \<and>
    (\<forall>i < length (chunks a'). received (receive_chunks a' cs) ! i \<longleftrightarrow> received a' ! i \<or> i \<in> unat ` fst ` set cs)"
    using Cons.IH [OF h] Cons.prems(2) m n(1) by simp
  have "receive_chunks a (e # cs) = receive_chunks a' cs"
    by (simp add: receive_chunks_def add_or_drop_def e add)
  then show ?case
    using IH m n i(1) r e by (auto simp: nth_list_update split: if_splits)
qed

section \<open>Arbitrary input\<close>

lemma receive_chunks_inv:
  "assembly_inv a \<Longrightarrow> assembly_inv (receive_chunks a cs) \<and> a_Manifest (receive_chunks a cs) = a_Manifest a"
  by (induction cs arbitrary: a) (simp_all add: receive_chunks_def add_or_drop_inv)

lemma add_or_drop_keeps:
  "assembly_inv a \<Longrightarrow> i < length (chunks a) \<Longrightarrow> received a ! i \<Longrightarrow>
   received (add_or_drop a c) ! i \<and> chunks (add_or_drop a c) ! i = chunks a ! i \<and>
   length (chunks (add_or_drop a c)) = length (chunks a)"
  by (auto simp: add_or_drop_def Add_iff nth_list_update split: sum.splits if_splits)

lemma receive_chunks_keeps:
  "assembly_inv a \<Longrightarrow> i < length (chunks a) \<Longrightarrow> received a ! i \<Longrightarrow>
   received (receive_chunks a cs) ! i \<and> chunks (receive_chunks a cs) ! i = chunks a ! i"
proof (induction cs arbitrary: a)
  case Nil
  then show ?case by (simp add: receive_chunks_def)
next
  case (Cons c cs)
  then show ?case
    using Cons.IH [of "add_or_drop a c"] add_or_drop_keeps [of a i c]
    by (simp add: receive_chunks_def add_or_drop_inv)
qed

lemma chunk_lens_sum:
  assumes "0 < unat (m_ChunkSize m)"
  shows "(\<Sum>i<k. chunk_len m i) = min (k * unat (m_ChunkSize m)) (unat (m_Length m))"
  by (induction k) (auto simp: chunk_len_def min_def)

lemma Content_length:
  assumes "assembly_inv a" "Content sha256 a = Inr content"
  shows "length content = unat (m_Length (a_Manifest a))"
proof -
  let ?m = "a_Manifest a" and ?n = "unat (m_ChunkCount (a_Manifest a))"
  have all: "\<forall>i < ?n. received a ! i" and c: "content = concat (chunks a)"
    using assms by (auto simp: Content_def Let_def assembly_Complete_iff list_all_length assembly_inv_def
        split: if_splits)
  have s: "0 < unat (m_ChunkSize ?m)" and count: "?n = chunk_total (unat (m_Length ?m)) (unat (m_ChunkSize ?m))"
    using assms(1) by (simp_all add: assembly_inv_def geometry_def unat_gt_0 word_greater_zero_iff)
  have "length content = (\<Sum>i<?n. length (chunks a ! i))"
    using assms(1) by (simp add: c length_concat assembly_inv_def sum_list_sum_nth atLeast0LessThan)
  also have "\<dots> = (\<Sum>i<?n. chunk_len ?m i)"
    using assms(1) all by (intro sum.cong) (auto simp: assembly_inv_def)
  also have "\<dots> = unat (m_Length ?m)"
    using chunk_total_covers [OF s, of "unat (m_Length ?m)"] count by (simp add: chunk_lens_sum [OF s])
  finally show ?thesis .
qed

section \<open>Properties\<close>

text \<open>
  C12: Reassembly does not depend on the order or the multiplicity of the chunks: once chunks of a content
  have arrived, in any order and with any repetition, so that each index below the count occurs, the
  assembly is complete and returns the content, provided its hash is the manifest's; otherwise it
  returns the hash mismatch.
\<close>

theorem reassembly_any_order:
  assumes "geometry m" and "length content = unat (m_Length m)"
    and "\<forall>(index, data) \<in> set cs. unat index < unat (m_ChunkCount m) \<and> data = chunk_of m content (unat index)"
    and "\<forall>i < unat (m_ChunkCount m). of_nat i \<in> fst ` set cs"
  shows "assembly_Complete (receive_chunks (NewAssembly m) cs) \<and>
    Content sha256 (receive_chunks (NewAssembly m) cs) =
      (if sha256 content = m_SHA256 m then Inr content else Inl HashMismatch)"
proof -
  let ?a = "NewAssembly m" and ?b = "receive_chunks (NewAssembly m) cs"
  have "holds ?a content" using assms(1,2) by (rule holds_NewAssembly)
  then have h: "holds ?b content \<and> a_Manifest ?b = a_Manifest ?a \<and> length (chunks ?b) = length (chunks ?a) \<and>
      (\<forall>i < length (chunks ?a). received ?b ! i \<longleftrightarrow> received ?a ! i \<or> i \<in> unat ` fst ` set cs)"
    by (rule receive_chunks_holds) (use assms(3) in \<open>auto simp: NewAssembly_def\<close>)
  have "i \<in> unat ` fst ` set cs" if "i < unat (m_ChunkCount m)" for i
  proof -
    have "unat (m_ChunkCount m) < 2 ^ LENGTH(16)" by (rule unsigned_less)
    with that have "i < 2 ^ LENGTH(16)" by (rule less_trans)
    then have "unat (of_nat i :: 16 word) = i" by (rule unat_of_nat_fits)
    then show ?thesis using assms(4) that by (metis image_eqI)
  qed
  then have "assembly_Complete ?b"
    using h by (auto simp: assembly_Complete_iff list_all_length holds_def assembly_inv_def NewAssembly_def)
  then show ?thesis
    using h Content_holds [of ?b content sha256] NewAssembly_Manifest [of m] by simp
qed

theorem reassembly_any_order_witness:
  "Content (\<lambda>_. copy_array []) (receive_chunks (NewAssembly example_manifest)
      [(2, [5]), (0, [1, 2]), (2, [5]), (1, [3, 4])]) = Inr [1, 2, 3, 4, 5]"
proof -
  have "geometry example_manifest" using example_manifest_ok by (simp add: manifest_ok_def)
  then have "assembly_Complete (receive_chunks (NewAssembly example_manifest)
        [(2, [5]), (0, [1, 2]), (2, [5]), (1, [3, 4])]) \<and>
      Content (\<lambda>_. copy_array []) (receive_chunks (NewAssembly example_manifest)
        [(2, [5]), (0, [1, 2]), (2, [5]), (1, [3, 4])]) =
      (if copy_array [] = m_SHA256 example_manifest then Inr [1, 2, 3, 4, 5] else Inl HashMismatch)"
    by (rule reassembly_any_order)
       (simp_all add: example_manifest_def chunk_of_def gslice_def all_less_three)
  then show ?thesis by (simp add: example_manifest_def)
qed

text \<open>
  C21: An assembly is never damaged by what it is sent: after any chunks whatsoever, in range or not, each
  index holds nothing or data of the exact length the manifest gives it, a chunk once received is never
  replaced, \<open>Missing\<close> lists exactly the indices not received, and what \<open>Content\<close> returns has the
  manifest's length and hash.
\<close>

theorem assembly_withstands_any_input:
  assumes "geometry m" and "a = receive_chunks (NewAssembly m) cs"
  shows "length (chunks a) = unat (m_ChunkCount m) \<and> length (received a) = unat (m_ChunkCount m) \<and>
    (\<forall>i < length (chunks a). length (chunks a ! i) = (if received a ! i then chunk_len m i else 0)) \<and>
    (\<forall>i < length (chunks a). received a ! i \<longrightarrow>
       received (receive_chunks a later) ! i \<and> chunks (receive_chunks a later) ! i = chunks a ! i) \<and>
    (\<forall>w. w \<in> set (Missing a) \<longleftrightarrow> unat w < unat (m_ChunkCount m) \<and> \<not> received a ! unat w) \<and>
    (\<forall>content. Content sha256 a = Inr content \<longrightarrow>
       sha256 content = m_SHA256 m \<and> length content = unat (m_Length m))"
proof -
  have inv: "assembly_inv a" and m: "a_Manifest a = m"
    using assms receive_chunks_inv [OF NewAssembly_inv] by (simp_all add: NewAssembly_def)
  have n: "length (received a) \<le> 2 ^ 16" "length (received a) = unat (m_ChunkCount m)"
    using inv m by (auto simp: assembly_inv_def geometry_def)
  have "\<forall>i < length (chunks a). received a ! i \<longrightarrow>
       received (receive_chunks a later) ! i \<and> chunks (receive_chunks a later) ! i = chunks a ! i"
    using receive_chunks_keeps [OF inv] by blast
  moreover have "w \<in> set (Missing a) \<longleftrightarrow> unat w < unat (m_ChunkCount m) \<and> \<not> received a ! unat w" for w
    using Missing_iff [OF n(1)] n(2) by simp
  moreover have "sha256 content = m_SHA256 m \<and> length content = unat (m_Length m)"
    if "Content sha256 a = Inr content" for content
    using Content_length [OF inv that] that m by (auto simp: Content_def Let_def split: if_splits)
  ultimately show ?thesis using inv m by (simp add: assembly_inv_def)
qed

theorem assembly_withstands_any_input_witness:
  "chunks (receive_chunks (receive_chunks (NewAssembly example_manifest) [(9, [1]), (0, [1, 2])])
     [(0, [7, 7]), (2, [5, 5])]) ! 0 = [1, 2]"
proof -
  let ?a = "receive_chunks (NewAssembly example_manifest) [(9, [1]), (0, [1, 2])]"
  have a: "?a = \<lparr>a_Manifest = example_manifest, chunks = [[1, 2], [], []], received = [True, False, False]\<rparr>"
    by (simp add: receive_chunks_def add_or_drop_def Add_def NewAssembly_def example_manifest_def replicate_3)
  have "geometry example_manifest" using example_manifest_ok by (simp add: manifest_ok_def)
  from assembly_withstands_any_input [OF this refl, of "[(9, [1]), (0, [1, 2])]" "[(0, [7, 7]), (2, [5, 5])]"]
  have "\<forall>i < length (chunks ?a). received ?a ! i \<longrightarrow>
      chunks (receive_chunks ?a [(0, [7, 7]), (2, [5, 5])]) ! i = chunks ?a ! i" by blast
  then show ?thesis unfolding a by simp
qed

end
