(* ===== verification/Radix.thy ===== *)
theory Radix
  imports Pub_Protocol
begin

text \<open>
  \<open>internal/node/radix.go\<close>: radix summaries of the set of complete publications. Identifiers are read as
  32 nibbles; a summary of a prefix gives, for each of its sixteen children, how many identifiers lie
  below it and the first 64 bits of the SHA-256 of these identifiers in order; a leaf lists them.
  \<open>sha256\<close> is an argument. The \<open>[16]ChildDigest\<close> array is a list of length 16 (\<open>summary_ok\<close>).

  \<open>walk\<close> and \<open>reconcile\<close> compose the operations as two nodes do (\<open>serveSummary\<close> on one side, \<open>acceptSummary\<close> and
  \<open>acceptLeaf\<close> on the other): the receiver's walk from the root summary down the differing branches.
  Lemmas: the walk ends and finds exactly the identifiers the other side has and this one lacks unless
  a truncated digest collides, never finds anything else even then, and asks at most 32 requests per
  differing identifier.
\<close>

definition RadixChildren :: nat where [simp]: "RadixChildren = 16"
definition LeafThreshold :: nat where [simp]: "LeafThreshold = 10"

type_synonym nibbles = "byte list"

record ChildDigest =
  cd_Count :: "16 word"
  cd_Digest :: "64 word"

record RadixSummary =
  s_Generation :: "32 word"
  s_Prefix :: nibbles
  s_Children :: "ChildDigest list"

record RadixLeaf =
  l_Generation :: "32 word"
  l_Prefix :: nibbles
  l_IDs :: "ID list"

definition summary_ok :: "RadixSummary \<Rightarrow> bool" where
  "summary_ok s \<longleftrightarrow> length (s_Children s) = RadixChildren"

definition nibbleAt :: "ID \<Rightarrow> nat \<Rightarrow> byte" where
  "nibbleAt pid depth =
     (let b = array_bytes pid ! (depth div 2) in if depth mod 2 = 0 then drop_bit 4 b else b AND 0x0f)"

text \<open>\<open>sort.Slice\<close> by \<open>string(a[:]) < string(b[:])\<close>: the order of the array type.\<close>

definition sortedIDs :: "ID list \<Rightarrow> ID list" where
  "sortedIDs ids = sort ids"

definition digestIDs :: "(byte list \<Rightarrow> hash256) \<Rightarrow> ID list \<Rightarrow> 64 word" where
  "digestIDs sha256 ids =
     uint64_le (take 8 (array_bytes (sha256 (concat (map array_bytes (sortedIDs ids))))))"

definition InventoryGeneration :: "(byte list \<Rightarrow> hash256) \<Rightarrow> ID list \<Rightarrow> 32 word" where
  "InventoryGeneration sha256 ids =
     uint32_le (take 4 (array_bytes (sha256 (concat (map array_bytes (sortedIDs ids))))))"

definition prefix_matches :: "nibbles \<Rightarrow> ID \<Rightarrow> bool" where
  "prefix_matches prefix pid =
     list_all (\<lambda>(depth, nibble). nibbleAt pid depth = nibble) (zip [0..<length prefix] prefix)"

definition FilterPrefix :: "ID list \<Rightarrow> nibbles \<Rightarrow> ID list" where
  "FilterPrefix ids prefix = sortedIDs (filter (prefix_matches prefix) ids)"

definition child_digest :: "(byte list \<Rightarrow> hash256) \<Rightarrow> ID list \<Rightarrow> nibbles \<Rightarrow> nat \<Rightarrow> ChildDigest" where
  "child_digest sha256 ids prefix child =
     (let bucket = FilterPrefix ids (prefix @ [of_nat child]);
          count = length bucket;
          count = (if count > 65535 then 65535 else count)
      in \<lparr>cd_Count = of_nat count, cd_Digest = digestIDs sha256 bucket\<rparr>)"

definition BuildSummary :: "(byte list \<Rightarrow> hash256) \<Rightarrow> ID list \<Rightarrow> nibbles \<Rightarrow> RadixSummary" where
  "BuildSummary sha256 ids prefix =
     \<lparr>s_Generation = InventoryGeneration sha256 ids, s_Prefix = prefix,
      s_Children = (if length prefix \<ge> 32 then replicate RadixChildren \<lparr>cd_Count = 0, cd_Digest = 0\<rparr>
                    else map (child_digest sha256 ids prefix) [0..<RadixChildren])\<rparr>"

definition BuildLeaf :: "(byte list \<Rightarrow> hash256) \<Rightarrow> ID list \<Rightarrow> nibbles \<Rightarrow> RadixLeaf" where
  "BuildLeaf sha256 ids prefix =
     \<lparr>l_Generation = InventoryGeneration sha256 ids, l_Prefix = prefix, l_IDs = FilterPrefix ids prefix\<rparr>"

definition DifferingChildren :: "RadixSummary \<Rightarrow> RadixSummary \<Rightarrow> nibbles list" where
  "DifferingChildren local remote =
     (if s_Prefix local \<noteq> s_Prefix remote then []
      else map (\<lambda>child. s_Prefix remote @ [of_nat child])
        (filter (\<lambda>child. s_Children local ! child \<noteq> s_Children remote ! child) [0..<RadixChildren]))"

definition MissingIDs :: "ID list \<Rightarrow> RadixLeaf \<Rightarrow> ID list" where
  "MissingIDs local remote = filter (\<lambda>pid. pid \<notin> set local) (l_IDs remote)"

section \<open>Nibbles and prefixes\<close>

lemma prefix_matches_iff:
  "prefix_matches p x \<longleftrightarrow> (\<forall>d < length p. nibbleAt x d = p ! d)"
  by (auto simp: prefix_matches_def list_all_length)

lemma prefix_matches_snoc:
  "prefix_matches (p @ [n]) x \<longleftrightarrow> prefix_matches p x \<and> nibbleAt x (length p) = n"
  by (auto simp: prefix_matches_iff nth_append less_Suc_eq)

lemma nibbleAt_less_16: "unat (nibbleAt x d) < 16"
proof -
  have "unat (drop_bit 4 (b :: byte)) < 16" for b
  proof -
    have "unat b < 2 ^ LENGTH(8)" by (rule unsigned_less)
    then show ?thesis by (simp add: drop_bit_eq_div unat_div)
  qed
  moreover have "unat ((b :: byte) AND 0x0f) < 16" for b
  proof -
    have "b AND 0x0f \<le> 0x0f" by (rule word_and_le1)
    then show ?thesis by (simp add: word_le_nat_alt)
  qed
  ultimately show ?thesis by (simp add: nibbleAt_def Let_def)
qed

lemma byte_from_nibbles:
  assumes "drop_bit 4 (a :: byte) = drop_bit 4 b" "a AND 0x0f = b AND 0x0f"
  shows "a = b"
proof (rule bit_word_eqI)
  fix n assume n: "n < LENGTH(8)"
  have mask: "bit (c AND 0x0f) n \<longleftrightarrow> bit c n \<and> n < 4" for c :: byte
    using bit_mask_iff [where 'a = "8 word", of 4 n] n by (simp add: bit_and_iff mask_numeral)
  show "bit a n = bit b n"
  proof (cases "n < 4")
    case True
    then show ?thesis using mask [of a] mask [of b] assms(2) by simp
  next
    case False
    then have "n = 4 + (n - 4)" by simp
    then show ?thesis using assms(1) by (metis bit_drop_bit_eq comp_apply)
  qed
qed

lemma nibbles_determine_ID:
  assumes "\<And>d. d < 32 \<Longrightarrow> nibbleAt x d = nibbleAt y d"
  shows "x = y"
proof -
  have "array_bytes x ! i = array_bytes y ! i" if "i < 16" for i
  proof (rule byte_from_nibbles)
    show "drop_bit 4 (array_bytes x ! i) = drop_bit 4 (array_bytes y ! i)"
      using assms [of "2 * i"] that by (simp add: nibbleAt_def)
    show "array_bytes x ! i AND 0x0f = array_bytes y ! i AND 0x0f"
      using assms [of "2 * i + 1"] that by (simp add: nibbleAt_def)
  qed
  then show ?thesis by (simp add: array_eq_iff list_eq_iff_nth_eq)
qed

lemma set_FilterPrefix [simp]: "set (FilterPrefix ids p) = {x \<in> set ids. prefix_matches p x}"
  by (auto simp: FilterPrefix_def sortedIDs_def)

lemma FilterPrefix_Nil: "FilterPrefix ids [] = sort ids"
  by (simp add: FilterPrefix_def sortedIDs_def prefix_matches_def)

lemma distinct_FilterPrefix: "distinct ids \<Longrightarrow> distinct (FilterPrefix ids p)"
  by (simp add: FilterPrefix_def sortedIDs_def)

lemma FilterPrefix_eq_iff:
  assumes "distinct xs" "distinct ys"
  shows "FilterPrefix xs p = FilterPrefix ys p \<longleftrightarrow>
    {x \<in> set xs. prefix_matches p x} = {x \<in> set ys. prefix_matches p x}"
proof
  assume "FilterPrefix xs p = FilterPrefix ys p"
  then show "{x \<in> set xs. prefix_matches p x} = {x \<in> set ys. prefix_matches p x}"
    by (metis set_FilterPrefix)
next
  assume "{x \<in> set xs. prefix_matches p x} = {x \<in> set ys. prefix_matches p x}"
  then have "set (filter (prefix_matches p) xs) = set (filter (prefix_matches p) ys)" by simp
  then show "FilterPrefix xs p = FilterPrefix ys p"
    using assms unfolding FilterPrefix_def sortedIDs_def
    by (metis distinct_filter sorted_list_of_set_sort_remdups distinct_remdups_id)
qed

lemma full_prefix_bucket:
  assumes "distinct ids" "32 \<le> length p"
  shows "length (FilterPrefix ids p) \<le> 1"
proof -
  have "x = y" if "prefix_matches p x" "prefix_matches p y" for x y
    using that assms(2) by (intro nibbles_determine_ID) (simp add: prefix_matches_iff)
  then have "\<forall>x \<in> set (FilterPrefix ids p). \<forall>y \<in> set (FilterPrefix ids p). x = y" by simp
  then have "card (set (FilterPrefix ids p)) \<le> 1"
    by (metis List.finite_set card_le_Suc0_iff_eq One_nat_def)
  then show ?thesis using distinct_card [OF distinct_FilterPrefix [OF assms(1)]] by metis
qed

section \<open>The walk of the receiver\<close>

text \<open>
  One request for \<open>prefix\<close> to a peer whose inventory is \<open>remote\<close>: \<open>serveSummary\<close> answers with a leaf when the
  bucket is small, else with a summary; the receiver reads off what it lacks or descends.
\<close>

lemma set_DifferingChildren:
  "p' \<in> set (DifferingChildren (BuildSummary sha256 local p) (BuildSummary sha256 remote p)) \<longleftrightarrow>
    length p < 32 \<and> (\<exists>c < 16. p' = p @ [of_nat c] \<and>
      child_digest sha256 local p c \<noteq> child_digest sha256 remote p c)"
  by (auto simp: DifferingChildren_def BuildSummary_def)

function walk :: "(byte list \<Rightarrow> hash256) \<Rightarrow> ID list \<Rightarrow> ID list \<Rightarrow> nibbles \<Rightarrow> ID list" where
  "walk sha256 local remote prefix =
     (if length (FilterPrefix remote prefix) \<le> LeafThreshold
      then MissingIDs local (BuildLeaf sha256 remote prefix)
      else concat (map (walk sha256 local remote)
             (DifferingChildren (BuildSummary sha256 local prefix) (BuildSummary sha256 remote prefix))))"
  by pat_completeness auto
termination
  by (relation "measure (\<lambda>(h, l, r, prefix). 32 - length prefix)")
     (auto simp: set_DifferingChildren simp del: One_nat_def)

declare walk.simps [simp del]

definition reconcile :: "(byte list \<Rightarrow> hash256) \<Rightarrow> ID list \<Rightarrow> ID list \<Rightarrow> ID list" where
  "reconcile sha256 local remote = concat (map (walk sha256 local remote)
     (DifferingChildren (BuildSummary sha256 local []) (BuildSummary sha256 remote [])))"

text \<open>The number of requests the same walk sends.\<close>

function walk_requests :: "(byte list \<Rightarrow> hash256) \<Rightarrow> ID list \<Rightarrow> ID list \<Rightarrow> nibbles \<Rightarrow> nat" where
  "walk_requests sha256 local remote prefix =
     1 + (if length (FilterPrefix remote prefix) \<le> LeafThreshold then 0
          else sum_list (map (walk_requests sha256 local remote)
             (DifferingChildren (BuildSummary sha256 local prefix) (BuildSummary sha256 remote prefix))))"
  by pat_completeness auto
termination
  by (relation "measure (\<lambda>(h, l, r, prefix). 32 - length prefix)")
     (auto simp: set_DifferingChildren simp del: One_nat_def)

declare walk_requests.simps [simp del]

definition reconcile_requests :: "(byte list \<Rightarrow> hash256) \<Rightarrow> ID list \<Rightarrow> ID list \<Rightarrow> nat" where
  "reconcile_requests sha256 local remote = sum_list (map (walk_requests sha256 local remote)
     (DifferingChildren (BuildSummary sha256 local []) (BuildSummary sha256 remote [])))"

text \<open>No bucket of the two inventories differs while its truncated digest and its count agree.\<close>

definition no_collision :: "(byte list \<Rightarrow> hash256) \<Rightarrow> ID list \<Rightarrow> ID list \<Rightarrow> bool" where
  "no_collision sha256 local remote \<longleftrightarrow>
     (\<forall>p c. length p < 32 \<longrightarrow> child_digest sha256 local p c = child_digest sha256 remote p c \<longrightarrow>
        FilterPrefix local (p @ [of_nat c]) = FilterPrefix remote (p @ [of_nat c]))"

definition lacking :: "ID list \<Rightarrow> ID list \<Rightarrow> nibbles \<Rightarrow> ID set" where
  "lacking local remote p = {x \<in> set remote - set local. prefix_matches p x}"

definition differing :: "ID list \<Rightarrow> ID list \<Rightarrow> nibbles \<Rightarrow> ID set" where
  "differing local remote p =
     {x \<in> (set remote - set local) \<union> (set local - set remote). prefix_matches p x}"

lemma set_leaf_missing: "set (MissingIDs local (BuildLeaf sha256 remote p)) = lacking local remote p"
  by (auto simp: MissingIDs_def BuildLeaf_def lacking_def)

lemma walk_sound: "set (walk sha256 local remote p) \<subseteq> lacking local remote p"
proof (induction sha256 local remote p rule: walk.induct)
  case (1 sha256 local remote p)
  show ?case
  proof (cases "length (FilterPrefix remote p) \<le> LeafThreshold")
    case True
    then show ?thesis by (simp add: walk.simps [of _ _ _ p] set_leaf_missing)
  next
    case False
    have "lacking local remote p' \<subseteq> lacking local remote p"
      if "p' \<in> set (DifferingChildren (BuildSummary sha256 local p) (BuildSummary sha256 remote p))" for p'
      using that by (auto simp: set_DifferingChildren lacking_def prefix_matches_snoc)
    then show ?thesis using "1.IH" [OF False] False by (fastforce simp: walk.simps [of _ _ _ p])
  qed
qed

lemma lacking_child:
  assumes "x \<in> lacking local remote p" "length p < 32" "no_collision sha256 local remote"
  obtains p' where "x \<in> lacking local remote p'"
    and "p' \<in> set (DifferingChildren (BuildSummary sha256 local p) (BuildSummary sha256 remote p))"
proof -
  define c where "c = unat (nibbleAt x (length p))"
  have c: "c < 16" "of_nat c = nibbleAt x (length p)"
    using nibbleAt_less_16 by (simp_all add: c_def)
  let ?p = "p @ [of_nat c]"
  have x: "x \<in> lacking local remote ?p"
    using assms(1) c by (simp add: lacking_def prefix_matches_snoc)
  then have "x \<in> set (FilterPrefix remote ?p)" "x \<notin> set (FilterPrefix local ?p)"
    by (auto simp: lacking_def)
  then have "child_digest sha256 local p c \<noteq> child_digest sha256 remote p c"
    using assms(2,3) unfolding no_collision_def by metis
  then show thesis using that [OF x] c(1) assms(2) by (auto simp: set_DifferingChildren)
qed

lemma walk_complete:
  assumes "no_collision sha256 local remote" "distinct remote"
  shows "lacking local remote p \<subseteq> set (walk sha256 local remote p)"
  using assms
proof (induction sha256 local remote p rule: walk.induct)
  case (1 sha256 local remote p)
  show ?case
  proof (cases "length (FilterPrefix remote p) \<le> LeafThreshold")
    case True
    then show ?thesis by (simp add: walk.simps [of _ _ _ p] set_leaf_missing)
  next
    case False
    then have short: "length p < 32"
      using full_prefix_bucket [OF "1.prems"(2), of p] by (cases "length p < 32") auto
    show ?thesis
    proof
      fix x assume "x \<in> lacking local remote p"
      then obtain p' where "x \<in> lacking local remote p'"
        and p': "p' \<in> set (DifferingChildren (BuildSummary sha256 local p) (BuildSummary sha256 remote p))"
        using lacking_child [OF _ short "1.prems"(1)] by blast
      with "1.IH" [OF False p' "1.prems"] have "x \<in> set (walk sha256 local remote p')" by blast
      with p' False show "x \<in> set (walk sha256 local remote p)"
        by (auto simp: walk.simps [of _ _ _ p])
    qed
  qed
qed

lemma reconcile_sound: "set (reconcile sha256 local remote) \<subseteq> set remote - set local"
proof -
  have "set (walk sha256 local remote p) \<subseteq> set remote - set local" for p
    using walk_sound [of sha256 local remote p] by (auto simp: lacking_def)
  then show ?thesis by (auto simp: reconcile_def)
qed

lemma reconcile_complete:
  assumes "no_collision sha256 local remote" "distinct remote"
  shows "set remote - set local \<subseteq> set (reconcile sha256 local remote)"
proof
  fix x assume "x \<in> set remote - set local"
  then have "x \<in> lacking local remote []" by (simp add: lacking_def prefix_matches_def)
  then obtain p' where "x \<in> lacking local remote p'"
    "p' \<in> set (DifferingChildren (BuildSummary sha256 local []) (BuildSummary sha256 remote []))"
    using lacking_child [OF _ _ assms(1)] by (metis length_0_conv zero_less_numeral)
  then show "x \<in> set (reconcile sha256 local remote)"
    using walk_complete [OF assms] by (auto simp: reconcile_def)
qed

section \<open>The number of requests\<close>

lemma child_digest_cong:
  "FilterPrefix local (p @ [of_nat c]) = FilterPrefix remote (p @ [of_nat c]) \<Longrightarrow>
   child_digest sha256 local p c = child_digest sha256 remote p c"
  by (simp add: child_digest_def)

lemma differing_child:
  assumes "distinct local" "distinct remote"
    and "p' \<in> set (DifferingChildren (BuildSummary sha256 local p) (BuildSummary sha256 remote p))"
  shows "differing local remote p' \<noteq> {}"
proof
  assume none: "differing local remote p' = {}"
  obtain c where p': "p' = p @ [of_nat c]" and dig: "child_digest sha256 local p c \<noteq> child_digest sha256 remote p c"
    using assms(3) by (auto simp: set_DifferingChildren)
  have "{x \<in> set local. prefix_matches p' x} = {x \<in> set remote. prefix_matches p' x}"
    using none by (auto simp: differing_def)
  then have "FilterPrefix local p' = FilterPrefix remote p'"
    using FilterPrefix_eq_iff [OF assms(1,2)] by blast
  with dig p' show False using child_digest_cong by blast
qed

lemma finite_differing [simp]: "finite (differing local remote p)"
  by (simp add: differing_def)

lemma sum_children_differing:
  "sum_list (map (\<lambda>p'. card (differing local remote p'))
     (DifferingChildren (BuildSummary sha256 local p) (BuildSummary sha256 remote p)))
   \<le> card (differing local remote p)"
proof -
  let ?ps = "DifferingChildren (BuildSummary sha256 local p) (BuildSummary sha256 remote p)"
  have "inj_on (\<lambda>c. p @ [of_nat c :: byte]) {..<16}"
    by (auto intro!: inj_onI simp: of_nat_word_inject)
  then have dist: "distinct ?ps"
    by (auto simp: DifferingChildren_def BuildSummary_def distinct_map atLeast0LessThan intro: inj_on_subset)
  have "sum_list (map (\<lambda>p'. card (differing local remote p')) ?ps) =
      (\<Sum>p' \<in> set ?ps. card (differing local remote p'))"
    using dist by (rule sum_list_distinct_conv_sum_set)
  also have "\<dots> = card (\<Union>p' \<in> set ?ps. differing local remote p')"
    by (rule card_UN_disjoint [symmetric])
       (auto simp: set_DifferingChildren differing_def prefix_matches_snoc)
  also have "\<dots> \<le> card (differing local remote p)"
    by (rule card_mono) (auto simp: set_DifferingChildren differing_def prefix_matches_snoc)
  finally show ?thesis .
qed

lemma walk_requests_bound:
  assumes "distinct local" "distinct remote" "length p \<le> 32" "differing local remote p \<noteq> {}"
  shows "walk_requests sha256 local remote p \<le> (33 - length p) * card (differing local remote p)"
  using assms
proof (induction sha256 local remote p rule: walk_requests.induct)
  case (1 sha256 local remote p)
  let ?ps = "DifferingChildren (BuildSummary sha256 local p) (BuildSummary sha256 remote p)"
  let ?n = "card (differing local remote p)"
  have n: "1 \<le> ?n" using "1.prems"(4) by (simp add: Suc_le_eq card_gt_0_iff)
  show ?case
  proof (cases "length (FilterPrefix remote p) \<le> LeafThreshold")
    case True
    have "1 * 1 \<le> (33 - length p) * ?n" using n "1.prems"(3) by (intro mult_le_mono) auto
    then show ?thesis using True by (simp add: walk_requests.simps [of _ _ _ p])
  next
    case False
    have child: "walk_requests sha256 local remote p' \<le> (32 - length p) * card (differing local remote p')"
      if "p' \<in> set ?ps" for p'
    proof -
      have len: "length p' = Suc (length p)" "length p < 32" using that by (auto simp: set_DifferingChildren)
      then show ?thesis
        using "1.IH" [OF False that "1.prems"(1,2)] differing_child [OF "1.prems"(1,2) that] by simp
    qed
    have "sum_list (map (walk_requests sha256 local remote) ?ps) \<le>
        sum_list (map (\<lambda>p'. (32 - length p) * card (differing local remote p')) ?ps)"
      using child by (rule sum_list_mono)
    also have "\<dots> = (32 - length p) * sum_list (map (\<lambda>p'. card (differing local remote p')) ?ps)"
      by (rule sum_list_const_mult)
    also have "\<dots> \<le> (32 - length p) * ?n"
      using sum_children_differing by (rule mult_le_mono2)
    finally have "1 + sum_list (map (walk_requests sha256 local remote) ?ps) \<le> ?n + (32 - length p) * ?n"
      using n by linarith
    also have "\<dots> = (33 - length p) * ?n"
      using "1.prems"(3) by (simp add: algebra_simps Suc_diff_le flip: mult_Suc)
    finally show ?thesis using False by (simp add: walk_requests.simps [of _ _ _ p])
  qed
qed

lemma reconcile_requests_bound:
  assumes "distinct local" "distinct remote"
  shows "reconcile_requests sha256 local remote \<le>
    32 * card ((set remote - set local) \<union> (set local - set remote))"
proof -
  let ?ps = "DifferingChildren (BuildSummary sha256 local []) (BuildSummary sha256 remote [])"
  have "sum_list (map (walk_requests sha256 local remote) ?ps) \<le>
      sum_list (map (\<lambda>p'. 32 * card (differing local remote p')) ?ps)"
  proof (rule sum_list_mono)
    fix p' assume p': "p' \<in> set ?ps"
    then have "length p' = 1" by (auto simp: set_DifferingChildren)
    then show "walk_requests sha256 local remote p' \<le> 32 * card (differing local remote p')"
      using walk_requests_bound [OF assms _ differing_child [OF assms p'], of sha256] by simp
  qed
  also have "\<dots> = 32 * sum_list (map (\<lambda>p'. card (differing local remote p')) ?ps)"
    by (rule sum_list_const_mult)
  also have "\<dots> \<le> 32 * card (differing local remote [])"
    using sum_children_differing by (rule mult_le_mono2)
  also have "differing local remote [] = (set remote - set local) \<union> (set local - set remote)"
    by (auto simp: differing_def prefix_matches_def)
  finally show ?thesis by (simp only: reconcile_requests_def)
qed

section \<open>Properties\<close>

text \<open>
  C5: Reconciliation finds exactly what is missing: the receiver's walk over summaries and leaves ends with
  the identifiers the other node has and this one lacks, all of them and nothing else, unless some
  bucket differs while both its count and its truncated digest agree.
\<close>

theorem reconcile_finds_missing:
  assumes "no_collision sha256 local remote" and "distinct remote"
  shows "set (reconcile sha256 local remote) = set remote - set local"
  using reconcile_sound reconcile_complete [OF assms] by blast

theorem reconcile_finds_missing_witness:
  "set (reconcile (\<lambda>_. copy_array []) [] [copy_array [1]]) = {copy_array [1]}"
proof -
  have "length (FilterPrefix [copy_array [1]] p) \<le> 1" for p by (simp add: FilterPrefix_def sortedIDs_def)
  moreover have "n \<le> 1 \<Longrightarrow> (of_nat n :: 16 word) = 0 \<Longrightarrow> n = 0" for n by (cases n) auto
  ultimately have "no_collision (\<lambda>_. copy_array []) [] [copy_array [1]]"
    by (auto simp: no_collision_def child_digest_def Let_def FilterPrefix_def sortedIDs_def split: if_splits)
  then have "set (reconcile (\<lambda>_. copy_array []) [] [copy_array [1]]) = set [copy_array [1]] - set []"
    by (rule reconcile_finds_missing) simp
  then show ?thesis by simp
qed

text \<open>
  C22: Reconciliation is cheap and safe even when digests collide: with any hash function the walk asks at
  most 32 requests per identifier on which the two inventories differ, none when they agree, and never
  reports an identifier the other node does not have or this one already has.
\<close>

theorem reconcile_cost_and_safety:
  assumes "distinct local" and "distinct remote"
  shows "reconcile_requests sha256 local remote
      \<le> 32 * card ((set remote - set local) \<union> (set local - set remote)) \<and>
    set (reconcile sha256 local remote) \<subseteq> set remote - set local"
  using reconcile_requests_bound [OF assms] reconcile_sound by blast

theorem reconcile_cost_and_safety_witness:
  "reconcile_requests (\<lambda>_. copy_array []) [copy_array [1]] [copy_array [1], copy_array [2]] \<le> 32"
proof -
  have "copy_array [1] \<noteq> (copy_array [2] :: ID)" by (simp add: array_eq_iff array_bytes_copy)
  then have d: "distinct [copy_array [1] :: ID, copy_array [2]]"
    and s: "(set [copy_array [1], copy_array [2]] - set [copy_array [1]]) \<union>
        (set [copy_array [1]] - set [copy_array [1], copy_array [2]]) = {copy_array [2] :: ID}" by auto
  from reconcile_cost_and_safety [of "[copy_array [1]]", OF _ d] show ?thesis unfolding s by simp
qed

text \<open>
  The summary and the leaf of a prefix depend on the set of publications only, not on the order the
  store lists them in, and the children partition the bucket: every identifier below a prefix lies in
  exactly one child, the child of its next nibble.
\<close>

theorem summary_children_partition:
  assumes "length prefix < 32" and "distinct ids" and "distinct ids'" and "set ids = set ids'"
  shows "BuildSummary sha256 ids prefix = BuildSummary sha256 ids' prefix \<and>
    BuildLeaf sha256 ids prefix = BuildLeaf sha256 ids' prefix \<and>
    set (FilterPrefix ids prefix) = (\<Union>c<16. set (FilterPrefix ids (prefix @ [of_nat c]))) \<and>
    (\<forall>c<16. \<forall>c'<16. c \<noteq> c' \<longrightarrow>
       set (FilterPrefix ids (prefix @ [of_nat c])) \<inter> set (FilterPrefix ids (prefix @ [of_nat c'])) = {})"
proof -
  have bucket: "FilterPrefix ids p = FilterPrefix ids' p" for p
    using FilterPrefix_eq_iff [OF assms(2,3)] assms(4) by simp
  then have "sortedIDs ids = sortedIDs ids'" using bucket [of "[]"] by (simp add: FilterPrefix_Nil sortedIDs_def)
  with bucket have same: "BuildSummary sha256 ids prefix = BuildSummary sha256 ids' prefix"
    "BuildLeaf sha256 ids prefix = BuildLeaf sha256 ids' prefix"
    by (simp_all add: BuildSummary_def BuildLeaf_def InventoryGeneration_def child_digest_def)
  have "\<exists>c<16. nibbleAt x (length prefix) = of_nat c" for x
    using nibbleAt_less_16 [of x "length prefix"] by (metis ucast_id of_nat_unat)
  then have "set (FilterPrefix ids prefix) = (\<Union>c<16. set (FilterPrefix ids (prefix @ [of_nat c])))"
    by (auto simp: prefix_matches_snoc)
  moreover have "\<forall>c<16. \<forall>c'<16. c \<noteq> c' \<longrightarrow>
       set (FilterPrefix ids (prefix @ [of_nat c])) \<inter> set (FilterPrefix ids (prefix @ [of_nat c'])) = {}"
    by (auto simp: prefix_matches_snoc of_nat_word_inject)
  ultimately show ?thesis using same by blast
qed

theorem summary_children_partition_witness:
  "BuildSummary (\<lambda>_. copy_array []) [copy_array [1], copy_array [2]] [0] =
   BuildSummary (\<lambda>_. copy_array []) [copy_array [2], copy_array [1]] [0]"
proof -
  have "copy_array [1] \<noteq> (copy_array [2] :: ID)" by (simp add: array_eq_iff array_bytes_copy)
  then show ?thesis
    using summary_children_partition [of "[0]" "[copy_array [1], copy_array [2]]" "[copy_array [2], copy_array [1]]"
        "\<lambda>_. copy_array []"]
    by (auto simp: insert_commute)
qed

end
