(* ===== verification/Node_Protocol.thy ===== *)
theory Node_Protocol
  imports Radix Modem_Protocol
begin

text \<open>
  \<open>internal/node/protocol.go\<close>: the GN radio packets. A 14-byte envelope (magic, version, type, source,
  destination, transaction) carries the bodies of reconciliation (packed nibble prefixes, summaries,
  leaves), inspection (manifest, signature) and transfer (chunk requests, chunks), and the legacy
  inventory pages.

  Lemmas: the envelope is a canonical format; each body decodes to what was encoded; the packed prefix,
  the summary and the leaf are canonical too (no two packets say the same); every summary and leaf the
  node can build fits the 200-byte packet, with the sizes the protocol document gives.
\<close>

section \<open>Envelope\<close>

definition gn_Version :: byte where [simp]: "gn_Version = 3"
definition gn_HeaderSize :: nat where [simp]: "gn_HeaderSize = 14"
definition InventoryFixedSize :: nat where [simp]: "InventoryFixedSize = 9"
definition IDsPerInventoryPage :: nat where
  [simp]: "IDsPerInventoryPage = (MaxPacketSize - gn_HeaderSize - InventoryFixedSize) div 16"
definition MaxChunkBatch :: nat where [simp]: "MaxChunkBatch = 4"

type_synonym NodeID = "32 word"

definition Broadcast :: NodeID where [simp]: "Broadcast = 0xffffffff"

definition gnInventory :: byte where [simp]: "gnInventory = 1"
definition gnGetManifest :: byte where [simp]: "gnGetManifest = 2"
definition gnManifest :: byte where [simp]: "gnManifest = 3"
definition gnGetChunks :: byte where [simp]: "gnGetChunks = 4"
definition gnChunk :: byte where [simp]: "gnChunk = 5"
definition gnError :: byte where [simp]: "gnError = 6"
definition gnSummaryRequest :: byte where [simp]: "gnSummaryRequest = 7"
definition gnSummary :: byte where [simp]: "gnSummary = 8"
definition gnLeaf :: byte where [simp]: "gnLeaf = 9"
definition gnGetSignature :: byte where [simp]: "gnGetSignature = 10"
definition gnSignature :: byte where [simp]: "gnSignature = 11"

record NodePacket =
  np_Type :: byte
  np_Source :: NodeID
  np_Destination :: NodeID
  np_Transaction :: "16 word"
  np_Body :: "byte list"

definition Encode :: "NodePacket \<Rightarrow> go_error + byte list" where
  "Encode packet =
     (if length (np_Body packet) + gn_HeaderSize > MaxPacketSize then Inl NodeMalformed
      else Inr ([0x47, 0x4e, gn_Version, np_Type packet] @ le32 (np_Source packet) @
                le32 (np_Destination packet) @ le16 (np_Transaction packet) @ np_Body packet))"

definition Decode :: "byte list \<Rightarrow> go_error + NodePacket" where
  "Decode b =
     (if length b < gn_HeaderSize \<or> length b > MaxPacketSize \<or>
         b ! 0 \<noteq> 0x47 \<or> b ! 1 \<noteq> 0x4e \<or> b ! 2 \<noteq> gn_Version
      then Inl NodeMalformed
      else Inr \<lparr>np_Type = b ! 3, np_Source = uint32_le (gslice b 4 8),
                np_Destination = uint32_le (gslice b 8 12),
                np_Transaction = uint16_le (gslice b 12 14), np_Body = drop 14 b\<rparr>)"

abbreviation gn_packet :: "byte \<Rightarrow> NodeID \<Rightarrow> NodeID \<Rightarrow> 16 word \<Rightarrow> byte list \<Rightarrow> NodePacket" where
  "gn_packet t source destination tx body \<equiv>
     \<lparr>np_Type = t, np_Source = source, np_Destination = destination, np_Transaction = tx, np_Body = body\<rparr>"

section \<open>Legacy inventory pages\<close>

record Inventory =
  i_Generation :: "32 word"
  i_Page :: "16 word"
  i_Pages :: "16 word"
  i_IDs :: "ID list"

definition InventoryPages :: "ID list \<Rightarrow> Inventory list" where
  "InventoryPages ids =
     (let ids = sort ids;
          generation = ChecksumIEEE (concat (map array_bytes ids));
          pages = (length ids + IDsPerInventoryPage - 1) div IDsPerInventoryPage;
          pages = (if pages = 0 then 1 else pages)
      in map (\<lambda>page. let start = page * IDsPerInventoryPage;
                         end = min (start + IDsPerInventoryPage) (length ids)
                     in \<lparr>i_Generation = generation, i_Page = of_nat page, i_Pages = of_nat pages,
                         i_IDs = gslice ids start end\<rparr>) [0..<pages])"

definition EncodeInventory :: "NodeID \<Rightarrow> Inventory \<Rightarrow> go_error + byte list" where
  "EncodeInventory source inventory =
     (if i_Pages inventory = 0 \<or> i_Page inventory \<ge> i_Pages inventory \<or>
         length (i_IDs inventory) > IDsPerInventoryPage
      then Inl NodeMalformed
      else Encode (gn_packet gnInventory source Broadcast 0
             (le32 (i_Generation inventory) @ le16 (i_Page inventory) @ le16 (i_Pages inventory) @
              [of_nat (length (i_IDs inventory))] @ concat (map array_bytes (i_IDs inventory)))))"

definition read_ids :: "nat \<Rightarrow> byte list \<Rightarrow> ID list" where
  "read_ids count tail = map (\<lambda>i. copy_array (take 16 (drop (i * 16) tail))) [0..<count]"

definition DecodeInventory :: "NodePacket \<Rightarrow> go_error + Inventory" where
  "DecodeInventory packet =
     (let body = np_Body packet in
      if np_Type packet \<noteq> gnInventory \<or> np_Destination packet \<noteq> Broadcast \<or>
         length body < InventoryFixedSize \<or> unat (body ! 8) > IDsPerInventoryPage \<or>
         length body \<noteq> InventoryFixedSize + unat (body ! 8) * 16
      then Inl NodeMalformed
      else let page = uint16_le (gslice body 4 6); pages = uint16_le (gslice body 6 8) in
        if pages = 0 \<or> page \<ge> pages then Inl NodeMalformed
        else Inr \<lparr>i_Generation = uint32_le (take 4 body), i_Page = page, i_Pages = pages,
                  i_IDs = read_ids (unat (body ! 8)) (drop 9 body)\<rparr>)"

section \<open>Inspection and transfer bodies\<close>

definition EncodeIDRequest :: "byte \<Rightarrow> NodeID \<Rightarrow> NodeID \<Rightarrow> 16 word \<Rightarrow> ID \<Rightarrow> go_error + byte list" where
  "EncodeIDRequest kind source destination tx pid =
     Encode (gn_packet kind source destination tx (array_bytes pid))"

definition DecodeIDBody :: "NodePacket \<Rightarrow> go_error + ID" where
  "DecodeIDBody packet =
     (if length (np_Body packet) \<noteq> 16 then Inl NodeMalformed else Inr (copy_array (np_Body packet)))"

definition gn_EncodeManifest :: "NodeID \<Rightarrow> NodeID \<Rightarrow> 16 word \<Rightarrow> Manifest \<Rightarrow> go_error + byte list" where
  "gn_EncodeManifest source destination tx m = bind_err (EncodeManifest m) (\<lambda>legacy.
     case DecodePacket legacy of
       Inl _ \<Rightarrow> Encode (gn_packet gnManifest source destination tx []) \<comment> \<open>the error is dropped\<close>
     | Inr p \<Rightarrow> Encode (gn_packet gnManifest source destination tx (packet_Body p)))"

definition gn_DecodeManifest :: "NodePacket \<Rightarrow> ID \<Rightarrow> go_error + Manifest" where
  "gn_DecodeManifest packet pid =
     (if np_Type packet \<noteq> gnManifest then Inl NodeMalformed
      else DecodeManifest \<lparr>packet_Type = TypeManifest, packet_ID = pid, packet_Body = np_Body packet\<rparr>)"

definition EncodeSignatureRequest :: "NodeID \<Rightarrow> NodeID \<Rightarrow> 16 word \<Rightarrow> ID \<Rightarrow> go_error + byte list" where
  "EncodeSignatureRequest source destination tx pid =
     EncodeIDRequest gnGetSignature source destination tx pid"

definition EncodeSignature ::
  "NodeID \<Rightarrow> NodeID \<Rightarrow> 16 word \<Rightarrow> Signature option \<Rightarrow> go_error + byte list" where
  "EncodeSignature source destination tx signature =
     Encode (gn_packet gnSignature source destination tx
       (case signature of None \<Rightarrow> [0]
        | Some s \<Rightarrow> [1] @ array_bytes (PublicKey s) @ array_bytes (sig_Value s)))"

definition DecodeSignature :: "NodePacket \<Rightarrow> go_error + Signature option" where
  "DecodeSignature packet =
     (let body = np_Body packet in
      if np_Type packet \<noteq> gnSignature \<or> length body < 1 then Inl NodeMalformed
      else if body ! 0 = 0 then (if length body \<noteq> 1 then Inl NodeMalformed else Inr None)
      else if body ! 0 \<noteq> 1 \<or> length body \<noteq> 97 then Inl NodeMalformed
      else Inr (Some \<lparr>PublicKey = copy_array (gslice body 1 33), sig_Value = copy_array (gslice body 33 97)\<rparr>))"

record ChunkRequest =
  cr_ID :: ID
  cr_Base :: "16 word"
  cr_Bitmap :: byte

text \<open>\<open>bits\<close>: the loop that counts the set bits of a byte.\<close>

function bits :: "byte \<Rightarrow> nat" where
  "bits v = (if v > 0 then unat (v AND 1) + bits (drop_bit 1 v) else 0)"
  by pat_completeness auto
termination
  by (relation "measure unat") (auto simp: drop_bit_eq_div unat_div word_less_nat_alt)

declare bits.simps [simp del]

definition EncodeChunkRequest :: "NodeID \<Rightarrow> NodeID \<Rightarrow> 16 word \<Rightarrow> ChunkRequest \<Rightarrow> go_error + byte list" where
  "EncodeChunkRequest source destination tx r =
     (if bits (cr_Bitmap r) > MaxChunkBatch then Inl NodeMalformed
      else Encode (gn_packet gnGetChunks source destination tx
             (array_bytes (cr_ID r) @ le16 (cr_Base r) @ [cr_Bitmap r])))"

definition DecodeChunkRequest :: "NodePacket \<Rightarrow> go_error + ChunkRequest" where
  "DecodeChunkRequest packet =
     (let body = np_Body packet in
      if np_Type packet \<noteq> gnGetChunks \<or> length body \<noteq> 19 \<or> bits (body ! 18) > MaxChunkBatch
      then Inl NodeMalformed
      else Inr \<lparr>cr_ID = copy_array (take 16 body), cr_Base = uint16_le (gslice body 16 18),
                cr_Bitmap = body ! 18\<rparr>)"

definition gn_EncodeChunk :: "NodeID \<Rightarrow> NodeID \<Rightarrow> 16 word \<Rightarrow> 16 word \<Rightarrow> byte list \<Rightarrow> go_error + byte list" where
  "gn_EncodeChunk source destination tx index data =
     (if length data > ChunkDataSize then Inl NodeMalformed
      else Encode (gn_packet gnChunk source destination tx (le16 index @ data)))"

definition gn_DecodeChunk :: "NodePacket \<Rightarrow> go_error + 16 word \<times> byte list" where
  "gn_DecodeChunk packet =
     (let body = np_Body packet in
      if np_Type packet \<noteq> gnChunk \<or> length body < 2 \<or> length body - 2 > ChunkDataSize
      then Inl NodeMalformed
      else Inr (uint16_le (take 2 body), drop 2 body))"

section \<open>Packed prefixes, summaries and leaves\<close>

text \<open>The loop of \<open>encodePrefix\<close> from nibble \<open>i\<close> on.\<close>

fun pack_nibbles :: "nat \<Rightarrow> nibbles \<Rightarrow> byte list \<Rightarrow> go_error + byte list" where
  "pack_nibbles i [] body = Inr body"
| "pack_nibbles i (nibble # prefix) body =
     (if nibble > 15 then Inl NodeMalformed
      else pack_nibbles (Suc i) prefix
        (if i mod 2 = 0 then body[5 + i div 2 := push_bit 4 nibble]
         else body[5 + i div 2 := body ! (5 + i div 2) OR nibble]))"

definition encodePrefix :: "32 word \<Rightarrow> nibbles \<Rightarrow> go_error + byte list" where
  "encodePrefix generation prefix =
     (if length prefix > 32 then Inl NodeMalformed
      else pack_nibbles 0 prefix
        (le32 generation @ [of_nat (length prefix)] @ replicate ((length prefix + 1) div 2) 0))"

definition decodePrefixWithTail :: "byte list \<Rightarrow> nat \<Rightarrow> go_error + 32 word \<times> nibbles" where
  "decodePrefixWithTail body tail =
     (if length body < 5 then Inl NodeMalformed
      else let depth = unat (body ! 4) in
        if depth > 32 \<or> length body \<noteq> 5 + (depth + 1) div 2 + tail then Inl NodeMalformed
        else let prefix = map (\<lambda>i. let packed = body ! (5 + i div 2) in
                                  if i mod 2 = 0 then drop_bit 4 packed else packed AND 15) [0..<depth] in
          if depth mod 2 = 1 \<and> body ! (5 + depth div 2) AND 15 \<noteq> 0 then Inl NodeMalformed
          else Inr (uint32_le (take 4 body), prefix))"

definition decodePrefix :: "byte list \<Rightarrow> go_error + 32 word \<times> nibbles" where
  "decodePrefix body =
     (if length body < 5 then Inl NodeMalformed
      else let required = 5 + (unat (body ! 4) + 1) div 2 in
        if required > length body then Inl NodeMalformed
        else decodePrefixWithTail body (length body - required))"

definition EncodeSummaryRequest ::
  "NodeID \<Rightarrow> NodeID \<Rightarrow> 16 word \<Rightarrow> 32 word \<Rightarrow> nibbles \<Rightarrow> go_error + byte list" where
  "EncodeSummaryRequest source destination tx generation prefix =
     bind_err (encodePrefix generation prefix) (\<lambda>body.
       Encode (gn_packet gnSummaryRequest source destination tx body))"

definition DecodeSummaryRequest :: "NodePacket \<Rightarrow> go_error + 32 word \<times> nibbles" where
  "DecodeSummaryRequest packet =
     (if np_Type packet \<noteq> gnSummaryRequest then Inl NodeMalformed else decodePrefix (np_Body packet))"

definition put_child :: "ChildDigest \<Rightarrow> byte list" where
  "put_child child = le16 (cd_Count child) @ le64 (cd_Digest child)"

definition EncodeSummary :: "NodeID \<Rightarrow> NodeID \<Rightarrow> 16 word \<Rightarrow> RadixSummary \<Rightarrow> go_error + byte list" where
  "EncodeSummary source destination tx summary =
     (if length (s_Prefix summary) \<ge> 32 then Inl NodeMalformed
      else bind_err (encodePrefix (s_Generation summary) (s_Prefix summary)) (\<lambda>body.
        Encode (gn_packet gnSummary source destination tx
          (body @ concat (map put_child (s_Children summary))))))"

definition get_child :: "byte list \<Rightarrow> nat \<Rightarrow> ChildDigest" where
  "get_child body offset = \<lparr>cd_Count = uint16_le (gslice body offset (offset + 2)),
     cd_Digest = uint64_le (gslice body (offset + 2) (offset + 10))\<rparr>"

definition DecodeSummary :: "NodePacket \<Rightarrow> go_error + RadixSummary" where
  "DecodeSummary packet =
     (if np_Type packet \<noteq> gnSummary then Inl NodeMalformed
      else bind_err (decodePrefixWithTail (np_Body packet) 160) (\<lambda>(generation, prefix).
        if length prefix \<ge> 32 then Inl NodeMalformed
        else let offset = 5 + (length prefix + 1) div 2 in
          Inr \<lparr>s_Generation = generation, s_Prefix = prefix,
               s_Children = map (\<lambda>i. get_child (np_Body packet) (offset + i * 10)) [0..<16]\<rparr>))"

definition EncodeLeaf :: "NodeID \<Rightarrow> NodeID \<Rightarrow> 16 word \<Rightarrow> RadixLeaf \<Rightarrow> go_error + byte list" where
  "EncodeLeaf source destination tx leaf =
     (if length (l_IDs leaf) > LeafThreshold then Inl NodeMalformed
      else bind_err (encodePrefix (l_Generation leaf) (l_Prefix leaf)) (\<lambda>body.
        Encode (gn_packet gnLeaf source destination tx
          (body @ [of_nat (length (l_IDs leaf))] @ concat (map array_bytes (l_IDs leaf))))))"

definition DecodeLeaf :: "NodePacket \<Rightarrow> go_error + RadixLeaf" where
  "DecodeLeaf packet =
     (let body = np_Body packet in
      if np_Type packet \<noteq> gnLeaf \<or> length body < 6 then Inl NodeMalformed
      else bind_err (decodePrefix body) (\<lambda>(generation, prefix).
        let offset = 5 + (length prefix + 1) div 2 in
        if offset \<ge> length body then Inl NodeMalformed
        else let count = unat (body ! offset); offset = offset + 1 in
          if count > LeafThreshold \<or> length body \<noteq> offset + count * 16 then Inl NodeMalformed
          else Inr \<lparr>l_Generation = generation, l_Prefix = prefix,
                    l_IDs = read_ids count (drop offset body)\<rparr>))"

section \<open>The envelope is canonical\<close>

lemma Decode_Encode: "Encode p = Inr b \<Longrightarrow> Decode b = Inr p"
  by (cases p) (auto simp: Encode_def Decode_def gslice_def nth_append get_put_le split: if_splits)

lemma Encode_Decode: "Decode b = Inr p \<Longrightarrow> Encode p = Inr b"
proof -
  assume dec: "Decode b = Inr p"
  then have len: "14 \<le> length b" "length b \<le> 200" and hd: "b ! 0 = 0x47" "b ! 1 = 0x4e" "b ! 2 = 3"
    and p: "p = gn_packet (b ! 3) (uint32_le (gslice b 4 8)) (uint32_le (gslice b 8 12))
                 (uint16_le (gslice b 12 14)) (drop 14 b)"
    by (auto simp: Decode_def split: if_splits)
  have "take 4 b = [0x47, 0x4e, 3, b ! 3]"
    using hd len by (simp add: list_eq_iff_nth_eq nth_Cons' numeral_eq_Suc less_Suc_eq)
  then have "[0x47, 0x4e, 3, b ! 3] @ gslice b 4 8 @ gslice b 8 12 @ gslice b 12 14 @ drop 14 b =
      gslice b 0 4 @ gslice b 4 8 @ gslice b 8 12 @ gslice b 12 14 @ gslice b 14 (length b)"
    by (simp add: gslice_to_length gslice_from_0)
  also have "\<dots> = b" using len by (simp add: gslice_cover) (simp add: gslice_def)
  finally show ?thesis using p len by (simp add: Encode_def put_get_le)
qed

interpretation gn: canonical_format Encode Decode
  by unfold_locales (rule Decode_Encode Encode_Decode, assumption)+

lemma Encode_Inr_iff: "Encode p = Inr b \<longleftrightarrow> Decode b = Inr p"
  by (rule gn.dec_iff [symmetric])

lemma Encode_total: "length (np_Body p) \<le> 186 \<Longrightarrow> \<exists>b. Encode p = Inr b \<and> length b = 14 + length (np_Body p)"
  by (simp add: Encode_def)

text \<open>A body format inside the envelope: what the packet-level round trips rest on.\<close>

lemma enveloped:
  assumes "Encode (gn_packet t s d x body) = Inr b" "f (gn_packet t s d x body) = Inr v"
  shows "bind_err (Decode b) f = Inr v"
  using Decode_Encode [OF assms(1)] assms(2) by simp

section \<open>Packed nibbles\<close>

fun packed :: "nibbles \<Rightarrow> byte list" where
  "packed [] = []"
| "packed [a] = [push_bit 4 a]"
| "packed (a # b # p) = (push_bit 4 a OR b) # packed p"

definition nibble_in :: "byte list \<Rightarrow> nat \<Rightarrow> byte" where
  "nibble_in bs i = (if i mod 2 = 0 then drop_bit 4 (bs ! (i div 2)) else bs ! (i div 2) AND 15)"

lemma length_packed [simp]: "length (packed p) = (length p + 1) div 2"
  by (induction p rule: packed.induct) auto

lemma and_15: "(x :: byte) AND 15 = take_bit 4 x"
  by (simp add: take_bit_eq_mask mask_numeral)

lemma nibble_le_15: "(n :: byte) \<le> 15 \<longleftrightarrow> take_bit 4 n = n"
proof
  assume "n \<le> 15"
  then have "n < 2 ^ 4" by (simp add: word_less_nat_alt word_le_nat_alt)
  then show "take_bit 4 n = n" by (simp add: less_mask_eq take_bit_eq_mask)
next
  assume "take_bit 4 n = n"
  then show "n \<le> 15" by (metis and_15 word_and_le1)
qed

lemma nibble_bit: "(n :: byte) \<le> 15 \<Longrightarrow> bit n k \<Longrightarrow> k < 4"
  by (metis nibble_le_15 bit_take_bit_iff)

lemma high_nibble: "m \<le> 15 \<Longrightarrow> n \<le> 15 \<Longrightarrow> drop_bit 4 (push_bit 4 n OR m) = (n :: byte)"
  by (rule bit_word_eqI) (auto simp: bit_simps dest: nibble_bit)

lemma low_nibble: "m \<le> 15 \<Longrightarrow> (push_bit 4 n OR m) AND 15 = (m :: byte)"
  unfolding and_15 by (rule bit_word_eqI) (auto simp: bit_simps dest: nibble_bit)

lemma join_nibbles: "push_bit 4 (drop_bit 4 x) OR (x AND 15) = (x :: byte)"
  unfolding and_15 by (rule bit_word_eqI) (auto simp: bit_simps not_less)

lemma drop_nibble_le: "drop_bit 4 (x :: byte) \<le> 15"
  unfolding nibble_le_15 by (rule bit_word_eqI) (auto simp: bit_simps dest: bit_imp_le_length)

lemma nibble_in_le: "nibble_in bs i \<le> 15"
  by (simp add: nibble_in_def drop_nibble_le word_and_le1)

lemma nibble_in_Cons [simp]:
  "nibble_in (x # bs) 0 = drop_bit 4 x"
  "nibble_in (x # bs) (Suc 0) = x AND 15"
  "nibble_in (x # bs) (Suc (Suc i)) = nibble_in bs i"
  by (simp_all add: nibble_in_def)

lemma upt_two: "[0..<Suc (Suc n)] = 0 # Suc 0 # map (\<lambda>i. Suc (Suc i)) [0..<n]"
  by (induction n) auto

lemma nibble_in_packed:
  assumes "\<forall>n \<in> set p. n \<le> 15" "i < length p"
  shows "nibble_in (packed p) i = p ! i"
  using assms
proof (induction p arbitrary: i rule: packed.induct)
  case 1
  then show ?case by simp
next
  case (2 a)
  then show ?case using high_nibble [of 0 a] by simp
next
  case (3 a b p)
  consider "i = 0" | "i = Suc 0" | j where "i = Suc (Suc j)" by (metis not0_implies_Suc)
  then show ?case using "3.IH" "3.prems" high_nibble [of b a] low_nibble [of b a] by cases simp_all
qed

lemma packed_nibble_in:
  assumes "length bs = (d + 1) div 2" "odd d \<Longrightarrow> bs ! (d div 2) AND 15 = 0"
  shows "packed (map (nibble_in bs) [0..<d]) = bs"
  using assms
proof (induction bs arbitrary: d)
  case Nil
  then show ?case by simp
next
  case (Cons x bs)
  consider "d = 1" | e where "d = Suc (Suc e)"
    using Cons.prems(1) by (cases d; cases "d - 1") auto
  then show ?case
  proof cases
    case 1
    then have "bs = []" "x AND 15 = 0" using Cons.prems by auto
    then show ?thesis using 1 join_nibbles [of x] by simp
  next
    case 2
    have "packed (map (nibble_in bs) [0..<e]) = bs"
      by (rule Cons.IH) (use 2 Cons.prems in auto)
    moreover have "map (nibble_in (x # bs)) [0..<d] =
        drop_bit 4 x # (x AND 15) # map (nibble_in bs) [0..<e]"
      unfolding 2 upt_two by simp
    ultimately show ?thesis by (simp add: join_nibbles)
  qed
qed

lemma pack_nibbles_iff:
  assumes "length pre = 5 + i div 2" "even i"
  shows "pack_nibbles i p (pre @ replicate ((length p + 1) div 2) 0) = Inr b \<longleftrightarrow>
    (\<forall>n \<in> set p. n \<le> 15) \<and> b = pre @ packed p"
  using assms
proof (induction p arbitrary: i pre rule: packed.induct)
  case 1
  then show ?case by auto
next
  case (2 a)
  then show ?case by (auto simp: list_update_append not_less)
next
  case (3 a c p)
  then have odd: "Suc i mod 2 = 1" "Suc i div 2 = i div 2" by auto
  have "pack_nibbles (Suc (Suc i)) p
      ((pre @ [push_bit 4 a OR c]) @ replicate ((length p + 1) div 2) 0) = Inr b \<longleftrightarrow>
    (\<forall>n \<in> set p. n \<le> 15) \<and> b = (pre @ [push_bit 4 a OR c]) @ packed p"
    by (rule "3.IH") (use "3.prems" in simp_all)
  then show ?case
    using "3.prems" odd by (auto simp: list_update_append nth_append not_less)
qed

lemma encodePrefix_iff:
  "encodePrefix g p = Inr b \<longleftrightarrow> length p \<le> 32 \<and> (\<forall>n \<in> set p. n \<le> 15) \<and>
     b = le32 g @ [of_nat (length p)] @ packed p"
  using pack_nibbles_iff [of "le32 g @ [of_nat (length p)]" 0 p b]
  by (auto simp: encodePrefix_def)

lemma length_encodePrefix: "encodePrefix g p = Inr b \<Longrightarrow> length b = 5 + (length p + 1) div 2"
  by (auto simp: encodePrefix_iff)

text \<open>
  The prefix header is canonical: a body decodes, with a tail of the given length, to a generation and a
  prefix exactly when it begins with the encoding of them.
\<close>

lemma decodePrefixWithTail_iff:
  "decodePrefixWithTail body t = Inr (g, p) \<longleftrightarrow>
     (\<exists>hd tl. encodePrefix g p = Inr hd \<and> body = hd @ tl \<and> length tl = t)"
proof
  assume dec: "decodePrefixWithTail body t = Inr (g, p)"
  define d where "d = unat (body ! 4)"
  let ?bs = "gslice body 5 (5 + (d + 1) div 2)"
  have len: "length body = 5 + (d + 1) div 2 + t" and d: "d \<le> 32"
    and odd: "odd d \<Longrightarrow> body ! (5 + d div 2) AND 15 = 0" and g: "g = uint32_le (take 4 body)"
    and p: "p = map (\<lambda>i. let x = body ! (5 + i div 2) in if i mod 2 = 0 then drop_bit 4 x else x AND 15) [0..<d]"
    using dec by (auto simp: decodePrefixWithTail_def Let_def d_def odd_iff_mod_2_eq_one split: if_splits)
  have at: "?bs ! (i div 2) = body ! (5 + i div 2)" if "i < d" for i
    using that len by (intro gslice_nth) auto
  have each: "(let x = body ! (5 + i div 2) in if i mod 2 = 0 then drop_bit 4 x else x AND 15) =
      nibble_in ?bs i" if "i < d" for i
    by (simp only: nibble_in_def Let_def at [OF that])
  have p': "p = map (nibble_in ?bs) [0..<d]"
    unfolding p by (rule map_cong [OF refl], rule each) simp
  have "odd d \<Longrightarrow> ?bs ! (d div 2) = body ! (5 + d div 2)"
    using len by (intro gslice_nth) (auto elim!: oddE)
  then have "packed p = ?bs"
    unfolding p' using len odd by (intro packed_nibble_in) auto
  moreover have "(of_nat d :: byte) = body ! 4" by (simp add: d_def)
  moreover have "le32 g = take 4 body" using g len by (simp add: put_get_le)
  ultimately have enc: "encodePrefix g p = Inr (take 4 body @ [body ! 4] @ ?bs)"
    using d by (simp add: encodePrefix_iff) (simp add: p' nibble_in_le)
  have "take 4 body @ [body ! 4] @ ?bs = gslice body 0 4 @ gslice body 4 5 @ ?bs"
    using len by (simp add: gslice_from_0) (simp add: gslice_def list_eq_iff_nth_eq)
  also have "\<dots> = gslice body 0 (5 + (d + 1) div 2)" by (simp add: gslice_cover)
  also have "\<dots> = take (5 + (d + 1) div 2) body" by (rule gslice_from_0)
  finally show "\<exists>hd tl. encodePrefix g p = Inr hd \<and> body = hd @ tl \<and> length tl = t"
    using enc len by (intro exI [of _ "take (5 + (d + 1) div 2) body"] exI [of _ "drop (5 + (d + 1) div 2) body"]) simp
next
  assume "\<exists>hd tl. encodePrefix g p = Inr hd \<and> body = hd @ tl \<and> length tl = t"
  then obtain tl where p: "length p \<le> 32" "\<forall>n \<in> set p. n \<le> 15" and t: "length tl = t"
    and body: "body = (le32 g @ [of_nat (length p)] @ packed p) @ tl"
    by (auto simp: encodePrefix_iff)
  have four: "body ! 4 = of_nat (length p)" and d: "unat (body ! 4) = length p"
    using p(1) by (simp_all add: body nth_append unat_of_nat_fits)
  have at: "body ! (5 + j) = packed p ! j" if "j < length (packed p)" for j
    using that by (simp add: body nth_append)
  have each: "(let x = body ! (5 + i div 2) in if i mod 2 = 0 then drop_bit 4 x else x AND 15) = p ! i"
    if "i < length p" for i
    using nibble_in_packed [OF p(2) that] that at [of "i div 2"] by (simp add: nibble_in_def Let_def)
  have all: "map (\<lambda>i. let x = body ! (5 + i div 2) in if i mod 2 = 0 then drop_bit 4 x else x AND 15) [0..<length p] = p"
    by (rule nth_equalityI) (simp_all add: each del: Let_def)
  have last: "body ! (5 + length p div 2) AND 15 = 0" if "odd (length p)"
  proof -
    have "packed p ! (length p div 2) AND 15 = 0"
      using that p(2)
    proof (induction p rule: packed.induct)
      case (2 a)
      then show ?case using low_nibble [of 0 a] by simp
    qed auto
    then show ?thesis using that at [of "length p div 2"] by (auto elim!: oddE)
  qed
  have "length body = 5 + (length p + 1) div 2 + t" "take 4 body = le32 g"
    using t by (simp_all add: body)
  then show "decodePrefixWithTail body t = Inr (g, p)"
    using p(1) last unfolding decodePrefixWithTail_def d Let_def [of "length p"] all
    by (cases "odd (length p)") (simp_all add: get_put_le odd_iff_mod_2_eq_one)
qed

lemma decodePrefix_iff:
  "decodePrefix body = Inr (g, p) \<longleftrightarrow> (\<exists>hd tl. encodePrefix g p = Inr hd \<and> body = hd @ tl)"
proof -
  have "decodePrefix body = Inr (g, p) \<longleftrightarrow> (\<exists>t. decodePrefixWithTail body t = Inr (g, p))"
    by (auto simp: decodePrefix_def decodePrefixWithTail_def Let_def not_less le_iff_add split: if_splits)
  then show ?thesis by (auto simp: decodePrefixWithTail_iff)
qed

lemma encodePrefix_total: "length p \<le> 32 \<Longrightarrow> \<forall>n \<in> set p. n \<le> 15 \<Longrightarrow> \<exists>b. encodePrefix g p = Inr b"
  by (simp add: encodePrefix_iff)

section \<open>Fixed-size fields in a row\<close>

lemma length_concat_const: "\<forall>x \<in> set xs. length (f x) = n \<Longrightarrow> length (concat (map f xs)) = length xs * n"
  by (induction xs) auto

lemma nth_field:
  assumes "\<forall>x \<in> set xs. length (f x) = n" "i < length xs"
  shows "take n (drop (i * n) (concat (map f xs))) = f (xs ! i)"
  using assms
proof (induction xs arbitrary: i)
  case Nil
  then show ?case by simp
next
  case (Cons x xs)
  then show ?case by (cases i) simp_all
qed

lemma fields_join:
  "length bs = k * n \<Longrightarrow> concat (map (\<lambda>i. take n (drop (i * n) bs)) [0..<k]) = bs"
proof (induction k arbitrary: bs)
  case 0
  then show ?case by simp
next
  case (Suc k)
  have "concat (map (\<lambda>i. take n (drop (i * n) (drop n bs))) [0..<k]) = drop n bs"
    by (rule Suc.IH) (use Suc.prems in simp)
  then show ?case
    by (simp add: upt_conv_Cons map_Suc_upt [symmetric] add.commute comp_def del: upt_Suc)
qed

lemma read_ids_concat: "read_ids (length ids) (concat (map array_bytes ids)) = ids"
  by (rule nth_equalityI) (simp_all add: read_ids_def nth_field [of ids array_bytes 16])

lemma concat_read_ids: "length ts = k * 16 \<Longrightarrow> concat (map array_bytes (read_ids k ts)) = ts"
proof -
  assume len: "length ts = k * 16"
  have "map array_bytes (read_ids k ts) = map (\<lambda>i. take 16 (drop (i * 16) ts)) [0..<k]"
    using len by (auto simp: read_ids_def)
  then show ?thesis using fields_join [OF len] by simp
qed

lemma length_read_ids [simp]: "length (read_ids k ts) = k"
  by (simp add: read_ids_def)

section \<open>Summaries and leaves\<close>

lemma length_put_child [simp]: "length (put_child c) = 10"
  by (simp add: put_child_def)

lemma get_child_put_child:
  assumes "gslice body off (off + 10) = put_child c"
  shows "get_child body off = c"
proof -
  have ten: "take 10 (drop off body) = put_child c" using assms by (simp add: gslice_def)
  have "gslice body off (off + 2) = take 2 (take 10 (drop off body))" by (simp add: gslice_def)
  moreover have "gslice body (off + 2) (off + 10) = drop 2 (take 10 (drop off body))"
    by (simp add: gslice_def drop_take add.commute)
  ultimately show ?thesis unfolding ten by (simp add: get_child_def put_child_def get_put_le)
qed

lemma put_child_get_child:
  "off + 10 \<le> length body \<Longrightarrow> put_child (get_child body off) = gslice body off (off + 10)"
  by (simp add: put_child_def get_child_def put_get_le gslice_cover)

lemma DecodeSummary_iff:
  "DecodeSummary packet = Inr s \<longleftrightarrow>
     (\<exists>hd. np_Type packet = gnSummary \<and> length (s_Prefix s) < 32 \<and> summary_ok s \<and>
        encodePrefix (s_Generation s) (s_Prefix s) = Inr hd \<and>
        np_Body packet = hd @ concat (map put_child (s_Children s)))"
proof
  assume dec: "DecodeSummary packet = Inr s"
  let ?off = "5 + (length (s_Prefix s) + 1) div 2"
  have t: "np_Type packet = gnSummary" and p: "length (s_Prefix s) < 32"
    and pre: "decodePrefixWithTail (np_Body packet) 160 = Inr (s_Generation s, s_Prefix s)"
    and ch: "s_Children s = map (\<lambda>i. get_child (np_Body packet) (?off + i * 10)) [0..<16]"
    using dec by (auto simp: DecodeSummary_def Let_def split: if_splits)
  obtain hd tl where enc: "encodePrefix (s_Generation s) (s_Prefix s) = Inr hd"
    and body: "np_Body packet = hd @ tl" and tl: "length tl = 160"
    using pre by (auto simp: decodePrefixWithTail_iff)
  have hd: "length hd = ?off" using enc by (rule length_encodePrefix)
  have "map put_child (s_Children s) = map (\<lambda>i. take 10 (drop (i * 10) tl)) [0..<16]"
    using tl hd by (auto simp: ch put_child_get_child body gslice_def)
  then have "concat (map put_child (s_Children s)) = tl" using tl fields_join [of tl 16 10] by simp
  then show "\<exists>hd. np_Type packet = gnSummary \<and> length (s_Prefix s) < 32 \<and> summary_ok s \<and>
        encodePrefix (s_Generation s) (s_Prefix s) = Inr hd \<and>
        np_Body packet = hd @ concat (map put_child (s_Children s))"
    using t p enc body by (simp add: summary_ok_def ch)
next
  assume "\<exists>hd. np_Type packet = gnSummary \<and> length (s_Prefix s) < 32 \<and> summary_ok s \<and>
        encodePrefix (s_Generation s) (s_Prefix s) = Inr hd \<and>
        np_Body packet = hd @ concat (map put_child (s_Children s))"
  then obtain hd where t: "np_Type packet = gnSummary" and p: "length (s_Prefix s) < 32"
    and ok: "length (s_Children s) = 16" and enc: "encodePrefix (s_Generation s) (s_Prefix s) = Inr hd"
    and body: "np_Body packet = hd @ concat (map put_child (s_Children s))"
    by (auto simp: summary_ok_def)
  have "length (concat (map put_child (s_Children s))) = 160"
    using ok by (subst length_concat_const [of _ _ 10]) simp_all
  then have pre: "decodePrefixWithTail (np_Body packet) 160 = Inr (s_Generation s, s_Prefix s)"
    unfolding decodePrefixWithTail_iff using enc body by blast
  have hd: "length hd = 5 + (length (s_Prefix s) + 1) div 2" using enc by (rule length_encodePrefix)
  have "map (\<lambda>i. get_child (np_Body packet) (length hd + i * 10)) [0..<16] = s_Children s"
  proof (rule nth_equalityI)
    fix i assume "i < length (map (\<lambda>i. get_child (np_Body packet) (length hd + i * 10)) [0..<16])"
    then have i: "i < length (s_Children s)" using ok by simp
    have "gslice (np_Body packet) (length hd + i * 10) (length hd + i * 10 + 10) = put_child (s_Children s ! i)"
      using nth_field [OF _ i, of put_child 10] by (simp add: body gslice_def)
    then show "map (\<lambda>i. get_child (np_Body packet) (length hd + i * 10)) [0..<16] ! i = s_Children s ! i"
      using i ok by (simp add: get_child_put_child)
  qed (simp add: ok)
  then show "DecodeSummary packet = Inr s"
    using t p pre hd by (simp add: DecodeSummary_def Let_def)
qed

lemma DecodeLeaf_iff:
  "DecodeLeaf packet = Inr l \<longleftrightarrow>
     (\<exists>hd. np_Type packet = gnLeaf \<and> length (l_IDs l) \<le> LeafThreshold \<and>
        encodePrefix (l_Generation l) (l_Prefix l) = Inr hd \<and>
        np_Body packet = hd @ [of_nat (length (l_IDs l))] @ concat (map array_bytes (l_IDs l)))"
proof
  assume dec: "DecodeLeaf packet = Inr l"
  let ?off = "5 + (length (l_Prefix l) + 1) div 2"
  have t: "np_Type packet = gnLeaf"
    and pre: "decodePrefix (np_Body packet) = Inr (l_Generation l, l_Prefix l)"
    and off: "?off < length (np_Body packet)" and n: "unat (np_Body packet ! ?off) \<le> LeafThreshold"
    and len: "length (np_Body packet) = ?off + 1 + unat (np_Body packet ! ?off) * 16"
    and ids: "l_IDs l = read_ids (unat (np_Body packet ! ?off)) (drop (?off + 1) (np_Body packet))"
    using dec by (auto simp: DecodeLeaf_def Let_def split: if_splits)
  obtain hd tl where enc: "encodePrefix (l_Generation l) (l_Prefix l) = Inr hd"
    and body: "np_Body packet = hd @ tl"
    using pre by (auto simp: decodePrefix_iff)
  have hd: "length hd = ?off" using enc by (rule length_encodePrefix)
  then obtain x rest where tl: "tl = x # rest" using off body by (cases tl) auto
  have x: "np_Body packet ! ?off = x" using hd tl by (simp add: body nth_append)
  then have "length rest = unat x * 16" "l_IDs l = read_ids (unat x) rest"
    using len ids hd tl by (simp_all add: body)
  then have "np_Body packet = hd @ [of_nat (length (l_IDs l))] @ concat (map array_bytes (l_IDs l))"
    by (simp add: body tl concat_read_ids)
  then show "\<exists>hd. np_Type packet = gnLeaf \<and> length (l_IDs l) \<le> LeafThreshold \<and>
        encodePrefix (l_Generation l) (l_Prefix l) = Inr hd \<and>
        np_Body packet = hd @ [of_nat (length (l_IDs l))] @ concat (map array_bytes (l_IDs l))"
    using t enc n ids by simp
next
  assume "\<exists>hd. np_Type packet = gnLeaf \<and> length (l_IDs l) \<le> LeafThreshold \<and>
        encodePrefix (l_Generation l) (l_Prefix l) = Inr hd \<and>
        np_Body packet = hd @ [of_nat (length (l_IDs l))] @ concat (map array_bytes (l_IDs l))"
  then obtain hd where t: "np_Type packet = gnLeaf" and n: "length (l_IDs l) \<le> 10"
    and enc: "encodePrefix (l_Generation l) (l_Prefix l) = Inr hd"
    and body: "np_Body packet = hd @ [of_nat (length (l_IDs l))] @ concat (map array_bytes (l_IDs l))"
    by auto
  have hd: "length hd = 5 + (length (l_Prefix l) + 1) div 2" using enc by (rule length_encodePrefix)
  have cnt: "unat (np_Body packet ! length hd) = length (l_IDs l)"
    using n by (simp add: body nth_append unat_of_nat_fits)
  have "length (concat (map array_bytes (l_IDs l))) = length (l_IDs l) * 16"
    by (rule length_concat_const) simp
  moreover have "decodePrefix (np_Body packet) = Inr (l_Generation l, l_Prefix l)"
    unfolding decodePrefix_iff using enc body by blast
  moreover have "drop (length hd + 1) (np_Body packet) = concat (map array_bytes (l_IDs l))"
    by (simp add: body)
  ultimately show "DecodeLeaf packet = Inr l"
    using t n cnt hd by (simp add: DecodeLeaf_def Let_def read_ids_concat) (simp add: body)
qed

text \<open>The summaries and leaves the node builds always fit a packet.\<close>

lemma summary_ok_BuildSummary [simp]: "summary_ok (BuildSummary sha256 ids prefix)"
  by (simp add: summary_ok_def BuildSummary_def)

lemma EncodeSummary_total:
  assumes "summary_ok s" "length (s_Prefix s) < 32" "\<forall>n \<in> set (s_Prefix s). n \<le> 15"
  obtains b where "EncodeSummary source destination tx s = Inr b"
    and "length b = 179 + (length (s_Prefix s) + 1) div 2"
    and "bind_err (Decode b) DecodeSummary = Inr s"
proof -
  let ?tail = "concat (map put_child (s_Children s))"
  obtain hd where hd: "encodePrefix (s_Generation s) (s_Prefix s) = Inr hd"
    using encodePrefix_total assms(2,3) by (meson less_imp_le)
  let ?p = "gn_packet gnSummary source destination tx (hd @ ?tail)"
  have len: "length (hd @ ?tail) = 165 + (length (s_Prefix s) + 1) div 2"
    using length_encodePrefix [OF hd] assms(1) length_concat_const [of "s_Children s" put_child 10]
    by (simp add: summary_ok_def)
  moreover have "(length (s_Prefix s) + 1) div 2 \<le> 16" using assms(2) by simp
  ultimately have "length (np_Body ?p) \<le> 186" by (simp only: NodePacket.simps)
  from Encode_total [OF this]
  obtain b where b: "Encode ?p = Inr b" "length b = 14 + length (hd @ ?tail)" by auto
  have "DecodeSummary ?p = Inr s" using hd assms by (auto simp: DecodeSummary_iff)
  with b have "bind_err (Decode b) DecodeSummary = Inr s" by (simp only: enveloped)
  then show thesis using that [of b] b hd len assms(2) by (simp add: EncodeSummary_def)
qed

lemma EncodeLeaf_total:
  assumes "length (l_IDs l) \<le> LeafThreshold" "length (l_Prefix l) \<le> 32" "\<forall>n \<in> set (l_Prefix l). n \<le> 15"
  obtains b where "EncodeLeaf source destination tx l = Inr b"
    and "length b = 20 + (length (l_Prefix l) + 1) div 2 + 16 * length (l_IDs l)"
    and "bind_err (Decode b) DecodeLeaf = Inr l"
proof -
  let ?tail = "[of_nat (length (l_IDs l))] @ concat (map array_bytes (l_IDs l))"
  obtain hd where hd: "encodePrefix (l_Generation l) (l_Prefix l) = Inr hd"
    using encodePrefix_total assms(2,3) by meson
  let ?p = "gn_packet gnLeaf source destination tx (hd @ ?tail)"
  have len: "length (hd @ ?tail) = 6 + (length (l_Prefix l) + 1) div 2 + 16 * length (l_IDs l)"
    using length_encodePrefix [OF hd] length_concat_const [of "l_IDs l" array_bytes 16] by simp
  moreover have "(length (l_Prefix l) + 1) div 2 \<le> 16" "length (l_IDs l) \<le> 10" using assms by simp_all
  ultimately have "length (np_Body ?p) \<le> 186" by (simp only: NodePacket.simps)
  from Encode_total [OF this]
  obtain b where b: "Encode ?p = Inr b" "length b = 14 + length (hd @ ?tail)" by auto
  have "DecodeLeaf ?p = Inr l" using hd assms by (auto simp: DecodeLeaf_iff)
  with b have "bind_err (Decode b) DecodeLeaf = Inr l" by (simp only: enveloped)
  then show thesis using that [of b] b hd len assms(1) by (simp add: EncodeLeaf_def)
qed

lemma DecodeSummary_EncodeSummary:
  "EncodeSummary s d t v = Inr b \<Longrightarrow> summary_ok v \<Longrightarrow> bind_err (Decode b) DecodeSummary = Inr v"
  by (auto simp: EncodeSummary_def Encode_Inr_iff DecodeSummary_iff split: if_splits)

lemma DecodeLeaf_EncodeLeaf:
  "EncodeLeaf s d t l = Inr b \<Longrightarrow> bind_err (Decode b) DecodeLeaf = Inr l"
  by (auto simp: EncodeLeaf_def Encode_Inr_iff DecodeLeaf_iff split: if_splits)

section \<open>The other bodies\<close>

lemma bits_eq_card: "bits v = card {k. bit v k}"
proof (induction v rule: bits.induct)
  case (1 v)
  show ?case
  proof (cases "v > 0")
    case True
    have split: "{k. bit v k} = (if bit v 0 then {0} else {}) \<union> Suc ` {k. bit (drop_bit 1 v) k}"
      by (auto simp: bit_simps image_iff) (metis not0_implies_Suc)+
    have "finite {k. bit (drop_bit 1 v) k}"
      by (rule finite_subset [of _ "{..<8}"]) (auto dest: bit_imp_le_length)
    then have "card {k. bit v k} = (if bit v 0 then 1 else 0) + card {k. bit (drop_bit 1 v) k}"
      by (subst split) (auto simp: card_image card_Un_disjoint)
    moreover have "unat (v AND 1) = (if bit v 0 then 1 else 0)"
      by (simp add: and_one_eq bit_0 odd_iff_mod_2_eq_one)
    ultimately show ?thesis using "1.IH" [OF True] True by (simp add: bits.simps [of v])
  next
    case False
    then have "v = 0" by (simp add: word_greater_zero_iff)
    then show ?thesis by (simp add: bits.simps [of 0])
  qed
qed

lemma DecodeChunkRequest_EncodeChunkRequest:
  "EncodeChunkRequest s d t r = Inr b \<Longrightarrow> bind_err (Decode b) DecodeChunkRequest = Inr r"
  by (cases r) (auto simp: EncodeChunkRequest_def Encode_Inr_iff DecodeChunkRequest_def gslice_def
      nth_append get_put_le split: if_splits)

lemma EncodeChunkRequest_total:
  "bits (cr_Bitmap r) \<le> MaxChunkBatch \<Longrightarrow> \<exists>b. EncodeChunkRequest s d t r = Inr b"
  by (simp add: EncodeChunkRequest_def Encode_def)

lemma DecodeChunkRequest_bound: "DecodeChunkRequest p = Inr r \<Longrightarrow> bits (cr_Bitmap r) \<le> MaxChunkBatch"
  by (auto simp: DecodeChunkRequest_def Let_def split: if_splits)

lemma DecodeSignature_EncodeSignature:
  "EncodeSignature s d t sig = Inr b \<Longrightarrow> bind_err (Decode b) DecodeSignature = Inr sig"
  by (cases sig) (auto simp: EncodeSignature_def Encode_Inr_iff DecodeSignature_def gslice_def)

lemma EncodeSignature_total: "\<exists>b. EncodeSignature s d t sig = Inr b"
  by (cases sig) (simp_all add: EncodeSignature_def Encode_def)

lemma DecodeIDBody_EncodeIDRequest:
  "EncodeIDRequest k s d t pid = Inr b \<Longrightarrow> bind_err (Decode b) DecodeIDBody = Inr pid"
  by (auto simp: EncodeIDRequest_def Encode_Inr_iff DecodeIDBody_def)

lemma EncodeIDRequest_total: "\<exists>b. EncodeIDRequest k s d t pid = Inr b"
  by (simp add: EncodeIDRequest_def Encode_def)

lemma gn_DecodeChunk_gn_EncodeChunk:
  "gn_EncodeChunk s d t index data = Inr b \<Longrightarrow> bind_err (Decode b) gn_DecodeChunk = Inr (index, data)"
  by (auto simp: gn_EncodeChunk_def Encode_Inr_iff gn_DecodeChunk_def get_put_le split: if_splits)

lemma gn_EncodeChunk_total: "length data \<le> ChunkDataSize \<Longrightarrow> \<exists>b. gn_EncodeChunk s d t index data = Inr b"
  by (simp add: gn_EncodeChunk_def Encode_def)

lemma gn_EncodeManifest_body:
  assumes "EncodeManifest m = Inr legacy"
  shows "gn_EncodeManifest s d t m = Encode (gn_packet gnManifest s d t (manifest_body m))"
proof -
  have "EncodePacket \<lparr>packet_Type = TypeManifest, packet_ID = m_ID m, packet_Body = manifest_body m\<rparr> = Inr legacy"
    using assms by (auto simp: EncodeManifest_def split: if_splits)
  from gp.dec_enc [OF this] show ?thesis using assms by (simp add: gn_EncodeManifest_def)
qed

lemma gn_DecodeManifest_gn_EncodeManifest:
  assumes "gn_EncodeManifest s d t m = Inr b" "geometry m"
  shows "bind_err (Decode b) (\<lambda>p. gn_DecodeManifest p (m_ID m)) = Inr (m\<lparr>m_Version := 1, m_Signature := None\<rparr>)"
proof -
  obtain legacy where legacy: "EncodeManifest m = Inr legacy"
    using assms(1) by (auto simp: gn_EncodeManifest_def)
  obtain p where p: "DecodePacket legacy = Inr p" "DecodeManifest p = Inr (m\<lparr>m_Version := 1, m_Signature := None\<rparr>)"
    using DecodeManifest_EncodeManifest [OF legacy assms(2)] by blast
  have enc: "EncodePacket \<lparr>packet_Type = TypeManifest, packet_ID = m_ID m, packet_Body = manifest_body m\<rparr> = Inr legacy"
    using legacy by (auto simp: EncodeManifest_def split: if_splits)
  have "Encode (gn_packet gnManifest s d t (manifest_body m)) = Inr b"
    using assms(1) gn_EncodeManifest_body [OF legacy] by simp
  moreover have "gn_DecodeManifest (gn_packet gnManifest s d t (manifest_body m)) (m_ID m) =
      Inr (m\<lparr>m_Version := 1, m_Signature := None\<rparr>)"
    using p gp.dec_enc [OF enc] by (simp add: gn_DecodeManifest_def)
  ultimately show ?thesis by (rule enveloped)
qed

lemma gn_EncodeManifest_total:
  "manifest_ok m \<Longrightarrow> \<exists>b. gn_EncodeManifest s d t m = Inr b"
proof -
  assume ok: "manifest_ok m"
  then obtain legacy where "EncodeManifest m = Inr legacy"
    using EncodeManifest_iff [of m] by (auto simp: manifest_ok_def)
  then show ?thesis using ok by (simp add: gn_EncodeManifest_body Encode_def manifest_ok_def)
qed

text \<open>The request and response formats as instances of the interface.\<close>

interpretation chunk_request: wire_format "EncodeChunkRequest s d t" "\<lambda>b. bind_err (Decode b) DecodeChunkRequest"
  by unfold_locales (rule DecodeChunkRequest_EncodeChunkRequest)

interpretation signature_reply: wire_format "EncodeSignature s d t" "\<lambda>b. bind_err (Decode b) DecodeSignature"
  by unfold_locales (rule DecodeSignature_EncodeSignature)

interpretation id_request: wire_format "EncodeIDRequest k s d t" "\<lambda>b. bind_err (Decode b) DecodeIDBody"
  by unfold_locales (rule DecodeIDBody_EncodeIDRequest)

interpretation leaf_reply: wire_format "EncodeLeaf s d t" "\<lambda>b. bind_err (Decode b) DecodeLeaf"
  by unfold_locales (rule DecodeLeaf_EncodeLeaf)

section \<open>Inventory pages\<close>

lemma DecodeInventory_EncodeInventory:
  "EncodeInventory s page = Inr b \<Longrightarrow> bind_err (Decode b) DecodeInventory = Inr page"
proof -
  assume enc: "EncodeInventory s page = Inr b"
  have n: "length (i_IDs page) \<le> 11" using enc by (auto simp: EncodeInventory_def split: if_splits)
  have "length (concat (map array_bytes (i_IDs page))) = length (i_IDs page) * 16"
    by (rule length_concat_const) simp
  moreover have "unat (of_nat (length (i_IDs page)) :: byte) = length (i_IDs page)"
    using n by (simp add: unat_of_nat_fits)
  ultimately show ?thesis
    using enc n by (auto simp: EncodeInventory_def Encode_Inr_iff DecodeInventory_def gslice_def nth_append
        get_put_le read_ids_concat split: if_splits)
qed

lemma concat_InventoryPages: "concat (map i_IDs (InventoryPages ids)) = sort ids"
proof -
  let ?n = "length ids" and ?k = "(length ids + 10) div 11"
  let ?pages = "if ?k = 0 then 1 else ?k"
  have "?n \<le> ?pages * 11" by auto
  moreover have "map i_IDs (InventoryPages ids) =
      map (\<lambda>i. gslice (sort ids) (i * 11) (min ((i + 1) * 11) (length (sort ids)))) [0..<?pages]"
    by (auto simp: InventoryPages_def Let_def add.commute)
  ultimately show ?thesis by (simp only: gslices_join) simp
qed

lemma InventoryPages_encodable:
  assumes "length ids \<le> 65535 * 11" "page \<in> set (InventoryPages ids)"
  shows "\<exists>b. EncodeInventory s page = Inr b"
proof -
  define k where "k = (if (10 + length ids) div 11 = 0 then 1 else (10 + length ids) div 11)"
  have k: "0 < k" "k < 2 ^ 16" using assms(1) by (auto simp: k_def)
  have "InventoryPages ids = map (\<lambda>i. \<lparr>i_Generation = ChecksumIEEE (concat (map array_bytes (sort ids))),
      i_Page = of_nat i, i_Pages = of_nat k, i_IDs = gslice (sort ids) (i * 11) (min (i * 11 + 11) (length ids))\<rparr>) [0..<k]"
    by (simp add: InventoryPages_def k_def Let_def)
  then obtain i where i: "i < k" and page: "i_Page page = of_nat i" "i_Pages page = of_nat k"
    and n: "length (i_IDs page) \<le> 11"
    using assms(2) by auto
  have "unat (of_nat i :: 16 word) = i" "unat (of_nat k :: 16 word) = k"
    using i k by (simp_all add: unat_of_nat_fits)
  then have "i_Pages page \<noteq> 0" "i_Page page < i_Pages page"
    using i k unfolding page by (auto simp: word_less_nat_alt)
  moreover have "length (concat (map array_bytes (i_IDs page))) = length (i_IDs page) * 16"
    by (rule length_concat_const) simp
  ultimately show ?thesis using n by (simp add: EncodeInventory_def Encode_def)
qed

section \<open>Properties\<close>

text \<open>
  C37: The GN envelope is a canonical format: a byte string decodes to a packet exactly when the packet
  encodes to it, and a packet encodes exactly when its body fits the 186 bytes the header leaves.
\<close>

theorem gn_packet_canonical:
  "(Decode b = Inr p \<longleftrightarrow> Encode p = Inr b) \<and>
   ((\<exists>b. Encode p = Inr b) \<longleftrightarrow> length (np_Body p) \<le> 186)"
  using gn.dec_iff by (simp add: Encode_def)

text \<open>
  Every answer of a node to a summary request fits one packet and is understood: for any inventory and
  any valid prefix, the summary is 179 bytes and one per two nibbles of the prefix, a leaf of at most
  ten identifiers at most 196 bytes, and the requester decodes what the responder built.
\<close>

theorem reconciliation_answers_fit:
  assumes "length prefix < 32" and "\<forall>n \<in> set prefix. n \<le> 15"
  shows "(\<exists>b. EncodeSummary s d tx (BuildSummary sha256 ids prefix) = Inr b \<and>
      length b = 179 + (length prefix + 1) div 2 \<and>
      bind_err (Decode b) DecodeSummary = Inr (BuildSummary sha256 ids prefix)) \<and>
    (length (FilterPrefix ids prefix) \<le> LeafThreshold \<longrightarrow>
      (\<exists>b. EncodeLeaf s d tx (BuildLeaf sha256 ids prefix) = Inr b \<and> length b \<le> 196 \<and>
        bind_err (Decode b) DecodeLeaf = Inr (BuildLeaf sha256 ids prefix)))"
proof
  have fields: "s_Prefix (BuildSummary sha256 ids prefix) = prefix" "l_Prefix (BuildLeaf sha256 ids prefix) = prefix"
    "l_IDs (BuildLeaf sha256 ids prefix) = FilterPrefix ids prefix"
    by (simp_all add: BuildSummary_def BuildLeaf_def)
  show "\<exists>b. EncodeSummary s d tx (BuildSummary sha256 ids prefix) = Inr b \<and>
      length b = 179 + (length prefix + 1) div 2 \<and>
      bind_err (Decode b) DecodeSummary = Inr (BuildSummary sha256 ids prefix)"
    using EncodeSummary_total [of "BuildSummary sha256 ids prefix" s d tx] assms unfolding fields
    by (metis summary_ok_BuildSummary)
  show "length (FilterPrefix ids prefix) \<le> LeafThreshold \<longrightarrow>
      (\<exists>b. EncodeLeaf s d tx (BuildLeaf sha256 ids prefix) = Inr b \<and> length b \<le> 196 \<and>
        bind_err (Decode b) DecodeLeaf = Inr (BuildLeaf sha256 ids prefix))"
  proof
    assume n: "length (FilterPrefix ids prefix) \<le> LeafThreshold"
    obtain b where "EncodeLeaf s d tx (BuildLeaf sha256 ids prefix) = Inr b"
      "length b = 20 + (length prefix + 1) div 2 + 16 * length (FilterPrefix ids prefix)"
      "bind_err (Decode b) DecodeLeaf = Inr (BuildLeaf sha256 ids prefix)"
      using EncodeLeaf_total [of "BuildLeaf sha256 ids prefix" s d tx] n assms unfolding fields by auto
    moreover have "(length prefix + 1) div 2 \<le> 16" using assms(1) by simp
    ultimately show "\<exists>b. EncodeLeaf s d tx (BuildLeaf sha256 ids prefix) = Inr b \<and> length b \<le> 196 \<and>
        bind_err (Decode b) DecodeLeaf = Inr (BuildLeaf sha256 ids prefix)"
      using n by auto
  qed
qed

theorem reconciliation_answers_fit_witness:
  "\<exists>b. EncodeSummary 1 2 3 (BuildSummary (\<lambda>_. copy_array []) [copy_array [0xab]] [0xa]) = Inr b \<and> length b = 180"
proof -
  have "length [0xa :: byte] < 32" "\<forall>n \<in> set [0xa :: byte]. n \<le> 15" by simp_all
  from reconciliation_answers_fit [OF this, of 1 2 3 "\<lambda>_. copy_array []" "[copy_array [0xab]]"]
  show ?thesis by auto
qed

text \<open>
  Reconciliation bodies have one spelling: a summary or leaf the decoder accepts has a valid prefix of
  nibbles, sixteen children or at most ten identifiers, and two accepted packets with the same content
  have the same bytes; padding and set low nibbles are refused.
\<close>

theorem reconciliation_bodies_canonical:
  shows "(DecodeSummary p = Inr s \<longrightarrow> length (s_Children s) = 16 \<and> length (s_Prefix s) < 32 \<and>
      (\<forall>n \<in> set (s_Prefix s). n \<le> 15) \<and> (DecodeSummary q = Inr s \<longrightarrow> np_Body q = np_Body p)) \<and>
    (DecodeLeaf p = Inr l \<longrightarrow> length (l_IDs l) \<le> 10 \<and> length (l_Prefix l) \<le> 32 \<and>
      (\<forall>n \<in> set (l_Prefix l). n \<le> 15) \<and> (DecodeLeaf q = Inr l \<longrightarrow> np_Body q = np_Body p))"
  by (auto simp: DecodeSummary_iff DecodeLeaf_iff encodePrefix_iff summary_ok_def)

theorem reconciliation_bodies_canonical_witness:
  "length (s_Children (BuildSummary (\<lambda>_. copy_array []) [] [3])) = 16"
proof -
  obtain b where "bind_err (Decode b) DecodeSummary = Inr (BuildSummary (\<lambda>_. copy_array []) [] [3])"
    by (rule EncodeSummary_total [of "BuildSummary (\<lambda>_. copy_array []) [] [3]" 0 0 0])
       (simp_all add: BuildSummary_def summary_ok_def)
  then obtain p where "DecodeSummary p = Inr (BuildSummary (\<lambda>_. copy_array []) [] [3])" by auto
  with reconciliation_bodies_canonical [of p] show ?thesis by blast
qed

text \<open>
  A chunk request names at most four chunks: it encodes exactly when at most four bits of its bitmap
  are set, the responder then decodes the request itself, and no request with more bits is accepted.
\<close>

theorem chunk_request_limited:
  "(if card {k. bit (cr_Bitmap r) k} \<le> 4
    then \<exists>b. EncodeChunkRequest s d tx r = Inr b \<and> bind_err (Decode b) DecodeChunkRequest = Inr r
    else EncodeChunkRequest s d tx r = Inl NodeMalformed \<and> DecodeChunkRequest p \<noteq> Inr r)"
proof (cases "card {k. bit (cr_Bitmap r) k} \<le> 4")
  case True
  then obtain b where "EncodeChunkRequest s d tx r = Inr b"
    using EncodeChunkRequest_total [of r s d tx] by (auto simp: bits_eq_card)
  then show ?thesis using True DecodeChunkRequest_EncodeChunkRequest by auto
next
  case False
  then show ?thesis
    using DecodeChunkRequest_bound [of p r] by (auto simp: EncodeChunkRequest_def bits_eq_card)
qed

text \<open>
  A publication's description crosses the node protocol whole: the manifest body the responder sends
  decodes, under the identifier that was asked for, to the manifest with version 1, and the separate
  signature packet to the very signature or its absence.
\<close>

theorem inspection_transport:
  assumes "manifest_ok m"
  shows "\<exists>b c. gn_EncodeManifest s d tx m = Inr b \<and> EncodeSignature s d tx (m_Signature m) = Inr c \<and>
    bind_err (Decode b) (\<lambda>p. gn_DecodeManifest p (m_ID m)) = Inr (m\<lparr>m_Version := 1, m_Signature := None\<rparr>) \<and>
    bind_err (Decode c) DecodeSignature = Inr (m_Signature m)"
proof -
  obtain b where b: "gn_EncodeManifest s d tx m = Inr b" using gn_EncodeManifest_total assms by blast
  obtain c where c: "EncodeSignature s d tx (m_Signature m) = Inr c" using EncodeSignature_total by blast
  show ?thesis
    using b c gn_DecodeManifest_gn_EncodeManifest [OF b] DecodeSignature_EncodeSignature [OF c] assms
    by (auto simp: manifest_ok_def)
qed

theorem inspection_transport_witness:
  "\<exists>b c. gn_EncodeManifest 1 2 3 example_manifest = Inr b \<and>
    EncodeSignature 1 2 3 (m_Signature example_manifest) = Inr c \<and>
    bind_err (Decode b) (\<lambda>p. gn_DecodeManifest p (m_ID example_manifest)) =
      Inr (example_manifest\<lparr>m_Version := 1, m_Signature := None\<rparr>) \<and>
    bind_err (Decode c) DecodeSignature = Inr (m_Signature example_manifest)"
  by (rule inspection_transport) (rule example_manifest_ok)

text \<open>
  The inventory pages cover the inventory: for any list of identifiers, the pages concatenate to its
  sorted list, share one generation, are numbered from zero below their common count, and, while the
  count fits 16 bits, each of them is sent in one packet that decodes to the page.
\<close>

theorem inventory_pages_cover:
  assumes "length ids \<le> 65535 * 11"
  shows "concat (map i_IDs (InventoryPages ids)) = sort ids \<and>
    (\<forall>page \<in> set (InventoryPages ids). \<exists>b. EncodeInventory s page = Inr b \<and>
       bind_err (Decode b) DecodeInventory = Inr page)"
proof -
  have "\<exists>b. EncodeInventory s page = Inr b" if "page \<in> set (InventoryPages ids)" for page
    using InventoryPages_encodable [OF assms that] by blast
  then show ?thesis
    using concat_InventoryPages DecodeInventory_EncodeInventory by metis
qed

theorem inventory_pages_cover_witness:
  "concat (map i_IDs (InventoryPages [copy_array [2], copy_array [1]])) = sort [copy_array [2], copy_array [1]]"
  using inventory_pages_cover [of "[copy_array [2], copy_array [1]]"] by simp

end
