(* ===== verification/Go_Strings.thy ===== *)
theory Go_Strings
  imports Bytes
begin

text \<open>
  What the modelled packages use of Go's standard library on strings: \<open>encoding/hex\<close>, \<open>encoding/base64\<close>,
  \<open>strconv.Itoa\<close>, \<open>path/filepath.Base\<close>, and the treatment of bytes that are not UTF-8 by \<open>encoding/json\<close>.
  A Go string is a byte list; \<open>str\<close> writes an ASCII literal.

  Lemmas: hex and base64 decode what they encode, hex strings and decimal names are injective (so
  different identifiers and chunk indices have different paths), and the JSON coercion is the identity
  exactly on the strings that are UTF-8.
\<close>

definition str :: "string \<Rightarrow> byte list" where
  "str s = map (\<lambda>c. of_nat (of_char c)) s"

lemma length_str [simp]: "length (str s) = length s"
  by (simp add: str_def)

lemma byte_of_char_inject: "(of_nat (of_char c) :: byte) = of_nat (of_char d) \<longleftrightarrow> c = d"
  by (subst of_nat_word_inject) simp_all

lemma str_inject [simp]: "str s = str t \<longleftrightarrow> s = t"
proof -
  have "inj (\<lambda>c. of_nat (of_char c) :: byte)"
    by (intro injI) (simp add: byte_of_char_inject)
  then show ?thesis by (simp add: str_def inj_map_eq_map)
qed

lemma unat_byte_less: "unat (b :: byte) < 256"
  by (rule order_less_le_trans [OF unsigned_less]) simp

lemma byte_of_nat_unat: "n = unat (b :: byte) \<Longrightarrow> of_nat n = b"
  by simp

section \<open>encoding/hex\<close>

definition hex_digit :: "nat \<Rightarrow> byte" where
  "hex_digit n = (if n < 10 then of_nat (48 + n) else of_nat (87 + n))"

definition hex_value :: "byte \<Rightarrow> nat option" where
  "hex_value b = (let n = unat b in
     if 48 \<le> n \<and> n \<le> 57 then Some (n - 48)
     else if 97 \<le> n \<and> n \<le> 102 then Some (n - 87)
     else if 65 \<le> n \<and> n \<le> 70 then Some (n - 55) else None)"

primrec hex_EncodeToString :: "byte list \<Rightarrow> byte list" where
  "hex_EncodeToString [] = []"
| "hex_EncodeToString (b # bs) =
     hex_digit (unat b div 16) # hex_digit (unat b mod 16) # hex_EncodeToString bs"

fun hex_DecodeString :: "byte list \<Rightarrow> go_error + byte list" where
  "hex_DecodeString [] = Inr []"
| "hex_DecodeString [a] = Inl (Failure ''encoding/hex'')"
| "hex_DecodeString (a # b # s) =
     (case hex_value a of None \<Rightarrow> Inl (Failure ''encoding/hex'') | Some x \<Rightarrow>
      case hex_value b of None \<Rightarrow> Inl (Failure ''encoding/hex'') | Some y \<Rightarrow>
      bind_err (hex_DecodeString s) (\<lambda>rest. Inr (of_nat (x * 16 + y) # rest)))"

lemma unat_byte_of_nat: "n < 256 \<Longrightarrow> unat (of_nat n :: byte) = n"
  by (rule unat_of_nat_fits) simp

lemma unat_hex_digit: "n < 16 \<Longrightarrow> unat (hex_digit n) = (if n < 10 then 48 + n else 87 + n)"
  by (simp add: hex_digit_def unat_byte_of_nat del: of_nat_add)

lemma hex_value_digit [simp]: "n < 16 \<Longrightarrow> hex_value (hex_digit n) = Some n"
  by (auto simp: hex_value_def unat_hex_digit Let_def)

lemma length_hex [simp]: "length (hex_EncodeToString bs) = 2 * length bs"
  by (induction bs) auto

lemma hex_Decode_Encode [simp]: "hex_DecodeString (hex_EncodeToString bs) = Inr bs"
proof (induction bs)
  case Nil
  then show ?case by simp
next
  case (Cons b bs)
  have "unat b div 16 < 16" using unat_byte_less [of b] by simp
  moreover have "(of_nat (unat b div 16 * 16 + unat b mod 16) :: byte) = b"
    by (rule byte_of_nat_unat) simp
  ultimately show ?case using Cons by simp
qed

lemma hex_inject [simp]: "hex_EncodeToString xs = hex_EncodeToString ys \<longleftrightarrow> xs = ys"
  by (metis hex_Decode_Encode sum.inject(2))

definition is_lower_hex :: "byte \<Rightarrow> bool" where
  "is_lower_hex b \<longleftrightarrow> (48 \<le> unat b \<and> unat b \<le> 57) \<or> (97 \<le> unat b \<and> unat b \<le> 102)"

lemma hex_digit_lower: "n < 16 \<Longrightarrow> is_lower_hex (hex_digit n)"
  by (auto simp: is_lower_hex_def unat_hex_digit)

lemma hex_lower: "list_all is_lower_hex (hex_EncodeToString bs)"
proof (induction bs)
  case Nil
  then show ?case by simp
next
  case (Cons b bs)
  have "unat b div 16 < 16" using unat_byte_less [of b] by simp
  then show ?case using Cons hex_digit_lower by simp
qed

section \<open>encoding/base64, standard alphabet with padding\<close>

definition b64_char :: "nat \<Rightarrow> byte" where
  "b64_char n = (if n < 26 then of_nat (65 + n) else if n < 52 then of_nat (71 + n)
     else if n < 62 then of_nat (n - 52 + 48) else if n = 62 then 43 else 47)"

definition b64_value :: "byte \<Rightarrow> nat option" where
  "b64_value b = (let n = unat b in
     if 65 \<le> n \<and> n \<le> 90 then Some (n - 65) else if 97 \<le> n \<and> n \<le> 122 then Some (n - 71)
     else if 48 \<le> n \<and> n \<le> 57 then Some (n + 4) else if n = 43 then Some 62
     else if n = 47 then Some 63 else None)"

fun base64_EncodeToString :: "byte list \<Rightarrow> byte list" where
  "base64_EncodeToString [] = []"
| "base64_EncodeToString [a] = [b64_char (unat a div 4), b64_char (unat a mod 4 * 16), 61, 61]"
| "base64_EncodeToString [a, b] =
     [b64_char (unat a div 4), b64_char (unat a mod 4 * 16 + unat b div 16), b64_char (unat b mod 16 * 4), 61]"
| "base64_EncodeToString (a # b # c # s) =
     b64_char (unat a div 4) # b64_char (unat a mod 4 * 16 + unat b div 16) #
     b64_char (unat b mod 16 * 4 + unat c div 64) # b64_char (unat c mod 64) # base64_EncodeToString s"

text \<open>
  The decoder, on input without carriage returns and line feeds, four characters at a time; padding may
  stand only at the end.
\<close>

fun b64_quads :: "byte list \<Rightarrow> go_error + byte list" where
  "b64_quads [] = Inr []"
| "b64_quads (p # q # r # t # s) =
     (case b64_value p of None \<Rightarrow> Inl (Failure ''encoding/base64'') | Some x \<Rightarrow>
      case b64_value q of None \<Rightarrow> Inl (Failure ''encoding/base64'') | Some y \<Rightarrow>
      case b64_value r of
        None \<Rightarrow> if r = 61 \<and> t = 61 \<and> s = [] then Inr [of_nat (x * 4 + y div 16)]
                else Inl (Failure ''encoding/base64'')
      | Some z \<Rightarrow>
        (case b64_value t of
           None \<Rightarrow> if t = 61 \<and> s = [] then Inr [of_nat (x * 4 + y div 16), of_nat (y mod 16 * 16 + z div 4)]
                   else Inl (Failure ''encoding/base64'')
         | Some w \<Rightarrow> bind_err (b64_quads s) (\<lambda>rest.
             Inr (of_nat (x * 4 + y div 16) # of_nat (y mod 16 * 16 + z div 4) #
                  of_nat (z mod 4 * 64 + w) # rest))))"
| "b64_quads _ = Inl (Failure ''encoding/base64'')"

definition base64_DecodeString :: "byte list \<Rightarrow> go_error + byte list" where
  "base64_DecodeString s = b64_quads (filter (\<lambda>b. b \<noteq> 10 \<and> b \<noteq> 13) s)"

lemma unat_b64_char:
  "n < 64 \<Longrightarrow> unat (b64_char n) = (if n < 26 then 65 + n else if n < 52 then 71 + n
     else if n < 62 then n - 4 else if n = 62 then 43 else 47)"
  by (simp add: b64_char_def unat_byte_of_nat del: of_nat_add of_nat_diff)

lemma b64_value_char [simp]: "n < 64 \<Longrightarrow> b64_value (b64_char n) = Some n"
  by (auto simp: b64_value_def unat_b64_char Let_def)

lemma b64_value_pad [simp]: "b64_value 61 = None"
  by (simp add: b64_value_def)

lemma sextets:
  "unat (a :: byte) div 4 < 64" "unat a mod 4 * 16 < 64" "unat a mod 4 * 16 + unat (b :: byte) div 16 < 64"
  "unat b mod 16 * 4 < 64" "unat b mod 16 * 4 + unat (c :: byte) div 64 < 64" "unat c mod 64 < 64"
  using unat_byte_less [of a] unat_byte_less [of b] unat_byte_less [of c] by auto

lemma octet_1: "n < 16 \<Longrightarrow> (of_nat (unat (a :: byte) div 4 * 4 + (unat a mod 4 * 16 + n) div 16) :: byte) = a"
  by (rule byte_of_nat_unat) simp

lemma octet_2:
  "k < 4 \<Longrightarrow>
   (of_nat ((x mod 4 * 16 + unat (b :: byte) div 16) mod 16 * 16 + (unat b mod 16 * 4 + k) div 4) :: byte) = b"
  by (rule byte_of_nat_unat) (use unat_byte_less [of b] in simp)

lemma octet_3:
  "(of_nat ((x mod 16 * 4 + unat (c :: byte) div 64) mod 4 * 64 + unat c mod 64) :: byte) = c"
  by (rule byte_of_nat_unat) (use unat_byte_less [of c] in simp)

lemma b64_quads_Encode: "b64_quads (base64_EncodeToString bs) = Inr bs"
proof (induction bs rule: base64_EncodeToString.induct)
  case 1
  then show ?case by simp
next
  case (2 a)
  then show ?case using octet_1 [of 0 a] by (simp add: sextets)
next
  case (3 a b)
  have "unat b div 16 < 16" using unat_byte_less [of b] by simp
  then show ?case using octet_1 [of "unat b div 16" a] octet_2 [of 0 "unat a" b] by (simp add: sextets)
next
  case (4 a b c s)
  have "unat b div 16 < 16" "unat c div 64 < 4" using unat_byte_less [of b] unat_byte_less [of c] by simp_all
  then show ?case
    using 4 octet_1 [of "unat b div 16" a] octet_2 [of "unat c div 64" "unat a" b] octet_3 [of "unat b" c]
    by (simp add: sextets)
qed

text \<open>The encoder writes no white space.\<close>

definition is_space :: "byte \<Rightarrow> bool" where
  "is_space b \<longleftrightarrow> b = 32 \<or> b = 10 \<or> b = 13 \<or> b = 9"

lemma b64_char_no_space: "\<not> is_space (b64_char n)"
proof -
  have "b64_char n \<notin> {32, 10, 13, 9}" if "n < 62"
  proof -
    have "unat (b64_char n) \<ge> 48" using that by (auto simp: unat_b64_char)
    then show ?thesis by auto
  qed
  then show ?thesis by (cases "n < 62") (auto simp: is_space_def b64_char_def)
qed

lemma base64_no_space: "list_all (\<lambda>b. \<not> is_space b) (base64_EncodeToString bs)"
  by (induction bs rule: base64_EncodeToString.induct) (auto simp: b64_char_no_space, simp_all add: is_space_def)

lemma base64_Decode_Encode [simp]: "base64_DecodeString (base64_EncodeToString bs) = Inr bs"
proof -
  have "filter (\<lambda>b. b \<noteq> 10 \<and> b \<noteq> 13) (base64_EncodeToString bs) = base64_EncodeToString bs"
    using base64_no_space [of bs] by (auto simp: filter_id_conv list_all_iff is_space_def)
  then show ?thesis by (simp add: base64_DecodeString_def b64_quads_Encode)
qed

lemma base64_inject [simp]: "base64_EncodeToString xs = base64_EncodeToString ys \<longleftrightarrow> xs = ys"
  by (metis base64_Decode_Encode sum.inject(2))

section \<open>strconv.Itoa\<close>

fun Itoa :: "nat \<Rightarrow> byte list" where
  "Itoa n = (if n < 10 then [of_nat (48 + n)] else Itoa (n div 10) @ [of_nat (48 + n mod 10)])"

declare Itoa.simps [simp del]

definition of_digits :: "byte list \<Rightarrow> nat" where
  "of_digits s = foldl (\<lambda>n b. n * 10 + (unat b - 48)) 0 s"

lemma of_digits_Itoa: "of_digits (Itoa n) = n"
proof (induction n rule: Itoa.induct)
  case (1 n)
  then show ?case
    by (cases "n < 10") (simp_all add: Itoa.simps [of n] of_digits_def unat_byte_of_nat del: of_nat_add)
qed

lemma Itoa_inject [simp]: "Itoa m = Itoa n \<longleftrightarrow> m = n"
  by (metis of_digits_Itoa)

section \<open>path/filepath.Base, on a system with \<open>/\<close> as separator\<close>

definition Base :: "byte list \<Rightarrow> byte list" where
  "Base path =
     (if path = [] then [46]
      else let stripped = rev (dropWhile (\<lambda>b. b = 47) (rev path));
               elem = rev (takeWhile (\<lambda>b. b \<noteq> 47) (rev stripped))
           in if elem = [] then [47] else elem)"

lemma Base_plain: "path \<noteq> [] \<Longrightarrow> 47 \<notin> set path \<Longrightarrow> Base path = path"
proof -
  assume p: "path \<noteq> []" "47 \<notin> set path"
  then have "hd (rev path) \<noteq> 47" using hd_in_set [of "rev path"] by auto
  then have "dropWhile (\<lambda>b. b = 47) (rev path) = rev path" by (simp add: dropWhile_eq_self_iff)
  moreover have "takeWhile (\<lambda>b. b \<noteq> 47) (rev path) = rev path"
    unfolding takeWhile_eq_all_conv set_rev using p(2) by metis
  ultimately show ?thesis using p(1) by (simp only: Base_def Let_def rev_rev_ident if_False)
qed

lemma Base_safe: "Base path \<noteq> [] \<and> (47 \<in> set (Base path) \<longrightarrow> Base path = [47])"
  by (auto simp: Base_def Let_def dest: set_takeWhileD)

lemma Base_fixpoint_iff: "Base path = path \<longleftrightarrow> path = [47] \<or> (path \<noteq> [] \<and> 47 \<notin> set path)"
  using Base_safe [of path] Base_plain [of path] by (auto simp: Base_def)

lemma Base_idem: "Base (Base path) = Base path"
  unfolding Base_fixpoint_iff [of "Base path"] using Base_safe [of path] by blast

section \<open>Strings in JSON\<close>

text \<open>
  \<open>utf8.DecodeRune\<close>: the length of the valid UTF-8 sequence a string begins with, 0 when there is none.
\<close>

definition cont :: "byte \<Rightarrow> bool" where
  "cont b \<longleftrightarrow> 0x80 \<le> b \<and> b \<le> 0xBF"

definition rune_size :: "byte \<Rightarrow> nat" where
  "rune_size b0 = (if b0 < 0x80 then 1 else if 0xC2 \<le> b0 \<and> b0 \<le> 0xDF then 2
     else if 0xE0 \<le> b0 \<and> b0 \<le> 0xEF then 3 else if 0xF0 \<le> b0 \<and> b0 \<le> 0xF4 then 4 else 0)"

definition accepts_second :: "byte \<Rightarrow> byte \<Rightarrow> bool" where
  "accepts_second b0 b1 \<longleftrightarrow>
     (if b0 = 0xE0 then 0xA0 else if b0 = 0xF0 then 0x90 else 0x80) \<le> b1 \<and>
     b1 \<le> (if b0 = 0xED then 0x9F else if b0 = 0xF4 then 0x8F else 0xBF)"

definition rune_len :: "byte list \<Rightarrow> nat" where
  "rune_len s = (case s of [] \<Rightarrow> 0 | b0 # t \<Rightarrow>
     let n = rune_size b0 in
     if n \<le> 1 then n
     else if length s < n then 0
     else if accepts_second b0 (t ! 0) \<and> list_all cont (take (n - 2) (drop 1 t)) then n else 0)"

lemma rune_len_le: "rune_len s \<le> length s"
  by (cases s) (auto simp: rune_len_def Let_def)

lemma rune_len_append: "rune_len s \<noteq> 0 \<Longrightarrow> rune_len (take (rune_len s) s @ t) = rune_len s"
proof -
  assume nz: "rune_len s \<noteq> 0"
  then obtain b0 u where s: "s = b0 # u" by (cases s) (auto simp: rune_len_def)
  have n: "rune_len s = rune_size b0" using nz by (auto simp: s rune_len_def Let_def split: if_splits)
  show ?thesis
  proof (cases "rune_size b0 \<le> 1")
    case True
    then have "rune_size b0 = 1" using nz n by linarith
    then show ?thesis unfolding n by (simp add: s rune_len_def)
  next
    case False
    then obtain k where k: "rune_size b0 = Suc (Suc k)" by (metis One_nat_def not0_implies_Suc le0 le_Suc_eq not_less_eq_eq)
    then have acc: "Suc k \<le> length u" "accepts_second b0 (u ! 0)" "list_all cont (take k (drop 1 u))"
      using nz by (auto simp: s rune_len_def split: if_splits)
    have "take (rune_len s) s @ t = b0 # (take (Suc k) u @ t)" using n k by (simp add: s)
    moreover have "(take (Suc k) u @ t) ! 0 = u ! 0" using acc(1) by (cases u) simp_all
    moreover have "take k (drop 1 (take (Suc k) u @ t)) = take k (drop 1 u)"
      using acc(1) by (cases u) simp_all
    ultimately show ?thesis using acc k n by (simp add: rune_len_def)
  qed
qed

text \<open>
  What a string is after \<open>json.Marshal\<close> and \<open>json.Unmarshal\<close>: each byte that begins no valid sequence has
  become the replacement character U+FFFD.
\<close>

function coerce :: "byte list \<Rightarrow> byte list" where
  "coerce s =
     (if s = [] then []
      else if rune_len s = 0 then [0xEF, 0xBF, 0xBD] @ coerce (drop 1 s)
      else take (rune_len s) s @ coerce (drop (rune_len s) s))"
  by pat_completeness auto
termination
  by (relation "measure length") auto

declare coerce.simps [simp del]

function utf8_valid :: "byte list \<Rightarrow> bool" where
  "utf8_valid s =
     (if s = [] then True else if rune_len s = 0 then False else utf8_valid (drop (rune_len s) s))"
  by pat_completeness auto
termination
  by (relation "measure length") auto

declare utf8_valid.simps [simp del]

lemma coerce_length: "length s \<le> length (coerce s)"
proof (induction s rule: coerce.induct)
  case (1 s)
  then show ?case using rune_len_le [of s] by (subst coerce.simps) auto
qed

lemma coerce_valid: "utf8_valid s \<Longrightarrow> coerce s = s"
proof (induction s rule: coerce.induct)
  case (1 s)
  then show ?case by (subst coerce.simps) (auto simp: utf8_valid.simps [of s])
qed

lemma coerce_same_length: "length (coerce s) = length s \<Longrightarrow> utf8_valid s"
proof (induction s rule: coerce.induct)
  case (1 s)
  show ?case
  proof (cases "s = []")
    case True
    then show ?thesis by (simp add: utf8_valid.simps)
  next
    case False
    have "rune_len s \<noteq> 0"
    proof
      assume "rune_len s = 0"
      then have "length (coerce s) = 3 + length (coerce (drop 1 s))"
        using False by (simp add: coerce.simps [of s])
      then show False using coerce_length [of "drop 1 s"] "1.prems" False by (cases s) auto
    qed
    then show ?thesis
      using "1.IH"(2) [OF False] "1.prems" False rune_len_le [of s] 
      by (simp add: coerce.simps [of s] utf8_valid.simps [of s])
  qed
qed

lemma coerce_id_iff: "coerce s = s \<longleftrightarrow> utf8_valid s"
  using coerce_valid coerce_same_length by metis

lemma utf8_valid_coerce: "utf8_valid (coerce s)"
proof (induction s rule: coerce.induct)
  case (1 s)
  show ?case
  proof (cases "s = []")
    case True
    then show ?thesis by (simp add: utf8_valid.simps coerce.simps)
  next
    case False
    have fffd: "rune_len (0xEF # 0xBF # 0xBD # t) = 3" for t by (simp add: rune_len_def rune_size_def accepts_second_def cont_def)
    show ?thesis
    proof (cases "rune_len s = 0")
      case True
      then show ?thesis
        using "1.IH"(1) [OF False True] False
        by (simp add: coerce.simps [of s] utf8_valid.simps [of "_ # _"] fffd)
    next
      case nz: False
      let ?t = "coerce (drop (rune_len s) s)"
      have "length (take (rune_len s) s) = rune_len s" using rune_len_le [of s] by simp
      then show ?thesis
        using "1.IH"(2) [OF False nz] False nz rune_len_append [OF nz, of ?t]
        by (subst coerce.simps, subst utf8_valid.simps) simp
    qed
  qed
qed

lemma coerce_idem [simp]: "coerce (coerce s) = coerce s"
  by (simp add: coerce_id_iff utf8_valid_coerce)

lemma utf8_valid_ascii: "list_all (\<lambda>b. b < 0x80) s \<Longrightarrow> utf8_valid s"
proof (induction s)
  case Nil
  then show ?case by (simp add: utf8_valid.simps)
next
  case (Cons b s)
  then have "rune_len (b # s) = 1" by (simp add: rune_len_def rune_size_def)
  then show ?case using Cons by (simp add: utf8_valid.simps [of "b # s"])
qed

section \<open>Trimming\<close>

text \<open>\<open>bytesTrimSpace\<close> of \<open>internal/publication/signing.go\<close>.\<close>

definition bytesTrimSpace :: "byte list \<Rightarrow> byte list" where
  "bytesTrimSpace b = rev (dropWhile is_space (rev (dropWhile is_space b)))"

lemma bytesTrimSpace_line: "list_all (\<lambda>b. \<not> is_space b) s \<Longrightarrow> bytesTrimSpace (s @ [10]) = s"
proof -
  assume s: "list_all (\<lambda>b. \<not> is_space b) s"
  have nl: "is_space 10" by (simp add: is_space_def)
  show ?thesis
  proof (cases "s = []")
    case True
    then show ?thesis using nl by (simp add: bytesTrimSpace_def)
  next
    case False
    have "dropWhile is_space (s @ [10]) = s @ [10]"
      using False s by (cases s) auto
    moreover have "dropWhile is_space (rev s) = rev s"
      using s by (subst dropWhile_eq_self_iff) (metis False hd_in_set list_all_iff rev_is_Nil_conv set_rev)
    ultimately show ?thesis using nl by (simp add: bytesTrimSpace_def)
  qed
qed

end
