(* ===== verification/Disk.thy ===== *)
theory Disk
  imports Pub_Protocol Go_Strings "HOL-Library.Sublist"
begin

text \<open>
  The file system as the store and the key files use it (\<open>os\<close>, \<open>writeAtomic\<close> of
  \<open>internal/publication/store.go\<close>). A path is the list of its components below the store's root; a disk is
  a finite list of paths with their nodes. A file is raw bytes, or one of the two JSON documents the code
  writes (\<open>manifest.json\<close>, \<open>identity.json\<close>), kept as the value its text denotes: \<open>encoding/json\<close> writes one
  text per value once the strings have been coerced to UTF-8 (\<open>coerce\<close>), and reading it gives the value
  back. A document where bytes are expected, or bytes where a document is, is not readable.

  Every call may fail: \<open>io\<close> says for each path whether reading it, creating the directory, writing the file
  or removing it fails, and \<open>writeAtomic\<close> has its two ways to fail, before the rename and after it, when
  the file is in place and only the directory could not be synchronised. The theorems that mention \<open>io\<close> hold
  for every choice of failures; \<open>no_faults\<close> is the disk that works.

  The interface \<open>path_store\<close> states what a store of paths promises; the association list provides it.
\<close>

type_synonym path = "byte list list"

record signatureJSON =
  js_algorithm :: "byte list"
  js_key_id :: "byte list"
  js_public_key :: "byte list"
  js_signature :: "byte list"

record manifestJSON =
  j_Version :: "16 word"
  j_ID :: "byte list"
  j_Filename :: "byte list"
  j_Length :: "64 word"
  j_SHA256 :: "byte list"
  j_ChunkSize :: "16 word"
  j_ChunkCount :: "16 word"
  j_Signature :: "signatureJSON option"

record identityJSON =
  ij_Name :: "byte list"
  ij_Algorithm :: "byte list"
  ij_KeyID :: "byte list"
  ij_PublicKey :: "byte list"

datatype blob = Raw "byte list" | ManifestDoc manifestJSON | IdentityDoc identityJSON

datatype node = Dir | File nat blob \<comment> \<open>the permission bits and the content\<close>

type_synonym disk = "(path \<times> node) list"

section \<open>A store of paths\<close>

definition lookup :: "disk \<Rightarrow> path \<Rightarrow> node option" where
  "lookup fs p = map_of fs p"

definition put :: "path \<Rightarrow> node \<Rightarrow> disk \<Rightarrow> disk" where
  "put p n fs = (p, n) # filter (\<lambda>(q, _). q \<noteq> p) fs"

definition prune :: "(path \<Rightarrow> bool) \<Rightarrow> disk \<Rightarrow> disk" where
  "prune keep fs = filter (\<lambda>(q, _). keep q) fs"

locale path_store =
  fixes get :: "'s \<Rightarrow> 'p \<Rightarrow> 'n option"
    and upd :: "'p \<Rightarrow> 'n \<Rightarrow> 's \<Rightarrow> 's"
    and restrict :: "('p \<Rightarrow> bool) \<Rightarrow> 's \<Rightarrow> 's"
  assumes get_upd: "get (upd p n s) q = (if q = p then Some n else get s q)"
    and get_restrict: "get (restrict keep s) q = (if keep q then get s q else None)"
begin

lemma get_upd_same: "get (upd p n s) p = Some n"
  by (simp add: get_upd)

lemma get_upd_other: "q \<noteq> p \<Longrightarrow> get (upd p n s) q = get s q"
  by (simp add: get_upd)

lemma upd_commute: "p \<noteq> q \<Longrightarrow> get (upd p m (upd q n s)) r = get (upd q n (upd p m s)) r"
  by (simp add: get_upd)

lemma restrict_upd_outside: "\<not> keep p \<Longrightarrow> get (restrict keep (upd p n s)) q = get (restrict keep s) q"
  by (simp add: get_upd get_restrict)

text \<open>A set of paths a series of updates stays out of keeps its content: the frame of an operation.\<close>

lemma frame: "p \<notin> fst ` set us \<Longrightarrow> get (fold (\<lambda>(p, n). upd p n) us s) p = get s p"
  by (induction us arbitrary: s) (auto simp: get_upd split: prod.splits)

end

lemma map_of_filter_keys: "map_of (filter (\<lambda>(q, _). P q) fs) q = (if P q then map_of fs q else None)"
  by (induction fs) auto

lemma lookup_put: "lookup (put p n fs) q = (if q = p then Some n else lookup fs q)"
  by (simp add: lookup_def put_def map_of_filter_keys)

lemma lookup_prune: "lookup (prune keep fs) q = (if keep q then lookup fs q else None)"
  by (simp add: lookup_def prune_def map_of_filter_keys)

interpretation disk: path_store lookup put prune
  by unfold_locales (rule lookup_put lookup_prune)+

lemmas disk_simps = disk.get_upd disk.get_restrict

lemma mem_paths_iff: "p \<in> fst ` set fs \<longleftrightarrow> lookup fs p \<noteq> None"
  by (simp add: lookup_def map_of_eq_None_iff)

section \<open>Calls and their failures\<close>

datatype write_outcome = WOK | WFail | WLate

record io =
  read_fails :: "path \<Rightarrow> bool"
  mkdir_fails :: "path \<Rightarrow> bool"
  write_result :: "path \<Rightarrow> write_outcome"
  remove_keeps :: "path \<Rightarrow> bool"

definition no_faults :: io where
  "no_faults = \<lparr>read_fails = \<lambda>_. False, mkdir_fails = \<lambda>_. False, write_result = \<lambda>_. WOK,
                remove_keeps = \<lambda>_. False\<rparr>"

lemma no_faults_simps [simp]:
  "read_fails no_faults p = False" "mkdir_fails no_faults p = False"
  "write_result no_faults p = WOK" "remove_keeps no_faults p = False"
  by (simp_all add: no_faults_def)

text \<open>A call that changes the disk, and the sequence of two: stop at the first error.\<close>

type_synonym 'a call = "disk \<Rightarrow> (go_error + 'a) \<times> disk"

definition and_then :: "'a call \<Rightarrow> ('a \<Rightarrow> 'b call) \<Rightarrow> 'b call" where
  "and_then m k fs = (case m fs of (Inl e, fs') \<Rightarrow> (Inl e, fs') | (Inr x, fs') \<Rightarrow> k x fs')"

lemma and_then_Inr_iff [simp]:
  "and_then m k fs = (Inr y, fs2) \<longleftrightarrow> (\<exists>x fs1. m fs = (Inr x, fs1) \<and> k x fs1 = (Inr y, fs2))"
  by (auto simp: and_then_def split: prod.splits sum.splits)

lemma and_then_Inl: "m fs = (Inl e, fs1) \<Longrightarrow> and_then m k fs = (Inl e, fs1)"
  by (simp add: and_then_def)

lemma and_then_Inr: "m fs = (Inr x, fs1) \<Longrightarrow> and_then m k fs = k x fs1"
  by (simp add: and_then_def)

lemma and_then_cases:
  assumes "and_then m k fs = (r, fs2)"
  obtains e where "m fs = (Inl e, fs2)" "r = Inl e"
  | x fs1 where "m fs = (Inr x, fs1)" "k x fs1 = (r, fs2)"
  using assms by (auto simp: and_then_def split: prod.splits sum.splits)

definition ReadFile :: "io \<Rightarrow> disk \<Rightarrow> path \<Rightarrow> go_error + blob" where
  "ReadFile io fs p =
     (if read_fails io p then Inl IOError
      else case lookup fs p of
        None \<Rightarrow> Inl NotExist | Some Dir \<Rightarrow> Inl IOError | Some (File _ b) \<Rightarrow> Inr b)"

definition ReadBytes :: "io \<Rightarrow> disk \<Rightarrow> path \<Rightarrow> go_error + byte list" where
  "ReadBytes io fs p = bind_err (ReadFile io fs p) (\<lambda>b.
     case b of Raw bs \<Rightarrow> Inr bs | _ \<Rightarrow> Inl (Failure ''not a byte file''))"

definition Stat :: "io \<Rightarrow> disk \<Rightarrow> path \<Rightarrow> go_error + node" where
  "Stat io fs p =
     (if read_fails io p then Inl IOError
      else case lookup fs p of None \<Rightarrow> Inl NotExist | Some n \<Rightarrow> Inr n)"

definition is_dir :: "disk \<Rightarrow> path \<Rightarrow> bool" where
  "is_dir fs p \<longleftrightarrow> p = [] \<or> lookup fs p = Some Dir"

fun make_dirs :: "io \<Rightarrow> path \<Rightarrow> byte list list \<Rightarrow> unit call" where
  "make_dirs io p [] fs = (Inr (), fs)"
| "make_dirs io p (c # cs) fs =
     (case lookup fs (p @ [c]) of
        Some Dir \<Rightarrow> make_dirs io (p @ [c]) cs fs
      | Some (File _ _) \<Rightarrow> (Inl IOError, fs)
      | None \<Rightarrow> if mkdir_fails io (p @ [c]) then (Inl IOError, fs)
                else make_dirs io (p @ [c]) cs (put (p @ [c]) Dir fs))"

definition MkdirAll :: "io \<Rightarrow> path \<Rightarrow> unit call" where
  "MkdirAll io p = make_dirs io [] p"

definition writeAtomic :: "io \<Rightarrow> path \<Rightarrow> blob \<Rightarrow> nat \<Rightarrow> unit call" where
  "writeAtomic io p data mode fs =
     (if \<not> is_dir fs (butlast p) then (Inl NotExist, fs)
      else if write_result io p = WFail \<or> lookup fs p = Some Dir then (Inl IOError, fs)
      else (if write_result io p = WLate then Inl IOError else Inr (), put p (File mode data) fs))"

definition stuck :: "io \<Rightarrow> disk \<Rightarrow> path \<Rightarrow> bool" where
  "stuck io fs q = list_ex (\<lambda>(r, _). prefix q r \<and> remove_keeps io r) fs"

definition RemoveAll :: "io \<Rightarrow> path \<Rightarrow> unit call" where
  "RemoveAll io p fs =
     (if list_ex (\<lambda>(q, _). prefix p q \<and> stuck io fs q) fs then Inl IOError else Inr (),
      prune (\<lambda>q. \<not> prefix p q \<or> stuck io fs q) fs)"

definition Remove :: "io \<Rightarrow> path \<Rightarrow> unit call" where
  "Remove io p fs =
     (case lookup fs p of
        None \<Rightarrow> (Inl NotExist, fs)
      | Some n \<Rightarrow>
        if remove_keeps io p \<or> list_ex (\<lambda>(q, _). strict_prefix p q) fs then (Inl IOError, fs)
        else (Inr (), prune (\<lambda>q. q \<noteq> p) fs))"

text \<open>The entries of a directory, by name, each with whether it is a directory.\<close>

definition ReadDir :: "io \<Rightarrow> disk \<Rightarrow> path \<Rightarrow> go_error + (byte list \<times> bool) list" where
  "ReadDir io fs p =
     (if read_fails io p then Inl IOError
      else if is_dir fs p
      then Inr (map (\<lambda>q. (last q, lookup fs q = Some Dir))
             (sort (remdups (filter (\<lambda>q. q \<noteq> [] \<and> butlast q = p) (map fst fs)))))
      else case lookup fs p of None \<Rightarrow> Inl NotExist | Some _ \<Rightarrow> Inl IOError)"

section \<open>What the calls do\<close>

lemma ReadFile_Inr_iff [simp]:
  "ReadFile io fs p = Inr b \<longleftrightarrow> \<not> read_fails io p \<and> (\<exists>m. lookup fs p = Some (File m b))"
  by (auto simp: ReadFile_def split: option.splits node.splits)

lemma ReadBytes_Inr_iff [simp]:
  "ReadBytes io fs p = Inr bs \<longleftrightarrow> \<not> read_fails io p \<and> (\<exists>m. lookup fs p = Some (File m (Raw bs)))"
proof -
  have "ReadBytes io fs p = Inr bs \<longleftrightarrow> ReadFile io fs p = Inr (Raw bs)"
    unfolding ReadBytes_def by (cases "ReadFile io fs p") (simp_all del: ReadFile_Inr_iff split: blob.split)
  then show ?thesis by simp
qed

lemma ReadFile_NotExist_iff:
  "ReadFile io fs p = Inl NotExist \<longleftrightarrow> \<not> read_fails io p \<and> lookup fs p = None"
  by (auto simp: ReadFile_def split: option.splits node.splits)

lemma ReadBytes_NotExist_iff:
  "ReadBytes io fs p = Inl NotExist \<longleftrightarrow> \<not> read_fails io p \<and> lookup fs p = None"
  by (auto simp: ReadBytes_def ReadFile_def split: option.splits node.splits blob.splits)

lemma Stat_Inr_iff: "Stat io fs p = Inr n \<longleftrightarrow> \<not> read_fails io p \<and> lookup fs p = Some n"
  by (auto simp: Stat_def split: option.splits)

lemma read_cong:
  assumes "lookup fs p = lookup gs p"
  shows "ReadFile io fs p = ReadFile io gs p" "ReadBytes io fs p = ReadBytes io gs p" "Stat io fs p = Stat io gs p"
  using assms by (simp_all add: ReadFile_def ReadBytes_def Stat_def)

text \<open>\<open>MkdirAll\<close> adds directories on the path and nothing else, whatever fails.\<close>

lemma make_dirs_lookup:
  assumes "make_dirs io p cs fs = (r, fs')"
  shows "lookup fs' q = lookup fs q \<or> (lookup fs q = None \<and> lookup fs' q = Some Dir \<and> strict_prefix p q \<and> prefix q (p @ cs))"
  using assms
proof (induction cs arbitrary: p fs)
  case Nil
  then show ?case by simp
next
  case (Cons c cs)
  have ext: "strict_prefix (p @ [c]) q \<Longrightarrow> strict_prefix p q"
    by (auto simp: strict_prefix_def prefix_def)
  consider "lookup fs (p @ [c]) = Some Dir" | "lookup fs (p @ [c]) = None" | m b where "lookup fs (p @ [c]) = Some (File m b)"
    by (metis node.exhaust option.exhaust)
  then show ?case
  proof cases
    case 1
    then show ?thesis using Cons.IH [of "p @ [c]" fs] Cons.prems ext by auto
  next
    case 2
    show ?thesis
    proof (cases "mkdir_fails io (p @ [c])")
      case True
      then show ?thesis using 2 Cons.prems by simp
    next
      case False
      then have "make_dirs io (p @ [c]) cs (put (p @ [c]) Dir fs) = (r, fs')" using 2 Cons.prems by simp
      from Cons.IH [OF this] show ?thesis using 2 ext by (auto simp: disk_simps strict_prefix_def split: if_splits)
    qed
  next
    case 3
    then show ?thesis using Cons.prems by simp
  qed
qed

lemma MkdirAll_lookup:
  "MkdirAll io d fs = (r, fs') \<Longrightarrow>
   lookup fs' q = lookup fs q \<or> (lookup fs q = None \<and> lookup fs' q = Some Dir \<and> q \<noteq> [] \<and> prefix q d)"
  using make_dirs_lookup [of io "[]" d fs r fs' q] by (auto simp: MkdirAll_def)

lemma MkdirAll_other: "MkdirAll io d fs = (r, fs') \<Longrightarrow> \<not> prefix q d \<Longrightarrow> lookup fs' q = lookup fs q"
  using MkdirAll_lookup by metis

lemma MkdirAll_File: "MkdirAll io d fs = (r, fs') \<Longrightarrow> lookup fs q = Some n \<Longrightarrow> lookup fs' q = Some n"
  using MkdirAll_lookup by (metis option.distinct(1))

lemma make_dirs_Inr:
  "make_dirs io p cs fs = (Inr (), fs') \<Longrightarrow> q \<noteq> [] \<Longrightarrow> prefix q cs \<Longrightarrow> lookup fs' (p @ q) = Some Dir"
proof (induction cs arbitrary: p fs q)
  case Nil
  then show ?case by simp
next
  case (Cons c cs)
  then obtain q' where q: "q = c # q'" "prefix q' cs" by (cases q) auto
  obtain gs where gs: "make_dirs io (p @ [c]) cs gs = (Inr (), fs')" "lookup gs (p @ [c]) = Some Dir"
    using Cons.prems(1) by (auto simp: disk_simps split: option.splits node.splits if_splits)
  show ?case
  proof (cases "q' = []")
    case True
    have "lookup fs' (p @ [c]) = Some Dir"
      using make_dirs_lookup [OF gs(1), of "p @ [c]"] gs(2) by auto
    then show ?thesis using q True by simp
  next
    case False
    then show ?thesis using Cons.IH [OF gs(1) False q(2)] q by simp
  qed
qed

lemma MkdirAll_is_dir: "MkdirAll io d fs = (Inr (), fs') \<Longrightarrow> prefix q d \<Longrightarrow> is_dir fs' q"
  using make_dirs_Inr [of io "[]" d fs fs' q] by (auto simp: MkdirAll_def is_dir_def)

text \<open>It succeeds where no component is a file and no creation fails.\<close>

lemma make_dirs_total:
  assumes "\<forall>q. q \<noteq> [] \<and> prefix q cs \<longrightarrow> \<not> mkdir_fails io (p @ q) \<and> lookup fs (p @ q) \<in> {None, Some Dir}"
  shows "\<exists>fs'. make_dirs io p cs fs = (Inr (), fs')"
  using assms
proof (induction cs arbitrary: p fs)
  case Nil
  then show ?case by simp
next
  case (Cons c cs)
  have here: "\<not> mkdir_fails io (p @ [c])" "lookup fs (p @ [c]) \<in> {None, Some Dir}"
    using Cons.prems [rule_format, of "[c]"] by auto
  have below: "\<not> mkdir_fails io ((p @ [c]) @ q) \<and> lookup fs ((p @ [c]) @ q) \<in> {None, Some Dir}"
    if "q \<noteq> []" "prefix q cs" for q
    using Cons.prems [rule_format, of "c # q"] that by auto
  show ?case
  proof (cases "lookup fs (p @ [c])")
    case None
    have "\<exists>fs'. make_dirs io (p @ [c]) cs (put (p @ [c]) Dir fs) = (Inr (), fs')"
      by (rule Cons.IH) (use below in \<open>auto simp: disk_simps\<close>)
    then show ?thesis using None here by simp
  next
    case (Some n)
    then have "n = Dir" using here by simp
    then show ?thesis using Cons.IH [of "p @ [c]" fs] below Some by auto
  qed
qed

lemma MkdirAll_total:
  assumes "\<forall>q. q \<noteq> [] \<and> prefix q d \<longrightarrow> \<not> mkdir_fails io q \<and> lookup fs q \<in> {None, Some Dir}"
  shows "\<exists>fs'. MkdirAll io d fs = (Inr (), fs')"
  unfolding MkdirAll_def by (rule make_dirs_total) (use assms in simp)

lemma writeAtomic_lookup:
  "writeAtomic io p data mode fs = (r, fs') \<Longrightarrow> lookup fs' q = lookup fs q \<or> (q = p \<and> lookup fs' q = Some (File mode data))"
  by (auto simp: writeAtomic_def disk_simps split: if_splits)

lemma writeAtomic_other: "writeAtomic io p data mode fs = (r, fs') \<Longrightarrow> q \<noteq> p \<Longrightarrow> lookup fs' q = lookup fs q"
  using writeAtomic_lookup by metis

lemma writeAtomic_Inr:
  "writeAtomic io p data mode fs = (Inr (), fs') \<Longrightarrow> fs' = put p (File mode data) fs"
  by (auto simp: writeAtomic_def split: if_splits)

lemma writeAtomic_total:
  "is_dir fs (butlast p) \<Longrightarrow> write_result io p = WOK \<Longrightarrow> lookup fs p \<noteq> Some Dir \<Longrightarrow>
   writeAtomic io p data mode fs = (Inr (), put p (File mode data) fs)"
  by (simp add: writeAtomic_def)

lemma RemoveAll_other: "RemoveAll io p fs = (r, fs') \<Longrightarrow> \<not> prefix p q \<Longrightarrow> lookup fs' q = lookup fs q"
  by (auto simp: RemoveAll_def disk_simps)

lemma RemoveAll_lookup: "RemoveAll io p fs = (r, fs') \<Longrightarrow> lookup fs' q = lookup fs q \<or> lookup fs' q = None"
  by (auto simp: RemoveAll_def disk_simps split: if_splits)

lemma RemoveAll_Inr: "RemoveAll io p fs = (Inr (), fs') \<Longrightarrow> prefix p q \<Longrightarrow> lookup fs' q = None"
proof -
  assume "RemoveAll io p fs = (Inr (), fs')" "prefix p q"
  then have none: "\<forall>(q, n) \<in> set fs. prefix p q \<longrightarrow> \<not> stuck io fs q"
    and fs': "fs' = prune (\<lambda>q. \<not> prefix p q \<or> stuck io fs q) fs"
    by (auto simp: RemoveAll_def list_ex_iff split: if_splits)
  show ?thesis
  proof (cases "lookup fs q")
    case None
    then show ?thesis by (simp add: fs' disk_simps)
  next
    case (Some n)
    then have "(q, n) \<in> set fs" by (simp add: lookup_def map_of_SomeD)
    then show ?thesis using none \<open>prefix p q\<close> by (auto simp: fs' disk_simps)
  qed
qed

lemma RemoveAll_total: "\<forall>q. \<not> remove_keeps io q \<Longrightarrow> \<exists>fs'. RemoveAll io p fs = (Inr (), fs')"
  by (auto simp: RemoveAll_def stuck_def list_ex_iff)

lemma ReadDir_names:
  assumes "ReadDir io fs p = Inr es"
  shows "(name, True) \<in> set es \<longleftrightarrow> lookup fs (p @ [name]) = Some Dir"
proof -
  have es: "es = map (\<lambda>q. (last q, lookup fs q = Some Dir))
      (sort (remdups (filter (\<lambda>q. q \<noteq> [] \<and> butlast q = p) (map fst fs))))"
    using assms by (auto simp: ReadDir_def split: if_splits option.splits)
  have q: "q = p @ [name] \<longleftrightarrow> q \<noteq> [] \<and> butlast q = p \<and> last q = name" for q
    by (metis append_butlast_last_id butlast_snoc last_snoc snoc_eq_iff_butlast)
  have "(name, True) \<in> set es \<longleftrightarrow>
      (\<exists>q. q \<in> fst ` set fs \<and> q \<noteq> [] \<and> butlast q = p \<and> last q = name \<and> lookup fs q = Some Dir)"
    unfolding es by auto
  also have "\<dots> \<longleftrightarrow> lookup fs (p @ [name]) = Some Dir"
    unfolding mem_paths_iff using q by (metis option.distinct(1))
  finally show ?thesis .
qed

end
