(* ===== verification/Signing.thy ===== *)
theory Signing
  imports Disk
begin

text \<open>
  \<open>internal/publication/signing.go\<close>: signing identities, manifest signatures, the trust store. The
  algorithms of \<open>crypto/sha256\<close> and \<open>crypto/ed25519\<close> are the fields of a \<open>crypto\<close> record. As in \<open>crypto/ed25519\<close> a
  private key is the seed followed by the public key, and \<open>GenerateKey\<close> makes both from a seed of 32 random
  bytes (\<open>ed_private\<close>); what the code relies on, that a signature made with such a private key verifies under
  its public half, is the hypothesis \<open>signs_correctly\<close> where a theorem needs it. Of private keys whose halves
  do not belong together nothing is assumed. Files read from outside the store (\<open>trust add\<close>) come in as the result of reading them.

  Lemmas: the canonical bytes determine every signed field; a signed manifest verifies; the JSON form of
  a signature reads back; an identity that was generated loads; trust follows \<open>Add\<close> and \<open>Remove\<close>.
\<close>

record crypto =
  sha256 :: "byte list \<Rightarrow> hash256"
  ed_seed_public :: "byte list \<Rightarrow> byte list" \<comment> \<open>the public key that belongs to a seed\<close>
  ed_sign :: "byte list \<Rightarrow> byte list \<Rightarrow> byte list" \<comment> \<open>private key, message\<close>
  ed_verify :: "byte list \<Rightarrow> byte list \<Rightarrow> byte list \<Rightarrow> bool" \<comment> \<open>public key, message, signature\<close>

definition ed_public :: "byte list \<Rightarrow> byte list" where
  "ed_public privateKey = drop 32 privateKey"

text \<open>The private key \<open>ed25519.GenerateKey\<close> makes of a seed.\<close>

definition ed_private :: "crypto \<Rightarrow> byte list \<Rightarrow> byte list" where
  "ed_private c seed = seed @ ed_seed_public c seed"

definition signs_correctly :: "crypto \<Rightarrow> bool" where
  "signs_correctly c \<longleftrightarrow> (\<forall>seed msg. length seed = 32 \<longrightarrow> length (ed_seed_public c seed) = 32 \<and>
     length (ed_sign c (ed_private c seed) msg) = 64 \<and>
     ed_verify c (ed_seed_public c seed) msg (ed_sign c (ed_private c seed) msg))"

definition SignedManifestVersion :: "16 word" where [simp]: "SignedManifestVersion = 2"

record Identity =
  i_Name :: "byte list"
  i_PublicKey :: "byte list"
  i_PrivateKey :: "byte list"

definition KeyID :: "crypto \<Rightarrow> byte list \<Rightarrow> byte list" where
  "KeyID c publicKey = hex_EncodeToString (take 16 (array_bytes (sha256 c publicKey)))"

section \<open>Manifest signatures\<close>

definition canonical_domain :: "byte list" where
  "canonical_domain = str ''GHOSTCACHE-MANIFEST'' @ [0]"

definition canonical_bytes :: "Manifest \<Rightarrow> byte list" where
  "canonical_bytes m = canonical_domain @ le16 (m_Version m) @ array_bytes (m_ID m) @
     array_bytes (m_SHA256 m) @ le64 (m_Length m) @ le16 (m_ChunkSize m) @ le16 (m_ChunkCount m) @
     le16 (of_nat (length (m_Filename m))) @ m_Filename m"

definition CanonicalManifest :: "Manifest \<Rightarrow> go_error + byte list" where
  "CanonicalManifest m =
     (if length (m_Filename m) > MaxFilenameBytes then Inl PubMalformed
      else if m_Version m \<noteq> SignedManifestVersion
      then Inl (Failure ''signed manifest version must be 2'')
      else Inr (canonical_bytes m))"

definition SignManifest :: "crypto \<Rightarrow> Manifest \<Rightarrow> Identity \<Rightarrow> go_error + Manifest" where
  "SignManifest c m identity =
     (let m = m\<lparr>m_Version := SignedManifestVersion\<rparr> in
      bind_err (CanonicalManifest m) (\<lambda>canonical.
        if length (i_PrivateKey identity) \<noteq> 64 then Inl (Failure ''invalid private key'')
        else Inr (m\<lparr>m_Signature := Some \<lparr>PublicKey = copy_array (i_PublicKey identity),
               sig_Value = copy_array (ed_sign c (i_PrivateKey identity) canonical)\<rparr>\<rparr>)))"

text \<open>\<open>VerifyManifestSignature\<close> returns an error or nil.\<close>

definition VerifyManifestSignature :: "crypto \<Rightarrow> Manifest \<Rightarrow> go_error + unit" where
  "VerifyManifestSignature c m =
     (case m_Signature m of
        None \<Rightarrow> Inr ()
      | Some s \<Rightarrow> bind_err (CanonicalManifest m) (\<lambda>canonical.
          if \<not> ed_verify c (array_bytes (PublicKey s)) canonical (array_bytes (sig_Value s))
          then Inl (Failure ''invalid Ed25519 manifest signature'') else Inr ()))"

text \<open>\<open>signatureJSON\<close> and \<open>parseSignature\<close>: \<open>null\<close> or no signature is \<open>None\<close>.\<close>

definition to_signatureJSON :: "crypto \<Rightarrow> Signature option \<Rightarrow> signatureJSON option" where
  "to_signatureJSON c sig = map_option (\<lambda>s. \<lparr>js_algorithm = str ''ed25519'',
     js_key_id = KeyID c (array_bytes (PublicKey s)),
     js_public_key = base64_EncodeToString (array_bytes (PublicKey s)),
     js_signature = base64_EncodeToString (array_bytes (sig_Value s))\<rparr>) sig"

definition parseSignature :: "crypto \<Rightarrow> signatureJSON option \<Rightarrow> go_error + Signature option" where
  "parseSignature c raw =
     (case raw of
        None \<Rightarrow> Inr None
      | Some value \<Rightarrow>
        if js_algorithm value \<noteq> str ''ed25519'' then Inl (Failure ''unsupported signature algorithm'')
        else case base64_DecodeString (js_public_key value) of
          Inl _ \<Rightarrow> Inl (Failure ''invalid signature public key'')
        | Inr pub \<Rightarrow>
          if length pub \<noteq> 32 then Inl (Failure ''invalid signature public key'')
          else case base64_DecodeString (js_signature value) of
            Inl _ \<Rightarrow> Inl (Failure ''invalid signature'')
          | Inr signature \<Rightarrow>
            if length signature \<noteq> 64 then Inl (Failure ''invalid signature'')
            else if js_key_id value \<noteq> KeyID c pub then Inl (Failure ''signature key ID mismatch'')
            else Inr (Some \<lparr>PublicKey = copy_array pub, sig_Value = copy_array signature\<rparr>))"

lemma parse_to_signatureJSON [simp, codec]: "parseSignature c (to_signatureJSON c sig) = Inr sig"
  by (cases sig) (simp_all add: parseSignature_def to_signatureJSON_def)

lemma to_signatureJSON_inject [simp]: "to_signatureJSON c s = to_signatureJSON c t \<longleftrightarrow> s = t"
  by (metis parse_to_signatureJSON sum.inject(2))

text \<open>The canonical bytes determine every field they cover.\<close>

lemma canonical_bytes_inject:
  assumes "canonical_bytes m = canonical_bytes n"
    and "length (m_Filename m) \<le> MaxFilenameBytes" "length (m_Filename n) \<le> MaxFilenameBytes"
  shows "n\<lparr>m_Signature := m_Signature m\<rparr> = m"
proof -
  have le: "put_le k (x :: 'a::len word) = put_le k y \<longleftrightarrow> x = y" if "LENGTH('a) = 8 * k" for k x y
    using that by (metis get_put_le)
  have "m_Version m = m_Version n" "m_ID m = m_ID n" "m_SHA256 m = m_SHA256 n" "m_Length m = m_Length n"
    "m_ChunkSize m = m_ChunkSize n" "m_ChunkCount m = m_ChunkCount n" "m_Filename m = m_Filename n"
    using assms(1) by (simp_all add: canonical_bytes_def le array_eq_iff)
  then show ?thesis by simp
qed

lemma SignManifest_Inr:
  assumes "SignManifest c m identity = Inr m'"
  shows "m' = m\<lparr>m_Version := 2, m_Signature := Some \<lparr>PublicKey = copy_array (i_PublicKey identity),
      sig_Value = copy_array (ed_sign c (i_PrivateKey identity) (canonical_bytes (m\<lparr>m_Version := 2\<rparr>)))\<rparr>\<rparr>"
    and "length (m_Filename m) \<le> MaxFilenameBytes" and "length (i_PrivateKey identity) = 64"
  using assms by (auto simp: SignManifest_def CanonicalManifest_def Let_def split: if_splits)

lemma canonical_bytes_signature [simp]: "canonical_bytes (m\<lparr>m_Signature := s\<rparr>) = canonical_bytes m"
  by (simp add: canonical_bytes_def)

text \<open>An identity with the keys of some seed.\<close>

definition identity_ok :: "crypto \<Rightarrow> Identity \<Rightarrow> bool" where
  "identity_ok c i \<longleftrightarrow> length (i_PrivateKey i) = 64 \<and> i_PrivateKey i = ed_private c (take 32 (i_PrivateKey i)) \<and>
     i_PublicKey i = ed_public (i_PrivateKey i)"

lemma identity_ok_seed:
  assumes "identity_ok c i"
  obtains seed where "length seed = 32" "i_PrivateKey i = ed_private c seed" "i_PublicKey i = ed_seed_public c seed"
proof (rule that)
  let ?seed = "take 32 (i_PrivateKey i)"
  show "length ?seed = 32" "i_PrivateKey i = ed_private c ?seed" using assms by (simp_all add: identity_ok_def)
  then show "i_PublicKey i = ed_seed_public c ?seed"
    using assms unfolding identity_ok_def ed_public_def ed_private_def by (metis append_eq_conv_conj)
qed

lemma SignManifest_verifies:
  assumes "signs_correctly c" "identity_ok c identity" "SignManifest c m identity = Inr m'"
  shows "VerifyManifestSignature c m' = Inr ()"
proof -
  let ?i = identity
  obtain seed where seed: "length seed = 32" "i_PrivateKey ?i = ed_private c seed" "i_PublicKey ?i = ed_seed_public c seed"
    using assms(2) by (rule identity_ok_seed)
  then have "length (i_PublicKey ?i) = 32" "\<And>msg. length (ed_sign c (i_PrivateKey ?i) msg) = 64 \<and>
      ed_verify c (i_PublicKey ?i) msg (ed_sign c (i_PrivateKey ?i) msg)"
    using assms(1) by (simp_all add: signs_correctly_def)
  then show ?thesis
    using SignManifest_Inr [OF assms(3)]
    by (simp add: VerifyManifestSignature_def CanonicalManifest_def canonical_bytes_def)
qed

section \<open>Key files\<close>

definition identity_dir :: path where "identity_dir = [str ''identity'']"
definition trust_dir :: path where "trust_dir = [str ''trust'']"

definition GenerateIdentity :: "crypto \<Rightarrow> io \<Rightarrow> byte list \<Rightarrow> go_error + byte list \<Rightarrow> Identity call" where
  "GenerateIdentity c io name generated fs =
     (case Stat io fs (identity_dir @ [str ''signing.key'']) of
        Inr _ \<Rightarrow> (Inl (Failure ''signing identity already exists''), fs)
      | Inl _ \<Rightarrow>
        and_then (MkdirAll io identity_dir) (\<lambda>_ fs. case generated of
           Inl e \<Rightarrow> (Inl e, fs)
         | Inr privateKey \<Rightarrow>
           (let publicKey = ed_public privateKey in
            and_then (writeAtomic io (identity_dir @ [str ''signing.key''])
                (Raw (base64_EncodeToString privateKey @ [10])) 384) (\<lambda>_.
            and_then (writeAtomic io (identity_dir @ [str ''signing.pub''])
                (Raw (base64_EncodeToString publicKey @ [10])) 420) (\<lambda>_.
            and_then (writeAtomic io (identity_dir @ [str ''identity.json''])
                (IdentityDoc \<lparr>ij_Name = coerce name, ij_Algorithm = str ''ed25519'',
                   ij_KeyID = KeyID c publicKey, ij_PublicKey = base64_EncodeToString publicKey\<rparr>) 420) (\<lambda>_ fs.
            (Inr \<lparr>i_Name = name, i_PublicKey = publicKey, i_PrivateKey = privateKey\<rparr>, fs)))) fs)) fs)"

definition decode_key :: "nat \<Rightarrow> byte list \<Rightarrow> go_error + byte list" where
  "decode_key n text =
     (case base64_DecodeString (bytesTrimSpace text) of
        Inl _ \<Rightarrow> Inl (Failure ''invalid key'')
      | Inr decoded \<Rightarrow> if length decoded \<noteq> n then Inl (Failure ''invalid key'') else Inr decoded)"

definition LoadIdentity :: "crypto \<Rightarrow> io \<Rightarrow> disk \<Rightarrow> go_error + Identity" where
  "LoadIdentity c io fs =
     bind_err (Stat io fs (identity_dir @ [str ''signing.key''])) (\<lambda>info.
     if (case info of Dir \<Rightarrow> True | File mode _ \<Rightarrow> mode mod 64 \<noteq> 0)
     then Inl (Failure ''signing private key permissions must be 0600'')
     else
       bind_err (ReadBytes io fs (identity_dir @ [str ''signing.key''])) (\<lambda>privateText.
       bind_err (decode_key 64 privateText) (\<lambda>privateKey.
       bind_err (ReadFile io fs (identity_dir @ [str ''identity.json''])) (\<lambda>doc.
       case doc of
         IdentityDoc metadata \<Rightarrow>
           if ij_PublicKey metadata \<noteq> base64_EncodeToString (ed_public privateKey) \<or>
              ij_KeyID metadata \<noteq> KeyID c (ed_public privateKey)
           then Inl (Failure ''identity metadata does not match private key'')
           else Inr \<lparr>i_Name = ij_Name metadata, i_PublicKey = ed_public privateKey,
                     i_PrivateKey = privateKey\<rparr>
       | _ \<Rightarrow> Inl (Failure ''invalid identity document'')))))"

text \<open>\<open>LoadPublicKey\<close> on the text of the file, read from outside the store or from it.\<close>

definition LoadPublicKey :: "go_error + byte list \<Rightarrow> go_error + byte list" where
  "LoadPublicKey file = bind_err file (decode_key 32)"

section \<open>The trust store\<close>

definition trust_path :: "byte list \<Rightarrow> path" where
  "trust_path kid = trust_dir @ [kid @ str ''.pub'']"

definition Trust_Add :: "crypto \<Rightarrow> io \<Rightarrow> go_error + byte list \<Rightarrow> byte list call" where
  "Trust_Add c io file fs =
     (case LoadPublicKey file of
        Inl e \<Rightarrow> (Inl e, fs)
      | Inr key \<Rightarrow>
        and_then (MkdirAll io trust_dir) (\<lambda>_.
        and_then (writeAtomic io (trust_path (KeyID c key)) (Raw (base64_EncodeToString key @ [10])) 420) (\<lambda>_ fs.
        (Inr (KeyID c key), fs))) fs)"

definition Trust_Remove :: "io \<Rightarrow> byte list \<Rightarrow> unit call" where
  "Trust_Remove io kid fs =
     (if \<not> (length kid = 32 \<and> list_all is_lower_hex kid) then (Inl (Failure ''invalid key ID''), fs)
      else Remove io (trust_path kid) fs)"

definition Trusted :: "crypto \<Rightarrow> io \<Rightarrow> disk \<Rightarrow> byte list \<Rightarrow> bool" where
  "Trusted c io fs key =
     (case LoadPublicKey (ReadBytes io fs (trust_path (KeyID c key))) of
        Inl _ \<Rightarrow> False | Inr loaded \<Rightarrow> loaded = key)"

definition Trust_IDs :: "io \<Rightarrow> disk \<Rightarrow> go_error + byte list list" where
  "Trust_IDs io fs =
     (case ReadDir io fs trust_dir of
        Inl NotExist \<Rightarrow> Inr []
      | Inl e \<Rightarrow> Inl e
      | Inr entries \<Rightarrow> Inr (map (\<lambda>(name, _). take (length name - 4) name)
          (filter (\<lambda>(name, _). suffix (str ''.pub'') name) entries)))"

lemma decode_key_line: "length key = n \<Longrightarrow> decode_key n (base64_EncodeToString key @ [10]) = Inr key"
  by (simp add: decode_key_def bytesTrimSpace_line base64_no_space)

lemma decode_key_length: "decode_key n text = Inr key \<Longrightarrow> length key = n"
  by (auto simp: decode_key_def split: sum.splits if_splits)

lemma LoadPublicKey_length: "LoadPublicKey file = Inr key \<Longrightarrow> length key = 32"
  by (auto simp: LoadPublicKey_def dest: decode_key_length)

lemma trust_path_inject [simp]: "trust_path x = trust_path y \<longleftrightarrow> x = y"
  by (simp add: trust_path_def)

lemma Trusted_no_faults_iff:
  "Trusted c no_faults fs key \<longleftrightarrow>
     (\<exists>mode text. lookup fs (trust_path (KeyID c key)) = Some (File mode (Raw text)) \<and> decode_key 32 text = Inr key)"
proof -
  have "Trusted c no_faults fs key \<longleftrightarrow> LoadPublicKey (ReadBytes no_faults fs (trust_path (KeyID c key))) = Inr key"
    by (simp add: Trusted_def split: sum.split)
  then show ?thesis by (auto simp: LoadPublicKey_def)
qed

lemma Trust_Add_Inr:
  assumes "Trust_Add c io file fs = (Inr kid, fs')"
  obtains key where "LoadPublicKey file = Inr key" "kid = KeyID c key"
    and "lookup fs' (trust_path kid) = Some (File 420 (Raw (base64_EncodeToString key @ [10])))"
    and "\<And>q. q \<noteq> trust_path kid \<Longrightarrow> q \<noteq> trust_dir \<Longrightarrow> lookup fs' q = lookup fs q"
proof -
  obtain key where key: "LoadPublicKey file = Inr key" using assms by (auto simp: Trust_Add_def split: sum.splits)
  obtain fs1 where fs1: "MkdirAll io trust_dir fs = (Inr (), fs1)"
    and w: "writeAtomic io (trust_path (KeyID c key)) (Raw (base64_EncodeToString key @ [10])) 420 fs1 = (Inr (), fs')"
    and kid: "kid = KeyID c key"
    using assms key by (auto simp: Trust_Add_def)
  have fs': "fs' = put (trust_path kid) (File 420 (Raw (base64_EncodeToString key @ [10]))) fs1"
    using writeAtomic_Inr [OF w] kid by simp
  have "lookup fs1 q = lookup fs q" if "q \<noteq> trust_dir" for q
    using MkdirAll_lookup [OF fs1, of q] that by (auto simp: trust_dir_def prefix_Cons)
  then show thesis using that [OF key kid] by (simp add: fs' disk_simps)
qed

lemma trust_path_not_dir [simp]: "trust_path x \<noteq> trust_dir"
  by (simp add: trust_path_def)

lemma length_KeyID [simp]: "length (KeyID c key) = 32"
  by (simp add: KeyID_def)

lemma KeyID_lower: "list_all is_lower_hex (KeyID c key)"
  by (simp add: KeyID_def hex_lower)

lemma GenerateIdentity_loads:
  assumes "GenerateIdentity c io name (Inr privateKey) fs = (Inr made, fs')" "length privateKey = 64"
  shows "LoadIdentity c no_faults fs' = Inr \<lparr>i_Name = coerce name, i_PublicKey = ed_public privateKey, i_PrivateKey = privateKey\<rparr>"
    "made = \<lparr>i_Name = name, i_PublicKey = ed_public privateKey, i_PrivateKey = privateKey\<rparr>"
proof -
  let ?key = "identity_dir @ [str ''signing.key'']" and ?pub = "identity_dir @ [str ''signing.pub'']"
    and ?json = "identity_dir @ [str ''identity.json'']"
  have ne: "?json \<noteq> ?key" "?pub \<noteq> ?key" by (simp_all add: str_def)
  obtain fs1 fs2 fs3 where w: "writeAtomic io ?key (Raw (base64_EncodeToString privateKey @ [10])) 384 fs1 = (Inr (), fs2)"
    "writeAtomic io ?pub (Raw (base64_EncodeToString (ed_public privateKey) @ [10])) 420 fs2 = (Inr (), fs3)"
    "writeAtomic io ?json (IdentityDoc \<lparr>ij_Name = coerce name, ij_Algorithm = str ''ed25519'', ij_KeyID = KeyID c (ed_public privateKey),
       ij_PublicKey = base64_EncodeToString (ed_public privateKey)\<rparr>) 420 fs3 = (Inr (), fs')"
    and made: "made = \<lparr>i_Name = name, i_PublicKey = ed_public privateKey, i_PrivateKey = privateKey\<rparr>"
    using assms(1) by (auto simp: GenerateIdentity_def Let_def split: sum.splits)
  show "made = \<lparr>i_Name = name, i_PublicKey = ed_public privateKey, i_PrivateKey = privateKey\<rparr>" by fact
  have key: "lookup fs' ?key = Some (File 384 (Raw (base64_EncodeToString privateKey @ [10])))"
    unfolding w [THEN writeAtomic_Inr] using ne by (simp add: disk_simps)
  have json: "lookup fs' ?json = Some (File 420 (IdentityDoc \<lparr>ij_Name = coerce name, ij_Algorithm = str ''ed25519'',
      ij_KeyID = KeyID c (ed_public privateKey), ij_PublicKey = base64_EncodeToString (ed_public privateKey)\<rparr>))"
    unfolding writeAtomic_Inr [OF w(3)] by (simp add: disk_simps)
  show "LoadIdentity c no_faults fs' = Inr \<lparr>i_Name = coerce name, i_PublicKey = ed_public privateKey, i_PrivateKey = privateKey\<rparr>"
    by (simp add: LoadIdentity_def Stat_def ReadBytes_def ReadFile_def key json decode_key_line assms(2))
qed

section \<open>Properties\<close>

text \<open>
  C29: An identity lasts and its signatures hold. When \<open>GenerateIdentity\<close> succeeds on the key of a seed, the files
  it leaves load as an identity with the same keys. With it every manifest whose filename fits is signed,
  the signature verifies, nothing of the manifest but its version changes, and the signature binds the
  whole description: another manifest with the same canonical bytes has the same version, identifier, hash,
  length, geometry and filename.
\<close>

theorem signature_verifies_and_binds:
  assumes "signs_correctly c" and "length seed = 32" and "GenerateIdentity c io name (Inr (ed_private c seed)) fs = (Inr made, fs')"
  shows "\<exists>identity. LoadIdentity c no_faults fs' = Inr identity \<and> i_PrivateKey identity = i_PrivateKey made \<and>
    i_PublicKey identity = ed_seed_public c seed \<and>
    (\<forall>m. length (m_Filename m) \<le> MaxFilenameBytes \<longrightarrow>
       (\<exists>sm signature. SignManifest c m identity = Inr sm \<and> sm = m\<lparr>m_Version := 2, m_Signature := Some signature\<rparr> \<and>
          array_bytes (PublicKey signature) = ed_seed_public c seed \<and> VerifyManifestSignature c sm = Inr () \<and>
          (\<forall>other. CanonicalManifest other = CanonicalManifest sm \<longrightarrow> other\<lparr>m_Signature := m_Signature sm\<rparr> = sm)))"
proof -
  have pub: "length (ed_seed_public c seed) = 32" using assms(1,2) by (simp add: signs_correctly_def)
  then have len: "length (ed_private c seed) = 64" and half: "ed_public (ed_private c seed) = ed_seed_public c seed"
    using assms(2) by (simp_all add: ed_private_def ed_public_def)
  let ?i = "\<lparr>i_Name = coerce name, i_PublicKey = ed_seed_public c seed, i_PrivateKey = ed_private c seed\<rparr>"
  note load = GenerateIdentity_loads [OF assms(3) len, unfolded half]
  have ok: "identity_ok c ?i" using len half assms(2) by (simp add: identity_ok_def) (simp add: ed_private_def)
  have "\<exists>sm signature. SignManifest c m ?i = Inr sm \<and> sm = m\<lparr>m_Version := 2, m_Signature := Some signature\<rparr> \<and>
      array_bytes (PublicKey signature) = ed_seed_public c seed \<and> VerifyManifestSignature c sm = Inr () \<and>
      (\<forall>other. CanonicalManifest other = CanonicalManifest sm \<longrightarrow> other\<lparr>m_Signature := m_Signature sm\<rparr> = sm)"
    if m: "length (m_Filename m) \<le> MaxFilenameBytes" for m
  proof -
    have "\<exists>sm. SignManifest c m ?i = Inr sm" using m len by (simp add: SignManifest_def CanonicalManifest_def Let_def)
    then obtain sm where sm: "SignManifest c m ?i = Inr sm" ..
    note form = SignManifest_Inr [OF sm]
    have s: "CanonicalManifest sm = Inr (canonical_bytes sm)" "length (m_Filename sm) \<le> MaxFilenameBytes"
      using form by (auto simp: CanonicalManifest_def)
    have "other\<lparr>m_Signature := m_Signature sm\<rparr> = sm" if "CanonicalManifest other = CanonicalManifest sm" for other
      using that s by (intro canonical_bytes_inject) (auto simp: CanonicalManifest_def split: if_splits)
    moreover have "array_bytes (copy_array (i_PublicKey ?i) :: 32 array) = ed_seed_public c seed" using pub by simp
    ultimately show ?thesis using sm form(1) SignManifest_verifies [OF assms(1) ok sm] by auto
  qed
  then show ?thesis using load by (intro exI [of _ ?i]) simp
qed

text \<open>A signature scheme for evaluation: the signature repeats the public key and the message's head.\<close>

definition toy_sign :: "byte list \<Rightarrow> byte list \<Rightarrow> byte list" where
  "toy_sign pub msg = take 64 (take 32 pub @ rev msg @ replicate 64 0)"

definition toy_crypto :: crypto where
  "toy_crypto = \<lparr>sha256 = \<lambda>bs. copy_array bs, ed_seed_public = map (\<lambda>b. b - 2), ed_sign = \<lambda>priv msg. toy_sign (drop 32 priv) msg,
     ed_verify = \<lambda>pub msg sig. sig = toy_sign pub msg\<rparr>"

definition toy_identity :: Identity where
  "toy_identity = \<lparr>i_Name = str ''me'', i_PublicKey = replicate 32 7, i_PrivateKey = replicate 32 9 @ replicate 32 7\<rparr>"

lemma toy_signs: "signs_correctly toy_crypto"
  by (auto simp: signs_correctly_def toy_crypto_def ed_private_def toy_sign_def min_def)

lemma toy_identity_ok: "identity_ok toy_crypto toy_identity"
  by (simp add: identity_ok_def toy_identity_def ed_public_def ed_private_def toy_crypto_def)

theorem signature_verifies_and_binds_witness:
  "\<exists>made fs' identity sm. GenerateIdentity toy_crypto no_faults (str ''me'') (Inr (ed_private toy_crypto (replicate 32 9))) [] = (Inr made, fs') \<and>
     LoadIdentity toy_crypto no_faults fs' = Inr identity \<and>
     SignManifest toy_crypto example_manifest identity = Inr sm \<and> VerifyManifestSignature toy_crypto sm = Inr ()"
proof -
  have "\<exists>made fs'. GenerateIdentity toy_crypto no_faults (str ''me'') (Inr (ed_private toy_crypto (replicate 32 9))) [] = (Inr made, fs')"
    by (simp add: GenerateIdentity_def Stat_def lookup_def MkdirAll_def identity_dir_def and_then_def writeAtomic_def is_dir_def put_def str_def Let_def)
  then obtain made fs' where run: "GenerateIdentity toy_crypto no_faults (str ''me'') (Inr (ed_private toy_crypto (replicate 32 9))) [] = (Inr made, fs')"
    by blast
  have seed: "length (replicate 32 (9 :: byte)) = 32" by simp
  have "length (m_Filename example_manifest) \<le> MaxFilenameBytes" by (simp add: example_manifest_def)
  then show ?thesis using signature_verifies_and_binds [OF toy_signs seed run] run by blast
qed

text \<open>
  C28: Trust follows the files: a key file that was added makes its key trusted, under whatever failures of
  other files; removing its identifier ends that; and no addition or removal changes whether a key
  with another identifier is trusted.
\<close>

theorem trust_follows_add_and_remove:
  assumes "LoadPublicKey file = Inr key" and "Trust_Add c io file fs = (Inr kid, fs')"
  shows "kid = KeyID c key \<and> Trusted c no_faults fs' key \<and>
    (\<forall>other. KeyID c other \<noteq> kid \<longrightarrow> Trusted c no_faults fs' other = Trusted c no_faults fs other) \<and>
    (\<forall>io' fs''. Trust_Remove io' kid fs' = (Inr (), fs'') \<longrightarrow> \<not> Trusted c no_faults fs'' key \<and>
       (\<forall>other. KeyID c other \<noteq> kid \<longrightarrow> Trusted c no_faults fs'' other = Trusted c no_faults fs other))"
proof -
  have kid: "kid = KeyID c key"
    and here: "lookup fs' (trust_path kid) = Some (File 420 (Raw (base64_EncodeToString key @ [10])))"
    and other: "\<And>q. q \<noteq> trust_path kid \<Longrightarrow> q \<noteq> trust_dir \<Longrightarrow> lookup fs' q = lookup fs q"
    by (rule Trust_Add_Inr [OF assms(2)], use assms(1) in simp)+
  have "length key = 32" using assms(1) by (rule LoadPublicKey_length)
  then have "Trusted c no_faults fs' key"
    using here decode_key_line unfolding Trusted_no_faults_iff kid by blast
  moreover have same: "Trusted c no_faults fs' k = Trusted c no_faults fs k" if "KeyID c k \<noteq> kid" for k
    using that other by (simp add: Trusted_no_faults_iff)
  moreover have "\<not> Trusted c no_faults fs'' key \<and>
      (\<forall>k. KeyID c k \<noteq> kid \<longrightarrow> Trusted c no_faults fs'' k = Trusted c no_faults fs k)"
    if rem: "Trust_Remove io' kid fs' = (Inr (), fs'')" for io' fs''
  proof -
    have "fs'' = prune (\<lambda>q. q \<noteq> trust_path kid) fs'"
      using rem by (auto simp: Trust_Remove_def Remove_def split: if_splits option.splits)
    then show ?thesis using kid same by (simp add: Trusted_no_faults_iff disk_simps)
  qed
  ultimately show ?thesis using kid by blast
qed

theorem trust_follows_add_and_remove_witness:
  "\<exists>kid fs'. Trust_Add toy_crypto no_faults (Inr (base64_EncodeToString (replicate 32 5) @ [10])) [] = (Inr kid, fs') \<and>
     Trusted toy_crypto no_faults fs' (replicate 32 5)"
proof -
  have key: "LoadPublicKey (Inr (base64_EncodeToString (replicate 32 5) @ [10])) = Inr (replicate 32 5)"
    by (simp add: LoadPublicKey_def decode_key_line)
  have "\<exists>kid fs'. Trust_Add toy_crypto no_faults (Inr (base64_EncodeToString (replicate 32 5) @ [10])) [] = (Inr kid, fs')"
    by (simp add: Trust_Add_def key trust_dir_def MkdirAll_def writeAtomic_def trust_path_def is_dir_def lookup_def
        put_def and_then_def)
  then show ?thesis using trust_follows_add_and_remove [OF key] by blast
qed

end
