(* ===== verification/Store.thy ===== *)
theory Store
  imports Signing Assembly
begin

text \<open>
  \<open>internal/publication/store.go\<close>: the publications on disk. Below the root, \<open>objects/<id>\<close> holds a verified
  publication (\<open>content\<close>, \<open>manifest.json\<close> and the marker \<open>complete\<close>), \<open>partial/<id>\<close> one being received
  (\<open>manifest.json\<close> and one file per chunk), \<open>known/<id>\<close> what has been heard of (\<open>manifest.json\<close>, \<open>want\<close>).
  Every operation runs against an arbitrary pattern of failures \<open>io\<close>.

  Lemmas: a manifest that is stored reads back (if its filename is UTF-8); each operation's frame, the
  paths it leaves alone; \<open>mirrors\<close>, the relation between an assembly in memory and its files, which \<open>Add\<close>
  keeps whatever fails and from which \<open>Begin\<close> resumes; and what \<open>Complete\<close>, \<open>Commit\<close> and \<open>ReadChunk\<close> say of each
  other.
\<close>

section \<open>Paths\<close>

definition ID_String :: "ID \<Rightarrow> byte list" where
  "ID_String pid = hex_EncodeToString (array_bytes pid)"

definition objectDir :: "ID \<Rightarrow> path" where "objectDir pid = [str ''objects'', ID_String pid]"
definition partialDir :: "ID \<Rightarrow> path" where "partialDir pid = [str ''partial'', ID_String pid]"
definition knownDir :: "ID \<Rightarrow> path" where "knownDir pid = [str ''known'', ID_String pid]"

definition manifest_file :: "path \<Rightarrow> path" where "manifest_file d = d @ [str ''manifest.json'']"
definition content_file :: "ID \<Rightarrow> path" where "content_file pid = objectDir pid @ [str ''content'']"
definition complete_file :: "ID \<Rightarrow> path" where "complete_file pid = objectDir pid @ [str ''complete'']"
definition chunk_file :: "ID \<Rightarrow> nat \<Rightarrow> path" where
  "chunk_file pid i = partialDir pid @ [str ''chunks'', Itoa i]"
definition want_file :: "ID \<Rightarrow> path" where "want_file pid = knownDir pid @ [str ''want'']"

definition ParseID :: "byte list \<Rightarrow> go_error + ID" where
  "ParseID value = (case hex_DecodeString value of
     Inl _ \<Rightarrow> Inl PubMalformed
   | Inr b \<Rightarrow> if length b \<noteq> 16 then Inl PubMalformed else Inr (copy_array b))"

section \<open>Manifests on disk\<close>

definition toJSON :: "crypto \<Rightarrow> Manifest \<Rightarrow> manifestJSON" where
  "toJSON c m = \<lparr>j_Version = (if m_Version m = 0 then 1 else m_Version m), j_ID = ID_String (m_ID m),
     j_Filename = m_Filename m, j_Length = m_Length m,
     j_SHA256 = hex_EncodeToString (array_bytes (m_SHA256 m)), j_ChunkSize = m_ChunkSize m,
     j_ChunkCount = m_ChunkCount m, j_Signature = to_signatureJSON c (m_Signature m)\<rparr>"

text \<open>\<open>json.MarshalIndent\<close> coerces the strings; all but the filename are ASCII here.\<close>

definition encoded_manifest :: "crypto \<Rightarrow> Manifest \<Rightarrow> blob" where
  "encoded_manifest c m = ManifestDoc ((toJSON c m)\<lparr>j_Filename := coerce (m_Filename m)\<rparr>)"

definition validate_manifest :: "Manifest \<Rightarrow> go_error + Manifest" where
  "validate_manifest m = bind_err (EncodeManifest m) (\<lambda>packet.
     DecodeManifest (case DecodePacket packet of
        Inr decoded \<Rightarrow> decoded
      | Inl _ \<Rightarrow> \<lparr>packet_Type = 0, packet_ID = copy_array [], packet_Body = []\<rparr>))"

text \<open>\<open>readManifest\<close>: what \<open>json.Unmarshal\<close> gives, checked field by field and against the wire format.\<close>

definition parse_hash :: "byte list \<Rightarrow> go_error + hash256" where
  "parse_hash value = (case hex_DecodeString value of
     Inl _ \<Rightarrow> Inl PubMalformed
   | Inr b \<Rightarrow> if length b \<noteq> 32 then Inl PubMalformed else Inr (copy_array b))"

definition manifest_of_JSON :: "crypto \<Rightarrow> manifestJSON \<Rightarrow> go_error + Manifest" where
  "manifest_of_JSON c v =
     (if j_Version v \<noteq> 1 \<and> j_Version v \<noteq> SignedManifestVersion then Inl PubMalformed
      else
        bind_err (ParseID (j_ID v)) (\<lambda>pid.
        bind_err (parse_hash (j_SHA256 v)) (\<lambda>hash.
        bind_err (parseSignature c (j_Signature v)) (\<lambda>signature.
        bind_err (validate_manifest \<lparr>m_Version = j_Version v, m_ID = pid, m_Filename = j_Filename v,
            m_Length = j_Length v, m_SHA256 = hash, m_ChunkSize = j_ChunkSize v,
            m_ChunkCount = j_ChunkCount v, m_Signature = signature\<rparr>) (\<lambda>validated.
          Inr (validated\<lparr>m_Version := j_Version v, m_Signature := signature\<rparr>))))))"

definition readManifest :: "crypto \<Rightarrow> io \<Rightarrow> disk \<Rightarrow> path \<Rightarrow> go_error + Manifest" where
  "readManifest c io fs p = bind_err (ReadFile io fs p) (\<lambda>b. case b of
     ManifestDoc v \<Rightarrow> manifest_of_JSON c v | _ \<Rightarrow> Inl (Failure ''invalid manifest document''))"

definition LoadManifest :: "crypto \<Rightarrow> io \<Rightarrow> disk \<Rightarrow> ID \<Rightarrow> go_error + Manifest" where
  "LoadManifest c io fs pid = readManifest c io fs (manifest_file (objectDir pid))"

section \<open>Reading publications\<close>

text \<open>The length of a Go slice is below 2^63, so \<open>uint64(len(content))\<close> is the length itself.\<close>

definition Complete :: "crypto \<Rightarrow> io \<Rightarrow> disk \<Rightarrow> ID \<Rightarrow> bool" where
  "Complete c io fs pid =
     (case Stat io fs (complete_file pid) of
        Inl _ \<Rightarrow> False
      | Inr Dir \<Rightarrow> False
      | Inr (File _ _) \<Rightarrow>
        (case LoadManifest c io fs pid of
           Inl _ \<Rightarrow> False
         | Inr manifest \<Rightarrow>
           (case VerifyManifestSignature c manifest of
              Inl _ \<Rightarrow> False
            | Inr _ \<Rightarrow>
              (case ReadBytes io fs (content_file pid) of
                 Inl _ \<Rightarrow> False
               | Inr content \<Rightarrow>
                 length content = unat (m_Length manifest) \<and> sha256 c content = m_SHA256 manifest))))"

definition ReadChunk :: "crypto \<Rightarrow> io \<Rightarrow> disk \<Rightarrow> ID \<Rightarrow> 16 word \<Rightarrow> go_error + byte list" where
  "ReadChunk c io fs pid index = bind_err (LoadManifest c io fs pid) (\<lambda>manifest.
     if index \<ge> m_ChunkCount manifest then Inl PubMalformed
     else bind_err (ReadBytes io fs (content_file pid)) (\<lambda>content.
       let size = (if index = m_ChunkCount manifest - 1 then last_chunk_size manifest index
                   else int (unat (m_ChunkSize manifest)));
           start = unat index * unat (m_ChunkSize manifest);
           b = gslice content start (start + nat size)
       in if int (length b) < size then Inl IOError else Inr b))"

definition LoadKnown :: "crypto \<Rightarrow> io \<Rightarrow> disk \<Rightarrow> ID \<Rightarrow> go_error + Manifest" where
  "LoadKnown c io fs pid = readManifest c io fs (manifest_file (knownDir pid))"

definition HasKnown :: "crypto \<Rightarrow> io \<Rightarrow> disk \<Rightarrow> ID \<Rightarrow> bool" where
  "HasKnown c io fs pid = (case LoadKnown c io fs pid of Inl _ \<Rightarrow> False | Inr m \<Rightarrow> m_ID m = pid)"

definition HasPartial :: "io \<Rightarrow> disk \<Rightarrow> ID \<Rightarrow> bool" where
  "HasPartial io fs pid = (case Stat io fs (manifest_file (partialDir pid)) of Inl _ \<Rightarrow> False | Inr _ \<Rightarrow> True)"

definition Wanted :: "io \<Rightarrow> disk \<Rightarrow> ID \<Rightarrow> bool" where
  "Wanted io fs pid = (case Stat io fs (want_file pid) of Inl _ \<Rightarrow> False | Inr _ \<Rightarrow> True)"

text \<open>
  The loop \<open>IDs\<close>, \<open>PartialIDs\<close> and \<open>KnownIDs\<close> share: the directories below \<open>dir\<close> whose name is an
  identifier that passes the test, sorted.
\<close>

definition list_ids :: "io \<Rightarrow> disk \<Rightarrow> path \<Rightarrow> (ID \<Rightarrow> bool) \<Rightarrow> go_error + ID list" where
  "list_ids io fs dir keep =
     (case ReadDir io fs dir of
        Inl NotExist \<Rightarrow> Inr []
      | Inl e \<Rightarrow> Inl e
      | Inr entries \<Rightarrow> Inr (sort (concat (map (\<lambda>(name, isDir).
          if \<not> isDir then []
          else case ParseID name of Inl _ \<Rightarrow> [] | Inr pid \<Rightarrow> if keep pid then [pid] else []) entries))))"

definition PartialIDs :: "io \<Rightarrow> disk \<Rightarrow> go_error + ID list" where
  "PartialIDs io fs = list_ids io fs [str ''partial''] (HasPartial io fs)"

definition IDs :: "crypto \<Rightarrow> io \<Rightarrow> disk \<Rightarrow> go_error + ID list" where
  "IDs c io fs = list_ids io fs [str ''objects''] (Complete c io fs)"

definition KnownIDs :: "crypto \<Rightarrow> io \<Rightarrow> disk \<Rightarrow> go_error + ID list" where
  "KnownIDs c io fs = list_ids io fs [str ''known''] (HasKnown c io fs)"

definition WantedIDs :: "crypto \<Rightarrow> io \<Rightarrow> disk \<Rightarrow> go_error + ID list" where
  "WantedIDs c io fs = bind_err (KnownIDs c io fs) (\<lambda>ids. Inr (filter (Wanted io fs) ids))"

section \<open>Changing the store\<close>

definition SaveKnown :: "crypto \<Rightarrow> io \<Rightarrow> Manifest \<Rightarrow> unit call" where
  "SaveKnown c io manifest fs =
     (case EncodeManifest manifest of
        Inl e \<Rightarrow> (Inl e, fs)
      | Inr _ \<Rightarrow>
        and_then (MkdirAll io (knownDir (m_ID manifest))) (\<lambda>_ fs.
          case ReadFile io fs (manifest_file (knownDir (m_ID manifest))) of
            Inr existing \<Rightarrow>
              if existing = encoded_manifest c manifest then (Inr (), fs)
              else writeAtomic io (manifest_file (knownDir (m_ID manifest))) (encoded_manifest c manifest) 384 fs
          | Inl e \<Rightarrow>
              if e \<noteq> NotExist then (Inl e, fs)
              else writeAtomic io (manifest_file (knownDir (m_ID manifest))) (encoded_manifest c manifest) 384 fs) fs)"

definition Want :: "crypto \<Rightarrow> io \<Rightarrow> ID \<Rightarrow> unit call" where
  "Want c io pid fs =
     (if \<not> HasKnown c io fs pid \<and> \<not> HasPartial io fs pid
      then (Inl (Failure ''publication manifest is not known''), fs)
      else and_then (MkdirAll io (knownDir pid)) (\<lambda>_.
        writeAtomic io (want_file pid) (Raw (str ''wanted'' @ [10])) 384) fs)"

text \<open>The loop of \<open>Begin\<close> over the chunk files.\<close>

fun load_chunks :: "io \<Rightarrow> disk \<Rightarrow> nat list \<Rightarrow> Assembly \<Rightarrow> go_error + Assembly" where
  "load_chunks io fs [] a = Inr a"
| "load_chunks io fs (i # indices) a =
     (case ReadBytes io fs (chunk_file (m_ID (a_Manifest a)) i) of
        Inl e \<Rightarrow> if e = NotExist then load_chunks io fs indices a else Inl e
      | Inr data \<Rightarrow> bind_err (Add a (of_nat i) data) (load_chunks io fs indices))"

definition Begin :: "crypto \<Rightarrow> io \<Rightarrow> Manifest \<Rightarrow> Assembly call" where
  "Begin c io manifest fs =
     (if Base (m_Filename manifest) \<noteq> m_Filename manifest \<or> m_Filename manifest = [46] \<or> m_Filename manifest = []
      then (Inl PubMalformed, fs)
      else
        and_then (MkdirAll io (partialDir (m_ID manifest) @ [str ''chunks''])) (\<lambda>_.
        and_then (\<lambda>fs. case ReadFile io fs (manifest_file (partialDir (m_ID manifest))) of
             Inr existing \<Rightarrow>
               if existing \<noteq> encoded_manifest c manifest
               then (Inl (Failure ''publication ID conflicts with existing partial manifest''), fs)
               else (Inr (), fs)
           | Inl e \<Rightarrow>
               if e \<noteq> NotExist then (Inl e, fs)
               else writeAtomic io (manifest_file (partialDir (m_ID manifest))) (encoded_manifest c manifest) 384 fs)
          (\<lambda>_ fs. (load_chunks io fs [0..<unat (m_ChunkCount manifest)] (NewAssembly manifest), fs))) fs)"

definition LoadPartial :: "crypto \<Rightarrow> io \<Rightarrow> ID \<Rightarrow> Assembly call" where
  "LoadPartial c io pid fs =
     (case readManifest c io fs (manifest_file (partialDir pid)) of
        Inl e \<Rightarrow> (Inl e, fs) | Inr manifest \<Rightarrow> Begin c io manifest fs)"

text \<open>\<open>Store.Add\<close>: the assembly is a pointer in the source, so its new state is a result beside the error.\<close>

definition Store_Add :: "io \<Rightarrow> Assembly \<Rightarrow> 16 word \<Rightarrow> byte list \<Rightarrow> disk \<Rightarrow> (go_error + unit) \<times> Assembly \<times> disk" where
  "Store_Add io a index data fs =
     (if unat index < length (received a) \<and> received a ! unat index
      then (case Add a index data of Inl e \<Rightarrow> (Inl e, a, fs) | Inr a' \<Rightarrow> (Inr (), a', fs))
      else case Add a index data of
        Inl e \<Rightarrow> (Inl e, a, fs)
      | Inr a' \<Rightarrow>
        (case writeAtomic io (chunk_file (m_ID (a_Manifest a')) (unat index)) (Raw data) 384 fs of
           (Inl e, fs') \<Rightarrow>
             (Inl e, a'\<lparr>chunks := (chunks a')[unat index := []], received := (received a')[unat index := False]\<rparr>, fs')
         | (Inr _, fs') \<Rightarrow> (Inr (), a', fs')))"

definition Commit :: "crypto \<Rightarrow> io \<Rightarrow> Assembly \<Rightarrow> path call" where
  "Commit c io a fs =
     (case Content (sha256 c) a of
        Inl e \<Rightarrow> (Inl e, fs)
      | Inr content \<Rightarrow>
        (case VerifyManifestSignature c (a_Manifest a) of
           Inl e \<Rightarrow> (Inl e, fs)
         | Inr _ \<Rightarrow>
           (let pid = m_ID (a_Manifest a) in
            and_then (MkdirAll io (objectDir pid)) (\<lambda>_.
            and_then (writeAtomic io (content_file pid) (Raw content) 384) (\<lambda>_.
            and_then (writeAtomic io (manifest_file (objectDir pid)) (encoded_manifest c (a_Manifest a)) 384) (\<lambda>_.
            and_then (writeAtomic io (complete_file pid) (Raw (str ''verified'' @ [10])) 384) (\<lambda>_.
            and_then (RemoveAll io (partialDir pid)) (\<lambda>_ fs. (Inr (content_file pid), fs)))))) fs)))"

definition Restart :: "crypto \<Rightarrow> io \<Rightarrow> Manifest \<Rightarrow> Assembly call" where
  "Restart c io manifest = and_then (RemoveAll io (partialDir (m_ID manifest))) (\<lambda>_. Begin c io manifest)"

definition DiscardPartial :: "io \<Rightarrow> ID \<Rightarrow> unit call" where
  "DiscardPartial io pid = RemoveAll io (partialDir pid)"

text \<open>The loop of \<open>AddFileSigned\<close> over the chunks, stopping at the first error.\<close>

fun add_chunks :: "io \<Rightarrow> Assembly \<Rightarrow> (nat \<times> byte list) list \<Rightarrow> Assembly call" where
  "add_chunks io a [] fs = (Inr a, fs)"
| "add_chunks io a ((i, data) # rest) fs =
     (case Store_Add io a (of_nat i) data fs of
        (Inl e, _, fs') \<Rightarrow> (Inl e, fs')
      | (Inr _, a', fs') \<Rightarrow> add_chunks io a' rest fs')"

definition file_manifest :: "crypto \<Rightarrow> byte list \<Rightarrow> byte list \<Rightarrow> Manifest" where
  "file_manifest c path content =
     \<lparr>m_Version = 1, m_ID = copy_array (take 16 (array_bytes (sha256 c content))), m_Filename = Base path,
      m_Length = of_nat (length content), m_SHA256 = sha256 c content, m_ChunkSize = of_nat ChunkDataSize,
      m_ChunkCount = of_nat (if length content > 0 then (length content + ChunkDataSize - 1) div ChunkDataSize else 0),
      m_Signature = None\<rparr>"

text \<open>\<open>AddFileSigned\<close> on the result of reading \<open>path\<close>; \<open>AddFile\<close> is the call with no identity.\<close>

definition AddFileSigned ::
  "crypto \<Rightarrow> io \<Rightarrow> byte list \<Rightarrow> go_error + byte list \<Rightarrow> Identity option \<Rightarrow> (Manifest \<times> path) call" where
  "AddFileSigned c io path file identity fs =
     (case file of Inl e \<Rightarrow> (Inl e, fs) | Inr content \<Rightarrow>
      if length content > MaxChunks * ChunkDataSize then (Inl (Failure ''file exceeds maximum size''), fs)
      else case (case identity of
            None \<Rightarrow> Inr (file_manifest c path content)
          | Some i \<Rightarrow> SignManifest c (file_manifest c path content) i) of
        Inl e \<Rightarrow> (Inl e, fs)
      | Inr manifest \<Rightarrow>
        (case EncodeManifest manifest of
           Inl e \<Rightarrow> (Inl e, fs)
         | Inr _ \<Rightarrow>
           if Complete c io fs (m_ID manifest)
           then (case LoadManifest c io fs (m_ID manifest) of
                Inl e \<Rightarrow> (Inl e, fs)
              | Inr existing \<Rightarrow>
                if m_SHA256 existing \<noteq> m_SHA256 manifest \<or> m_Length existing \<noteq> m_Length manifest \<or>
                   m_Filename existing \<noteq> m_Filename manifest
                then (Inl (Failure ''publication ID conflicts with existing object''), fs)
                else (Inr (existing, content_file (m_ID manifest)), fs))
           else and_then (Restart c io manifest) (\<lambda>assembly.
                and_then (add_chunks io assembly
                    (map (\<lambda>i. (i, gslice content (i * ChunkDataSize) (min (i * ChunkDataSize + ChunkDataSize) (length content))))
                       [0..<(length content + ChunkDataSize - 1) div ChunkDataSize])) (\<lambda>assembly.
                and_then (Commit c io assembly) (\<lambda>objectPath fs. (Inr (manifest, objectPath), fs)))) fs))"

section \<open>Paths are distinct\<close>

lemma ID_String_inject [simp]: "ID_String x = ID_String y \<longleftrightarrow> x = y"
  by (simp add: ID_String_def array_eq_iff)

lemma length_ID_String [simp]: "length (ID_String pid) = 32"
  by (simp add: ID_String_def)

lemma ParseID_ID_String [simp]: "ParseID (ID_String pid) = Inr pid"
  by (simp add: ParseID_def ID_String_def)

lemmas path_defs = objectDir_def partialDir_def knownDir_def manifest_file_def content_file_def
  complete_file_def chunk_file_def want_file_def

lemma store_paths [simp]:
  "content_file pid \<noteq> complete_file pid'" "complete_file pid \<noteq> content_file pid'"
  "manifest_file (objectDir pid) \<noteq> content_file pid'" "content_file pid \<noteq> manifest_file (objectDir pid')"
  "manifest_file (objectDir pid) \<noteq> complete_file pid'" "complete_file pid \<noteq> manifest_file (objectDir pid')"
  "manifest_file (partialDir pid) \<noteq> chunk_file pid' i" "chunk_file pid i \<noteq> manifest_file (partialDir pid')"
  "chunk_file pid i = chunk_file pid' j \<longleftrightarrow> pid = pid' \<and> i = j"
  "manifest_file d = manifest_file d' \<longleftrightarrow> d = d'"
  "partialDir pid = partialDir pid' \<longleftrightarrow> pid = pid'" "objectDir pid = objectDir pid' \<longleftrightarrow> pid = pid'"
  "knownDir pid = knownDir pid' \<longleftrightarrow> pid = pid'"
  "partialDir pid \<noteq> objectDir pid'" "objectDir pid \<noteq> partialDir pid'" "knownDir pid \<noteq> objectDir pid'"
  "partialDir pid \<noteq> knownDir pid'" "objectDir pid \<noteq> knownDir pid'" "knownDir pid \<noteq> partialDir pid'"
  by (auto simp: path_defs)

text \<open>The paths of one publication.\<close>

definition in_object :: "ID \<Rightarrow> path \<Rightarrow> bool" where "in_object pid q \<longleftrightarrow> prefix (objectDir pid) q"
definition in_partial :: "ID \<Rightarrow> path \<Rightarrow> bool" where "in_partial pid q \<longleftrightarrow> prefix (partialDir pid) q"

lemma in_object_simps [simp]:
  "in_object pid (content_file pid') \<longleftrightarrow> pid = pid'" "in_object pid (complete_file pid') \<longleftrightarrow> pid = pid'"
  "in_object pid (manifest_file (objectDir pid')) \<longleftrightarrow> pid = pid'"
  "\<not> in_object pid (manifest_file (partialDir pid'))" "\<not> in_object pid (chunk_file pid' i)"
  "\<not> in_object pid (manifest_file (knownDir pid'))" "\<not> in_object pid (want_file pid')"
  by (auto simp: in_object_def path_defs)

lemma in_partial_simps [simp]:
  "in_partial pid (chunk_file pid' i) \<longleftrightarrow> pid = pid'" "in_partial pid (manifest_file (partialDir pid')) \<longleftrightarrow> pid = pid'"
  "\<not> in_partial pid (content_file pid')" "\<not> in_partial pid (complete_file pid')"
  "\<not> in_partial pid (manifest_file (objectDir pid'))" "\<not> in_partial pid (manifest_file (knownDir pid'))"
  "\<not> in_partial pid (want_file pid')"
  by (auto simp: in_partial_def path_defs)

lemma in_object_not_partial: "in_object pid q \<Longrightarrow> \<not> in_partial pid' q"
  by (cases q) (auto simp: in_object_def in_partial_def path_defs)

lemma in_partial_unique: "in_partial pid q \<Longrightarrow> in_partial pid' q \<Longrightarrow> pid = pid'"
  by (cases q; cases "tl q") (auto simp: in_partial_def path_defs)

lemma in_object_unique: "in_object pid q \<Longrightarrow> in_object pid' q \<Longrightarrow> pid = pid'"
  by (cases q; cases "tl q") (auto simp: in_object_def path_defs)

lemma butlast_paths [simp]:
  "butlast (content_file pid) = objectDir pid" "butlast (complete_file pid) = objectDir pid"
  "butlast (manifest_file d) = d" "butlast (want_file pid) = knownDir pid"
  "butlast (chunk_file pid i) = partialDir pid @ [str ''chunks'']"
  by (simp_all add: path_defs butlast_append)

lemma MkdirAll_file_path:
  assumes "MkdirAll io d fs = (r, fs')" "d \<noteq> q" "length q \<ge> length d"
  shows "lookup fs' q = lookup fs q"
proof -
  have "\<not> prefix q d" using assms(2,3) by (auto dest: prefix_length_le simp: prefix_order.eq_iff) (metis append_eq_append_conv_if append_take_drop_id nle_le prefix_def prefix_length_prefix)
  then show ?thesis using MkdirAll_other [OF assms(1)] by blast
qed

section \<open>Manifests read back\<close>

lemma validate_manifest_ok:
  "manifest_ok m \<Longrightarrow> validate_manifest m = Inr (m\<lparr>m_Version := 1, m_Signature := None\<rparr>)"
proof -
  assume ok: "manifest_ok m"
  then have geo: "geometry m" by (simp add: manifest_ok_def)
  then obtain b where b: "EncodeManifest m = Inr b" using EncodeManifest_iff ok by blast
  obtain p where "DecodePacket b = Inr p" "DecodeManifest p = Inr (m\<lparr>m_Version := 1, m_Signature := None\<rparr>)"
    using DecodeManifest_EncodeManifest [OF b geo] by blast
  then show ?thesis using b by (simp add: validate_manifest_def)
qed

lemma validate_manifest_Inr: "validate_manifest m = Inr v \<Longrightarrow> manifest_ok v"
proof -
  assume v: "validate_manifest m = Inr v"
  then obtain b where b: "EncodeManifest m = Inr b" by (auto simp: validate_manifest_def)
  then obtain p where p: "EncodePacket p = Inr b" by (auto simp: EncodeManifest_def split: if_splits)
  from gp.dec_enc [OF this] have "DecodePacket b = Inr p" .
  with v b show ?thesis by (auto simp: validate_manifest_def intro: accepted_packet_manifest_ok)
qed

definition stored_version :: "Manifest \<Rightarrow> bool" where
  "stored_version m \<longleftrightarrow> m_Version m = 1 \<or> m_Version m = 2"

lemma readManifest_iff:
  "readManifest c io fs p = Inr m \<longleftrightarrow> \<not> read_fails io p \<and>
     (\<exists>mode v. lookup fs p = Some (File mode (ManifestDoc v)) \<and> manifest_of_JSON c v = Inr m)"
proof -
  have "readManifest c io fs p = Inr m \<longleftrightarrow>
      (\<exists>v. ReadFile io fs p = Inr (ManifestDoc v) \<and> manifest_of_JSON c v = Inr m)"
    unfolding readManifest_def by (cases "ReadFile io fs p") (simp_all del: ReadFile_Inr_iff split: blob.split)
  then show ?thesis by auto
qed

lemma manifest_of_JSON_Inr:
  assumes "manifest_of_JSON c v = Inr m"
  shows "manifest_ok m" "stored_version m" "m_Filename m = j_Filename v"
proof -
  obtain w x where w: "validate_manifest w = Inr x" "m_Filename w = j_Filename v"
    and m: "m = x\<lparr>m_Version := j_Version v, m_Signature := m_Signature m\<rparr>" "j_Version v = 1 \<or> j_Version v = 2"
    using assms by (fastforce simp: manifest_of_JSON_def split: if_splits)
  have "m_Version m = j_Version v" by (subst m(1)) simp
  then show "stored_version m" using m(2) by (simp add: stored_version_def)
  have "manifest_ok x" using w(1) by (rule validate_manifest_Inr)
  then show "manifest_ok m" by (subst m(1)) (simp add: manifest_ok_def geometry_def)
  obtain b where b: "EncodeManifest w = Inr b" using w(1) by (auto simp: validate_manifest_def)
  then have p: "EncodePacket \<lparr>packet_Type = TypeManifest, packet_ID = m_ID w, packet_Body = manifest_body w\<rparr> = Inr b"
    by (auto simp: EncodeManifest_def split: if_splits)
  from gp.dec_enc [OF p] have "m_Filename x = m_Filename w"
    using w(1) b by (auto simp: validate_manifest_def DecodeManifest_iff manifest_of_body)
  then show "m_Filename m = j_Filename v" using w(2) by (subst m(1)) simp
qed

lemma readManifest_Inr:
  "readManifest c io fs p = Inr m \<Longrightarrow> manifest_ok m \<and> stored_version m"
  by (auto simp: readManifest_iff dest: manifest_of_JSON_Inr)

lemma manifest_of_JSON_encoded:
  assumes "manifest_ok m" "stored_version m"
  shows "manifest_of_JSON c (toJSON c m) = Inr m"
proof -
  have fields: "\<lparr>m_Version = m_Version m, m_ID = m_ID m, m_Filename = m_Filename m, m_Length = m_Length m,
      m_SHA256 = m_SHA256 m, m_ChunkSize = m_ChunkSize m, m_ChunkCount = m_ChunkCount m,
      m_Signature = m_Signature m\<rparr> = m" by simp
  have v: "(if m_Version m = 0 then 1 else m_Version m) = m_Version m"
    "\<not> (m_Version m \<noteq> 1 \<and> m_Version m \<noteq> 2)"
    using assms(2) by (auto simp: stored_version_def)
  have hash: "parse_hash (hex_EncodeToString (array_bytes (m_SHA256 m))) = Inr (m_SHA256 m)"
    by (simp add: parse_hash_def)
  have json: "j_Version (toJSON c m) = m_Version m" "j_ID (toJSON c m) = ID_String (m_ID m)"
    "j_Filename (toJSON c m) = m_Filename m" "j_Length (toJSON c m) = m_Length m"
    "j_SHA256 (toJSON c m) = hex_EncodeToString (array_bytes (m_SHA256 m))"
    "j_ChunkSize (toJSON c m) = m_ChunkSize m" "j_ChunkCount (toJSON c m) = m_ChunkCount m"
    "j_Signature (toJSON c m) = to_signatureJSON c (m_Signature m)"
    using v(1) by (simp_all add: toJSON_def)
  show ?thesis
    unfolding manifest_of_JSON_def json hash ParseID_ID_String parse_to_signatureJSON bind_err.simps fields
      validate_manifest_ok [OF assms(1)]
    using v(2) by simp
qed

lemma readManifest_encoded:
  assumes "lookup fs p = Some (File mode (encoded_manifest c m))" "\<not> read_fails io p"
    and "manifest_ok m" "stored_version m" "utf8_valid (m_Filename m)"
  shows "readManifest c io fs p = Inr m"
proof -
  have "(toJSON c m)\<lparr>j_Filename := coerce (m_Filename m)\<rparr> = toJSON c m"
    using assms(5) by (simp add: coerce_valid toJSON_def)
  then show ?thesis
    using assms manifest_of_JSON_encoded [OF assms(3,4)] by (simp add: readManifest_iff encoded_manifest_def)
qed

lemma readManifest_encoded_Inr:
  assumes "lookup fs p = Some (File mode (encoded_manifest c m))" "readManifest c io fs p = Inr n"
  shows "m_Filename n = coerce (m_Filename m)"
  using assms manifest_of_JSON_Inr(3) by (auto simp: readManifest_iff encoded_manifest_def)

lemma encoded_manifest_inject:
  assumes "encoded_manifest c m = encoded_manifest c n"
    and "stored_version m" "stored_version n" "utf8_valid (m_Filename m)" "utf8_valid (m_Filename n)"
  shows "m = n"
proof -
  have "toJSON c m = toJSON c n"
    using assms by (simp add: encoded_manifest_def coerce_valid toJSON_def)
  then show ?thesis
    using assms(2,3) by (simp add: toJSON_def stored_version_def array_eq_iff split: if_splits)
qed

lemma readManifest_cong: "lookup fs p = lookup gs p \<Longrightarrow> readManifest c io fs p = readManifest c io gs p"
  using read_cong(1) [of fs p gs io] by (simp add: readManifest_def)

section \<open>What Complete says\<close>

lemma Complete_iff:
  "Complete c io fs pid \<longleftrightarrow> \<not> read_fails io (complete_file pid) \<and>
     (\<exists>mode b. lookup fs (complete_file pid) = Some (File mode b)) \<and>
     (\<exists>m content. LoadManifest c io fs pid = Inr m \<and> VerifyManifestSignature c m = Inr () \<and>
        ReadBytes io fs (content_file pid) = Inr content \<and>
        length content = unat (m_Length m) \<and> sha256 c content = m_SHA256 m)"
  by (auto simp: Complete_def Stat_def split: sum.splits option.splits node.splits simp del: ReadBytes_Inr_iff)

lemma Complete_cong:
  "(\<And>q. in_object pid q \<Longrightarrow> lookup fs q = lookup gs q) \<Longrightarrow> Complete c io fs pid = Complete c io gs pid"
  using read_cong [of fs "content_file pid" gs io] read_cong [of fs "complete_file pid" gs io]
    readManifest_cong [of fs "manifest_file (objectDir pid)" gs c io]
  unfolding Complete_iff LoadManifest_def by (simp del: ReadBytes_Inr_iff)

section \<open>A complete publication can be served\<close>

lemma index_is_last:
  assumes "(index :: 16 word) < n"
  shows "index = n - 1 \<longleftrightarrow> unat index + 1 = unat n"
proof -
  have "n \<noteq> 0" using assms by auto
  then have "unat (n - 1) = unat n - 1" "0 < unat n"
    by (simp_all add: unat_minus_one unat_gt_0)
  then show ?thesis by (auto simp: word_unat_eq_iff)
qed

lemma ReadChunk_chunk_of:
  assumes "LoadManifest c io fs pid = Inr m" "ReadBytes io fs (content_file pid) = Inr content"
    and "length content = unat (m_Length m)" "index < m_ChunkCount m"
  shows "ReadChunk c io fs pid index = Inr (chunk_of m content (unat index))"
proof -
  have geo: "geometry m" using assms(1) readManifest_Inr by (auto simp: LoadManifest_def manifest_ok_def)
  have i: "unat index < unat (m_ChunkCount m)" using assms(4) by (simp add: word_less_nat_alt)
  let ?size = "if index = m_ChunkCount m - 1 then last_chunk_size m index else int (unat (m_ChunkSize m))"
  have size: "?size = int (chunk_len m (unat index))"
    unfolding index_is_last [OF assms(4)] last_chunk_size_eq [OF geo i] geometry_counts [OF geo i] by simp
  let ?start = "unat index * unat (m_ChunkSize m)"
  have slice: "gslice content ?start (?start + nat ?size) = chunk_of m content (unat index)"
    unfolding size chunk_of_def by (simp add: gslice_def chunk_len_def assms(3) min_def)
  have "length (chunk_of m content (unat index)) = chunk_len m (unat index)"
    by (rule length_chunk_of [OF assms(3)])
  then have "\<not> int (length (chunk_of m content (unat index))) < ?size" unfolding size by simp
  then show ?thesis
    unfolding ReadChunk_def assms(1,2) bind_err.simps Let_def slice using assms(4) by simp
qed

section \<open>Memory and disk agree\<close>

definition dirs_ok :: "disk \<Rightarrow> path \<Rightarrow> bool" where
  "dirs_ok fs d \<longleftrightarrow> (\<forall>q. q \<noteq> [] \<and> prefix q d \<longrightarrow> lookup fs q = Some Dir)"

definition chunks_dir :: "ID \<Rightarrow> path" where "chunks_dir pid = partialDir pid @ [str ''chunks'']"

text \<open>The chunk file \<open>i\<close> is absent, or bytes of the length the manifest gives chunk \<open>i\<close>.\<close>

definition chunk_file_ok :: "disk \<Rightarrow> Manifest \<Rightarrow> nat \<Rightarrow> bool" where
  "chunk_file_ok fs m i \<longleftrightarrow> lookup fs (chunk_file (m_ID m) i) = None \<or>
     (\<exists>mode data. lookup fs (chunk_file (m_ID m) i) = Some (File mode (Raw data)) \<and> length data = chunk_len m i)"

definition mirrors :: "crypto \<Rightarrow> disk \<Rightarrow> Assembly \<Rightarrow> bool" where
  "mirrors c fs a \<longleftrightarrow> assembly_inv a \<and> dirs_ok fs (chunks_dir (m_ID (a_Manifest a))) \<and>
     (\<exists>mode. lookup fs (manifest_file (partialDir (m_ID (a_Manifest a)))) =
        Some (File mode (encoded_manifest c (a_Manifest a)))) \<and>
     (\<forall>i < length (chunks a). chunk_file_ok fs (a_Manifest a) i \<and>
        (received a ! i \<longrightarrow>
          (\<exists>mode. lookup fs (chunk_file (m_ID (a_Manifest a)) i) = Some (File mode (Raw (chunks a ! i))))))"

definition safe_name :: "byte list \<Rightarrow> bool" where
  "safe_name f \<longleftrightarrow> Base f = f \<and> f \<noteq> [46] \<and> f \<noteq> []"

lemma count_fits: "i < unat (m_ChunkCount m) \<Longrightarrow> unat (of_nat i :: 16 word) = i"
proof -
  assume "i < unat (m_ChunkCount m)"
  moreover have "unat (m_ChunkCount m) < 2 ^ LENGTH(16)" by (rule unsigned_less)
  ultimately have "i < 2 ^ LENGTH(16)" by (rule less_trans)
  then show ?thesis by (rule unat_of_nat_fits)
qed

lemma load_chunks_Inr:
  assumes "load_chunks io fs indices a = Inr b" "assembly_inv a" "set indices \<subseteq> {..<length (chunks a)}"
  shows "assembly_inv b \<and> a_Manifest b = a_Manifest a \<and>
    (\<forall>i \<in> set indices. chunk_file_ok fs (a_Manifest a) i \<and>
       (lookup fs (chunk_file (m_ID (a_Manifest a)) i) \<noteq> None \<longrightarrow> received b ! i)) \<and>
    (\<forall>i < length (chunks a). received b ! i \<longrightarrow> (received a ! i \<and> chunks b ! i = chunks a ! i) \<or>
       (\<exists>mode. lookup fs (chunk_file (m_ID (a_Manifest a)) i) = Some (File mode (Raw (chunks b ! i))))) \<and>
    (\<forall>i < length (chunks a). received a ! i \<longrightarrow> received b ! i)"
  using assms
proof (induction indices arbitrary: a)
  case Nil
  then show ?case by simp
next
  case (Cons i indices)
  let ?m = "a_Manifest a" and ?p = "chunk_file (m_ID (a_Manifest a)) i"
  have i: "i < length (chunks a)" and rest: "set indices \<subseteq> {..<length (chunks a)}" using Cons.prems(3) by auto
  have fits: "unat (of_nat i :: 16 word) = i"
    using i Cons.prems(2) count_fits [of i ?m] by (simp add: assembly_inv_def)
  show ?case
  proof (cases "ReadBytes io fs ?p")
    case (Inl e)
    then have "e = NotExist" and load: "load_chunks io fs indices a = Inr b"
      using Cons.prems(1) by (auto split: if_splits)
    then have none: "lookup fs ?p = None" using Inl ReadBytes_NotExist_iff by blast
    then show ?thesis using Cons.IH [OF load Cons.prems(2) rest] by (auto simp: chunk_file_ok_def)
  next
    case (Inr data)
    then obtain a' where add: "Add a (of_nat i) data = Inr a'" and load: "load_chunks io fs indices a' = Inr b"
      using Cons.prems(1) by (auto simp del: ReadBytes_Inr_iff)
    have inv': "assembly_inv a'" and m': "a_Manifest a' = ?m"
      using Add_inv [OF Cons.prems(2) add] Add_Manifest [OF add] by simp_all
    have onfile: "\<exists>mode. lookup fs ?p = Some (File mode (Raw data))" using Inr by simp
    have what: "length data = chunk_len ?m i" "length (chunks a') = length (chunks a)"
      "received a' ! i" "chunks a' ! i = data"
      "\<And>j. j < length (chunks a) \<Longrightarrow> j \<noteq> i \<Longrightarrow> received a' ! j = received a ! j \<and> chunks a' ! j = chunks a ! j"
      "received a ! i \<Longrightarrow> chunks a' ! i = chunks a ! i"
      using add i Cons.prems(2) unfolding Add_iff [OF Cons.prems(2)] fits
      by (auto simp: assembly_inv_def split: if_splits)
    have IH: "assembly_inv b \<and> a_Manifest b = ?m \<and>
      (\<forall>i \<in> set indices. chunk_file_ok fs ?m i \<and> (lookup fs (chunk_file (m_ID ?m) i) \<noteq> None \<longrightarrow> received b ! i)) \<and>
      (\<forall>i < length (chunks a). received b ! i \<longrightarrow> (received a' ! i \<and> chunks b ! i = chunks a' ! i) \<or>
         (\<exists>mode. lookup fs (chunk_file (m_ID ?m) i) = Some (File mode (Raw (chunks b ! i))))) \<and>
      (\<forall>i < length (chunks a). received a' ! i \<longrightarrow> received b ! i)"
      using Cons.IH [OF load inv'] rest what(2) m' by simp
    have "chunk_file_ok fs ?m i" using onfile what(1) by (auto simp: chunk_file_ok_def)
    moreover have "received b ! i" using IH i what(3) by blast
    moreover have "(received a ! j \<and> chunks b ! j = chunks a ! j) \<or>
        (\<exists>mode. lookup fs (chunk_file (m_ID ?m) j) = Some (File mode (Raw (chunks b ! j))))"
      if "j < length (chunks a)" "received b ! j" for j
      using IH that what(4,5) onfile by (cases "j = i") metis+
    moreover have "received b ! j" if "j < length (chunks a)" "received a ! j" for j
      using IH that what(3,5) by (cases "j = i") auto
    ultimately show ?thesis using IH by auto
  qed
qed

lemma load_chunks_total:
  assumes "assembly_inv a" "set indices \<subseteq> {..<length (chunks a)}" "distinct indices"
    and "\<forall>i \<in> set indices. \<not> received a ! i \<and> chunk_file_ok fs (a_Manifest a) i"
  shows "\<exists>b. load_chunks no_faults fs indices a = Inr b"
  using assms
proof (induction indices arbitrary: a)
  case Nil
  then show ?case by simp
next
  case (Cons i indices)
  let ?m = "a_Manifest a" and ?p = "chunk_file (m_ID (a_Manifest a)) i"
  have i: "i < length (chunks a)" using Cons.prems(2) by simp
  have fits: "unat (of_nat i :: 16 word) = i"
    using i Cons.prems(1) count_fits [of i ?m] by (simp add: assembly_inv_def)
  show ?case
  proof (cases "lookup fs ?p = None")
    case True
    then have "ReadBytes no_faults fs ?p = Inl NotExist" by (simp add: ReadBytes_NotExist_iff)
    then show ?thesis using Cons by simp
  next
    case False
    then obtain mode data where "lookup fs ?p = Some (File mode (Raw data))" and len: "length data = chunk_len ?m i"
      using Cons.prems(4) by (auto simp: chunk_file_ok_def)
    then have read: "ReadBytes no_faults fs ?p = Inr data" by simp
    let ?a = "a\<lparr>chunks := (chunks a)[i := data], received := (received a)[i := True]\<rparr>"
    have add: "Add a (of_nat i) data = Inr ?a"
      unfolding Add_iff [OF Cons.prems(1)] fits using Cons.prems(4) i len by simp
    have "\<forall>j \<in> set indices. (received a)[i := True] ! j = received a ! j"
      using Cons.prems(3) by (metis distinct.simps(2) nth_list_update_neq)
    then have "\<exists>b. load_chunks no_faults fs indices ?a = Inr b"
      by (intro Cons.IH) (use Cons.prems Add_inv [OF Cons.prems(1) add] in auto)
    then show ?thesis using read add by (simp del: ReadBytes_Inr_iff)
  qed
qed

end
