(* ===== verification/Store_Safety.thy ===== *)
theory Store_Safety
  imports Store
begin

text \<open>
  What the operations of the store guarantee when any of their file-system calls may fail: an assembly
  and its files stay in agreement, so a partial publication can be resumed; a commit never loses the
  chunks before the publication is complete, and never touches another publication; publishing a file
  leaves it complete and servable.
\<close>

section \<open>Begin\<close>

definition open_manifest :: "crypto \<Rightarrow> io \<Rightarrow> Manifest \<Rightarrow> unit call" where
  "open_manifest c io m fs =
     (case ReadFile io fs (manifest_file (partialDir (m_ID m))) of
        Inr existing \<Rightarrow>
          if existing \<noteq> encoded_manifest c m
          then (Inl (Failure ''publication ID conflicts with existing partial manifest''), fs)
          else (Inr (), fs)
      | Inl e \<Rightarrow>
          if e \<noteq> NotExist then (Inl e, fs)
          else writeAtomic io (manifest_file (partialDir (m_ID m))) (encoded_manifest c m) 384 fs)"

lemma Begin_alt:
  "Begin c io m fs =
     (if \<not> safe_name (m_Filename m) then (Inl PubMalformed, fs)
      else and_then (MkdirAll io (chunks_dir (m_ID m))) (\<lambda>_.
        and_then (open_manifest c io m)
          (\<lambda>_ fs. (load_chunks io fs [0..<unat (m_ChunkCount m)] (NewAssembly m), fs))) fs)"
  unfolding Begin_def safe_name_def chunks_dir_def open_manifest_def by auto

lemma open_manifest_other:
  "open_manifest c io m fs = (r, fs') \<Longrightarrow> q \<noteq> manifest_file (partialDir (m_ID m)) \<Longrightarrow> lookup fs' q = lookup fs q"
  by (auto simp: open_manifest_def writeAtomic_other split: sum.splits if_splits)

lemma open_manifest_Inr:
  "open_manifest c io m fs = (Inr (), fs') \<Longrightarrow>
   \<exists>mode. lookup fs' (manifest_file (partialDir (m_ID m))) = Some (File mode (encoded_manifest c m))"
  by (auto simp: open_manifest_def disk_simps split: sum.splits if_splits dest!: writeAtomic_Inr)

lemma chunks_dir_not_file [simp]:
  "\<not> prefix (manifest_file (partialDir pid)) (chunks_dir pid')" "\<not> prefix (chunk_file pid i) (chunks_dir pid')"
  "butlast (chunk_file pid i) = chunks_dir pid"
  by (auto simp: path_defs chunks_dir_def butlast_append)

lemma partialDir_prefix [simp]: "prefix (partialDir pid) (chunks_dir pid)"
  by (simp add: chunks_dir_def)

lemma prefix_chunks_dir:
  "prefix q (chunks_dir pid) \<longleftrightarrow> q = [] \<or> q = [str ''partial''] \<or> q = partialDir pid \<or> q = chunks_dir pid"
  by (auto simp: chunks_dir_def partialDir_def prefix_Cons)

lemma assembly_inv_new: "geometry m \<Longrightarrow> i < unat (m_ChunkCount m) \<Longrightarrow> \<not> received (NewAssembly m) ! i"
  by (simp add: NewAssembly_def)

lemma NewAssembly_simps [simp]:
  "length (chunks (NewAssembly m)) = unat (m_ChunkCount m)" "a_Manifest (NewAssembly m) = m"
  by (simp_all add: NewAssembly_def)

lemma Begin_frame:
  assumes "Begin c io m fs = (r, fs')" "\<not> in_partial (m_ID m) q" "q \<noteq> [str ''partial'']"
  shows "lookup fs' q = lookup fs q"
proof -
  have q: "\<not> prefix q (chunks_dir (m_ID m)) \<or> q = []"
    using assms(2,3) by (auto simp: prefix_chunks_dir in_partial_def)
  have dirs: "lookup fs1 q = lookup fs q" if "MkdirAll io (chunks_dir (m_ID m)) fs = (r', fs1)" for r' fs1
    using MkdirAll_lookup [OF that, of q] q by blast
  have mf: "q \<noteq> manifest_file (partialDir (m_ID m))" using assms(2) by auto
  show ?thesis
    using assms(1) unfolding Begin_alt
    by (auto simp: open_manifest_other [OF _ mf] dirs split: if_splits elim!: and_then_cases)
qed

lemma Begin_Inr:
  assumes "Begin c io m fs = (Inr a, fs')" "geometry m"
  shows "safe_name (m_Filename m)" "a_Manifest a = m" "mirrors c fs' a"
proof -
  let ?d = "chunks_dir (m_ID m)"
  obtain fs1 where safe: "safe_name (m_Filename m)" and fs1: "MkdirAll io ?d fs = (Inr (), fs1)"
    and om: "open_manifest c io m fs1 = (Inr (), fs')"
    and load: "load_chunks io fs' [0..<unat (m_ChunkCount m)] (NewAssembly m) = Inr a"
    using assms(1) unfolding Begin_alt by (auto split: if_splits)
  have inv: "assembly_inv (NewAssembly m)" using assms(2) by (rule NewAssembly_inv)
  have sub: "set [0..<unat (m_ChunkCount m)] \<subseteq> {..<length (chunks (NewAssembly m))}" by auto
  have L: "assembly_inv a \<and> a_Manifest a = m \<and>
    (\<forall>i < unat (m_ChunkCount m). chunk_file_ok fs' m i) \<and>
    (\<forall>i < unat (m_ChunkCount m). received a ! i \<longrightarrow>
       (\<exists>mode. lookup fs' (chunk_file (m_ID m) i) = Some (File mode (Raw (chunks a ! i)))))"
    using load_chunks_Inr [OF load inv sub] assembly_inv_new [OF assms(2)] by auto
  have "dirs_ok fs' ?d"
    unfolding dirs_ok_def
  proof (intro allI impI)
    fix q assume q: "q \<noteq> [] \<and> prefix q ?d"
    then have "is_dir fs1 q" using MkdirAll_is_dir [OF fs1] by blast
    moreover have "q \<noteq> manifest_file (partialDir (m_ID m))" using q by auto
    ultimately show "lookup fs' q = Some Dir" using q open_manifest_other [OF om] by (auto simp: is_dir_def)
  qed
  then show "mirrors c fs' a"
    using L open_manifest_Inr [OF om] by (auto simp: mirrors_def assembly_inv_def)
  show "safe_name (m_Filename m)" "a_Manifest a = m" using safe L by simp_all
qed

text \<open>From files that agree with an assembly, a disk that works resumes it.\<close>

lemma Begin_resumes:
  assumes "mirrors c fs a" "safe_name (m_Filename (a_Manifest a))"
  obtains b fs' where "Begin c no_faults (a_Manifest a) fs = (Inr b, fs')" "mirrors c fs' b"
    and "a_Manifest b = a_Manifest a"
    and "\<And>i. i < length (chunks a) \<Longrightarrow> received a ! i \<Longrightarrow> received b ! i \<and> chunks b ! i = chunks a ! i"
    and "\<And>q. lookup fs' q = lookup fs q"
proof -
  let ?m = "a_Manifest a" and ?d = "chunks_dir (m_ID (a_Manifest a))"
  have inv: "assembly_inv a" and geo: "geometry ?m" and n: "length (chunks a) = unat (m_ChunkCount ?m)"
    using assms(1) by (auto simp: mirrors_def assembly_inv_def)
  have dirs: "dirs_ok fs ?d" using assms(1) by (simp add: mirrors_def)
  then obtain fs1 where fs1: "MkdirAll no_faults ?d fs = (Inr (), fs1)"
    using MkdirAll_total [of ?d no_faults fs] by (auto simp: dirs_ok_def)
  have same: "lookup fs1 q = lookup fs q" for q
    using MkdirAll_lookup [OF fs1, of q] dirs by (auto simp: dirs_ok_def)
  have om: "open_manifest c no_faults ?m fs1 = (Inr (), fs1)"
    using assms(1) by (auto simp: open_manifest_def mirrors_def ReadFile_def same)
  have ok: "chunk_file_ok fs1 ?m i" if "i < unat (m_ChunkCount ?m)" for i
    using assms(1) that n by (simp add: mirrors_def chunk_file_ok_def same)
  have sub: "set [0..<unat (m_ChunkCount ?m)] \<subseteq> {..<length (chunks (NewAssembly ?m))}" by auto
  have "\<forall>i \<in> set [0..<unat (m_ChunkCount ?m)]. \<not> received (NewAssembly ?m) ! i \<and>
      chunk_file_ok fs1 (a_Manifest (NewAssembly ?m)) i"
    using ok assembly_inv_new [OF geo] by simp
  then obtain b where b: "load_chunks no_faults fs1 [0..<unat (m_ChunkCount ?m)] (NewAssembly ?m) = Inr b"
    using load_chunks_total [OF NewAssembly_inv [OF geo] sub distinct_upt] by blast
  have beg: "Begin c no_faults ?m fs = (Inr b, fs1)"
    unfolding Begin_alt using assms(2) b om fs1 by (simp add: and_then_def)
  have L: "\<forall>i < unat (m_ChunkCount ?m). lookup fs1 (chunk_file (m_ID ?m) i) \<noteq> None \<longrightarrow> received b ! i"
    "\<forall>i < unat (m_ChunkCount ?m). received b ! i \<longrightarrow>
       (\<exists>mode. lookup fs1 (chunk_file (m_ID ?m) i) = Some (File mode (Raw (chunks b ! i))))"
    using load_chunks_Inr [OF b NewAssembly_inv [OF geo] sub] assembly_inv_new [OF geo] by auto
  have "received b ! i \<and> chunks b ! i = chunks a ! i" if i: "i < length (chunks a)" "received a ! i" for i
  proof -
    have "\<exists>mode. lookup fs1 (chunk_file (m_ID ?m) i) = Some (File mode (Raw (chunks a ! i)))"
      using assms(1) i by (simp add: mirrors_def same)
    then show ?thesis using L i(1) n by (metis blob.inject(1) node.inject option.distinct(1) option.inject)
  qed
  then show thesis using that [OF beg] Begin_Inr [OF beg geo] same by blast
qed

section \<open>Add\<close>

lemma Store_Add_Inr:
  "Store_Add io a index data fs = (Inr (), a', fs') \<Longrightarrow> Add a index data = Inr a'"
  by (auto simp: Store_Add_def split: if_splits sum.splits prod.splits)

lemma undo_add:
  assumes "assembly_inv a" "Add a index data = Inr a'" "\<not> received a ! unat index"
  shows "a'\<lparr>chunks := (chunks a')[unat index := []], received := (received a')[unat index := False]\<rparr> = a"
proof -
  have i: "unat index < length (chunks a)" and a': "a' = a\<lparr>chunks := (chunks a)[unat index := data],
      received := (received a)[unat index := True]\<rparr>"
    using assms Add_iff [OF assms(1)] by auto
  have "chunks a ! unat index = []" using assms(1,3) i by (auto simp: assembly_inv_def)
  then have "(chunks a)[unat index := []] = chunks a" "(received a)[unat index := False] = received a"
    using assms(3) by (metis list_update_id)+
  then show ?thesis by (simp add: a')
qed

text \<open>\<open>Store.Add\<close> in four cases: refused, already there, written, and failed (in memory nothing happened).\<close>

lemma Store_Add_cases:
  assumes "assembly_inv a" "Store_Add io a index data fs = (r, a', fs')"
  obtains e where "r = Inl e" "a' = a" "fs' = fs"
  | "r = Inr ()" "a' = a" "fs' = fs" "unat index < length (chunks a)" "received a ! unat index" "chunks a ! unat index = data"
  | "unat index < length (chunks a)" "length data = chunk_len (a_Manifest a) (unat index)" "\<not> received a ! unat index"
    "fs' = put (chunk_file (m_ID (a_Manifest a)) (unat index)) (File 384 (Raw data)) fs"
    "(r = Inr () \<and> a' = a\<lparr>chunks := (chunks a)[unat index := data], received := (received a)[unat index := True]\<rparr>) \<or>
     (r = Inl IOError \<and> a' = a)"
proof (cases "Add a index data")
  case (Inl e)
  then show thesis using that(1) assms(2) by (auto simp: Store_Add_def split: if_splits)
next
  case (Inr b)
  note b = Add_iff [OF assms(1), THEN iffD1, OF Inr]
  have len: "length (received a) = length (chunks a)" using assms(1) by (simp add: assembly_inv_def)
  show thesis
  proof (cases "received a ! unat index")
    case True
    then show thesis using that(2) assms(2) Inr b len by (auto simp: Store_Add_def)
  next
    case False
    then have new: "b = a\<lparr>chunks := (chunks a)[unat index := data], received := (received a)[unat index := True]\<rparr>"
      using b by simp
    let ?w = "writeAtomic io (chunk_file (m_ID (a_Manifest a)) (unat index)) (Raw data) 384 fs"
    obtain r1 fs1 where w: "?w = (r1, fs1)" by (cases ?w) auto
    have run: "Store_Add io a index data fs = (case r1 of
        Inl e \<Rightarrow> (Inl e, a, fs1) | Inr _ \<Rightarrow> (Inr (), b, fs1))"
      using False Inr w undo_add [OF assms(1) Inr False] new by (simp add: Store_Add_def split: sum.split)
    have out: "(fs1 = fs \<and> (\<exists>e. r1 = Inl e)) \<or>
        (fs1 = put (chunk_file (m_ID (a_Manifest a)) (unat index)) (File 384 (Raw data)) fs \<and> (r1 = Inr () \<or> r1 = Inl IOError))"
      using w by (auto simp: writeAtomic_def split: if_splits)
    then consider e where "fs1 = fs" "r1 = Inl e" | "fs1 = put (chunk_file (m_ID (a_Manifest a)) (unat index)) (File 384 (Raw data)) fs"
      "r1 = Inr () \<or> r1 = Inl IOError" by blast
    then show thesis
    proof cases
      case 1
      then show thesis using that(1) run assms(2) by simp
    next
      case 2
      then show thesis using that(3) run assms(2) b False new by auto
    qed
  qed
qed

lemma Store_Add_mirrors:
  assumes "mirrors c fs a" "Store_Add io a index data fs = (r, a', fs')"
  shows "mirrors c fs' a' \<and> a_Manifest a' = a_Manifest a"
proof -
  have inv: "assembly_inv a" using assms(1) by (simp add: mirrors_def)
  let ?m = "a_Manifest a" and ?i = "unat index"
  from inv assms(2) show ?thesis
  proof (cases rule: Store_Add_cases)
    case (1 e)
    then show ?thesis using assms(1) by simp
  next
    case 2
    then show ?thesis using assms(1) by simp
  next
    case 3
    have dirs: "dirs_ok fs' (chunks_dir (m_ID ?m))"
      using assms(1) 3(4) by (auto simp: mirrors_def dirs_ok_def disk_simps)
    have files: "lookup fs' (chunk_file (m_ID ?m) j) =
        (if j = ?i then Some (File 384 (Raw data)) else lookup fs (chunk_file (m_ID ?m) j))" for j
      by (simp add: 3(4) disk_simps)
    have mf: "lookup fs' (manifest_file (partialDir (m_ID ?m))) = lookup fs (manifest_file (partialDir (m_ID ?m)))"
      by (simp add: 3(4) disk_simps)
    have ok: "chunk_file_ok fs' ?m j" if "j < length (chunks a)" for j
      using assms(1) that 3(2) by (simp add: mirrors_def chunk_file_ok_def files)
    have old: "\<exists>mode. lookup fs' (chunk_file (m_ID ?m) j) = Some (File mode (Raw (chunks a ! j)))"
      if "j < length (chunks a)" "received a ! j" for j
      using assms(1) that 3(3) by (auto simp: mirrors_def files)
    from 3(5) show ?thesis
    proof
      assume "r = Inl IOError \<and> a' = a"
      then show ?thesis using assms(1) dirs mf ok old by (simp add: mirrors_def)
    next
      assume new: "r = Inr () \<and> a' = a\<lparr>chunks := (chunks a)[?i := data], received := (received a)[?i := True]\<rparr>"
      then have "Add a index data = Inr a'" using Store_Add_Inr assms(2) by blast
      then have "assembly_inv a'" using Add_inv inv by blast
      then show ?thesis
        using assms(1) new dirs mf ok old 3(1) inv
        by (auto simp: mirrors_def files nth_list_update assembly_inv_def)
    qed
  qed
qed

lemma Store_Add_keeps:
  assumes "assembly_inv a" "Store_Add io a index data fs = (r, a', fs')" "i < length (chunks a)" "received a ! i"
  shows "received a' ! i \<and> chunks a' ! i = chunks a ! i"
proof -
  have "length (received a) = length (chunks a)" using assms(1) by (simp add: assembly_inv_def)
  with assms(1,2) show ?thesis
    by (cases rule: Store_Add_cases) (use assms(3,4) in \<open>auto simp: nth_list_update\<close>)
qed

lemma Store_Add_frame:
  assumes "assembly_inv a" "Store_Add io a index data fs = (r, a', fs')"
    and "q \<noteq> chunk_file (m_ID (a_Manifest a)) (unat index)"
  shows "lookup fs' q = lookup fs q"
  using assms(1,2) by (cases rule: Store_Add_cases) (use assms(3) in \<open>auto simp: disk_simps\<close>)

text \<open>A receiver's history: chunks offered one after the other, each with its own failures.\<close>

fun run_adds :: "(io \<times> 16 word \<times> byte list) list \<Rightarrow> Assembly \<Rightarrow> disk \<Rightarrow> Assembly \<times> disk" where
  "run_adds [] a fs = (a, fs)"
| "run_adds ((io, index, data) # es) a fs =
     (case Store_Add io a index data fs of (_, a', fs') \<Rightarrow> run_adds es a' fs')"

lemma run_adds_mirrors:
  "mirrors c fs a \<Longrightarrow> run_adds es a fs = (a', fs') \<Longrightarrow> mirrors c fs' a' \<and> a_Manifest a' = a_Manifest a"
proof (induction es arbitrary: a fs)
  case Nil
  then show ?case by simp
next
  case (Cons e es)
  obtain io index data where e: "e = (io, index, data)" by (cases e)
  obtain r b gs where step: "Store_Add io a index data fs = (r, b, gs)" by (cases "Store_Add io a index data fs") auto
  then show ?case using Cons.IH [of gs b] Cons.prems Store_Add_mirrors [OF Cons.prems(1) step] by (simp add: e)
qed

section \<open>Commit\<close>

definition written :: "crypto \<Rightarrow> disk \<Rightarrow> Manifest \<Rightarrow> byte list \<Rightarrow> bool" where
  "written c fs m content \<longleftrightarrow>
     (\<exists>mode. lookup fs (content_file (m_ID m)) = Some (File mode (Raw content))) \<and>
     (\<exists>mode. lookup fs (manifest_file (objectDir (m_ID m))) = Some (File mode (encoded_manifest c m))) \<and>
     (\<exists>mode b. lookup fs (complete_file (m_ID m)) = Some (File mode b))"

lemma prefix_objectDir: "prefix q (objectDir pid) \<longleftrightarrow> q = [] \<or> q = [str ''objects''] \<or> q = objectDir pid"
  by (auto simp: objectDir_def prefix_Cons)

lemma in_partial_not_objects: "in_partial pid q \<Longrightarrow> q \<noteq> [str ''objects''] \<and> q \<noteq> []"
  by (auto simp: in_partial_def partialDir_def)

text \<open>Everything \<open>Commit\<close> does before it removes the partial files.\<close>

definition publish_files :: "crypto \<Rightarrow> io \<Rightarrow> Manifest \<Rightarrow> byte list \<Rightarrow> unit call" where
  "publish_files c io m content =
     and_then (MkdirAll io (objectDir (m_ID m))) (\<lambda>_.
     and_then (writeAtomic io (content_file (m_ID m)) (Raw content) 384) (\<lambda>_.
     and_then (writeAtomic io (manifest_file (objectDir (m_ID m))) (encoded_manifest c m) 384) (\<lambda>_.
     writeAtomic io (complete_file (m_ID m)) (Raw (str ''verified'' @ [10])) 384)))"

lemma and_then_assoc: "and_then (and_then f g) h = and_then f (\<lambda>x. and_then (g x) h)"
  by (rule ext) (simp add: and_then_def split: prod.split sum.split)

lemma Commit_alt:
  "Commit c io a fs =
     (case Content (sha256 c) a of
        Inl e \<Rightarrow> (Inl e, fs)
      | Inr content \<Rightarrow>
        (case VerifyManifestSignature c (a_Manifest a) of
           Inl e \<Rightarrow> (Inl e, fs)
         | Inr _ \<Rightarrow>
           and_then (publish_files c io (a_Manifest a) content) (\<lambda>_.
           and_then (RemoveAll io (partialDir (m_ID (a_Manifest a))))
             (\<lambda>_ fs. (Inr (content_file (m_ID (a_Manifest a))), fs))) fs))"
  by (simp add: Commit_def publish_files_def and_then_assoc Let_def split: sum.split)

lemma publish_files_frame:
  assumes "publish_files c io m content fs = (r, fs')" "\<not> in_object (m_ID m) q" "q \<noteq> [str ''objects'']"
  shows "lookup fs' q = lookup fs q"
proof -
  have dirs: "MkdirAll io (objectDir (m_ID m)) gs = (r', gs') \<Longrightarrow> lookup gs' q = lookup gs q" for gs gs' r'
    using MkdirAll_lookup [of io "objectDir (m_ID m)" gs r' gs' q] assms(2,3)
    by (auto simp: prefix_objectDir in_object_def)
  have w: "writeAtomic io p b 384 gs = (r', gs') \<Longrightarrow> in_object (m_ID m) p \<Longrightarrow> lookup gs' q = lookup gs q" for gs gs' r' p b
    using writeAtomic_other [of io p b 384 gs r' gs' q] assms(2) by blast
  have step: "writeAtomic io p b 384 gs = (r', gs') \<Longrightarrow> in_object (m_ID m) p \<Longrightarrow> lookup gs q = lookup fs q \<Longrightarrow>
      lookup gs' q = lookup fs q" for gs gs' r' p b
    using w by simp
  show ?thesis
    using assms(1) unfolding publish_files_def
    by (elim and_then_cases) (auto dest!: dirs elim!: step)
qed

lemma publish_files_Inr:
  assumes "publish_files c io m content fs = (Inr (), fs')"
  shows "written c fs' m content"
  using assms by (auto simp: publish_files_def written_def disk_simps dest!: writeAtomic_Inr)

lemma Commit_cases:
  assumes "Commit c io a fs = (r, fs')"
  obtains e where "r = Inl e"
    "\<And>q. \<not> in_object (m_ID (a_Manifest a)) q \<Longrightarrow> q \<noteq> [str ''objects''] \<Longrightarrow> lookup fs' q = lookup fs q"
  | content where "Content (sha256 c) a = Inr content" "VerifyManifestSignature c (a_Manifest a) = Inr ()"
    "written c fs' (a_Manifest a) content"
    "\<And>q. \<not> in_object (m_ID (a_Manifest a)) q \<Longrightarrow> \<not> in_partial (m_ID (a_Manifest a)) q \<Longrightarrow> q \<noteq> [str ''objects''] \<Longrightarrow>
       lookup fs' q = lookup fs q"
    "r = Inr (content_file (m_ID (a_Manifest a))) \<and>
       (\<forall>q. in_partial (m_ID (a_Manifest a)) q \<longrightarrow> lookup fs' q = None) \<or> (\<exists>e. r = Inl e)"
proof (cases "Content (sha256 c) a")
  case (Inl e)
  then show thesis using assms that(1) by (auto simp: Commit_alt)
next
  case (Inr content)
  let ?m = "a_Manifest a"
  show thesis
  proof (cases "VerifyManifestSignature c ?m")
    case (Inl e)
    then show thesis using assms that(1) Inr by (auto simp: Commit_alt)
  next
    case verified: (Inr u)
    have run: "and_then (publish_files c io ?m content) (\<lambda>_. and_then (RemoveAll io (partialDir (m_ID ?m)))
        (\<lambda>_ fs. (Inr (content_file (m_ID ?m)), fs))) fs = (r, fs')"
      using assms Inr verified by (simp add: Commit_alt)
    then show thesis
    proof (cases rule: and_then_cases)
      case (1 e)
      then show thesis using that(1) publish_files_frame by blast
    next
      case (2 x fs1)
      then have pub: "publish_files c io ?m content fs = (Inr (), fs1)" by simp
      obtain r1 where rem: "RemoveAll io (partialDir (m_ID ?m)) fs1 = (r1, fs')"
        and r: "(r1 = Inr () \<and> r = Inr (content_file (m_ID ?m))) \<or> (\<exists>e. r = Inl e)"
        using 2(2) by (cases "RemoveAll io (partialDir (m_ID ?m)) fs1") (auto simp: and_then_def split: sum.splits)
      have other: "lookup fs' q = lookup fs1 q" if "\<not> in_partial (m_ID ?m) q" for q
        using RemoveAll_other [OF rem] that by (simp add: in_partial_def)
      have "written c fs' ?m content"
        using publish_files_Inr [OF pub] by (simp add: written_def other)
      moreover have "\<forall>q. in_partial (m_ID ?m) q \<longrightarrow> lookup fs' q = None" if "r1 = Inr ()"
        using RemoveAll_Inr rem that by (auto simp: in_partial_def)
      ultimately show thesis
        using that(2) [OF Inr] verified other publish_files_frame [OF pub] r by auto
    qed
  qed
qed

lemma written_Complete:
  assumes "written c fs m content" "manifest_ok m" "stored_version m" "utf8_valid (m_Filename m)"
    and "VerifyManifestSignature c m = Inr ()" "length content = unat (m_Length m)" "sha256 c content = m_SHA256 m"
  shows "LoadManifest c no_faults fs (m_ID m) = Inr m" "Complete c no_faults fs (m_ID m)"
proof -
  show load: "LoadManifest c no_faults fs (m_ID m) = Inr m"
    using assms(1) readManifest_encoded [OF _ _ assms(2-4)] by (auto simp: LoadManifest_def written_def)
  show "Complete c no_faults fs (m_ID m)"
    unfolding Complete_iff using assms load by (auto simp: written_def)
qed

text \<open>What is asked of an assembly for its publication to be complete once its files are written.\<close>

definition committable :: "Assembly \<Rightarrow> bool" where
  "committable a \<longleftrightarrow> assembly_inv a \<and> manifest_ok (a_Manifest a) \<and> stored_version (a_Manifest a) \<and>
     utf8_valid (m_Filename (a_Manifest a))"

lemma Commit_written_Complete:
  assumes "committable a" "Content (sha256 c) a = Inr content" "VerifyManifestSignature c (a_Manifest a) = Inr ()"
    and "written c fs' (a_Manifest a) content"
  shows "LoadManifest c no_faults fs' (m_ID (a_Manifest a)) = Inr (a_Manifest a)"
    and "Complete c no_faults fs' (m_ID (a_Manifest a))"
    and "length content = unat (m_Length (a_Manifest a))"
proof -
  have "sha256 c content = m_SHA256 (a_Manifest a)"
    using assms(2) by (auto simp: Content_def Let_def split: if_splits)
  moreover show "length content = unat (m_Length (a_Manifest a))"
    using Content_length [OF _ assms(2)] assms(1) by (simp add: committable_def)
  ultimately show "LoadManifest c no_faults fs' (m_ID (a_Manifest a)) = Inr (a_Manifest a)"
    "Complete c no_faults fs' (m_ID (a_Manifest a))"
    using written_Complete [OF assms(4)] assms(1,3) by (simp_all add: committable_def)
qed

section \<open>Publishing a file\<close>

lemma file_manifest_geometry:
  assumes "length content \<le> 1424 * 178"
  shows "geometry (file_manifest c path content)" "unat (m_Length (file_manifest c path content)) = length content"
    and "unat (m_ChunkCount (file_manifest c path content)) = (length content + 177) div 178"
    and "IDMatchesHash (m_ID (file_manifest c path content)) (m_SHA256 (file_manifest c path content))"
proof -
  let ?m = "file_manifest c path content"
  have n: "length content < 2 ^ LENGTH(64)" using assms by simp
  show len: "unat (m_Length ?m) = length content"
    using unat_of_nat_fits [OF n] by (simp add: file_manifest_def)
  have k: "(length content + 177) div 178 < 2 ^ LENGTH(16)" "(length content + 177) div 178 \<le> 1424" using assms by simp_all
  have "(if length content > 0 then (length content + ChunkDataSize - 1) div ChunkDataSize else 0) = (length content + 177) div 178"
    by (simp add: add.commute)
  then show count: "unat (m_ChunkCount ?m) = (length content + 177) div 178"
    using unat_of_nat_fits [OF k(1)] by (simp add: file_manifest_def)
  have size: "m_ChunkSize ?m = 178" by (simp add: file_manifest_def)
  show "geometry ?m"
    unfolding geometry_def len count size chunk_total_def using assms k(2) by simp
  show "IDMatchesHash (m_ID ?m) (m_SHA256 ?m)"
    by (simp add: IDMatchesHash_iff file_manifest_def array_eq_iff array_bytes_copy)
qed

lemma add_chunks_holds:
  assumes "holds a content" "add_chunks io a es fs = (Inr b, fs')"
    and "\<forall>(i, data) \<in> set es. i < length (chunks a) \<and> data = chunk_of (a_Manifest a) content i"
  shows "holds b content \<and> a_Manifest b = a_Manifest a \<and> length (chunks b) = length (chunks a) \<and>
    (\<forall>i < length (chunks a). received b ! i \<longleftrightarrow> received a ! i \<or> i \<in> fst ` set es)"
  using assms
proof (induction es arbitrary: a fs)
  case Nil
  then show ?case by simp
next
  case (Cons e es)
  obtain i data where e: "e = (i, data)" by (cases e)
  have i: "i < length (chunks a)" "data = chunk_of (a_Manifest a) content i" using Cons.prems(3) e by auto
  have inv: "assembly_inv a" using Cons.prems(1) by (simp add: holds_def)
  have fits: "unat (of_nat i :: 16 word) = i"
    using i(1) inv count_fits [of i "a_Manifest a"] by (simp add: assembly_inv_def)
  obtain a' fs1 where step: "Store_Add io a (of_nat i) data fs = (Inr (), a', fs1)"
    and rest: "add_chunks io a' es fs1 = (Inr b, fs')"
    using Cons.prems(2) by (auto simp: e split: prod.splits sum.splits)
  have add: "Add a (of_nat i) data = Inr a'" using step by (rule Store_Add_Inr)
  obtain a2 where "Add a (of_nat i) (chunk_of (a_Manifest a) content (unat (of_nat i :: 16 word))) = Inr a2" "holds a2 content"
    "received a2 = (received a)[unat (of_nat i :: 16 word) := True]"
    using Add_chunk_of [OF Cons.prems(1), of "of_nat i"] i(1) fits by metis
  then have a': "holds a' content" "received a' = (received a)[i := True]" using add fits i(2) by simp_all
  have m: "a_Manifest a' = a_Manifest a" using add by (rule Add_Manifest)
  have n: "length (chunks a') = length (chunks a)" "length (received a) = length (chunks a)"
    using a'(1) Cons.prems(1) m by (simp_all add: holds_def assembly_inv_def)
  have IH: "holds b content \<and> a_Manifest b = a_Manifest a' \<and> length (chunks b) = length (chunks a') \<and>
    (\<forall>i < length (chunks a'). received b ! i \<longleftrightarrow> received a' ! i \<or> i \<in> fst ` set es)"
    by (rule Cons.IH [OF a'(1) rest]) (use Cons.prems(3) m n in auto)
  show ?case using IH m n i(1) a'(2) e by (auto simp: nth_list_update split: if_splits)
qed

lemma fresh_Begin:
  assumes "Restart c io m fs = (Inr a, fs')" "geometry m" "length content = unat (m_Length m)"
  shows "holds a content \<and> a_Manifest a = m"
proof -
  obtain fs1 where rem: "RemoveAll io (partialDir (m_ID m)) fs = (Inr (), fs1)"
    and beg: "Begin c io m fs1 = (Inr a, fs')"
    using assms(1) by (auto simp: Restart_def)
  have none: "lookup fs1 q = None" if "in_partial (m_ID m) q" for q
    using RemoveAll_Inr [OF rem] that by (simp add: in_partial_def)
  obtain fs2 where fs2: "MkdirAll io (chunks_dir (m_ID m)) fs1 = (Inr (), fs2)"
    and om: "open_manifest c io m fs2 = (Inr (), fs')"
    and load: "load_chunks io fs' [0..<unat (m_ChunkCount m)] (NewAssembly m) = Inr a"
    using beg unfolding Begin_alt by (auto split: if_splits)
  have no_chunk: "lookup fs' (chunk_file (m_ID m) i) = None" for i
  proof -
    have "lookup fs' (chunk_file (m_ID m) i) = lookup fs2 (chunk_file (m_ID m) i)"
      using open_manifest_other [OF om] by simp
    also have "\<dots> = lookup fs1 (chunk_file (m_ID m) i)"
      using MkdirAll_other [OF fs2] by simp
    finally show ?thesis using none by simp
  qed
  have sub: "set [0..<unat (m_ChunkCount m)] \<subseteq> {..<length (chunks (NewAssembly m))}" by auto
  have L: "assembly_inv a \<and> a_Manifest a = m \<and>
      (\<forall>i < unat (m_ChunkCount m). \<not> received a ! i)"
    using load_chunks_Inr [OF load NewAssembly_inv [OF assms(2)] sub] assembly_inv_new [OF assms(2)] no_chunk by auto
  then show ?thesis using assms(2,3) by (auto simp: holds_def assembly_inv_def)
qed

text \<open>The chunks \<open>AddFileSigned\<close> adds, and the manifest it publishes.\<close>

definition file_chunks :: "byte list \<Rightarrow> (nat \<times> byte list) list" where
  "file_chunks content =
     map (\<lambda>i. (i, gslice content (i * ChunkDataSize) (min (i * ChunkDataSize + ChunkDataSize) (length content))))
       [0..<(length content + ChunkDataSize - 1) div ChunkDataSize]"

lemma file_chunks_of:
  assumes "length content \<le> 1424 * 178"
  shows "\<forall>(i, data) \<in> set (file_chunks content).
    i < (length content + 177) div 178 \<and> data = chunk_of (file_manifest c path content) content i"
proof -
  have size: "unat (m_ChunkSize (file_manifest c path content)) = 178" by (simp add: file_manifest_def)
  show ?thesis unfolding chunk_of_def size by (auto simp: file_chunks_def add.commute)
qed

lemma signed_file:
  assumes "(case identity of None \<Rightarrow> Inr (file_manifest c path content)
       | Some i \<Rightarrow> SignManifest c (file_manifest c path content) i) = Inr m"
  shows "m_ID m = m_ID (file_manifest c path content)" "m_SHA256 m = sha256 c content"
    "m_Filename m = Base path" "m_Length m = m_Length (file_manifest c path content)"
    "m_ChunkSize m = m_ChunkSize (file_manifest c path content)"
    "m_ChunkCount m = m_ChunkCount (file_manifest c path content)" "stored_version m"
  using assms
  by (auto simp: file_manifest_def stored_version_def split: option.splits dest!: SignManifest_Inr(1))

lemma AddFileSigned_Inr:
  assumes "AddFileSigned c io path (Inr content) identity fs = (Inr (m, p), fs')"
    and "\<not> Complete c io fs (copy_array (take 16 (array_bytes (sha256 c content))))"
  shows "m_ID m = copy_array (take 16 (array_bytes (sha256 c content))) \<and> length content \<le> 1424 * 178 \<and>
    (case identity of None \<Rightarrow> Inr (file_manifest c path content)
       | Some i \<Rightarrow> SignManifest c (file_manifest c path content) i) = Inr m \<and> manifest_ok m \<and>
    (\<exists>a fs1 b fs2. Restart c io m fs = (Inr a, fs1) \<and>
      add_chunks io a (file_chunks content) fs1 = (Inr b, fs2) \<and> Commit c io b fs2 = (Inr p, fs'))"
proof -
  let ?made = "case identity of None \<Rightarrow> Inr (file_manifest c path content)
       | Some i \<Rightarrow> SignManifest c (file_manifest c path content) i"
  have size: "length content \<le> 1424 * 178"
    using assms(1) by (auto simp: AddFileSigned_def split: if_splits)
  obtain m' where m': "?made = Inr m'"
    using assms(1) size by (cases ?made) (auto simp: AddFileSigned_def)
  note f = signed_file [OF m']
  have pid: "m_ID m' = copy_array (take 16 (array_bytes (sha256 c content)))"
    using f(1) by (simp add: file_manifest_def)
  obtain w where w: "EncodeManifest m' = Inr w"
    using assms(1) size by (cases "EncodeManifest m'") (auto simp: AddFileSigned_def m')
  have run: "and_then (Restart c io m') (\<lambda>assembly. and_then (add_chunks io assembly (file_chunks content)) (\<lambda>assembly.
      and_then (Commit c io assembly) (\<lambda>objectPath fs. (Inr (m', objectPath), fs)))) fs = (Inr (m, p), fs')"
    using assms size by (simp add: AddFileSigned_def m' w pid file_chunks_def)
  have "geometry m'"
    using file_manifest_geometry(1) [OF size, of c path] f by (simp add: geometry_def)
  then have "manifest_ok m'" using EncodeManifest_iff w by blast
  then show ?thesis using run size m' pid by auto
qed

section \<open>Publishing succeeds on a disk that works\<close>

text \<open>Nothing stands where the files of publication \<open>pid\<close> go.\<close>

definition place_ok :: "disk \<Rightarrow> ID \<Rightarrow> bool" where
  "place_ok fs pid \<longleftrightarrow>
     (\<forall>q \<in> {[str ''objects''], objectDir pid, [str ''partial'']}. lookup fs q = None \<or> lookup fs q = Some Dir) \<and>
     (\<forall>q \<in> {content_file pid, manifest_file (objectDir pid), complete_file pid}. lookup fs q \<noteq> Some Dir)"

lemma load_chunks_fresh:
  "\<forall>i \<in> set indices. lookup fs (chunk_file (m_ID (a_Manifest a)) i) = None \<Longrightarrow> load_chunks no_faults fs indices a = Inr a"
proof (induction indices)
  case Nil
  then show ?case by simp
next
  case (Cons i indices)
  then have "ReadBytes no_faults fs (chunk_file (m_ID (a_Manifest a)) i) = Inl NotExist"
    by (simp add: ReadBytes_NotExist_iff)
  then show ?case using Cons by simp
qed

lemma Begin_total:
  assumes "place_ok fs (m_ID m)" "safe_name (m_Filename m)" "geometry m" "\<And>q. in_partial (m_ID m) q \<Longrightarrow> lookup fs q = None"
  obtains fs' where "Begin c no_faults m fs = (Inr (NewAssembly m), fs')" "mirrors c fs' (NewAssembly m)"
    and "\<And>q. \<not> in_partial (m_ID m) q \<Longrightarrow> q \<noteq> [str ''partial''] \<Longrightarrow> lookup fs' q = lookup fs q"
proof -
  have "lookup fs q \<in> {None, Some Dir}" if "q \<noteq> []" "prefix q (chunks_dir (m_ID m))" for q
    using that assms(1,4) by (auto simp: prefix_chunks_dir in_partial_def place_ok_def)
  then obtain fs2 where fs2: "MkdirAll no_faults (chunks_dir (m_ID m)) fs = (Inr (), fs2)"
    using MkdirAll_total [of "chunks_dir (m_ID m)" no_faults fs] by auto
  have files: "lookup fs2 q = lookup fs q" if "\<not> prefix q (chunks_dir (m_ID m))" for q
    using MkdirAll_other [OF fs2 that] .
  let ?mf = "manifest_file (partialDir (m_ID m))"
  have none: "lookup fs2 ?mf = None" using files assms(4) by simp
  have "is_dir fs2 (partialDir (m_ID m))" using MkdirAll_is_dir [OF fs2] by simp
  then have "open_manifest c no_faults m fs2 = (Inr (), put ?mf (File 384 (encoded_manifest c m)) fs2)"
    using none by (simp add: open_manifest_def ReadFile_def writeAtomic_total)
  moreover have "load_chunks no_faults (put ?mf (File 384 (encoded_manifest c m)) fs2) [0..<unat (m_ChunkCount m)]
      (NewAssembly m) = Inr (NewAssembly m)"
    by (rule load_chunks_fresh) (simp add: disk_simps files assms(4))
  ultimately obtain fs' where beg: "Begin c no_faults m fs = (Inr (NewAssembly m), fs')"
    using assms(2) fs2 unfolding Begin_alt by (simp add: and_then_def)
  then show thesis using that [OF beg] Begin_Inr [OF beg assms(3)] Begin_frame [OF beg] by blast
qed

lemma Restart_total:
  assumes "place_ok fs (m_ID m)" "safe_name (m_Filename m)" "geometry m"
  obtains a fs' where "Restart c no_faults m fs = (Inr a, fs')" "mirrors c fs' a"
    and "\<And>q. in_object (m_ID m) q \<or> q = [str ''objects''] \<Longrightarrow> lookup fs' q = lookup fs q"
proof -
  obtain fs1 where rem: "RemoveAll no_faults (partialDir (m_ID m)) fs = (Inr (), fs1)"
    using RemoveAll_total [of no_faults] by auto
  have gone: "lookup fs1 q = None" if "in_partial (m_ID m) q" for q
    using RemoveAll_Inr [OF rem] that by (simp add: in_partial_def)
  have kept: "lookup fs1 q = lookup fs q" if "\<not> in_partial (m_ID m) q" for q
    using RemoveAll_other [OF rem] that by (simp add: in_partial_def)
  have "place_ok fs1 (m_ID m)"
    using assms(1) kept by (auto simp: place_ok_def in_partial_def path_defs)
  from Begin_total [OF this assms(2,3) gone] obtain fs' where
    beg: "Begin c no_faults m fs1 = (Inr (NewAssembly m), fs')" "mirrors c fs' (NewAssembly m)"
    and frame: "\<And>q. \<not> in_partial (m_ID m) q \<Longrightarrow> q \<noteq> [str ''partial''] \<Longrightarrow> lookup fs' q = lookup fs1 q" by blast
  have run: "Restart c no_faults m fs = (Inr (NewAssembly m), fs')"
    using rem beg(1) by (simp add: Restart_def and_then_def)
  have "lookup fs' q = lookup fs q" if q: "in_object (m_ID m) q \<or> q = [str ''objects'']" for q
  proof -
    have "\<not> in_partial (m_ID m) q" "q \<noteq> [str ''partial'']"
      using q in_object_not_partial in_partial_not_objects
      by (metis, auto simp: in_object_def objectDir_def)
    then show ?thesis using frame kept by simp
  qed
  then show thesis using that [OF run beg(2)] by blast
qed

lemma Store_Add_total:
  assumes "mirrors c fs a" "holds a content" "i < length (chunks a)"
  obtains a' fs' where "Store_Add no_faults a (of_nat i) (chunk_of (a_Manifest a) content i) fs = (Inr (), a', fs')"
    "holds a' content" "mirrors c fs' a'" "a_Manifest a' = a_Manifest a" "length (chunks a') = length (chunks a)"
    "\<And>q. \<not> in_partial (m_ID (a_Manifest a)) q \<Longrightarrow> lookup fs' q = lookup fs q"
proof -
  let ?pid = "m_ID (a_Manifest a)"
  have inv: "assembly_inv a" using assms(2) by (simp add: holds_def)
  have fits: "unat (of_nat i :: 16 word) = i"
    using assms(3) inv count_fits [of i "a_Manifest a"] by (simp add: assembly_inv_def)
  obtain a' where add: "Add a (of_nat i) (chunk_of (a_Manifest a) content i) = Inr a'" and h: "holds a' content"
    using Add_chunk_of [OF assms(2), of "of_nat i"] assms(3) fits by metis
  have m: "a_Manifest a' = a_Manifest a" using add by (rule Add_Manifest)
  have "lookup fs (chunks_dir ?pid) = Some Dir" using assms(1) by (auto simp: mirrors_def dirs_ok_def chunks_dir_def)
  moreover have "lookup fs (chunk_file ?pid i) \<noteq> Some Dir"
    using assms(1,3) by (auto simp: mirrors_def chunk_file_ok_def)
  ultimately have w: "writeAtomic no_faults (chunk_file ?pid i) (Raw (chunk_of (a_Manifest a) content i)) 384 fs =
      (Inr (), put (chunk_file ?pid i) (File 384 (Raw (chunk_of (a_Manifest a) content i))) fs)"
    by (intro writeAtomic_total) (simp_all add: is_dir_def chunks_dir_def)
  have "\<exists>fs'. Store_Add no_faults a (of_nat i) (chunk_of (a_Manifest a) content i) fs = (Inr (), a', fs')"
    by (simp add: Store_Add_def add fits w m)
  then obtain fs' where run: "Store_Add no_faults a (of_nat i) (chunk_of (a_Manifest a) content i) fs = (Inr (), a', fs')"
    by blast
  have "lookup fs' q = lookup fs q" if "\<not> in_partial ?pid q" for q
    using Store_Add_frame [OF inv run, of q] that fits by (metis in_partial_simps(1))
  moreover have "length (chunks a') = length (chunks a)" using h assms(2) m by (simp add: holds_def assembly_inv_def)
  ultimately show thesis using that [OF run h] Store_Add_mirrors [OF assms(1) run] m by blast
qed

lemma add_chunks_total:
  assumes "mirrors c fs a" "holds a content" "\<forall>(i, data) \<in> set es. i < length (chunks a) \<and> data = chunk_of (a_Manifest a) content i"
  shows "\<exists>b fs'. add_chunks no_faults a es fs = (Inr b, fs') \<and> mirrors c fs' b \<and>
    (\<forall>q. \<not> in_partial (m_ID (a_Manifest a)) q \<longrightarrow> lookup fs' q = lookup fs q)"
  using assms
proof (induction es arbitrary: a fs)
  case Nil
  then show ?case by simp
next
  case (Cons e es)
  obtain i data where e: "e = (i, data)" by (cases e)
  have i: "i < length (chunks a)" "data = chunk_of (a_Manifest a) content i" using Cons.prems(3) e by auto
  obtain a' fs1 where step: "Store_Add no_faults a (of_nat i) data fs = (Inr (), a', fs1)"
    "holds a' content" "mirrors c fs1 a'" "a_Manifest a' = a_Manifest a" "length (chunks a') = length (chunks a)"
    and frame: "\<And>q. \<not> in_partial (m_ID (a_Manifest a)) q \<Longrightarrow> lookup fs1 q = lookup fs q"
    using Store_Add_total [OF Cons.prems(1,2) i(1)] i(2) by metis
  have "\<exists>b fs'. add_chunks no_faults a' es fs1 = (Inr b, fs') \<and> mirrors c fs' b \<and>
      (\<forall>q. \<not> in_partial (m_ID (a_Manifest a')) q \<longrightarrow> lookup fs' q = lookup fs1 q)"
    by (rule Cons.IH [OF step(3,2)]) (use Cons.prems(3) step(4,5) in simp)
  then show ?case using step frame by (simp add: e)
qed

lemma Commit_total:
  assumes "Content (sha256 c) a = Inr content" "VerifyManifestSignature c (a_Manifest a) = Inr ()"
    and "place_ok fs (m_ID (a_Manifest a))"
  shows "\<exists>fs'. Commit c no_faults a fs = (Inr (content_file (m_ID (a_Manifest a))), fs')"
proof -
  let ?m = "a_Manifest a" and ?d = "objectDir (m_ID (a_Manifest a))"
  have "lookup fs q \<in> {None, Some Dir}" if "q \<noteq> []" "prefix q ?d" for q
    using that assms(3) by (auto simp: prefix_objectDir place_ok_def)
  then obtain fs1 where fs1: "MkdirAll no_faults ?d fs = (Inr (), fs1)"
    using MkdirAll_total [of ?d no_faults fs] by auto
  have dir: "is_dir fs1 ?d" using MkdirAll_is_dir [OF fs1] by simp
  have files: "lookup fs1 q = lookup fs q" if "\<not> prefix q ?d" for q using MkdirAll_other [OF fs1 that] .
  have notdir: "lookup fs1 (content_file (m_ID ?m)) \<noteq> Some Dir" "lookup fs1 (manifest_file ?d) \<noteq> Some Dir"
    "lookup fs1 (complete_file (m_ID ?m)) \<noteq> Some Dir"
    using assms(3) by (simp_all add: files prefix_objectDir place_ok_def path_defs)
  have keep: "is_dir (put q (File k b) gs) ?d" if "is_dir gs ?d" "q \<noteq> ?d" for gs q k b
    using that by (auto simp: is_dir_def disk_simps)
  have ne: "content_file (m_ID ?m) \<noteq> ?d" "manifest_file ?d \<noteq> ?d" "complete_file (m_ID ?m) \<noteq> ?d"
    by (simp_all add: path_defs)
  have "\<exists>fs2. publish_files c no_faults ?m content fs = (Inr (), fs2)"
    unfolding publish_files_def
    by (simp add: and_then_def fs1 writeAtomic_total dir keep ne notdir disk_simps)
  then obtain fs2 where "publish_files c no_faults ?m content fs = (Inr (), fs2)" by blast
  moreover obtain fs3 where "RemoveAll no_faults (partialDir (m_ID ?m)) fs2 = (Inr (), fs3)"
    using RemoveAll_total [of no_faults] by auto
  ultimately show ?thesis using assms(1,2) by (simp add: Commit_alt and_then_def)
qed

lemma AddFileSigned_total:
  assumes "length content \<le> 1424 * 178" "length (Base path) \<le> MaxFilenameBytes" "Base path \<noteq> [46]"
    and "case identity of None \<Rightarrow> True | Some i \<Rightarrow> identity_ok c i \<and> signs_correctly c"
    and "place_ok fs (copy_array (take 16 (array_bytes (sha256 c content))))"
    and "\<not> Complete c no_faults fs (copy_array (take 16 (array_bytes (sha256 c content))))"
  shows "\<exists>m p fs'. AddFileSigned c no_faults path (Inr content) identity fs = (Inr (m, p), fs')"
proof -
  let ?made = "case identity of None \<Rightarrow> Inr (file_manifest c path content)
       | Some i \<Rightarrow> SignManifest c (file_manifest c path content) i"
  have "\<exists>m. ?made = Inr m \<and> VerifyManifestSignature c m = Inr ()"
  proof (cases identity)
    case None
    then show ?thesis by (simp add: VerifyManifestSignature_def file_manifest_def)
  next
    case (Some i)
    then have "\<exists>m. SignManifest c (file_manifest c path content) i = Inr m"
      using assms(2,4) by (simp add: SignManifest_def CanonicalManifest_def file_manifest_def identity_ok_def)
    then show ?thesis using Some assms(4) SignManifest_verifies by auto
  qed
  then obtain m where m: "?made = Inr m" and verified: "VerifyManifestSignature c m = Inr ()" by blast
  note f = signed_file [OF m]
  have pid: "m_ID m = copy_array (take 16 (array_bytes (sha256 c content)))" using f(1) by (simp add: file_manifest_def)
  have geo: "geometry m" using file_manifest_geometry(1) [OF assms(1), of c path] f by (simp add: geometry_def)
  have "IDMatchesHash (m_ID m) (m_SHA256 m)"
    using file_manifest_geometry(4) [OF assms(1), of c path] f by (simp add: file_manifest_def)
  then have ok: "manifest_ok m" using geo f(3) assms(2) by (simp add: manifest_ok_def)
  then obtain w where w: "EncodeManifest m = Inr w" using EncodeManifest_iff geo by blast
  have safe: "safe_name (m_Filename m)"
    using Base_idem [of path] Base_safe [of path] assms(3) f(3) by (simp add: safe_name_def)
  have len: "length content = unat (m_Length m)"
    using file_manifest_geometry(2) [OF assms(1), of c path] f by simp
  obtain a fs1 where a: "Restart c no_faults m fs = (Inr a, fs1)" "mirrors c fs1 a"
    and fr1: "\<And>q. in_object (m_ID m) q \<or> q = [str ''objects''] \<Longrightarrow> lookup fs1 q = lookup fs q"
    using Restart_total [of fs m c] assms(5) safe geo pid by metis
  have ha: "holds a content" "a_Manifest a = m" using fresh_Begin [OF a(1) geo len] by simp_all
  then have n: "length (chunks a) = (length content + 177) div 178"
    using file_manifest_geometry(3) [OF assms(1), of c path] f by (simp add: holds_def assembly_inv_def)
  have chunks_ok: "\<forall>(i, data) \<in> set (file_chunks content). i < length (chunks a) \<and> data = chunk_of (a_Manifest a) content i"
    using file_chunks_of [OF assms(1), of c path] n f ha(2) by (auto simp: chunk_of_def)
  obtain b fs2 where b: "add_chunks no_faults a (file_chunks content) fs1 = (Inr b, fs2)" "mirrors c fs2 b"
    and fr2: "\<And>q. \<not> in_partial (m_ID m) q \<Longrightarrow> lookup fs2 q = lookup fs1 q"
    using add_chunks_total [OF a(2) ha(1) chunks_ok] ha(2) by blast
  have hb: "holds b content" "a_Manifest b = m" "length (chunks b) = length (chunks a)"
    "\<forall>i < length (chunks a). received b ! i \<longleftrightarrow> received a ! i \<or> i \<in> fst ` set (file_chunks content)"
    using add_chunks_holds [OF ha(1) b(1) chunks_ok] ha(2) by simp_all
  have "fst ` set (file_chunks content) = {..<length (chunks a)}"
    unfolding n by (auto simp: file_chunks_def image_image add.commute)
  then have "assembly_Complete b"
    using hb by (auto simp: assembly_Complete_iff list_all_length holds_def assembly_inv_def)
  then have content: "Content (sha256 c) b = Inr content"
    using Content_holds [OF hb(1)] hb(2) f(2) by simp
  have part: "\<not> in_partial (m_ID m) [str ''partial'']" by (simp add: in_partial_def partialDir_def)
  have "dirs_ok fs2 (chunks_dir (m_ID m))" using b(2) hb(2) by (simp add: mirrors_def)
  then have "lookup fs2 [str ''partial''] = Some Dir" by (simp add: dirs_ok_def prefix_chunks_dir)
  moreover have "lookup fs2 q = lookup fs q" if "in_object (m_ID m) q \<or> q = [str ''objects'']" for q
    using fr1 [OF that] fr2 that in_object_not_partial in_partial_not_objects by metis
  moreover have "in_object (m_ID m) (objectDir (m_ID m))" by (simp add: in_object_def)
  ultimately have "place_ok fs2 (m_ID m)" using assms(5) pid by (auto simp: place_ok_def)
  then obtain fs3 where "Commit c no_faults b fs2 = (Inr (content_file (m_ID m)), fs3)"
    using Commit_total [OF content] verified hb(2) by auto
  then have "AddFileSigned c no_faults path (Inr content) identity fs = (Inr (m, content_file (m_ID m)), fs3)"
    using assms(1,6) a(1) b(1) m w pid by (simp add: AddFileSigned_def file_chunks_def and_then_def)
  then show ?thesis by blast
qed

lemma empty_place_ok: "place_ok [] pid"
  by (simp add: place_ok_def lookup_def)

lemma empty_not_Complete: "\<not> Complete c io [] pid"
  by (simp add: Complete_iff lookup_def)

lemma AddFileSigned_written:
  assumes "AddFileSigned c io path (Inr content) identity fs = (Inr (m, p), fs')"
    and "\<not> Complete c io fs (copy_array (take 16 (array_bytes (sha256 c content))))"
  shows "written c fs' m content \<and> manifest_ok m \<and> stored_version m \<and> m_Filename m = Base path \<and>
    m_SHA256 m = sha256 c content \<and> length content = unat (m_Length m) \<and> p = content_file (m_ID m) \<and>
    VerifyManifestSignature c m = Inr () \<and> (\<forall>i. identity = Some i \<longrightarrow> m_Signature m \<noteq> None)"
proof -
  have mid: "m_ID m = copy_array (take 16 (array_bytes (sha256 c content)))"
    and size: "length content \<le> 1424 * 178"
    and m: "(case identity of None \<Rightarrow> Inr (file_manifest c path content)
       | Some i \<Rightarrow> SignManifest c (file_manifest c path content) i) = Inr m"
    and ok: "manifest_ok m" and steps: "\<exists>a fs1 b fs2. Restart c io m fs = (Inr a, fs1) \<and>
      add_chunks io a (file_chunks content) fs1 = (Inr b, fs2) \<and> Commit c io b fs2 = (Inr p, fs')"
    using AddFileSigned_Inr [OF assms] by auto
  note f = signed_file [OF m]
  have geo: "geometry m" using ok by (simp add: manifest_ok_def)
  have len: "length content = unat (m_Length m)"
    and count: "unat (m_ChunkCount m) = (length content + 177) div 178"
    using file_manifest_geometry(2,3) [OF size, of c path] f by simp_all
  obtain a fs1 b fs2 where a: "Restart c io m fs = (Inr a, fs1)"
    and b: "add_chunks io a (file_chunks content) fs1 = (Inr b, fs2)" and commit: "Commit c io b fs2 = (Inr p, fs')"
    using steps by blast
  have ha: "holds a content" "a_Manifest a = m" using fresh_Begin [OF a geo len] by simp_all
  then have n: "length (chunks a) = (length content + 177) div 178"
    using count by (simp add: holds_def assembly_inv_def)
  have hb: "holds b content \<and> a_Manifest b = m"
    using add_chunks_holds [OF ha(1) b] file_chunks_of [OF size, of c path] n f ha(2) by (auto simp: chunk_of_def)
  from commit show ?thesis
  proof (cases rule: Commit_cases)
    case (1 e)
    then show ?thesis by simp
  next
    case (2 content')
    have "assembly_Complete b" using 2(1) by (auto simp: Content_def split: if_splits)
    then have "content' = content" using Content_holds [of b content "sha256 c"] hb 2(1) by (auto split: if_splits)
    moreover have "m_Signature m \<noteq> None" if "identity = Some i" for i
      using m that by (auto dest: SignManifest_Inr(1))
    ultimately show ?thesis using 2 hb ok f len by auto
  qed
qed

section \<open>Filenames that are not UTF-8\<close>

lemma manifest_of_JSON_renamed:
  assumes "manifest_ok m" "stored_version m"
    and "manifest_of_JSON c ((toJSON c m)\<lparr>j_Filename := f\<rparr>) = Inr n"
  shows "n = m\<lparr>m_Filename := f\<rparr>"
proof -
  let ?m = "m\<lparr>m_Filename := f\<rparr>"
  have json: "(toJSON c m)\<lparr>j_Filename := f\<rparr> = toJSON c ?m" by (simp add: toJSON_def)
  have "manifest_ok n" "m_Filename n = f"
    using manifest_of_JSON_Inr [OF assms(3)] by simp_all
  then have "length f \<le> MaxFilenameBytes" by (auto simp: manifest_ok_def)
  then have "manifest_ok ?m" using assms(1) by (simp add: manifest_ok_def geometry_def)
  moreover have "stored_version ?m" using assms(2) by (simp add: stored_version_def)
  ultimately show ?thesis using manifest_of_JSON_encoded assms(3) unfolding json by fastforce
qed

lemma written_LoadManifest:
  assumes "written c fs m content" "manifest_ok m" "stored_version m" "LoadManifest c no_faults fs (m_ID m) = Inr n"
  shows "n = m\<lparr>m_Filename := coerce (m_Filename m)\<rparr>"
proof -
  have "manifest_of_JSON c ((toJSON c m)\<lparr>j_Filename := coerce (m_Filename m)\<rparr>) = Inr n"
    using assms(1,4) by (auto simp: LoadManifest_def readManifest_iff written_def encoded_manifest_def)
  then show ?thesis by (rule manifest_of_JSON_renamed [OF assms(2,3)])
qed

text \<open>Examples the witnesses start from: a partial publication on an empty disk, and an empty publication.\<close>

lemma example_Begin: "\<exists>a fs. Begin toy_crypto no_faults example_manifest [] = (Inr a, fs)"
proof -
  have safe: "safe_name (m_Filename example_manifest)"
    by (simp add: safe_name_def example_manifest_def Base_def)
  have "geometry example_manifest" using example_manifest_ok by (simp add: manifest_ok_def)
  from Restart_total [OF empty_place_ok safe this]
  obtain a fs where "Restart toy_crypto no_faults example_manifest [] = (Inr a, fs)" by metis
  then show ?thesis by (auto simp: Restart_def RemoveAll_def prune_def)
qed

definition empty_example :: Manifest where
  "empty_example = example_manifest\<lparr>m_Length := 0, m_ChunkCount := 0\<rparr>"

lemma empty_example_committable: "committable (NewAssembly empty_example)"
proof -
  have ok: "manifest_ok empty_example"
    using example_manifest_ok by (simp add: manifest_ok_def geometry_def empty_example_def example_manifest_def chunk_total_def)
  then have "assembly_inv (NewAssembly empty_example)" by (simp add: manifest_ok_def NewAssembly_inv)
  moreover have "utf8_valid (m_Filename empty_example)"
    by (rule utf8_valid_ascii) (simp add: empty_example_def example_manifest_def)
  ultimately show ?thesis
    using ok by (simp add: committable_def stored_version_def) (simp add: empty_example_def example_manifest_def)
qed

lemma toy_publishing:
  assumes "length content \<le> 1424 * 178" "length (Base path) \<le> MaxFilenameBytes" "Base path \<noteq> [46]"
  obtains m p fs' where "AddFileSigned toy_crypto no_faults path (Inr content) (Some toy_identity) [] = (Inr (m, p), fs')"
  using AddFileSigned_total [OF assms, of toy_crypto "Some toy_identity" "[]"] empty_place_ok empty_not_Complete
    toy_identity_ok toy_signs by auto

text \<open>What is behind a publication that is complete.\<close>

lemma Complete_content:
  assumes "Complete c io fs pid"
  obtains m content where "LoadManifest c io fs pid = Inr m" "manifest_ok m" "VerifyManifestSignature c m = Inr ()"
    "sha256 c content = m_SHA256 m" "length content = unat (m_Length m)"
    "\<forall>index < m_ChunkCount m. ReadChunk c io fs pid index = Inr (chunk_of m content (unat index))"
    "ReadBytes io fs (content_file pid) = Inr content"
proof -
  obtain m content where m: "LoadManifest c io fs pid = Inr m" "VerifyManifestSignature c m = Inr ()"
    "ReadBytes io fs (content_file pid) = Inr content" "length content = unat (m_Length m)"
    "sha256 c content = m_SHA256 m"
    using assms unfolding Complete_iff by blast
  have "manifest_ok m" using m(1) readManifest_Inr by (auto simp: LoadManifest_def)
  then show thesis using that m ReadChunk_chunk_of [OF m(1,3,4)] by blast
qed

section \<open>Properties\<close>

text \<open>
  C10: A partial publication survives any interruption: however many of the reads and writes failed while
  chunks were being received, opening the publication again on a disk that works succeeds and holds
  every chunk that was acknowledged in memory, with its data, and is still well formed.
\<close>

theorem partial_resumes_after_failures:
  assumes "geometry m" and "Begin c io m fs = (Inr a, fs1)" and "run_adds history a fs1 = (a', fs2)"
  shows "\<exists>b fs3. Begin c no_faults m fs2 = (Inr b, fs3) \<and> assembly_inv b \<and> a_Manifest b = m \<and>
    (\<forall>i < length (chunks a'). received a' ! i \<longrightarrow> received b ! i \<and> chunks b ! i = chunks a' ! i)"
proof -
  have a: "safe_name (m_Filename m)" "a_Manifest a = m" "mirrors c fs1 a"
    using Begin_Inr [OF assms(2,1)] by simp_all
  have a': "mirrors c fs2 a'" "a_Manifest a' = m" using run_adds_mirrors [OF a(3) assms(3)] a(2) by simp_all
  obtain b fs3 where "Begin c no_faults (a_Manifest a') fs2 = (Inr b, fs3)" "mirrors c fs3 b"
    "a_Manifest b = a_Manifest a'"
    "\<And>i. i < length (chunks a') \<Longrightarrow> received a' ! i \<Longrightarrow> received b ! i \<and> chunks b ! i = chunks a' ! i"
    using Begin_resumes [OF a'(1)] a(1) a'(2) by metis
  then show ?thesis using a'(2) by (auto simp: mirrors_def)
qed

theorem partial_resumes_after_failures_witness:
  "\<exists>a fs1 a' fs2 b fs3. Begin toy_crypto no_faults example_manifest [] = (Inr a, fs1) \<and>
     run_adds [(no_faults, 0, [1, 2]), (no_faults\<lparr>write_result := \<lambda>_. WLate\<rparr>, 2, [5])] a fs1 = (a', fs2) \<and>
     Begin toy_crypto no_faults example_manifest fs2 = (Inr b, fs3) \<and> a_Manifest b = example_manifest"
proof -
  have geo: "geometry example_manifest" using example_manifest_ok by (simp add: manifest_ok_def)
  obtain a fs1 where a: "Begin toy_crypto no_faults example_manifest [] = (Inr a, fs1)"
    using example_Begin by blast
  obtain a' fs2 where h: "run_adds [(no_faults, 0, [1, 2]), (no_faults\<lparr>write_result := \<lambda>_. WLate\<rparr>, 2, [5])] a fs1 = (a', fs2)"
    by (cases "run_adds [(no_faults, 0, [1, 2]), (no_faults\<lparr>write_result := \<lambda>_. WLate\<rparr>, 2, [5])] a fs1") auto
  from partial_resumes_after_failures [OF geo a h] a h show ?thesis by blast
qed

text \<open>
  C4: Committing never loses data and never touches another publication: whatever call fails, either the
  publication is complete afterwards and its stored manifest is the one received, or every file of the
  partial publication is exactly what it was; when \<open>Commit\<close> reports success the publication is complete
  and the partial files are gone; and all files of other publications are unchanged throughout.
\<close>

theorem commit_never_loses_data:
  assumes "committable a" and "Commit c io a fs = (r, fs')"
  shows "((Complete c no_faults fs' (m_ID (a_Manifest a)) \<and>
       LoadManifest c no_faults fs' (m_ID (a_Manifest a)) = Inr (a_Manifest a)) \<or>
     (\<forall>q. in_partial (m_ID (a_Manifest a)) q \<longrightarrow> lookup fs' q = lookup fs q)) \<and>
    (\<forall>p. r = Inr p \<longrightarrow> Complete c no_faults fs' (m_ID (a_Manifest a)) \<and>
       (\<exists>content. ReadBytes no_faults fs' p = Inr content \<and> Content (sha256 c) a = Inr content) \<and>
       (\<forall>q. in_partial (m_ID (a_Manifest a)) q \<longrightarrow> lookup fs' q = None)) \<and>
    (\<forall>other q. other \<noteq> m_ID (a_Manifest a) \<longrightarrow> in_object other q \<or> in_partial other q \<longrightarrow>
       lookup fs' q = lookup fs q)"
proof -
  let ?pid = "m_ID (a_Manifest a)"
  have else1: "\<not> in_object ?pid q \<and> \<not> in_partial ?pid q \<and> q \<noteq> [str ''objects'']"
    if "other \<noteq> ?pid" "in_object other q \<or> in_partial other q" for other q
  proof -
    have "\<not> in_object other [str ''objects'']" by (simp add: in_object_def objectDir_def)
    then show ?thesis
      using that in_object_unique in_partial_unique in_object_not_partial in_partial_not_objects by metis
  qed
  from assms(2) show ?thesis
  proof (cases rule: Commit_cases)
    case (1 e)
    have "\<forall>q. in_partial ?pid q \<longrightarrow> lookup fs' q = lookup fs q"
      using 1(2) in_object_not_partial in_partial_not_objects by blast
    moreover have "\<forall>other q. other \<noteq> ?pid \<longrightarrow> in_object other q \<or> in_partial other q \<longrightarrow> lookup fs' q = lookup fs q"
      using 1(2) else1 by blast
    ultimately show ?thesis using 1(1) by simp
  next
    case (2 content)
    note fin = Commit_written_Complete [OF assms(1) 2(1,2,3)]
    have "ReadBytes no_faults fs' (content_file ?pid) = Inr content" using 2(3) by (auto simp: written_def)
    then have "\<forall>p. r = Inr p \<longrightarrow> Complete c no_faults fs' ?pid \<and>
       (\<exists>content. ReadBytes no_faults fs' p = Inr content \<and> Content (sha256 c) a = Inr content) \<and>
       (\<forall>q. in_partial ?pid q \<longrightarrow> lookup fs' q = None)"
      using 2(1,5) fin(2) by auto
    moreover have "\<forall>other q. other \<noteq> ?pid \<longrightarrow> in_object other q \<or> in_partial other q \<longrightarrow> lookup fs' q = lookup fs q"
      using 2(4) else1 by blast
    ultimately show ?thesis using fin(1,2) by blast
  qed
qed

theorem commit_never_loses_data_witness:
  "\<exists>p fs'. Commit toy_crypto no_faults (NewAssembly empty_example) [] = (Inr p, fs') \<and>
     Complete toy_crypto no_faults fs' (m_ID empty_example)"
proof -
  have "Content (sha256 toy_crypto) (NewAssembly empty_example) = Inr []"
    by (simp add: Content_def assembly_Complete_def Missing_def NewAssembly_def empty_example_def
        example_manifest_def toy_crypto_def)
  moreover have "VerifyManifestSignature toy_crypto empty_example = Inr ()"
    by (simp add: VerifyManifestSignature_def empty_example_def example_manifest_def)
  ultimately obtain fs' where run: "Commit toy_crypto no_faults (NewAssembly empty_example) [] =
      (Inr (content_file (m_ID empty_example)), fs')"
    using Commit_total [of toy_crypto "NewAssembly empty_example" "[]" "[]"] empty_place_ok by auto
  from commit_never_loses_data [OF empty_example_committable run] run show ?thesis by auto
qed

text \<open>
  A complete publication can be served whole: if \<open>Complete\<close> holds, every chunk index below the count
  reads the chunk of the content, the chunks join to the content, and the content has the hash and the
  length of the manifest, whose signature, if any, verifies.
\<close>

theorem complete_publication_servable:
  assumes "Complete c io fs pid"
  shows "\<exists>m content. LoadManifest c io fs pid = Inr m \<and> manifest_ok m \<and>
    VerifyManifestSignature c m = Inr () \<and> sha256 c content = m_SHA256 m \<and> length content = unat (m_Length m) \<and>
    (\<forall>index < m_ChunkCount m. ReadChunk c io fs pid index = Inr (chunk_of m content (unat index))) \<and>
    concat (map (chunk_of m content) [0..<unat (m_ChunkCount m)]) = content"
proof -
  obtain m content where m: "LoadManifest c io fs pid = Inr m" "manifest_ok m" "VerifyManifestSignature c m = Inr ()"
    "sha256 c content = m_SHA256 m" "length content = unat (m_Length m)"
    "\<forall>index < m_ChunkCount m. ReadChunk c io fs pid index = Inr (chunk_of m content (unat index))"
    by (rule Complete_content [OF assms])
  moreover have "concat (map (chunk_of m content) [0..<unat (m_ChunkCount m)]) = content"
    using m(2,5) chunks_join by (auto simp: manifest_ok_def)
  ultimately show ?thesis by blast
qed

theorem complete_publication_servable_witness:
  "\<exists>fs pid m. Complete toy_crypto no_faults fs pid \<and> LoadManifest toy_crypto no_faults fs pid = Inr m \<and> manifest_ok m \<and>
     (\<forall>index < m_ChunkCount m. \<exists>data. ReadChunk toy_crypto no_faults fs pid index = Inr data)"
proof -
  obtain m p fs where run: "AddFileSigned toy_crypto no_faults (str ''a'') (Inr [1, 2, 3]) (Some toy_identity) [] = (Inr (m, p), fs)"
    by (rule toy_publishing [of "[1, 2, 3]" "str ''a''"]) (simp_all add: Base_def str_def)
  note w = AddFileSigned_written [OF run empty_not_Complete]
  have "utf8_valid (m_Filename m)" using w by (auto intro!: utf8_valid_ascii simp: Base_def str_def)
  then have "Complete toy_crypto no_faults fs (m_ID m)" using written_Complete [of toy_crypto fs m "[1, 2, 3]"] w by simp
  then show ?thesis using complete_publication_servable by fast
qed

text \<open>
  C23: Publishing a file works end to end: when \<open>AddFileSigned\<close> reports success on a new publication, with or
  without an identity and whatever failed on the way, the publication is complete, its stored manifest
  is the one returned, it is named after the file, and its content is the file's.
\<close>

theorem published_file_complete:
  assumes "AddFileSigned c io path (Inr content) identity fs = (Inr (m, p), fs')"
    and "\<not> Complete c io fs (copy_array (take 16 (array_bytes (sha256 c content))))"
    and "utf8_valid (Base path)"
  shows "Complete c no_faults fs' (m_ID m) \<and> LoadManifest c no_faults fs' (m_ID m) = Inr m \<and>
    m_Filename m = Base path \<and> m_SHA256 m = sha256 c content \<and> p = content_file (m_ID m) \<and>
    ReadBytes no_faults fs' p = Inr content"
proof -
  note w = AddFileSigned_written [OF assms(1,2)]
  have "LoadManifest c no_faults fs' (m_ID m) = Inr m" "Complete c no_faults fs' (m_ID m)"
    using written_Complete [of c fs' m content] w assms(3) by simp_all
  moreover have "ReadBytes no_faults fs' (content_file (m_ID m)) = Inr content" using w by (simp add: written_def)
  ultimately show ?thesis using w by simp
qed

theorem published_file_complete_witness:
  "\<exists>m p fs'. AddFileSigned toy_crypto no_faults (str ''dir/note.txt'') (Inr [1, 2, 3]) (Some toy_identity) [] =
     (Inr (m, p), fs') \<and> Complete toy_crypto no_faults fs' (m_ID m) \<and> ReadBytes no_faults fs' p = Inr [1, 2, 3]"
proof -
  have base: "Base (str ''dir/note.txt'') = str ''note.txt''" by (simp add: Base_def str_def)
  obtain m p fs' where run:
    "AddFileSigned toy_crypto no_faults (str ''dir/note.txt'') (Inr [1, 2, 3]) (Some toy_identity) [] = (Inr (m, p), fs')"
    by (rule toy_publishing [of "[1, 2, 3]" "str ''dir/note.txt''"]) (simp_all only: base, simp_all add: str_def)
  have "utf8_valid (Base (str ''dir/note.txt''))" unfolding base by (rule utf8_valid_ascii) (simp add: str_def)
  from published_file_complete [OF run empty_not_Complete this] run show ?thesis by blast
qed

text \<open>
  On a disk that works, publishing always succeeds: any file of at most 253472 bytes with a base name of
  at most 135 bytes is accepted, signed or not, and if the name is UTF-8 the publication is complete.
\<close>

theorem publishing_succeeds:
  assumes "length content \<le> 253472" and "length (Base path) \<le> 135" and "Base path \<noteq> [46]"
    and "case identity of None \<Rightarrow> True | Some i \<Rightarrow> identity_ok c i \<and> signs_correctly c"
    and "place_ok fs (copy_array (take 16 (array_bytes (sha256 c content))))"
    and "\<not> Complete c no_faults fs (copy_array (take 16 (array_bytes (sha256 c content))))"
  shows "\<exists>m p fs'. AddFileSigned c no_faults path (Inr content) identity fs = (Inr (m, p), fs') \<and>
    (utf8_valid (Base path) \<longrightarrow> Complete c no_faults fs' (m_ID m))"
proof -
  obtain m p fs' where run: "AddFileSigned c no_faults path (Inr content) identity fs = (Inr (m, p), fs')"
    using AddFileSigned_total [OF _ _ assms(3-6)] assms(1,2) by auto
  note w = AddFileSigned_written [OF run assms(6)]
  have "Complete c no_faults fs' (m_ID m)" if "utf8_valid (Base path)"
    using written_Complete(2) [of c fs' m content] w that by simp
  then show ?thesis using run by blast
qed

theorem publishing_succeeds_witness:
  "\<exists>m p fs'. AddFileSigned toy_crypto no_faults (str ''a'') (Inr [5]) None [] = (Inr (m, p), fs')"
proof -
  have base: "Base (str ''a'') = str ''a''" by (simp add: Base_def str_def)
  have "\<exists>m p fs'. AddFileSigned toy_crypto no_faults (str ''a'') (Inr [5]) None [] = (Inr (m, p), fs') \<and>
      (utf8_valid (Base (str ''a'')) \<longrightarrow> Complete toy_crypto no_faults fs' (m_ID m))"
    by (rule publishing_succeeds)
       (simp_all only: base, simp_all add: str_def empty_place_ok empty_not_Complete)
  then show ?thesis by blast
qed

text \<open>
  C38: A filename that is not UTF-8 does not survive publishing: although \<open>AddFileSigned\<close> reports success, the
  manifest on disk never reads back as the one that was signed; its filename, if it reads at all, is the
  coerced one, and where the signature does not verify for that other name the publication that was
  just committed is not complete.
\<close>

theorem non_utf8_filename_lost:
  assumes "AddFileSigned c io path (Inr content) (Some identity) fs = (Inr (m, p), fs')"
    and "\<not> Complete c io fs (copy_array (take 16 (array_bytes (sha256 c content))))"
    and "\<not> utf8_valid (Base path)"
  shows "LoadManifest c no_faults fs' (m_ID m) \<noteq> Inr m \<and>
    (\<forall>n. LoadManifest c no_faults fs' (m_ID m) = Inr n \<longrightarrow> n = m\<lparr>m_Filename := coerce (Base path)\<rparr>) \<and>
    (VerifyManifestSignature c (m\<lparr>m_Filename := coerce (Base path)\<rparr>) \<noteq> Inr () \<longrightarrow>
       \<not> Complete c no_faults fs' (m_ID m))"
proof -
  note w = AddFileSigned_written [OF assms(1,2)]
  have load: "n = m\<lparr>m_Filename := coerce (Base path)\<rparr>" if "LoadManifest c no_faults fs' (m_ID m) = Inr n" for n
    using written_LoadManifest [of c fs' m content n] w that by simp
  have "m \<noteq> m\<lparr>m_Filename := coerce (Base path)\<rparr>"
  proof
    assume "m = m\<lparr>m_Filename := coerce (Base path)\<rparr>"
    then have "m_Filename m = coerce (Base path)" by (metis Manifest.select_convs(3) Manifest.surjective Manifest.update_convs(3))
    then show False using w assms(3) coerce_id_iff by metis
  qed
  then have "LoadManifest c no_faults fs' (m_ID m) \<noteq> Inr m" using load by blast
  moreover have "\<not> Complete c no_faults fs' (m_ID m)"
    if "VerifyManifestSignature c (m\<lparr>m_Filename := coerce (Base path)\<rparr>) \<noteq> Inr ()"
    using that load by (auto simp: Complete_iff)
  ultimately show ?thesis using load by blast
qed

theorem non_utf8_filename_lost_witness:
  "\<exists>m p fs'. AddFileSigned toy_crypto no_faults [0xff] (Inr [5]) (Some toy_identity) [] = (Inr (m, p), fs') \<and>
     LoadManifest toy_crypto no_faults fs' (m_ID m) \<noteq> Inr m"
proof -
  have base: "Base [0xff] = [0xff]" by (simp add: Base_def)
  obtain m p fs' where run: "AddFileSigned toy_crypto no_faults [0xff] (Inr [5]) (Some toy_identity) [] = (Inr (m, p), fs')"
    by (rule toy_publishing [of "[5]" "[0xff]"]) (simp_all add: base)
  have "\<not> utf8_valid (Base [0xff])" unfolding base by (simp add: utf8_valid.simps rune_len_def rune_size_def)
  from non_utf8_filename_lost [OF run empty_not_Complete this] run show ?thesis by blast
qed

end
