(* ===== verification/Scheduler.thy ===== *)
theory Scheduler
  imports Node_Protocol "HOL-Library.Stream"
begin

text \<open>
  \<open>internal/node/scheduler.go\<close>: jitter, the choice of the next chunks to ask for, the rotation over sources
  and the exponential backoff.

  Instants and durations are those of the prelude: every duration the code computes is shown to stay far below
  its 64 bits. The generator of \<open>math/rand\<close> is the stream of the raw values it will give; \<open>Int63n\<close> and \<open>Intn\<close> take one
  and reduce it to the range (the raw values \<open>Int63n\<close> skips are left out of the stream), so a theorem for every
  stream is one for every outcome.
\<close>

type_synonym rng = "nat stream"

definition Int63n :: "rng \<Rightarrow> int \<Rightarrow> int \<times> rng" where
  "Int63n g n = (int (shd g) mod n, stl g)"

text \<open>\<open>Intn\<close> of a power of two below \<open>2^31\<close>: the low bits of the upper 31 bits of a raw value.\<close>

definition Intn :: "rng \<Rightarrow> int \<Rightarrow> int \<times> rng" where
  "Intn g n = (int (shd g div 2 ^ 32) mod n, stl g)"

lemma Int63n_range: "0 < n \<Longrightarrow> Int63n g n = (v, g') \<Longrightarrow> 0 \<le> v \<and> v < n"
  by (auto simp: Int63n_def)

definition Jitter :: "duration \<Rightarrow> rng \<Rightarrow> duration \<times> rng" where
  "Jitter interval g =
     (if interval \<le> 0 then (0, g)
      else let spread = interval div 5; (v, g) = Int63n g (2 * spread + 1) in (interval - spread + v, g))"

fun batch_bits :: "bool list \<Rightarrow> nat \<Rightarrow> nat list \<Rightarrow> byte \<Rightarrow> 16 word list \<Rightarrow> byte \<times> 16 word list" where
  "batch_bits received baseInt [] bitmap indexes = (bitmap, indexes)"
| "batch_bits received baseInt (b # bs) bitmap indexes =
     (if baseInt + b < length received \<and> length indexes < MaxChunkBatch
      then let idx = baseInt + b in
        if \<not> received ! idx
        then batch_bits received baseInt bs (bitmap OR push_bit b 1) (indexes @ [of_nat idx])
        else batch_bits received baseInt bs bitmap indexes
      else (bitmap, indexes))"

definition MissingBatch :: "bool list \<Rightarrow> nat \<Rightarrow> 16 word \<times> byte \<times> 16 word list" where
  "MissingBatch received start =
     (if length received = 0 then (0, 0, [])
      else case find (\<lambda>offset. \<not> received ! ((start + offset) mod length received)) [0..<length received] of
          None \<Rightarrow> (0, 0, [])
        | Some offset \<Rightarrow>
            let i = (start + offset) mod length received; baseInt = (i div 8) * 8;
                (bitmap, indexes) = batch_bits received baseInt [0..<8] 0 []
            in (of_nat baseInt, bitmap, indexes))"

record Candidate =
  ca_ID :: ID
  ca_Sources :: "NodeID list"
  ca_SourceIndex :: nat
  ca_Failures :: int
  ca_NextAttempt :: instant

definition Source :: "Candidate \<Rightarrow> NodeID \<times> Candidate" where
  "Source c =
     (if length (ca_Sources c) = 0 then (0, c)
      else (ca_Sources c ! (ca_SourceIndex c mod length (ca_Sources c)),
            c\<lparr>ca_SourceIndex := (ca_SourceIndex c + 1) mod length (ca_Sources c)\<rparr>))"

definition Backoff :: "int \<Rightarrow> duration" where
  "Backoff failures =
     (let failures = (if failures < 0 then 0 else failures);
          failures = (if failures > 5 then 5 else failures)
      in Second * 2 ^ nat failures)"

section \<open>Durations\<close>

lemma Jitter_bounds:
  assumes "0 < interval" "Jitter interval g = (d, g')"
  shows "interval - interval div 5 \<le> d \<and> d \<le> interval + interval div 5"
proof -
  define spread where "spread = interval div 5"
  have "0 \<le> spread" using assms(1) by (simp add: spread_def pos_imp_zdiv_nonneg_iff)
  then have "0 \<le> int (shd g) mod (2 * spread + 1)" "int (shd g) mod (2 * spread + 1) < 2 * spread + 1"
    by (intro pos_mod_sign pos_mod_bound; linarith)+
  moreover have "d = interval - spread + int (shd g) mod (2 * spread + 1)"
    using assms by (simp add: Jitter_def Int63n_def Let_def spread_def)
  ultimately show ?thesis unfolding spread_def [symmetric] by linarith
qed

lemma Backoff_bounds: "1000000000 \<le> Backoff n \<and> Backoff n \<le> 32000000000"
proof -
  have "(1::int) \<le> 2 ^ nat (min 5 (max 0 n))" by simp
  moreover have "(2::int) ^ nat (min 5 (max 0 n)) \<le> 2 ^ 5" by (rule power_increasing) auto
  moreover have "Backoff n = 1000000000 * 2 ^ nat (min 5 (max 0 n))"
    by (auto simp: Backoff_def min_def max_def)
  ultimately show ?thesis by simp
qed

lemma Backoff_mono: "m \<le> n \<Longrightarrow> Backoff m \<le> Backoff n"
proof -
  assume "m \<le> n"
  then have "(2::int) ^ nat (min 5 (max 0 m)) \<le> 2 ^ nat (min 5 (max 0 n))"
    by (intro power_increasing) auto
  moreover have "Backoff n = 1000000000 * 2 ^ nat (min 5 (max 0 n))" for n
    by (auto simp: Backoff_def min_def max_def)
  ultimately show ?thesis by simp
qed

section \<open>The batch of missing chunks\<close>

text \<open>
  What the loop over the bits collects: the missing indexes of the window, in order, at most four in all,
  and a bit for each. \<open>window\<close> is the specification.
\<close>

definition window :: "bool list \<Rightarrow> nat \<Rightarrow> nat list \<Rightarrow> nat list" where
  "window received baseInt bs = filter (\<lambda>b. baseInt + b < length received \<and> \<not> received ! (baseInt + b)) bs"

definition mark :: "nat list \<Rightarrow> byte" where
  "mark bs = foldl (\<lambda>v b. v OR push_bit b 1) 0 bs"

lemma foldl_or: "foldl (\<lambda>v b. v OR push_bit b 1) w bs = w OR (mark bs :: byte)"
proof (induction bs arbitrary: w)
  case (Cons b bs)
  show ?case using Cons [of "w OR push_bit b 1"] Cons [of "push_bit b 1"] by (simp add: mark_def or.assoc)
qed (simp add: mark_def)

lemma bit_mark: "\<forall>b \<in> set bs. b < 8 \<Longrightarrow> bit (mark bs) k \<longleftrightarrow> k \<in> set bs"
proof (induction bs)
  case (Cons b bs)
  have "mark (b # bs) = push_bit b 1 OR mark bs" using foldl_or [of "push_bit b 1" bs] by (simp add: mark_def)
  then show ?case using Cons by (auto simp: bit_simps)
qed (simp add: mark_def)

lemma window_past_end: "sorted bs \<Longrightarrow> length received \<le> baseInt + b \<Longrightarrow> \<forall>x \<in> set bs. b \<le> x \<Longrightarrow> window received baseInt bs = []"
  by (auto simp: window_def filter_empty_conv)

lemma batch_bits_window:
  assumes "sorted bs" "length indexes \<le> 4"
  shows "batch_bits received baseInt bs bitmap indexes =
    (let w = take (4 - length indexes) (window received baseInt bs)
     in (bitmap OR mark w, indexes @ map (\<lambda>b. of_nat (baseInt + b)) w))"
  using assms
proof (induction bs arbitrary: bitmap indexes)
  case Nil
  then show ?case by (simp add: window_def mark_def)
next
  case (Cons b bs)
  have joined: "bitmap OR push_bit b 1 OR mark w = bitmap OR mark (b # w)" for w
    using foldl_or [of "push_bit b 1" w] by (simp add: mark_def or.assoc)
  show ?case
  proof (cases "baseInt + b < length received \<and> length indexes < 4")
    case True
    show ?thesis
    proof (cases "received ! (baseInt + b)")
      case False
      then have w: "window received baseInt (b # bs) = b # window received baseInt bs"
        using True by (simp add: window_def)
      obtain k where k: "4 - length indexes = Suc k" "4 - length (indexes @ [of_nat (baseInt + b)]) = k"
        using True by (metis Suc_diff_Suc diff_Suc_1' diff_diff_left length_append_singleton plus_1_eq_Suc
            add.commute)
      have "batch_bits received baseInt bs (bitmap OR push_bit b 1) (indexes @ [of_nat (baseInt + b)]) =
          ((bitmap OR push_bit b 1) OR mark (take k (window received baseInt bs)),
           (indexes @ [of_nat (baseInt + b)]) @ map (\<lambda>b. of_nat (baseInt + b)) (take k (window received baseInt bs)))"
        using Cons.IH [of "indexes @ [of_nat (baseInt + b)]" "bitmap OR push_bit b 1"] Cons.prems True k
        by (simp add: Let_def)
      then show ?thesis using True False by (simp add: w k(1) joined [symmetric] or.assoc Let_def)
    next
      case rec: True
      then have "window received baseInt (b # bs) = window received baseInt bs" by (simp add: window_def)
      then show ?thesis using Cons True rec by simp
    qed
  next
    case False
    then have "take (4 - length indexes) (window received baseInt (b # bs)) = []"
      using window_past_end [of "b # bs" received baseInt b] Cons.prems by auto
    then show ?thesis using False by (auto simp: mark_def)
  qed
qed

text \<open>The two outcomes of \<open>MissingBatch\<close>.\<close>

lemma find_upt_None: "find P [0..<n] = None \<longleftrightarrow> (\<forall>i<n. \<not> P i)"
  by (auto simp: find_None_iff)

lemma all_offsets:
  assumes "0 < (n::nat)"
  shows "(\<forall>offset<n. P ((start + offset) mod n)) \<longleftrightarrow> (\<forall>i<n. P i)"
proof
  assume all: "\<forall>offset<n. P ((start + offset) mod n)"
  show "\<forall>i<n. P i"
  proof (intro allI impI)
    fix i assume i: "i < n"
    define offset where "offset = (i + (n - start mod n)) mod n"
    have le: "start mod n \<le> n" using assms by (simp add: less_imp_le)
    have "(start + offset) mod n = (start mod n + (i + (n - start mod n))) mod n"
      unfolding offset_def by (simp add: mod_simps)
    also have "\<dots> = (i + n) mod n" using le by (simp add: algebra_simps)
    also have "\<dots> = i" using i by simp
    finally show "P i" using all assms by (metis offset_def mod_less_divisor)
  qed
qed (use assms in simp)

lemma MissingBatch_none:
  "\<forall>i < length received. received ! i \<Longrightarrow> MissingBatch received start = (0, 0, [])"
  using find_upt_None [of "\<lambda>offset. \<not> received ! ((start + offset) mod length received)" "length received"]
  by (auto simp: MissingBatch_def)

lemma block_position: "(i div 8) * 8 + (i - (i div 8) * 8) = (i :: nat) \<and> i - (i div 8) * 8 < 8"
  by presburger

lemma MissingBatch_some:
  assumes "\<not> (\<forall>i < length received. received ! i)"
  obtains i baseInt w where "i < length received" "\<not> received ! i" "baseInt = (i div 8) * 8"
    "w = take 4 (window received baseInt [0..<8])" "i - baseInt \<in> set (window received baseInt [0..<8])" "w \<noteq> []"
    "MissingBatch received start = (of_nat baseInt, mark w, map (\<lambda>b. of_nat (baseInt + b)) w)"
proof -
  let ?n = "length received"
  have n: "0 < ?n" using assms by auto
  obtain offset where f: "find (\<lambda>offset. \<not> received ! ((start + offset) mod ?n)) [0..<?n] = Some offset"
    using assms all_offsets [OF n, of "\<lambda>i. received ! i" start] find_upt_None
      [of "\<lambda>offset. \<not> received ! ((start + offset) mod ?n)" ?n] by blast
  let ?i = "(start + offset) mod ?n"
  let ?b = "(?i div 8) * 8"
  have i: "?i < ?n" "\<not> received ! ?i" using f n by (auto simp: find_Some_iff)
  have pos: "?b + (?i - ?b) = ?i" "?i - ?b < 8" using block_position [of ?i] by simp_all
  then have inw: "?i - ?b \<in> set (window received ?b [0..<8])" using i by (simp add: window_def)
  have run: "MissingBatch received start = (of_nat ?b, mark (take 4 (window received ?b [0..<8])),
      map (\<lambda>b. of_nat (?b + b)) (take 4 (window received ?b [0..<8])))"
    using n f batch_bits_window [of "[0..<8]" "[]" received ?b 0] by (simp add: MissingBatch_def Let_def)
  have "take 4 (window received ?b [0..<8]) \<noteq> []" using inw by auto
  then show thesis using that [OF i refl refl inw _ run] by simp
qed

text \<open>What the other side reads off the bitmap is the list the bitmap was made of.\<close>

lemma sorted_sublist_upt: "sorted w \<Longrightarrow> distinct w \<Longrightarrow> \<forall>b \<in> set w. b < n \<Longrightarrow> filter (\<lambda>b. b \<in> set w) [0..<n] = w"
proof -
  assume w: "sorted w" "distinct w" "\<forall>b \<in> set w. b < n"
  have "set (filter (\<lambda>b. b \<in> set w) [0..<n]) = set w" using w(3) by auto
  then show ?thesis using w(1,2) by (intro sorted_distinct_set_unique) (simp_all add: sorted_wrt_filter)
qed

lemma filter_mark:
  assumes "sorted w" "distinct w" "\<forall>b \<in> set w. b < 8"
  shows "filter (bit (mark w)) [0..<8] = w"
proof -
  have "bit (mark w) = (\<lambda>b. b \<in> set w)" by (rule ext) (rule bit_mark [OF assms(3)])
  then show ?thesis using sorted_sublist_upt [OF assms] by simp
qed

lemma bits_mark: "distinct w \<Longrightarrow> \<forall>b \<in> set w. b < 8 \<Longrightarrow> bits (mark w) = length w"
  by (simp add: bits_eq_card bit_mark distinct_card)

lemma window_sorted:
  "sorted (window received baseInt [0..<8])" "distinct (window received baseInt [0..<8])"
  "\<forall>b \<in> set (window received baseInt [0..<8]). b < 8 \<and> baseInt + b < length received \<and> \<not> received ! (baseInt + b)"
  by (auto simp: window_def sorted_wrt_filter)

lemma take_window:
  assumes "w = take k (window received baseInt [0..<8])"
  shows "sorted w" "distinct w" "\<forall>b \<in> set w. b < 8"
    "\<forall>b \<in> set w. baseInt + b < length received \<and> \<not> received ! (baseInt + b)"
  using assms window_sorted [of received baseInt]
  by (auto simp: sorted_wrt_take distinct_take dest: in_set_takeD)

section \<open>Properties\<close>

text \<open>
  The batch of missing chunks is exact: it is empty only when nothing is missing; otherwise it lists at
  most four chunks, all of them missing, each once, and the receiver that enumerates the bits of the
  bitmap from the base reads exactly that list, in that order.
\<close>

theorem missing_batch_exact:
  assumes "length received \<le> 65535" and "MissingBatch received start = (base, bitmap, indexes)"
  shows "(indexes = [] \<longleftrightarrow> (\<forall>i < length received. received ! i)) \<and>
    length indexes \<le> MaxChunkBatch \<and> bits bitmap = length indexes \<and> distinct indexes \<and>
    (\<forall>index \<in> set indexes. unat index < length received \<and> \<not> received ! unat index) \<and>
    map (\<lambda>b. base + of_nat b) (filter (bit bitmap) [0..<8]) = indexes"
proof (cases "\<forall>i < length received. received ! i")
  case True
  then show ?thesis using assms(2) by (auto simp: MissingBatch_none bits_eq_card)
next
  case False
  obtain i baseInt w where w: "w = take 4 (window received baseInt [0..<8])" "w \<noteq> []"
    "MissingBatch received start = (of_nat baseInt, mark w, map (\<lambda>b. of_nat (baseInt + b)) w)"
    using MissingBatch_some [OF False] by metis
  note t = take_window [OF w(1)]
  have u: "unat (of_nat (baseInt + b) :: 16 word) = baseInt + b" if "b \<in> set w" for b
    using t(4) that assms(1) by (intro unat_of_nat_fits) fastforce
  have "inj_on (\<lambda>b. of_nat (baseInt + b) :: 16 word) (set w)"
    by (rule inj_onI) (metis add_left_cancel u)
  then have "distinct indexes" using assms(2) w(3) t(2) by (auto simp: distinct_map)
  moreover have "\<forall>index \<in> set indexes. unat index < length received \<and> \<not> received ! unat index"
    using assms(2) w(3) t(4) u by auto
  ultimately show ?thesis
    using assms(2) w bits_mark [OF t(2,3)] filter_mark [OF t(1-3)] False by auto
qed

theorem missing_batch_exact_witness:
  "MissingBatch [True, False, True, False, False, False, False, False, False] 3 = (0, 0x3a, [1, 3, 4, 5]) \<and>
   bits 0x3a = 4"
proof -
  have run: "MissingBatch [True, False, True, False, False, False, False, False, False] 3 = (0, 0x3a, [1, 3, 4, 5])"
    by (simp add: MissingBatch_def upt_rec Let_def)
  show ?thesis using missing_batch_exact [OF _ run] run by simp
qed

end
