(* ===== verification/Policy.thy ===== *)
theory Policy
  imports Store Scheduler
begin

text \<open>
  \<open>internal/node/policy.go\<close>: the signature policies, how they are named on the command line and in the
  configuration, and the decision whether a publication may be transferred. The trust directory is read
  from the node's disk; a policy without a trust store has \<open>ap_HasTrust\<close> false.
\<close>

datatype SignaturePolicy = SignaturePermissive | SignatureRequired | SignatureTrusted

definition ParseSignaturePolicy :: "byte list \<Rightarrow> go_error + SignaturePolicy" where
  "ParseSignaturePolicy v =
     (if v = [] \<or> v = str ''permissive'' then Inr SignaturePermissive
      else if v = str ''signed'' then Inr SignatureRequired
      else if v = str ''trusted'' then Inr SignatureTrusted
      else Inl (Failure ''invalid signature policy''))"

record AcquisitionPolicy =
  ap_MaxAutoSize :: "64 word"
  ap_HasMaxSize :: bool
  ap_Signature :: SignaturePolicy
  ap_HasTrust :: bool

definition Accept :: "crypto \<Rightarrow> io \<Rightarrow> disk \<Rightarrow> AcquisitionPolicy \<Rightarrow> Manifest \<Rightarrow> bool \<Rightarrow> bool \<Rightarrow> bool" where
  "Accept c io fs p m partial wanted =
     (if m_Signature m \<noteq> None \<and> VerifyManifestSignature c m \<noteq> Inr () then False
      else if wanted then True
      else if \<not> partial \<and> ap_HasMaxSize p \<and> m_Length m > ap_MaxAutoSize p then False
      else case ap_Signature p of
          SignatureRequired \<Rightarrow> m_Signature m \<noteq> None
        | SignatureTrusted \<Rightarrow>
            (case m_Signature m of None \<Rightarrow> False
             | Some sig \<Rightarrow> ap_HasTrust p \<and> Trusted c io fs (array_bytes (PublicKey sig)))
        | SignaturePermissive \<Rightarrow> True)"

text \<open>What acceptance means, without the order of the tests: the contract of the policy.\<close>

lemma Accept_verifies: "Accept c io fs p m partial wanted \<Longrightarrow> VerifyManifestSignature c m = Inr ()"
  by (cases "m_Signature m") (auto simp: Accept_def VerifyManifestSignature_def split: if_splits)

lemma Accept_iff:
  "Accept c io fs p m partial wanted \<longleftrightarrow> VerifyManifestSignature c m = Inr () \<and>
     (wanted \<or> (partial \<or> \<not> ap_HasMaxSize p \<or> m_Length m \<le> ap_MaxAutoSize p) \<and>
       (ap_Signature p \<noteq> SignaturePermissive \<longrightarrow> m_Signature m \<noteq> None) \<and>
       (ap_Signature p = SignatureTrusted \<longrightarrow> ap_HasTrust p \<and>
          (\<exists>sig. m_Signature m = Some sig \<and> Trusted c io fs (array_bytes (PublicKey sig)))))"
proof (cases "VerifyManifestSignature c m = Inr ()")
  case True
  then show ?thesis
    by (cases "ap_Signature p"; cases "m_Signature m") (auto simp: Accept_def not_less)
next
  case False
  then show ?thesis using Accept_verifies by blast
qed

text \<open>A partial publication, and a stricter policy, never change an answer the other way.\<close>

lemma Accept_partial_mono: "Accept c io fs p m False wanted \<Longrightarrow> Accept c io fs p m True wanted"
  unfolding Accept_iff by blast

lemma Accept_trusted_signed:
  "Accept c io fs (p\<lparr>ap_Signature := SignatureTrusted\<rparr>) m partial wanted \<Longrightarrow>
   Accept c io fs (p\<lparr>ap_Signature := SignatureRequired\<rparr>) m partial wanted"
  by (auto simp: Accept_iff)

text \<open>The names of the policies, and back.\<close>

primrec policy_name :: "SignaturePolicy \<Rightarrow> byte list" where
  "policy_name SignaturePermissive = str ''permissive''"
| "policy_name SignatureRequired = str ''signed''"
| "policy_name SignatureTrusted = str ''trusted''"

lemma ParseSignaturePolicy_name [simp]: "ParseSignaturePolicy (policy_name p) = Inr p"
  by (cases p) (simp_all add: ParseSignaturePolicy_def str_def)

lemma ParseSignaturePolicy_Inr: "ParseSignaturePolicy v = Inr p \<Longrightarrow> v = policy_name p \<or> v = [] \<and> p = SignaturePermissive"
  by (auto simp: ParseSignaturePolicy_def split: if_splits)

section \<open>Properties\<close>

text \<open>
  The admission policy never lets a bad signature through, not even for a wanted publication; otherwise
  a wanted one is accepted, the size limit applies to new publications only, and under the trusted
  policy what is accepted unasked carries a verified signature by a key of the trust directory.
\<close>

theorem admission_policy_sound:
  assumes "Accept c io fs p m partial wanted"
  shows "VerifyManifestSignature c m = Inr () \<and>
    (if wanted then True
     else (if partial \<or> \<not> ap_HasMaxSize p then True else m_Length m \<le> ap_MaxAutoSize p) \<and>
       (case ap_Signature p of
          SignaturePermissive \<Rightarrow> True
        | SignatureRequired \<Rightarrow> m_Signature m \<noteq> None
        | SignatureTrusted \<Rightarrow> \<exists>sig. m_Signature m = Some sig \<and>
            (\<exists>canonical. CanonicalManifest m = Inr canonical \<and>
               ed_verify c (array_bytes (PublicKey sig)) canonical (array_bytes (sig_Value sig))) \<and>
            Trusted c io fs (array_bytes (PublicKey sig))))"
proof -
  have v: "VerifyManifestSignature c m = Inr ()" using assms by (rule Accept_verifies)
  have "\<exists>canonical. CanonicalManifest m = Inr canonical \<and>
      ed_verify c (array_bytes (PublicKey sig)) canonical (array_bytes (sig_Value sig))"
    if "m_Signature m = Some sig" for sig
    using v that by (auto simp: VerifyManifestSignature_def split: if_splits)
  then show ?thesis using assms v
    by (auto simp: Accept_iff split: SignaturePolicy.splits)
qed

theorem admission_policy_sound_witness:
  "\<exists>sm fs. SignManifest toy_crypto example_manifest toy_identity = Inr sm \<and>
     Accept toy_crypto no_faults fs
       \<lparr>ap_MaxAutoSize = 1000, ap_HasMaxSize = True, ap_Signature = SignatureRequired, ap_HasTrust = False\<rparr> sm False False \<and>
     m_Signature sm \<noteq> None"
proof -
  let ?p = "\<lparr>ap_MaxAutoSize = 1000, ap_HasMaxSize = True, ap_Signature = SignatureRequired, ap_HasTrust = False\<rparr>"
  obtain sm where sm: "SignManifest toy_crypto example_manifest toy_identity = Inr sm"
    by (auto simp: SignManifest_def CanonicalManifest_def example_manifest_def toy_identity_def)
  have "VerifyManifestSignature toy_crypto sm = Inr ()"
    by (rule SignManifest_verifies [OF toy_signs toy_identity_ok sm])
  then have acc: "Accept toy_crypto no_faults [] ?p sm False False"
    using SignManifest_Inr [OF sm] by (auto simp: Accept_iff example_manifest_def)
  then show ?thesis using admission_policy_sound [OF acc] sm by auto
qed

end
