(* ===== verification/Controller.thy ===== *)
theory Controller
  imports Complex_Main Scheduler
begin

text \<open>
  \<open>internal/node/controller.go\<close>: the traffic controller. Packets heard and failures are events with a weight
  that decays exponentially; the sum is the pressure, which sets how long the node keeps quiet and how
  many chunks it asks for.

  The weights and the pressure are \<open>float64\<close> in the code and \<open>real\<close> here: the rounding of the sum and of
  \<open>math.Exp\<close> is not modelled, everything the theorems use (signs, thresholds, decay) is an inequality.
  \<open>now.Sub\<close> saturates as in Go; a duration stays an unbounded \<open>int\<close> (the deferral is at most 6 s, \<open>Defer_bounds\<close>; only
  with more than \<open>10 ^ 10\<close> events within 20 s would \<open>time.Duration(p*75)*time.Millisecond\<close> overflow).
\<close>

datatype TrafficClass =
    TrafficBroadcast
  | TrafficAddressedOther
  | TrafficAddressedUs
  | TrafficExpected
  | TrafficFailure

record trafficEvent =
  ev_at :: instant
  ev_weight :: real

record TrafficStats =
  RXPackets :: "64 word"
  TXPackets :: "64 word"
  ts_Broadcast :: "64 word"
  AddressedOther :: "64 word"
  AddressedUs :: "64 word"
  Expected :: "64 word"
  Failures :: "64 word"
  Deferred :: "64 word"
  LastRSSI :: float32
  LastSNR :: float32

record Controller =
  c_rng :: rng
  events :: "trafficEvent list"
  lastActivity :: instant
  deferUntil :: instant
  stats :: TrafficStats

definition zero_stats :: TrafficStats where
  "zero_stats = \<lparr>RXPackets = 0, TXPackets = 0, ts_Broadcast = 0, AddressedOther = 0, AddressedUs = 0,
     Expected = 0, Failures = 0, Deferred = 0, LastRSSI = 0, LastSNR = 0\<rparr>"

definition NewController :: "rng \<Rightarrow> Controller" where
  "NewController g = \<lparr>c_rng = g, events = [], lastActivity = 0, deferUntil = 0, stats = zero_stats\<rparr>"

text \<open>\<open>t.Sub(u)\<close>, saturated to the 64-bit range of a duration.\<close>

definition time_Sub :: "instant \<Rightarrow> instant \<Rightarrow> duration" where
  "time_Sub t u = max (- (2 ^ 63)) (min (2 ^ 63 - 1) (t - u))"

definition controller_prune :: "instant \<Rightarrow> Controller \<Rightarrow> Controller" where
  "controller_prune now c =
     c\<lparr>events := dropWhile (\<lambda>e. ev_at e < now - 20 * Second) (events c)\<rparr>"

definition class_weight :: "TrafficClass \<Rightarrow> real" where
  "class_weight class = (case class of
      TrafficBroadcast \<Rightarrow> 3 / 2 | TrafficAddressedOther \<Rightarrow> 5 / 2 | TrafficAddressedUs \<Rightarrow> 2
    | TrafficExpected \<Rightarrow> 3 / 4 | TrafficFailure \<Rightarrow> 4)"

definition count_class :: "TrafficClass \<Rightarrow> TrafficStats \<Rightarrow> TrafficStats" where
  "count_class class s = (case class of
      TrafficBroadcast \<Rightarrow> s\<lparr>ts_Broadcast := ts_Broadcast s + 1\<rparr>
    | TrafficAddressedOther \<Rightarrow> s\<lparr>AddressedOther := AddressedOther s + 1\<rparr>
    | TrafficAddressedUs \<Rightarrow> s\<lparr>AddressedUs := AddressedUs s + 1\<rparr>
    | TrafficExpected \<Rightarrow> s\<lparr>Expected := Expected s + 1\<rparr>
    | TrafficFailure \<Rightarrow> s\<lparr>Failures := Failures s + 1\<rparr>)"

definition Observe :: "instant \<Rightarrow> TrafficClass \<Rightarrow> Controller \<Rightarrow> Controller" where
  "Observe now class c =
     (let s = count_class class (stats c);
          s = (if class \<noteq> TrafficFailure then s\<lparr>RXPackets := RXPackets s + 1\<rparr> else s)
      in controller_prune now
           (c\<lparr>stats := s, events := events c @ [\<lparr>ev_at = now, ev_weight = class_weight class\<rparr>], lastActivity := now\<rparr>))"

definition NoteTX :: "instant \<Rightarrow> Controller \<Rightarrow> Controller" where
  "NoteTX now c = c\<lparr>stats := (stats c)\<lparr>TXPackets := TXPackets (stats c) + 1\<rparr>, lastActivity := now\<rparr>"

definition NoteSignal :: "float32 \<Rightarrow> float32 \<Rightarrow> Controller \<Rightarrow> Controller" where
  "NoteSignal rssi snr c = c\<lparr>stats := (stats c)\<lparr>LastRSSI := rssi, LastSNR := snr\<rparr>\<rparr>"

definition event_pressure :: "instant \<Rightarrow> trafficEvent \<Rightarrow> real" where
  "event_pressure now e = ev_weight e * exp (- (real_of_int (time_Sub now (ev_at e)) / 10 ^ 9) / 4)"

definition Pressure :: "instant \<Rightarrow> Controller \<Rightarrow> real \<times> Controller" where
  "Pressure now c =
     (let c = controller_prune now c in (foldl (\<lambda>pressure e. pressure + event_pressure now e) 0 (events c), c))"

definition BatchSize :: "instant \<Rightarrow> Controller \<Rightarrow> nat \<times> Controller" where
  "BatchSize now c =
     (let (p, c) = Pressure now c
      in (if p \<ge> 10 then 1 else if p \<ge> 6 then 2 else if p \<ge> 3 then 3 else MaxChunkBatch, c))"

definition note_deferred :: "Controller \<Rightarrow> Controller" where
  "note_deferred c = c\<lparr>stats := (stats c)\<lparr>Deferred := Deferred (stats c) + 1\<rparr>\<rparr>"

definition CanInitiate :: "instant \<Rightarrow> Controller \<Rightarrow> bool \<times> Controller" where
  "CanInitiate now c =
     (if now < deferUntil c then (False, note_deferred c)
      else let (p, c) = Pressure now c;
               quiet = (if p \<ge> 10 then 1500 * Millisecond else if p \<ge> 6 then 800 * Millisecond
                        else if p \<ge> 3 then 350 * Millisecond else 150 * Millisecond)
        in if lastActivity c \<noteq> 0 \<and> time_Sub now (lastActivity c) < quiet then (False, note_deferred c)
           else (True, c))"

definition Defer :: "instant \<Rightarrow> bool \<Rightarrow> Controller \<Rightarrow> duration \<times> Controller" where
  "Defer now failed c =
     (let (p, c) = Pressure now c;
          base = 100 * Millisecond + \<lfloor>p * 75\<rfloor> * Millisecond;
          base = (if failed then base * 2 else base);
          base = (if base > 4 * Second then 4 * Second else base);
          (jitter, g) = Int63n (c_rng c) (base + 1);
          delay = base div 2 + jitter
      in (delay, c\<lparr>c_rng := g, deferUntil := now + delay\<rparr>))"

definition StartupDelay :: "duration \<Rightarrow> Controller \<Rightarrow> duration \<times> Controller" where
  "StartupDelay bound c =
     (if bound \<le> 0 then (0, c)
      else let (v, g) = Int63n (c_rng c) (bound + 1) in (v, c\<lparr>c_rng := g\<rparr>))"

section \<open>Pressure\<close>

text \<open>\<open>weighted\<close>: what every controller the code builds satisfies; \<open>settled t\<close>: nothing was noted after \<open>t\<close>.\<close>

definition weighted :: "Controller \<Rightarrow> bool" where
  "weighted c \<longleftrightarrow> (\<forall>e \<in> set (events c). 0 \<le> ev_weight e)"

definition settled :: "instant \<Rightarrow> Controller \<Rightarrow> bool" where
  "settled t c \<longleftrightarrow> weighted c \<and> (\<forall>e \<in> set (events c). ev_at e \<le> t) \<and> lastActivity c \<le> t \<and>
     deferUntil c \<le> t + 6 * Second"

lemma set_controller_prune: "set (events (controller_prune now c)) \<subseteq> set (events c)"
  by (auto simp: controller_prune_def dest: set_dropWhileD)

lemma controller_prune_fields [simp]:
  "c_rng (controller_prune now c) = c_rng c" "lastActivity (controller_prune now c) = lastActivity c"
  "deferUntil (controller_prune now c) = deferUntil c" "stats (controller_prune now c) = stats c"
  by (simp_all add: controller_prune_def)

lemma note_deferred_fields [simp]:
  "c_rng (note_deferred c) = c_rng c" "lastActivity (note_deferred c) = lastActivity c"
  "deferUntil (note_deferred c) = deferUntil c" "events (note_deferred c) = events c"
  by (simp_all add: note_deferred_def)

lemma foldl_pressure: "foldl (\<lambda>p e. p + f e) (x :: real) es = x + sum_list (map f es)"
  by (induction es arbitrary: x) (auto simp: algebra_simps)

lemma Pressure_eq:
  "Pressure now c = (sum_list (map (event_pressure now) (events (controller_prune now c))), controller_prune now c)"
  by (simp add: Pressure_def Let_def foldl_pressure)

definition pressure_at :: "instant \<Rightarrow> Controller \<Rightarrow> real" where
  "pressure_at now c = fst (Pressure now c)"

lemma Pressure_pair: "Pressure now c = (pressure_at now c, controller_prune now c)"
  by (simp add: pressure_at_def Pressure_eq)

lemma event_pressure_nonneg: "0 \<le> ev_weight e \<Longrightarrow> 0 \<le> event_pressure now e"
  by (simp add: event_pressure_def)

lemma pressure_nonneg: "weighted c \<Longrightarrow> 0 \<le> pressure_at now c"
  unfolding pressure_at_def Pressure_eq weighted_def fst_conv
  by (rule sum_list_nonneg) (use set_controller_prune [of now c] event_pressure_nonneg in fastforce)

lemma event_pressure_antimono:
  assumes "0 \<le> ev_weight e" "now \<le> later"
  shows "event_pressure later e \<le> event_pressure now e"
proof -
  have "time_Sub now (ev_at e) \<le> time_Sub later (ev_at e)" using assms(2) by (simp add: time_Sub_def)
  then have "exp (- (real_of_int (time_Sub later (ev_at e)) / 10 ^ 9) / 4) \<le>
      exp (- (real_of_int (time_Sub now (ev_at e)) / 10 ^ 9) / 4)"
    by (simp add: divide_right_mono)
  then show ?thesis using assms(1) unfolding event_pressure_def by (rule mult_left_mono)
qed

lemma dropWhile_later:
  "(\<And>x. P x \<Longrightarrow> Q x) \<Longrightarrow> dropWhile Q (dropWhile P xs) = dropWhile Q xs"
  by (induction xs) auto

lemma sum_list_dropWhile_le:
  "\<forall>x \<in> set xs. (0 :: real) \<le> f x \<Longrightarrow> sum_list (map f (dropWhile P xs)) \<le> sum_list (map f xs)"
  by (induction xs) (auto intro: add_increasing)

text \<open>With no new event the pressure only falls.\<close>

lemma pressure_falls:
  assumes "weighted c" "now \<le> later"
  shows "pressure_at later c \<le> pressure_at now c"
proof -
  let ?at = "\<lambda>t. events (controller_prune t c)"
  have w: "\<forall>e \<in> set (?at t). 0 \<le> ev_weight e" for t
    using assms(1) set_controller_prune by (auto simp: weighted_def)
  have "?at later = dropWhile (\<lambda>e. ev_at e < later - 20 * Second) (?at now)"
    unfolding controller_prune_def
    using dropWhile_later [of "\<lambda>e. ev_at e < now - 20 * Second" "\<lambda>e. ev_at e < later - 20 * Second" "events c"]
      assms(2) by simp
  then have "sum_list (map (event_pressure later) (?at later)) \<le> sum_list (map (event_pressure later) (?at now))"
    using w by (simp add: sum_list_dropWhile_le event_pressure_nonneg)
  also have "\<dots> \<le> sum_list (map (event_pressure now) (?at now))"
    using w event_pressure_antimono [OF _ assms(2)] by (intro sum_list_mono) auto
  finally show ?thesis by (simp add: pressure_at_def Pressure_eq)
qed

text \<open>After 20 s of silence no event is left.\<close>

lemma prune_all: "\<forall>e \<in> set (events c). ev_at e \<le> t \<Longrightarrow> t + 20 * Second < now \<Longrightarrow> events (controller_prune now c) = []"
  by (fastforce simp: controller_prune_def dropWhile_eq_Nil_conv)

lemma quiet_pressure: "settled t c \<Longrightarrow> t + 20 * Second < now \<Longrightarrow> pressure_at now c = 0"
  using prune_all [of c t now] by (simp add: pressure_at_def Pressure_eq settled_def)

section \<open>The decisions\<close>

definition quiet_time :: "real \<Rightarrow> duration" where
  "quiet_time p = (if p \<ge> 10 then 1500 * Millisecond else if p \<ge> 6 then 800 * Millisecond
                   else if p \<ge> 3 then 350 * Millisecond else 150 * Millisecond)"

lemma quiet_time_mono: "p \<le> q \<Longrightarrow> quiet_time p \<le> quiet_time q"
  by (auto simp: quiet_time_def)

lemma CanInitiate_iff:
  "fst (CanInitiate now c) \<longleftrightarrow> deferUntil c \<le> now \<and>
     (lastActivity c = 0 \<or> quiet_time (pressure_at now c) \<le> time_Sub now (lastActivity c))"
  by (auto simp: CanInitiate_def Pressure_pair quiet_time_def Let_def)

lemma BatchSize_eq:
  "BatchSize now c =
    (if pressure_at now c \<ge> 10 then 1 else if pressure_at now c \<ge> 6 then 2
     else if pressure_at now c \<ge> 3 then 3 else 4, controller_prune now c)"
  by (simp add: BatchSize_def Pressure_pair)

lemma BatchSize_range: "1 \<le> fst (BatchSize now c) \<and> fst (BatchSize now c) \<le> MaxChunkBatch"
  by (simp add: BatchSize_eq)

lemma BatchSize_antimono:
  "pressure_at now c \<le> pressure_at later d \<Longrightarrow> fst (BatchSize later d) \<le> fst (BatchSize now c)"
  by (auto simp: BatchSize_eq)

definition defer_base :: "real \<Rightarrow> bool \<Rightarrow> duration" where
  "defer_base p failed = min (4 * Second) ((100 * Millisecond + \<lfloor>p * 75\<rfloor> * Millisecond) * (if failed then 2 else 1))"

lemma defer_base_bounds: "0 \<le> p \<Longrightarrow> 100 * Millisecond \<le> defer_base p failed \<and> defer_base p failed \<le> 4 * Second"
proof -
  have cap: "100 * Millisecond \<le> min (4 * Second) ((100 * Millisecond + f * Millisecond) * (if failed then 2 else 1))"
    if "0 \<le> f" for f :: int using that by (auto simp: min_def)
  assume "0 \<le> p"
  then show ?thesis using cap [of "\<lfloor>p * 75\<rfloor>"] unfolding defer_base_def by (auto simp only: zero_le_floor min.cobounded1)
qed

lemma min_cap: "min (a :: int) x = (if x > a then a else x)"
  by auto

lemma Defer_eq:
  "Defer now failed c =
    (let base = defer_base (pressure_at now c) failed; (jitter, g) = Int63n (c_rng c) (base + 1)
     in (base div 2 + jitter, (controller_prune now c)\<lparr>c_rng := g, deferUntil := now + (base div 2 + jitter)\<rparr>))"
  unfolding Defer_def Pressure_pair defer_base_def min_cap Let_def
  by (cases failed) simp_all

lemma Defer_bounds:
  assumes "weighted c" "Defer now failed c = (delay, c')"
  shows "50 * Millisecond \<le> delay \<and> delay \<le> 6 * Second \<and> deferUntil c' = now + delay"
proof -
  define base where "base = defer_base (pressure_at now c) failed"
  have b: "100 * Millisecond \<le> base" "base \<le> 4 * Second"
    using defer_base_bounds [OF pressure_nonneg [OF assms(1)]] by (simp_all add: base_def)
  then have j: "0 \<le> fst (Int63n (c_rng c) (base + 1))" "fst (Int63n (c_rng c) (base + 1)) < base + 1"
    using Int63n_range [of "base + 1" "c_rng c"] by (simp_all add: prod_eq_iff)
  have "delay = base div 2 + fst (Int63n (c_rng c) (base + 1))" "deferUntil c' = now + delay"
    using assms(2) by (auto simp: Defer_eq Let_def base_def split: prod.splits)
  moreover have "50 * Millisecond \<le> base div 2 + v \<and> base div 2 + v \<le> 6 * Second" if "0 \<le> v" "v < base + 1" for v
    using that b by auto
  ultimately show ?thesis using j by simp
qed

lemma StartupDelay_bounds:
  "0 \<le> bound \<Longrightarrow> StartupDelay bound c = (d, c') \<Longrightarrow> 0 \<le> d \<and> d \<le> bound"
  using Int63n_range [of "bound + 1" "c_rng c"] by (auto simp: StartupDelay_def split: if_splits prod.splits)

section \<open>Runs of the controller\<close>

text \<open>The calls the runtime makes; a run is a list of calls, each at its time.\<close>

datatype ctl_call = CallObserve TrafficClass | CallNoteTX | CallNoteSignal float32 float32 | CallPressure
  | CallBatchSize | CallCanInitiate | CallDefer bool

fun ctl_step :: "instant \<times> ctl_call \<Rightarrow> Controller \<Rightarrow> Controller" where
  "ctl_step (now, CallObserve class) c = Observe now class c"
| "ctl_step (now, CallNoteTX) c = NoteTX now c"
| "ctl_step (now, CallNoteSignal rssi snr) c = NoteSignal rssi snr c"
| "ctl_step (now, CallPressure) c = snd (Pressure now c)"
| "ctl_step (now, CallBatchSize) c = snd (BatchSize now c)"
| "ctl_step (now, CallCanInitiate) c = snd (CanInitiate now c)"
| "ctl_step (now, CallDefer failed) c = snd (Defer now failed c)"

definition ctl_run :: "(instant \<times> ctl_call) list \<Rightarrow> Controller \<Rightarrow> Controller" where
  "ctl_run calls c = fold ctl_step calls c"

lemma settled_prune: "settled t c \<Longrightarrow> settled t (controller_prune now c)"
  using set_controller_prune [of now c] by (auto simp: settled_def weighted_def)

lemma settled_note_deferred [simp]: "settled t (note_deferred c) = settled t c"
  by (simp add: settled_def weighted_def)

lemma class_weight_pos: "0 < class_weight class"
  by (simp add: class_weight_def split: TrafficClass.splits)

lemma settled_Observe: "settled t c \<Longrightarrow> now \<le> t \<Longrightarrow> settled t (Observe now class c)"
  unfolding Observe_def Let_def
  by (rule settled_prune) (auto simp: settled_def weighted_def less_imp_le [OF class_weight_pos])

lemma settled_NoteTX: "settled t c \<Longrightarrow> now \<le> t \<Longrightarrow> settled t (NoteTX now c)"
  by (simp add: settled_def weighted_def NoteTX_def)

lemma settled_NoteSignal [simp]: "settled t (NoteSignal rssi snr c) = settled t c"
  by (simp add: settled_def weighted_def NoteSignal_def)

lemma settled_CanInitiate: "settled t c \<Longrightarrow> settled t (snd (CanInitiate now c))"
  by (simp add: CanInitiate_def Pressure_pair Let_def settled_prune)

lemma settled_Defer:
  assumes "settled t c" "now \<le> t"
  shows "settled t (snd (Defer now failed c))"
proof (cases "Defer now failed c")
  case (Pair delay c')
  have "delay \<le> 6 * Second" "deferUntil c' = now + delay"
    using Defer_bounds [OF _ Pair] assms(1) by (simp_all add: settled_def)
  moreover have "events c' = events (controller_prune now c)" "lastActivity c' = lastActivity c"
    using Pair by (auto simp: Defer_eq Let_def split: prod.splits)
  ultimately show ?thesis using settled_prune [OF assms(1), of now] assms(2) Pair
    by (simp add: settled_def weighted_def)
qed

lemma ctl_step_settled: "settled t c \<Longrightarrow> fst call \<le> t \<Longrightarrow> settled t (ctl_step call c)"
  by (cases "(call, c)" rule: ctl_step.cases)
     (auto simp: settled_Observe settled_NoteTX settled_CanInitiate settled_Defer settled_prune
        Pressure_pair BatchSize_eq)

lemma ctl_run_settled: "\<forall>call \<in> set calls. fst call \<le> t \<Longrightarrow> settled t c \<Longrightarrow> settled t (ctl_run calls c)"
  unfolding ctl_run_def by (induction calls arbitrary: c) (auto intro: ctl_step_settled)

lemma settled_NewController: "0 \<le> t \<Longrightarrow> settled t (NewController g)"
  by (simp add: settled_def weighted_def NewController_def)

section \<open>Properties\<close>

text \<open>
  C33: The controller always recovers: whatever was heard, sent, failed or deferred up to an instant, more
  than twenty seconds of silence later the node may initiate again and with full batches, for any
  random choices; and in between, with nothing new heard, the pressure only falls and the batch only
  grows.
\<close>

theorem controller_recovers:
  assumes "\<forall>call \<in> set calls. fst call \<le> t" and "0 \<le> t"
  shows "let c = ctl_run calls (NewController g) in
    (if t + 20 * Second < now then fst (CanInitiate now c) \<and> fst (BatchSize now c) = MaxChunkBatch else True) \<and>
    (if now \<le> later then fst (BatchSize now c) \<le> fst (BatchSize later c) \<and> fst (Pressure later c) \<le> fst (Pressure now c)
     else True)"
proof -
  define c where "c = ctl_run calls (NewController g)"
  have s: "settled t c" unfolding c_def using assms by (simp add: ctl_run_settled settled_NewController)
  have "fst (CanInitiate now c) \<and> fst (BatchSize now c) = MaxChunkBatch" if "t + 20 * Second < now"
  proof -
    have p: "pressure_at now c = 0" using s that by (rule quiet_pressure)
    have "150 * Millisecond \<le> time_Sub now (lastActivity c)" "deferUntil c \<le> now"
      using s that by (auto simp: time_Sub_def settled_def)
    then show ?thesis unfolding CanInitiate_iff BatchSize_eq by (simp add: p quiet_time_def)
  qed
  moreover have "fst (BatchSize now c) \<le> fst (BatchSize later c) \<and> fst (Pressure later c) \<le> fst (Pressure now c)"
    if "now \<le> later"
  proof -
    have "pressure_at later c \<le> pressure_at now c" using s that by (simp add: pressure_falls settled_def)
    then show ?thesis by (simp add: BatchSize_antimono Pressure_pair)
  qed
  ultimately show ?thesis unfolding c_def Let_def by simp
qed

theorem controller_recovers_witness:
  "let c = ctl_run [(1, CallObserve TrafficFailure), (2, CallDefer True), (3, CallNoteTX)] (NewController (sconst 5)) in
     fst (CanInitiate 20000000004 c) \<and> fst (BatchSize 20000000004 c) = 4"
  using controller_recovers [where calls = "[(1, CallObserve TrafficFailure), (2, CallDefer True), (3, CallNoteTX)]"
      and t = 3 and now = 20000000004 and later = 0 and g = "sconst 5"] by (simp add: Let_def)

text \<open>
  The node listens before it talks: \<open>CanInitiate\<close> says yes only when no deferral is running and nothing
  was heard or sent for 150 ms, for 350, 800 or 1500 ms as the pressure reaches 3, 6 or 10; it changes no
  random choice and no deferral, and every deferral lasts between 50 ms and 6 s.
\<close>

theorem listens_before_talking:
  assumes "\<forall>call \<in> set calls. fst call \<le> t" and "0 \<le> t" and "c = ctl_run calls (NewController g)"
  shows "(if fst (CanInitiate now c) then deferUntil c \<le> now \<and>
       (if lastActivity c = 0 then True else
          150 * Millisecond \<le> time_Sub now (lastActivity c) \<and>
          (if fst (Pressure now c) < 3 then True else 350 * Millisecond \<le> time_Sub now (lastActivity c)) \<and>
          (if fst (Pressure now c) < 6 then True else 800 * Millisecond \<le> time_Sub now (lastActivity c)) \<and>
          (if fst (Pressure now c) < 10 then True else 1500 * Millisecond \<le> time_Sub now (lastActivity c)))
     else True) \<and>
    c_rng (snd (CanInitiate now c)) = c_rng c \<and> deferUntil (snd (CanInitiate now c)) = deferUntil c \<and>
    50 * Millisecond \<le> fst (Defer now failed c) \<and> fst (Defer now failed c) \<le> 6 * Second"
proof -
  have "weighted c" using ctl_run_settled [OF assms(1) settled_NewController [OF assms(2)]] assms(3)
    by (simp add: settled_def)
  then have d: "50 * Millisecond \<le> fst (Defer now failed c) \<and> fst (Defer now failed c) \<le> 6 * Second"
    using Defer_bounds [of c now failed "fst (Defer now failed c)" "snd (Defer now failed c)"] by simp
  have frame: "c_rng (snd (CanInitiate now c)) = c_rng c" "deferUntil (snd (CanInitiate now c)) = deferUntil c"
    by (simp_all add: CanInitiate_def Pressure_pair Let_def)
  have "fst (Pressure now c) = pressure_at now c" by (simp add: pressure_at_def)
  then show ?thesis using d frame unfolding CanInitiate_iff by (auto simp: quiet_time_def)
qed

theorem listens_before_talking_witness:
  "\<not> fst (CanInitiate 100 (ctl_run [(7, CallNoteTX)] (NewController (sconst 0)))) \<and>
   50000000 \<le> fst (Defer 100 True (ctl_run [(7, CallNoteTX)] (NewController (sconst 0))))"
proof -
  have "lastActivity (ctl_run [(7, CallNoteTX)] (NewController (sconst 0))) = 7"
    by (simp add: ctl_run_def NoteTX_def)
  moreover have "\<not> 150 * Millisecond \<le> time_Sub 100 7" by (simp add: time_Sub_def)
  ultimately show ?thesis using listens_before_talking [where calls = "[(7, CallNoteTX)]" and t = 7 and g = "sconst 0"
      and now = 100 and failed = True, OF _ _ refl] by (auto split: if_splits)
qed

end
