(* ===== verification/Runtime.thy ===== *)
theory Runtime
  imports Store_Safety Policy Controller "HOL-Library.AList"
begin

text \<open>
  \<open>internal/node/runtime.go\<close>: the state of a node and its handlers. \<open>Runtime\<close> is the struct with everything
  it points to: the controller, the store's disk, and three tapes for what the node does not decide, the
  outcome of each transmission (\<open>rt_radio\<close>), the readings of \<open>time.Now()\<close> (\<open>rt_clock\<close>) and the random draws
  (in the controller). \<open>rt_sent\<close> is the sequence of packets handed to the radio, each with its outcome.

  Go maps are association lists with one entry per key (\<open>runtime_inv\<close> of \<open>Runtime_Inv\<close>). An acquisition is a
  pointer in the code: a handler takes it out, changes it and puts it back under its identifier. The order
  in which Go ranges over a map is not determined: \<open>e_iter k\<close> is the order at the k-th place of a step where
  the code ranges over the acquisitions. \<open>e_io\<close> says which file-system calls of the step fail.
  A nil dereference or an index out of range sets \<open>rt_panic\<close>. Log lines have no effect on the state.
\<close>

record NodeConfig =
  nc_ID :: NodeID
  nc_AdvertiseInterval :: duration
  nc_StartupBackoff :: duration
  nc_ResponseTimeout :: duration
  nc_PollInterval :: duration
  nc_LogInterval :: duration
  nc_ReplyGap :: duration
  nc_Policy :: AcquisitionPolicy

record acquisition =
  aq_id :: ID
  aq_sources :: "NodeID list"
  aq_sourceCursor :: nat
  aq_activeSource :: NodeID
  aq_assembly :: "Assembly option"
  aq_failures :: nat
  aq_nextAttempt :: instant
  aq_cursor :: nat
  aq_transaction :: "16 word"
  aq_waiting :: byte
  aq_deadline :: instant
  aq_wanted :: "16 word list"
  aq_manifest :: "Manifest option"
  aq_manifestSource :: NodeID

record reconcileJob =
  rj_peer :: NodeID
  rj_generation :: "32 word"
  rj_prefix :: nibbles
  rj_failures :: nat
  rj_nextAttempt :: instant
  rj_transaction :: "16 word"
  rj_deadline :: instant

record Metrics =
  InventoryObjects :: "64 word"
  SummariesSent :: "64 word"
  SummariesReceived :: "64 word"
  LeavesSent :: "64 word"
  LeafIDsSent :: "64 word"
  ManifestRequests :: "64 word"
  ManifestResponses :: "64 word"
  ObjectsDiscovered :: "64 word"
  ObjectsAccepted :: "64 word"
  ObjectsDeferred :: "64 word"
  ReconciliationBytes :: "64 word"
  ManifestBytes :: "64 word"
  BulkBytes :: "64 word"

record Runtime =
  rt_acquisitions :: "(ID \<times> acquisition) list"
  rt_order :: "ID list"
  rt_workCursor :: nat
  rt_nextAdvertise :: instant
  rt_nextLog :: instant
  rt_tx :: "16 word"
  rt_reconcileQueue :: "reconcileJob list"
  rt_reconcileActive :: "reconcileJob option"
  rt_preferReconcile :: bool
  rt_metrics :: Metrics
  rt_peerGenerations :: "(NodeID \<times> 32 word) list"
  rt_inspectedSources :: "(ID \<times> NodeID list) list"
  rt_inspectedOrder :: "ID list"
  rt_completeIDs :: "ID list"
  rt_peerOrder :: "NodeID list"
  rt_controller :: Controller
  rt_disk :: disk
  rt_radio :: "bool stream"
  rt_clock :: "instant stream"
  rt_sent :: "(byte list \<times> bool) list"
  rt_panic :: bool

record env =
  e_crypto :: crypto
  e_cfg :: NodeConfig
  e_io :: io
  e_iter :: "nat \<Rightarrow> ID list \<Rightarrow> ID list"

definition maxTrackedPeers :: nat where [simp]: "maxTrackedPeers = 64"
definition maxReconcileJobs :: nat where [simp]: "maxReconcileJobs = 256"
definition maxAcquisitions :: nat where [simp]: "maxAcquisitions = 256"
definition maxInspectedIDs :: nat where [simp]: "maxInspectedIDs = 256"
definition maxInspectedSources :: nat where [simp]: "maxInspectedSources = 8"
definition maxSourcesPerAcquisition :: nat where [simp]: "maxSourcesPerAcquisition = 8"

abbreviation node_id :: "env \<Rightarrow> NodeID" where "node_id e \<equiv> nc_ID (e_cfg e)"
abbreviation hash :: "env \<Rightarrow> byte list \<Rightarrow> hash256" where "hash e \<equiv> sha256 (e_crypto e)"

section \<open>Reading and writing the state\<close>

definition acq :: "Runtime \<Rightarrow> ID \<Rightarrow> acquisition option" where
  "acq r pid = map_of (rt_acquisitions r) pid"

definition put_acq :: "acquisition \<Rightarrow> Runtime \<Rightarrow> Runtime" where
  "put_acq a r = r\<lparr>rt_acquisitions := AList.update (aq_id a) a (rt_acquisitions r)\<rparr>"

definition with_controller :: "(Controller \<Rightarrow> Controller) \<Rightarrow> Runtime \<Rightarrow> Runtime" where
  "with_controller f r = r\<lparr>rt_controller := f (rt_controller r)\<rparr>"

definition with_metrics :: "(Metrics \<Rightarrow> Metrics) \<Rightarrow> Runtime \<Rightarrow> Runtime" where
  "with_metrics f r = r\<lparr>rt_metrics := f (rt_metrics r)\<rparr>"

definition draw :: "int \<Rightarrow> Runtime \<Rightarrow> int \<times> Runtime" where
  "draw n r = (let (v, g) = Int63n (c_rng (rt_controller r)) n
     in (v, with_controller (\<lambda>c. c\<lparr>c_rng := g\<rparr>) r))"

definition time_Now :: "Runtime \<Rightarrow> instant \<times> Runtime" where
  "time_Now r = (shd (rt_clock r), r\<lparr>rt_clock := stl (rt_clock r)\<rparr>)"

definition refreshInventory :: "env \<Rightarrow> Runtime \<Rightarrow> (go_error + unit) \<times> Runtime" where
  "refreshInventory e r =
     (case IDs (e_crypto e) (e_io e) (rt_disk r) of
        Inl err \<Rightarrow> (Inl err, r)
      | Inr ids \<Rightarrow> (Inr (), r\<lparr>rt_completeIDs := ids\<rparr>))"

definition send :: "instant \<Rightarrow> byte list \<Rightarrow> Runtime \<Rightarrow> bool \<times> Runtime" where
  "send now wire r =
     (let ok = shd (rt_radio r);
          r = r\<lparr>rt_radio := stl (rt_radio r), rt_sent := rt_sent r @ [(wire, ok)]\<rparr>
      in if \<not> ok then (False, with_controller (\<lambda>c. snd (Defer now True (Observe now TrafficFailure c))) r)
         else (True, with_controller (NoteTX now) r))"

definition fail :: "instant \<Rightarrow> acquisition \<Rightarrow> Runtime \<Rightarrow> Runtime" where
  "fail now a r =
     (let a = (if aq_waiting a = gnSignature then a\<lparr>aq_manifest := None, aq_manifestSource := 0\<rparr> else a);
          a = a\<lparr>aq_waiting := 0, aq_wanted := [], aq_activeSource := 0, aq_failures := aq_failures a + 1\<rparr>;
          base = Backoff (int (aq_failures a));
          (v, r) = draw (base div 2 + 1) r;
          delay = base + v
      in with_controller (\<lambda>c. snd (Defer now True c)) (put_acq (a\<lparr>aq_nextAttempt := now + delay\<rparr>) r))"

definition hasOutstandingAcquisition :: "Runtime \<Rightarrow> bool" where
  "hasOutstandingAcquisition r = list_ex (\<lambda>(_, a). aq_waiting a \<noteq> 0) (rt_acquisitions r)"

definition is_active :: "env \<Rightarrow> NodePacket \<Rightarrow> acquisition \<Rightarrow> bool" where
  "is_active e packet a \<longleftrightarrow> aq_transaction a = np_Transaction packet \<and> aq_activeSource a = np_Source packet \<and>
     np_Destination packet = node_id e"

definition active :: "env \<Rightarrow> nat \<Rightarrow> NodePacket \<Rightarrow> Runtime \<Rightarrow> acquisition option" where
  "active e k packet r =
     (case find (\<lambda>pid. case acq r pid of None \<Rightarrow> False | Some a \<Rightarrow> is_active e packet a)
        (e_iter e k (map fst (rt_acquisitions r))) of
        None \<Rightarrow> None | Some pid \<Rightarrow> acq r pid)"

definition activeReconciliation :: "env \<Rightarrow> NodePacket \<Rightarrow> Runtime \<Rightarrow> reconcileJob option" where
  "activeReconciliation e packet r =
     (case rt_reconcileActive r of
        Some job \<Rightarrow> if rj_peer job = np_Source packet \<and> rj_transaction job = np_Transaction packet \<and>
            np_Destination packet = node_id e then Some job else None
      | None \<Rightarrow> None)"

definition isExpected :: "env \<Rightarrow> NodePacket \<Rightarrow> Runtime \<Rightarrow> bool" where
  "isExpected e packet r \<longleftrightarrow> active e 0 packet r \<noteq> None \<or> activeReconciliation e packet r \<noteq> None"

definition removeOrder :: "ID \<Rightarrow> Runtime \<Rightarrow> Runtime" where
  "removeOrder pid r =
     (if pid \<in> set (rt_order r)
      then let order = remove1 pid (rt_order r)
        in r\<lparr>rt_order := order, rt_workCursor := (if rt_workCursor r \<ge> length order then 0 else rt_workCursor r)\<rparr>
      else r)"

definition delete_acq :: "ID \<Rightarrow> Runtime \<Rightarrow> Runtime" where
  "delete_acq pid r = r\<lparr>rt_acquisitions := AList.delete pid (rt_acquisitions r)\<rparr>"

section \<open>Inspected sources and candidates\<close>

definition sourceInspected :: "ID \<Rightarrow> NodeID \<Rightarrow> Runtime \<Rightarrow> bool" where
  "sourceInspected pid source r =
     (case map_of (rt_inspectedSources r) pid of None \<Rightarrow> False | Some inspected \<Rightarrow> source \<in> set inspected)"

definition markSourceInspected :: "ID \<Rightarrow> NodeID \<Rightarrow> Runtime \<Rightarrow> Runtime" where
  "markSourceInspected pid source r =
     (let r = (if map_of (rt_inspectedSources r) pid = None
               then let r = (if length (rt_inspectedOrder r) \<ge> maxInspectedIDs
                             then r\<lparr>rt_inspectedOrder := tl (rt_inspectedOrder r),
                                    rt_inspectedSources := AList.delete (hd (rt_inspectedOrder r)) (rt_inspectedSources r)\<rparr>
                             else r)
                 in r\<lparr>rt_inspectedSources := AList.update pid [] (rt_inspectedSources r),
                      rt_inspectedOrder := rt_inspectedOrder r @ [pid]\<rparr>
               else r);
          inspected = the (map_of (rt_inspectedSources r) pid)
      in if length inspected < maxInspectedSources
         then r\<lparr>rt_inspectedSources := AList.update pid (List.insert source inspected) (rt_inspectedSources r)\<rparr>
         else r)"

definition clearInspected :: "ID \<Rightarrow> Runtime \<Rightarrow> Runtime" where
  "clearInspected pid r =
     r\<lparr>rt_inspectedSources := AList.delete pid (rt_inspectedSources r),
       rt_inspectedOrder := remove1 pid (rt_inspectedOrder r)\<rparr>"

definition new_acquisition :: "ID \<Rightarrow> acquisition" where
  "new_acquisition pid =
     \<lparr>aq_id = pid, aq_sources = [], aq_sourceCursor = 0, aq_activeSource = 0, aq_assembly = None, aq_failures = 0,
      aq_nextAttempt = 0, aq_cursor = 0, aq_transaction = 0, aq_waiting = 0, aq_deadline = 0, aq_wanted = [],
      aq_manifest = None, aq_manifestSource = 0\<rparr>"

definition add_source :: "NodeID \<Rightarrow> acquisition \<Rightarrow> acquisition" where
  "add_source source a =
     (if source \<noteq> 0 \<and> source \<notin> set (aq_sources a) \<and> length (aq_sources a) < maxSourcesPerAcquisition
      then a\<lparr>aq_sources := aq_sources a @ [source]\<rparr> else a)"

definition addCandidate :: "ID \<Rightarrow> NodeID \<Rightarrow> Runtime \<Rightarrow> acquisition option \<times> Runtime" where
  "addCandidate pid source r =
     (case acq r pid of
        Some a \<Rightarrow> (let a = add_source source a in (Some a, put_acq a r))
      | None \<Rightarrow>
          if source \<noteq> 0 \<and> length (rt_acquisitions r) \<ge> maxAcquisitions then (None, r)
          else let a = add_source source (new_acquisition pid)
            in (Some a, put_acq a (r\<lparr>rt_order := rt_order r @ [pid]\<rparr>)))"

section \<open>Reconciliation\<close>

definition dropReconciliation :: "NodeID \<Rightarrow> Runtime \<Rightarrow> Runtime" where
  "dropReconciliation peer r =
     r\<lparr>rt_reconcileActive := (case rt_reconcileActive r of
          Some job \<Rightarrow> if rj_peer job = peer then None else Some job | None \<Rightarrow> None),
       rt_reconcileQueue := filter (\<lambda>job. rj_peer job \<noteq> peer) (rt_reconcileQueue r)\<rparr>"

definition queueReconciliation :: "NodeID \<Rightarrow> 32 word \<Rightarrow> nibbles \<Rightarrow> instant \<Rightarrow> Runtime \<Rightarrow> Runtime" where
  "queueReconciliation peer generation pfx now r =
     (if length (rt_reconcileQueue r) \<ge> maxReconcileJobs then r
      else if (case rt_reconcileActive r of Some job \<Rightarrow> rj_peer job = peer \<and> rj_prefix job = pfx | None \<Rightarrow> False) then r
      else if list_ex (\<lambda>job. rj_peer job = peer \<and> rj_generation job = generation \<and> rj_prefix job = pfx)
                (rt_reconcileQueue r) then r
      else let (jitter, r) = draw (750 * Millisecond + 1) r
        in r\<lparr>rt_reconcileQueue := rt_reconcileQueue r @
             [\<lparr>rj_peer = peer, rj_generation = generation, rj_prefix = pfx, rj_failures = 0,
               rj_nextAttempt = now + jitter, rj_transaction = 0, rj_deadline = 0\<rparr>]\<rparr>)"

text \<open>The peer of a root summary becomes the most recent one; the least recent is forgotten when there are 64.\<close>

definition track_peer :: "NodeID \<Rightarrow> 32 word \<Rightarrow> Runtime \<Rightarrow> Runtime" where
  "track_peer peer generation r =
     (let old = map_of (rt_peerGenerations r) peer;
          r = (if old = None
               then if length (rt_peerOrder r) \<ge> maxTrackedPeers
                    then let evicted = hd (rt_peerOrder r) in dropReconciliation evicted
                      (r\<lparr>rt_peerOrder := tl (rt_peerOrder r), rt_peerGenerations := AList.delete evicted (rt_peerGenerations r)\<rparr>)
                    else r
               else r\<lparr>rt_peerOrder := remove1 peer (rt_peerOrder r)\<rparr>);
          r = r\<lparr>rt_peerOrder := rt_peerOrder r @ [peer]\<rparr>
      in if old \<noteq> Some generation
         then let r = dropReconciliation peer r
           in r\<lparr>rt_peerGenerations := AList.update peer generation (rt_peerGenerations r)\<rparr>
         else r)"

definition queue_all :: "NodeID \<Rightarrow> 32 word \<Rightarrow> nibbles list \<Rightarrow> instant \<Rightarrow> Runtime \<Rightarrow> Runtime" where
  "queue_all peer generation pfxs now r =
     fold (\<lambda>pfx. queueReconciliation peer generation pfx now) pfxs r"

definition handleRootSummary :: "env \<Rightarrow> instant \<Rightarrow> NodePacket \<Rightarrow> Runtime \<Rightarrow> Runtime" where
  "handleRootSummary e now packet r =
     (case DecodeSummary packet of
        Inl _ \<Rightarrow> r
      | Inr remote \<Rightarrow>
          if length (s_Prefix remote) \<noteq> 0 then r
          else let r = with_metrics (\<lambda>m. m\<lparr>SummariesReceived := SummariesReceived m + 1\<rparr>) r;
                   local = BuildSummary (hash e) (rt_completeIDs r) [];
                   r = track_peer (np_Source packet) (s_Generation remote) r
            in queue_all (np_Source packet) (s_Generation remote) (DifferingChildren local remote) now r)"

definition serveSummary :: "env \<Rightarrow> instant \<Rightarrow> NodePacket \<Rightarrow> Runtime \<Rightarrow> Runtime" where
  "serveSummary e now packet r =
     (case DecodeSummaryRequest packet of
        Inl _ \<Rightarrow> r
      | Inr (generation, pfx) \<Rightarrow>
          if InventoryGeneration (hash e) (rt_completeIDs r) \<noteq> generation then r
          else let bucket = FilterPrefix (rt_completeIDs r) pfx;
              (wire, r) =
                (if length bucket \<le> LeafThreshold
                 then (case EncodeLeaf (node_id e) (np_Source packet) (np_Transaction packet)
                          (BuildLeaf (hash e) (rt_completeIDs r) pfx) of
                         Inl err \<Rightarrow> (Inl err, r)
                       | Inr wire \<Rightarrow> (Inr wire, with_metrics (\<lambda>m. m\<lparr>LeavesSent := LeavesSent m + 1,
                            LeafIDsSent := LeafIDsSent m + of_nat (length bucket)\<rparr>) r))
                 else (case EncodeSummary (node_id e) (np_Source packet) (np_Transaction packet)
                          (BuildSummary (hash e) (rt_completeIDs r) pfx) of
                         Inl err \<Rightarrow> (Inl err, r)
                       | Inr wire \<Rightarrow> (Inr wire, with_metrics (\<lambda>m. m\<lparr>SummariesSent := SummariesSent m + 1\<rparr>) r)))
            in case wire of
                 Inl _ \<Rightarrow> r
               | Inr wire \<Rightarrow>
                   (let (ok, r) = send now wire r
                    in if ok then with_metrics (\<lambda>m. m\<lparr>ReconciliationBytes := ReconciliationBytes m + of_nat (length wire)\<rparr>) r
                       else r))"

definition acceptSummary :: "env \<Rightarrow> instant \<Rightarrow> NodePacket \<Rightarrow> Runtime \<Rightarrow> Runtime" where
  "acceptSummary e now packet r =
     (case activeReconciliation e packet r of
        None \<Rightarrow> r
      | Some job \<Rightarrow>
        (case DecodeSummary packet of
           Inl _ \<Rightarrow> r\<lparr>rt_reconcileActive := None\<rparr>
         | Inr remote \<Rightarrow>
             if s_Generation remote \<noteq> rj_generation job \<or> s_Prefix remote \<noteq> rj_prefix job
             then r\<lparr>rt_reconcileActive := None\<rparr>
             else let r = with_metrics (\<lambda>m. m\<lparr>SummariesReceived := SummariesReceived m + 1\<rparr>) r;
                      local = BuildSummary (hash e) (rt_completeIDs r) (rj_prefix job);
                      r = queue_all (rj_peer job) (rj_generation job) (DifferingChildren local remote) now r
               in r\<lparr>rt_reconcileActive := None\<rparr>))"

text \<open>\<open>addCandidate\<close>, and the first attempt of a new candidate at \<open>first\<close>.\<close>

definition schedule_candidate :: "ID \<Rightarrow> NodeID \<Rightarrow> (Runtime \<Rightarrow> instant \<times> Runtime) \<Rightarrow> Runtime \<Rightarrow> Runtime" where
  "schedule_candidate pid source first r =
     (case addCandidate pid source r of
        (None, r) \<Rightarrow> r
      | (Some a, r) \<Rightarrow>
          if aq_nextAttempt a = 0
          then let (t, r) = first r in put_acq (a\<lparr>aq_nextAttempt := t\<rparr>) r
          else r)"

definition leaf_id :: "env \<Rightarrow> instant \<Rightarrow> NodeID \<Rightarrow> ID \<Rightarrow> Runtime \<Rightarrow> Runtime" where
  "leaf_id e now source pid r =
     (if Complete (e_crypto e) (e_io e) (rt_disk r) pid then r
      else if HasKnown (e_crypto e) (e_io e) (rt_disk r) pid
      then if HasPartial (e_io e) (rt_disk r) pid \<or> Wanted (e_io e) (rt_disk r) pid
           then schedule_candidate pid source (\<lambda>r. (now, r)) r
           else if \<not> sourceInspected pid source r then schedule_candidate pid source (\<lambda>r. (now, r)) r
           else r
      else let r = with_metrics (\<lambda>m. m\<lparr>ObjectsDiscovered := ObjectsDiscovered m + 1\<rparr>) r
        in schedule_candidate pid source
             (\<lambda>r. let (v, r) = draw (500 * Millisecond + 1) r in (now + v, r)) r)"

definition acceptLeaf :: "env \<Rightarrow> instant \<Rightarrow> NodePacket \<Rightarrow> Runtime \<Rightarrow> Runtime" where
  "acceptLeaf e now packet r =
     (case activeReconciliation e packet r of
        None \<Rightarrow> r
      | Some job \<Rightarrow>
        (case DecodeLeaf packet of
           Inl _ \<Rightarrow> r\<lparr>rt_reconcileActive := None\<rparr>
         | Inr leaf \<Rightarrow>
             if l_Generation leaf \<noteq> rj_generation job \<or> l_Prefix leaf \<noteq> rj_prefix job
             then r\<lparr>rt_reconcileActive := None\<rparr>
             else fold (leaf_id e now (np_Source packet)) (MissingIDs (rt_completeIDs r) leaf)
                    (r\<lparr>rt_reconcileActive := None\<rparr>)))"

definition initiateReconcile :: "env \<Rightarrow> instant \<Rightarrow> Runtime \<Rightarrow> bool \<times> Runtime" where
  "initiateReconcile e now r =
     (if rt_reconcileActive r \<noteq> None \<or> hasOutstandingAcquisition r then (False, r)
      else case dropWhile (\<lambda>job. now < rj_nextAttempt job) (rt_reconcileQueue r) of
          [] \<Rightarrow> (False, r)
        | job # rest \<Rightarrow>
          let r = r\<lparr>rt_reconcileQueue := takeWhile (\<lambda>job. now < rj_nextAttempt job) (rt_reconcileQueue r) @ rest,
                    rt_tx := rt_tx r + 1\<rparr>;
              job = job\<lparr>rj_transaction := rt_tx r\<rparr>
          in case EncodeSummaryRequest (node_id e) (rj_peer job) (rj_transaction job) (rj_generation job) (rj_prefix job) of
               Inl _ \<Rightarrow> (False, r)
             | Inr wire \<Rightarrow>
               (case send now wire r of
                  (False, r) \<Rightarrow>
                    (let failures = rj_failures job + 1; base = Backoff (int failures);
                         (v, r) = draw (base div 2 + 1) r;
                         job = job\<lparr>rj_failures := failures, rj_nextAttempt := now + (base + v)\<rparr>
                     in (True, r\<lparr>rt_reconcileQueue := rt_reconcileQueue r @ [job]\<rparr>))
                | (True, r) \<Rightarrow>
                    (let (t, r) = time_Now r
                     in (True, with_metrics (\<lambda>m. m\<lparr>ReconciliationBytes := ReconciliationBytes m + of_nat (length wire)\<rparr>)
                          (r\<lparr>rt_reconcileActive := Some (job\<lparr>rj_deadline := t + nc_ResponseTimeout (e_cfg e)\<rparr>)\<rparr>)))))"

section \<open>Serving\<close>

definition serve_stored :: "env \<Rightarrow> instant \<Rightarrow> (Manifest \<Rightarrow> go_error + byte list) \<Rightarrow> NodePacket \<Rightarrow> Runtime \<Rightarrow> Runtime" where
  "serve_stored e now encode packet r =
     (case DecodeIDBody packet of
        Inl _ \<Rightarrow> r
      | Inr pid \<Rightarrow>
          if \<not> Complete (e_crypto e) (e_io e) (rt_disk r) pid then r
          else case LoadManifest (e_crypto e) (e_io e) (rt_disk r) pid of
              Inl _ \<Rightarrow> r
            | Inr manifest \<Rightarrow>
              (case encode manifest of
                 Inl _ \<Rightarrow> r
               | Inr wire \<Rightarrow>
                   snd (send now wire (with_metrics (\<lambda>m. m\<lparr>ManifestResponses := ManifestResponses m + 1,
                     ManifestBytes := ManifestBytes m + of_nat (length wire)\<rparr>) r))))"

definition serveManifest :: "env \<Rightarrow> instant \<Rightarrow> NodePacket \<Rightarrow> Runtime \<Rightarrow> Runtime" where
  "serveManifest e now packet r =
     serve_stored e now (gn_EncodeManifest (node_id e) (np_Source packet) (np_Transaction packet)) packet r"

definition serveSignature :: "env \<Rightarrow> instant \<Rightarrow> NodePacket \<Rightarrow> Runtime \<Rightarrow> Runtime" where
  "serveSignature e now packet r =
     serve_stored e now (\<lambda>m. EncodeSignature (node_id e) (np_Source packet) (np_Transaction packet) (m_Signature m)) packet r"

fun serve_bits :: "env \<Rightarrow> instant \<Rightarrow> NodePacket \<Rightarrow> ChunkRequest \<Rightarrow> nat list \<Rightarrow> nat \<Rightarrow> Runtime \<Rightarrow> Runtime" where
  "serve_bits e now packet req [] remaining r = r"
| "serve_bits e now packet req (b # bs) remaining r =
     (if \<not> remaining > 0 then r
      else if \<not> bit (cr_Bitmap req) b then serve_bits e now packet req bs remaining r
      else let index = cr_Base req + of_nat b in
        case ReadChunk (e_crypto e) (e_io e) (rt_disk r) (cr_ID req) index of
          Inl _ \<Rightarrow> serve_bits e now packet req bs remaining r
        | Inr data \<Rightarrow>
          (case gn_EncodeChunk (node_id e) (np_Source packet) (np_Transaction packet) index data of
             Inl _ \<Rightarrow> serve_bits e now packet req bs remaining r
           | Inr wire \<Rightarrow>
             (let (ok, r) = send now wire r
              in if ok then serve_bits e now packet req bs (remaining - 1)
                   (with_metrics (\<lambda>m. m\<lparr>BulkBytes := BulkBytes m + of_nat (length wire)\<rparr>) r)
                 else serve_bits e now packet req bs remaining r)))"

definition serveChunks :: "env \<Rightarrow> instant \<Rightarrow> NodePacket \<Rightarrow> Runtime \<Rightarrow> Runtime" where
  "serveChunks e now packet r =
     (case DecodeChunkRequest packet of
        Inl _ \<Rightarrow> r
      | Inr req \<Rightarrow>
          if \<not> Complete (e_crypto e) (e_io e) (rt_disk r) (cr_ID req) then r
          else serve_bits e now packet req [0..<8] MaxChunkBatch r)"

section \<open>Acquiring\<close>

definition acceptManifest :: "env \<Rightarrow> instant \<Rightarrow> NodePacket \<Rightarrow> Runtime \<Rightarrow> Runtime" where
  "acceptManifest e now packet r =
     (case active e 1 packet r of
        None \<Rightarrow> r
      | Some a \<Rightarrow>
          if aq_waiting a \<noteq> gnManifest then r
          else case gn_DecodeManifest packet (aq_id a) of
              Inl _ \<Rightarrow> fail now a r
            | Inr manifest \<Rightarrow>
                if m_ID manifest \<noteq> aq_id a then fail now a r
                else put_acq (a\<lparr>aq_manifest := Some manifest, aq_manifestSource := np_Source packet, aq_waiting := 0,
                       aq_activeSource := 0, aq_nextAttempt := now + 100 * Millisecond\<rparr>) r)"

text \<open>The word the log shows for a publication that was deferred.\<close>

definition signatureStatus :: "env \<Rightarrow> disk \<Rightarrow> Manifest \<Rightarrow> byte list" where
  "signatureStatus e fs manifest =
     (case m_Signature manifest of
        None \<Rightarrow> str ''unsigned''
      | Some sig \<Rightarrow>
          if VerifyManifestSignature (e_crypto e) manifest \<noteq> Inr () then str ''invalid''
          else let kid = KeyID (e_crypto e) (array_bytes (PublicKey sig))
            in if ap_HasTrust (nc_Policy (e_cfg e)) \<and> Trusted (e_crypto e) (e_io e) fs (array_bytes (PublicKey sig))
               then str ''trusted:'' @ kid else str ''signed:'' @ kid)"

text \<open>\<open>delete(r.acquisitions, a.id); r.clearInspected(a.id); r.removeOrder(a.id)\<close>\<close>

definition forget :: "ID \<Rightarrow> Runtime \<Rightarrow> Runtime" where
  "forget pid r = removeOrder pid (clearInspected pid (delete_acq pid r))"

text \<open>The end of an acquisition that was committed.\<close>

definition committed :: "env \<Rightarrow> ID \<Rightarrow> Runtime \<Rightarrow> Runtime" where
  "committed e pid r = forget pid (snd (refreshInventory e r))"

definition set_disk :: "disk \<Rightarrow> Runtime \<Rightarrow> Runtime" where
  "set_disk fs r = r\<lparr>rt_disk := fs\<rparr>"

text \<open>The part of \<open>acceptSignature\<close> after \<open>Begin\<close>, for an assembly that has no chunk missing.\<close>

definition commit_new :: "env \<Rightarrow> instant \<Rightarrow> acquisition \<Rightarrow> Assembly \<Rightarrow> Runtime \<Rightarrow> Runtime" where
  "commit_new e now a assembly r =
     (case Commit (e_crypto e) (e_io e) assembly (rt_disk r) of
        (Inl err, fs) \<Rightarrow>
          if err = HashMismatch
          then fail now (a\<lparr>aq_assembly := None\<rparr>) (set_disk (snd (DiscardPartial (e_io e) (aq_id a) fs)) r)
          else fail now a (set_disk fs r)
      | (Inr _, fs) \<Rightarrow> committed e (aq_id a) (set_disk fs r))"

definition accept_inspected :: "env \<Rightarrow> instant \<Rightarrow> acquisition \<Rightarrow> Manifest \<Rightarrow> Runtime \<Rightarrow> Runtime" where
  "accept_inspected e now a manifest r =
     (case SaveKnown (e_crypto e) (e_io e) manifest (rt_disk r) of
        (Inl _, fs) \<Rightarrow> fail now a (set_disk fs r)
      | (Inr _, fs) \<Rightarrow>
        let r = set_disk fs r;
            partial = HasPartial (e_io e) fs (m_ID manifest);
            wanted = Wanted (e_io e) fs (m_ID manifest)
        in if \<not> Accept (e_crypto e) (e_io e) fs (nc_Policy (e_cfg e)) manifest partial wanted
           then removeOrder (aq_id a) (delete_acq (aq_id a)
                  (with_metrics (\<lambda>m. m\<lparr>ObjectsDeferred := ObjectsDeferred m + 1\<rparr>) r))
           else let r = with_metrics (\<lambda>m. m\<lparr>ObjectsAccepted := ObjectsAccepted m + 1\<rparr>) r in
             case Begin (e_crypto e) (e_io e) manifest (rt_disk r) of
               (Inl _, fs) \<Rightarrow> fail now a (set_disk fs r)
             | (Inr assembly, fs) \<Rightarrow>
               let r = set_disk fs r;
                   a = a\<lparr>aq_assembly := Some assembly, aq_manifest := None, aq_manifestSource := 0\<rparr>
               in if assembly_Complete assembly then commit_new e now a assembly r
                  else put_acq (a\<lparr>aq_waiting := 0, aq_failures := 0, aq_nextAttempt := now + 100 * Millisecond\<rparr>) r)"

definition acceptSignature :: "env \<Rightarrow> instant \<Rightarrow> NodePacket \<Rightarrow> Runtime \<Rightarrow> Runtime" where
  "acceptSignature e now packet r =
     (case active e 1 packet r of
        None \<Rightarrow> r
      | Some a \<Rightarrow>
        (case aq_manifest a of
           None \<Rightarrow> r
         | Some manifest \<Rightarrow>
             if aq_waiting a \<noteq> gnSignature then r
             else case DecodeSignature packet of
                 Inl _ \<Rightarrow> fail now a r
               | Inr signature \<Rightarrow>
                 let r = markSourceInspected (m_ID manifest) (np_Source packet) r;
                     manifest = manifest\<lparr>m_Signature := signature,
                       m_Version := (if signature \<noteq> None then SignedManifestVersion else 1)\<rparr>
                 in if signature \<noteq> None \<and> VerifyManifestSignature (e_crypto e) manifest \<noteq> Inr ()
                    then forget (aq_id a) r
                    else accept_inspected e now a manifest r))"

definition acceptChunk :: "env \<Rightarrow> instant \<Rightarrow> NodePacket \<Rightarrow> Runtime \<Rightarrow> Runtime" where
  "acceptChunk e now packet r =
     (case active e 1 packet r of
        None \<Rightarrow> r
      | Some a \<Rightarrow>
          if aq_waiting a \<noteq> gnChunk then r
          else case gn_DecodeChunk packet of
              Inl _ \<Rightarrow> r
            | Inr (index, data) \<Rightarrow>
                if index \<notin> set (aq_wanted a) then r
                else case aq_assembly a of
                    None \<Rightarrow> r\<lparr>rt_panic := True\<rparr>
                  | Some assembly \<Rightarrow>
                    (case Store_Add (e_io e) assembly index data (rt_disk r) of
                       (Inl _, assembly, fs) \<Rightarrow> put_acq (a\<lparr>aq_assembly := Some assembly\<rparr>) (set_disk fs r)
                     | (Inr _, assembly, fs) \<Rightarrow>
                       let r = set_disk fs r;
                           a = a\<lparr>aq_assembly := Some assembly, aq_wanted := removeAll index (aq_wanted a)\<rparr>
                       in if assembly_Complete assembly
                          then (case Commit (e_crypto e) (e_io e) assembly (rt_disk r) of
                                 (Inl err, fs) \<Rightarrow>
                                   if err = HashMismatch
                                   then (case Restart (e_crypto e) (e_io e) (a_Manifest assembly) fs of
                                           (Inl _, fs) \<Rightarrow> fail now a (set_disk fs r)
                                         | (Inr restarted, fs) \<Rightarrow> fail now (a\<lparr>aq_assembly := Some restarted\<rparr>) (set_disk fs r))
                                   else fail now a (set_disk fs r)
                               | (Inr _, fs) \<Rightarrow> committed e (aq_id a) (set_disk fs r))
                          else if aq_wanted a = []
                          then put_acq (a\<lparr>aq_waiting := 0, aq_failures := 0, aq_nextAttempt := now + 100 * Millisecond\<rparr>) r
                          else put_acq a r))"

section \<open>The tick\<close>

definition nextWork :: "instant \<Rightarrow> Runtime \<Rightarrow> acquisition option \<times> Runtime" where
  "nextWork now r =
     (let n = length (rt_order r) in
      if n = 0 then (None, r)
      else case find (\<lambda>offset. case acq r (rt_order r ! ((rt_workCursor r + offset) mod n)) of
                None \<Rightarrow> False
              | Some a \<Rightarrow> aq_waiting a = 0 \<and> length (aq_sources a) > 0 \<and> \<not> now < aq_nextAttempt a) [0..<n] of
          None \<Rightarrow> (None, r)
        | Some offset \<Rightarrow>
            let i = (rt_workCursor r + offset) mod n
            in (acq r (rt_order r ! i), r\<lparr>rt_workCursor := (i + 1) mod n\<rparr>))"

text \<open>A request sent for an acquisition: on success it waits for the answer, on failure it backs off.\<close>

definition request :: "env \<Rightarrow> instant \<Rightarrow> acquisition \<Rightarrow> byte list \<Rightarrow> byte \<Rightarrow> (Metrics \<Rightarrow> Metrics) \<Rightarrow> Runtime \<Rightarrow> Runtime" where
  "request e now a wire kind count r =
     (case send now wire r of
        (False, r) \<Rightarrow> fail now a r
      | (True, r) \<Rightarrow>
          let (t, r) = time_Now (with_metrics count r)
          in put_acq (a\<lparr>aq_waiting := kind, aq_deadline := t + nc_ResponseTimeout (e_cfg e)\<rparr>) r)"

text \<open>What \<open>initiate\<close> puts into the acquisition before it chooses a request.\<close>

definition prepared :: "acquisition \<Rightarrow> 16 word \<Rightarrow> acquisition" where
  "prepared a t =
     (let inspecting = (aq_manifest a \<noteq> None \<and> aq_manifestSource a \<noteq> 0)
      in a\<lparr>aq_sourceCursor := (if inspecting then aq_sourceCursor a else (aq_sourceCursor a + 1) mod length (aq_sources a)),
           aq_activeSource := (if inspecting then aq_manifestSource a
             else aq_sources a ! (aq_sourceCursor a mod length (aq_sources a))),
           aq_transaction := t\<rparr>)"

text \<open>The bitmap \<open>initiate\<close> rebuilds for the chunks it chose.\<close>

definition chosen_bitmap :: "16 word \<Rightarrow> 16 word list \<Rightarrow> byte" where
  "chosen_bitmap base chosen = foldl (\<lambda>v index. v OR push_bit (unat (index - base)) 1) 0 chosen"

definition initiate :: "env \<Rightarrow> instant \<Rightarrow> acquisition \<Rightarrow> Runtime \<Rightarrow> Runtime" where
  "initiate e now a r =
    (if length (aq_sources a) = 0 then r\<lparr>rt_panic := True\<rparr> else
    (let r = r\<lparr>rt_tx := rt_tx r + 1\<rparr>; a = prepared a (rt_tx r); source = aq_activeSource a in
     case aq_assembly a of
       None \<Rightarrow>
         if aq_manifest a \<noteq> None
         then let wire = wire_or_nil (EncodeSignatureRequest (node_id e) source (aq_transaction a) (aq_id a))
           in request e now a wire gnSignature (\<lambda>m. m\<lparr>ManifestRequests := ManifestRequests m + 1,
                ManifestBytes := ManifestBytes m + of_nat (length wire)\<rparr>) r
         else let wire = wire_or_nil (EncodeIDRequest gnGetManifest (node_id e) source (aq_transaction a) (aq_id a))
           in request e now a wire gnManifest (\<lambda>m. m\<lparr>ManifestRequests := ManifestRequests m + 1,
                ManifestBytes := ManifestBytes m + of_nat (length wire)\<rparr>) r
     | Some assembly \<Rightarrow>
       (let (base, bitmap, indexes) = MissingBatch (Received assembly) (aq_cursor a) in
        if length indexes = 0 then put_acq a r
        else let (limit, c) = BatchSize now (rt_controller r);
                 r = r\<lparr>rt_controller := c\<rparr>;
                 chosen = take (min limit (length indexes)) indexes;
                 bitmap = chosen_bitmap base chosen;
                 a = a\<lparr>aq_wanted := chosen,
                       aq_cursor := (if chosen = [] then aq_cursor a else unat (last chosen) + 1)\<rparr>;
                 wire = wire_or_nil (EncodeChunkRequest (node_id e) source (aq_transaction a)
                          \<lparr>cr_ID = aq_id a, cr_Base = base, cr_Bitmap = bitmap\<rparr>)
          in request e now a wire gnChunk (\<lambda>m. m\<lparr>BulkBytes := BulkBytes m + of_nat (length wire)\<rparr>) r)))"

definition advertise :: "env \<Rightarrow> instant \<Rightarrow> Runtime \<Rightarrow> Runtime" where
  "advertise e now r =
     (let schedule = (\<lambda>r. let (d, g) = Jitter (nc_AdvertiseInterval (e_cfg e)) (c_rng (rt_controller r))
            in (with_controller (\<lambda>c. c\<lparr>c_rng := g\<rparr>) r)\<lparr>rt_nextAdvertise := now + d\<rparr>)
      in case refreshInventory e r of
           (Inl _, r) \<Rightarrow> schedule r
         | (Inr _, r) \<Rightarrow>
           let summary = BuildSummary (hash e) (rt_completeIDs r) [];
               wire = wire_or_nil (EncodeSummary (node_id e) Broadcast 0 summary);
               (ok, r) = send now wire r;
               r = (if ok then with_metrics (\<lambda>m. m\<lparr>SummariesSent := SummariesSent m + 1,
                      ReconciliationBytes := ReconciliationBytes m + of_nat (length wire)\<rparr>) r else r)
           in schedule r)"

text \<open>The four parts of \<open>onTick\<close>: expired requests, the expired reconciliation, the log line, and what to initiate.\<close>

definition expire_acquisition :: "instant \<Rightarrow> ID \<Rightarrow> Runtime \<Rightarrow> Runtime" where
  "expire_acquisition now pid r =
     (case acq r pid of
        None \<Rightarrow> r
      | Some a \<Rightarrow>
          if aq_waiting a \<noteq> 0 \<and> now > aq_deadline a then fail now a (with_controller (Observe now TrafficFailure) r)
          else r)"

definition expire_reconcile :: "instant \<Rightarrow> Runtime \<Rightarrow> Runtime" where
  "expire_reconcile now r =
     (case rt_reconcileActive r of
        None \<Rightarrow> r
      | Some job \<Rightarrow>
          if now > rj_deadline job
          then let failures = rj_failures job + 1; base = Backoff (int failures);
                   (v, r) = draw (base div 2 + 1) (r\<lparr>rt_reconcileActive := None\<rparr>);
                   job = job\<lparr>rj_failures := failures, rj_nextAttempt := now + (base + v)\<rparr>;
                   r = (if length (rt_reconcileQueue r) < maxReconcileJobs
                        then r\<lparr>rt_reconcileQueue := rt_reconcileQueue r @ [job]\<rparr> else r)
            in with_controller (Observe now TrafficFailure) r
          else r)"

definition log_metrics :: "env \<Rightarrow> instant \<Rightarrow> Runtime \<Rightarrow> Runtime" where
  "log_metrics e now r =
     (if now > rt_nextLog r
      then let r = with_metrics (\<lambda>m. m\<lparr>InventoryObjects := of_nat (length (rt_completeIDs r))\<rparr>) r;
               r = with_controller (\<lambda>c. snd (Pressure now c)) r;
               r = with_controller (\<lambda>c. snd (BatchSize now c)) r
        in r\<lparr>rt_nextLog := now + nc_LogInterval (e_cfg e)\<rparr>
      else r)"

definition initiate_something :: "env \<Rightarrow> instant \<Rightarrow> Runtime \<Rightarrow> Runtime" where
  "initiate_something e now r =
     (case CanInitiate now (rt_controller r) of
        (may, c) \<Rightarrow>
        let r = r\<lparr>rt_controller := c\<rparr> in
        if \<not> may then r
        else if rt_reconcileActive r \<noteq> None \<or> hasOutstandingAcquisition r then r
        else if \<not> now < rt_nextAdvertise r then advertise e now r
        else let (done', r) = (if rt_preferReconcile r then initiateReconcile e now r else (False, r)) in
          if done' then r\<lparr>rt_preferReconcile := False\<rparr>
          else case nextWork now r of
              (Some a, r) \<Rightarrow> (initiate e now a r)\<lparr>rt_preferReconcile := True\<rparr>
            | (None, r) \<Rightarrow>
                (let (done', r) = initiateReconcile e now r
                 in if done' then r\<lparr>rt_preferReconcile := False\<rparr> else r))"

definition onTick :: "env \<Rightarrow> instant \<Rightarrow> Runtime \<Rightarrow> Runtime" where
  "onTick e now r =
     (let r = fold (expire_acquisition now) (e_iter e 2 (map fst (rt_acquisitions r))) r;
          r = expire_reconcile now r;
          r = log_metrics e now r
      in initiate_something e now r)"

section \<open>Incoming packets\<close>

text \<open>The handler of a packet addressed to this node.\<close>

definition handleAddressed :: "env \<Rightarrow> instant \<Rightarrow> NodePacket \<Rightarrow> Runtime \<Rightarrow> Runtime" where
  "handleAddressed e now packet r =
     (let t = np_Type packet in
      if t = gnGetManifest then serveManifest e now packet r
      else if t = gnGetChunks then serveChunks e now packet r
      else if t = gnManifest then acceptManifest e now packet r
      else if t = gnChunk then acceptChunk e now packet r
      else if t = gnGetSignature then serveSignature e now packet r
      else if t = gnSignature then acceptSignature e now packet r
      else if t = gnSummaryRequest then serveSummary e now packet r
      else if t = gnSummary then acceptSummary e now packet r
      else if t = gnLeaf then acceptLeaf e now packet r
      else r)"

definition observe_packet :: "env \<Rightarrow> instant \<Rightarrow> RXPacket \<Rightarrow> NodePacket \<Rightarrow> Runtime \<Rightarrow> Runtime" where
  "observe_packet e now rx packet r =
     (let r = with_controller (NoteSignal (rx_RSSI rx) (rx_SNR rx)) r;
          class = (if isExpected e packet r then TrafficExpected
                   else if np_Destination packet = Broadcast then TrafficBroadcast
                   else if np_Destination packet = node_id e then TrafficAddressedUs
                   else TrafficAddressedOther)
      in with_controller (Observe now class) r)"

definition handleIncoming :: "env \<Rightarrow> instant \<Rightarrow> RXPacket \<Rightarrow> Runtime \<Rightarrow> Runtime" where
  "handleIncoming e now rx r =
     (case Decode (rx_Payload rx) of
        Inl _ \<Rightarrow> r
      | Inr packet \<Rightarrow>
        let r = observe_packet e now rx packet r in
        if np_Source packet = node_id e then r
        else if np_Destination packet \<noteq> Broadcast \<and> np_Destination packet \<noteq> node_id e then r
        else if np_Destination packet = Broadcast
        then (if np_Type packet = gnSummary then handleRootSummary e now packet r else r)
        else handleAddressed e now packet r)"

section \<open>Start\<close>

definition default_config :: "NodeConfig \<Rightarrow> NodeConfig" where
  "default_config cfg =
     cfg\<lparr>nc_AdvertiseInterval := (if nc_AdvertiseInterval cfg \<le> 0 then 30 * Second else nc_AdvertiseInterval cfg),
         nc_ResponseTimeout := (if nc_ResponseTimeout cfg \<le> 0 then 3 * Second else nc_ResponseTimeout cfg),
         nc_PollInterval := (if nc_PollInterval cfg \<le> 0 then 100 * Millisecond else nc_PollInterval cfg),
         nc_LogInterval := (if nc_LogInterval cfg \<le> 0 then 30 * Second else nc_LogInterval cfg),
         nc_ReplyGap := (if nc_ReplyGap cfg \<le> 0 then 75 * Millisecond else nc_ReplyGap cfg)\<rparr>"

definition zero_metrics :: Metrics where
  "zero_metrics = \<lparr>InventoryObjects = 0, SummariesSent = 0, SummariesReceived = 0, LeavesSent = 0, LeafIDsSent = 0,
     ManifestRequests = 0, ManifestResponses = 0, ObjectsDiscovered = 0, ObjectsAccepted = 0, ObjectsDeferred = 0,
     ReconciliationBytes = 0, ManifestBytes = 0, BulkBytes = 0\<rparr>"

text \<open>The struct before the store is read; the transaction numbers start at a random value.\<close>

definition fresh_runtime :: "Controller \<Rightarrow> disk \<Rightarrow> bool stream \<Rightarrow> instant stream \<Rightarrow> Runtime" where
  "fresh_runtime c fs radio clock =
     (let (tx, g) = Intn (c_rng c) 65536
      in \<lparr>rt_acquisitions = [], rt_order = [], rt_workCursor = 0, rt_nextAdvertise = 0, rt_nextLog = 0,
          rt_tx = of_int tx, rt_reconcileQueue = [], rt_reconcileActive = None, rt_preferReconcile = False,
          rt_metrics = zero_metrics, rt_peerGenerations = [], rt_inspectedSources = [], rt_inspectedOrder = [],
          rt_completeIDs = [], rt_peerOrder = [], rt_controller = c\<lparr>c_rng := g\<rparr>, rt_disk = fs, rt_radio = radio,
          rt_clock = clock, rt_sent = [], rt_panic = False\<rparr>)"

definition resume_partial :: "env \<Rightarrow> ID \<Rightarrow> Runtime \<Rightarrow> Runtime" where
  "resume_partial e pid r =
     (case LoadPartial (e_crypto e) (e_io e) pid (rt_disk r) of
        (Inl _, fs) \<Rightarrow> snd (addCandidate pid 0 (set_disk (snd (DiscardPartial (e_io e) pid fs)) r))
      | (Inr a, fs) \<Rightarrow>
        let r = set_disk fs r in
        if \<not> Accept (e_crypto e) (e_io e) fs (nc_Policy (e_cfg e)) (a_Manifest a) True
             (Wanted (e_io e) fs pid) then r
        else case addCandidate pid 0 r of
            (None, r) \<Rightarrow> r\<lparr>rt_panic := True\<rparr>
          | (Some q, r) \<Rightarrow> put_acq (q\<lparr>aq_assembly := Some a\<rparr>) r)"

definition NewRuntime ::
  "env \<Rightarrow> Controller \<Rightarrow> instant \<Rightarrow> disk \<Rightarrow> bool stream \<Rightarrow> instant stream \<Rightarrow> go_error + Runtime" where
  "NewRuntime e c now fs radio clock =
     (if node_id e = 0 \<or> node_id e = Broadcast then Inl (Failure ''invalid node configuration'')
      else case refreshInventory e (fresh_runtime c fs radio clock) of
          (Inl err, _) \<Rightarrow> Inl err
        | (Inr _, r) \<Rightarrow>
          bind_err (PartialIDs (e_io e) (rt_disk r)) (\<lambda>partial.
          let r = fold (resume_partial e) partial r in
          bind_err (WantedIDs (e_crypto e) (e_io e) (rt_disk r)) (\<lambda>wanted.
          let r = fold (\<lambda>pid r. snd (addCandidate pid 0 r)) wanted r;
              startup = (if nc_StartupBackoff (e_cfg e) \<le> 0 then min (5 * Second) (nc_AdvertiseInterval (e_cfg e))
                         else nc_StartupBackoff (e_cfg e));
              (delay, c) = StartupDelay startup (rt_controller r)
          in Inr (r\<lparr>rt_controller := c\<lparr>deferUntil := now + delay\<rparr>, rt_nextAdvertise := now + delay,
                    rt_nextLog := now + nc_LogInterval (e_cfg e)\<rparr>))))"

section \<open>The main loop\<close>

text \<open>
  \<open>Run\<close>: one iteration is a packet received and then a tick at a later reading of the clock, or a tick after
  \<open>ErrTimeout\<close>; any other error of the radio ends the loop. Between two iterations another process may
  change the store (\<open>ghost-node want\<close>, \<open>ghost-publish add\<close>): \<open>Outside\<close>.
\<close>

datatype event = PacketIn RXPacket instant instant | Quiet instant | Outside disk

fun run_event :: "env \<Rightarrow> event \<Rightarrow> Runtime \<Rightarrow> Runtime" where
  "run_event e (PacketIn rx now later) r = onTick e later (handleIncoming e now rx r)"
| "run_event e (Quiet now) r = onTick e now r"
| "run_event e (Outside fs) r = set_disk fs r"

text \<open>A run: each event with the failures and map orders of its step.\<close>

fun run_events :: "crypto \<Rightarrow> NodeConfig \<Rightarrow> (io \<times> (nat \<Rightarrow> ID list \<Rightarrow> ID list) \<times> event) list \<Rightarrow> Runtime \<Rightarrow> Runtime" where
  "run_events c cfg [] r = r"
| "run_events c cfg ((io, iter, ev) # evs) r =
     run_events c cfg evs (run_event \<lparr>e_crypto = c, e_cfg = default_config cfg, e_io = io, e_iter = iter\<rparr> ev r)"

text \<open>
  The states a node with configuration \<open>cfg\<close> can reach: \<open>NewRuntime\<close> on any disk with the configuration its
  defaults complete, then any events, each with its own file-system failures and map orders.
\<close>

inductive reachable :: "crypto \<Rightarrow> NodeConfig \<Rightarrow> Runtime \<Rightarrow> bool" for c cfg where
  start: "NewRuntime \<lparr>e_crypto = c, e_cfg = default_config cfg, e_io = io, e_iter = iter\<rparr> ctl now fs radio clock = Inr r \<Longrightarrow>
     reachable c cfg r"
| step: "reachable c cfg r \<Longrightarrow>
     reachable c cfg (run_event \<lparr>e_crypto = c, e_cfg = default_config cfg, e_io = io, e_iter = iter\<rparr> ev r)"

end
