(* ===== verification/Runtime_Inv.thy ===== *)
theory Runtime_Inv
  imports Runtime
begin

text \<open>
  The invariant of a node's state and that every handler keeps it. \<open>acquisition_ok\<close> is what holds of one
  acquisition, \<open>runtime_inv\<close> what holds of the tables: no two entries for a key, the work order lists exactly
  the acquisitions, the queue and the peer, inspection and source lists keep their bounds, and at most one
  exchange is outstanding, an acquisition's or a reconciliation's. The lemmas go operation by operation;
  the operations that change none of the tables are collected as simplification rules first.
\<close>

section \<open>The invariant\<close>

definition verified :: "crypto \<Rightarrow> Assembly \<Rightarrow> bool" where
  "verified c s \<longleftrightarrow> assembly_inv s \<and> VerifyManifestSignature c (a_Manifest s) = Inr ()"

text \<open>What does not depend on the request in flight, and what does.\<close>

definition acquisition_data :: "crypto \<Rightarrow> acquisition \<Rightarrow> bool" where
  "acquisition_data c a \<longleftrightarrow>
     length (aq_sources a) \<le> maxSourcesPerAcquisition \<and> distinct (aq_sources a) \<and> 0 \<notin> set (aq_sources a) \<and>
     (\<forall>s. aq_assembly a = Some s \<longrightarrow> verified c s) \<and>
     (\<forall>m. aq_manifest a = Some m \<longrightarrow> geometry m \<and> m_ID m = aq_id a \<and> IDMatchesHash (aq_id a) (m_SHA256 m))"

definition request_shape :: "acquisition \<Rightarrow> bool" where
  "request_shape a \<longleftrightarrow>
     aq_waiting a = 0 \<or>
     aq_waiting a = gnManifest \<and> aq_manifest a = None \<and> aq_assembly a = None \<or>
     aq_waiting a = gnSignature \<and> aq_manifest a \<noteq> None \<and> aq_assembly a = None \<or>
     aq_waiting a = gnChunk \<and> aq_assembly a \<noteq> None"

definition acquisition_ok :: "crypto \<Rightarrow> acquisition \<Rightarrow> bool" where
  "acquisition_ok c a \<longleftrightarrow> acquisition_data c a \<and> request_shape a"

definition all_idle :: "Runtime \<Rightarrow> bool" where
  "all_idle r \<longleftrightarrow> (\<forall>pid a. acq r pid = Some a \<longrightarrow> aq_waiting a = 0)"

definition tables_ok :: "crypto \<Rightarrow> Runtime \<Rightarrow> bool" where
  "tables_ok c r \<longleftrightarrow>
     distinct (map fst (rt_acquisitions r)) \<and>
     (\<forall>(pid, a) \<in> set (rt_acquisitions r). aq_id a = pid \<and> acquisition_ok c a) \<and>
     distinct (rt_order r) \<and> set (rt_order r) = fst ` set (rt_acquisitions r) \<and> \<not> rt_panic r"

definition one_outstanding :: "Runtime \<Rightarrow> bool" where
  "one_outstanding r \<longleftrightarrow>
     (\<forall>pid a. acq r pid = Some a \<and> aq_waiting a \<noteq> 0 \<longrightarrow> rt_reconcileActive r = None \<and>
        (\<forall>pid' a'. acq r pid' = Some a' \<and> aq_waiting a' \<noteq> 0 \<longrightarrow> pid' = pid))"

definition peers_ok :: "Runtime \<Rightarrow> bool" where
  "peers_ok r \<longleftrightarrow>
     length (rt_reconcileQueue r) \<le> maxReconcileJobs \<and>
     distinct (rt_peerOrder r) \<and> distinct (map fst (rt_peerGenerations r)) \<and>
     set (rt_peerOrder r) = fst ` set (rt_peerGenerations r) \<and> length (rt_peerOrder r) \<le> maxTrackedPeers"

definition inspected_ok :: "Runtime \<Rightarrow> bool" where
  "inspected_ok r \<longleftrightarrow>
     distinct (rt_inspectedOrder r) \<and> distinct (map fst (rt_inspectedSources r)) \<and>
     set (rt_inspectedOrder r) = fst ` set (rt_inspectedSources r) \<and> length (rt_inspectedOrder r) \<le> maxInspectedIDs \<and>
     (\<forall>(pid, sources) \<in> set (rt_inspectedSources r). length sources \<le> maxInspectedSources)"

definition runtime_inv :: "crypto \<Rightarrow> Runtime \<Rightarrow> bool" where
  "runtime_inv c r \<longleftrightarrow> tables_ok c r \<and> one_outstanding r \<and> peers_ok r \<and> inspected_ok r"

lemmas inv_defs = runtime_inv_def tables_ok_def one_outstanding_def peers_ok_def inspected_ok_def

section \<open>Operations that leave the tables alone\<close>

text \<open>\<open>tables\<close>: the part of the state the invariant reads.\<close>

definition tables :: "Runtime \<Rightarrow> Runtime" where
  "tables r = r\<lparr>rt_workCursor := 0, rt_nextAdvertise := 0, rt_nextLog := 0, rt_tx := 0, rt_preferReconcile := False,
     rt_metrics := zero_metrics, rt_completeIDs := [], rt_controller := NewController (sconst 0), rt_disk := [],
     rt_radio := sconst True, rt_clock := sconst 0, rt_sent := []\<rparr>"

lemma acq_tables [simp]: "acq (tables r) pid = acq r pid"
  by (simp add: acq_def tables_def)

lemma runtime_inv_tables: "runtime_inv c (tables r) = runtime_inv c r"
  by (simp add: inv_defs) (simp add: tables_def)

lemma tables_eq_inv: "tables r = tables s \<Longrightarrow> runtime_inv c r = runtime_inv c s"
  by (metis runtime_inv_tables)

lemma tables_eq_fields:
  assumes "tables r = tables s"
  shows "rt_acquisitions r = rt_acquisitions s" "rt_order r = rt_order s" "rt_reconcileQueue r = rt_reconcileQueue s"
    "rt_reconcileActive r = rt_reconcileActive s" "rt_peerGenerations r = rt_peerGenerations s"
    "rt_peerOrder r = rt_peerOrder s" "rt_inspectedSources r = rt_inspectedSources s"
    "rt_inspectedOrder r = rt_inspectedOrder s" "rt_panic r = rt_panic s"
proof -
  have f: "rt_acquisitions (tables x) = rt_acquisitions x" "rt_order (tables x) = rt_order x"
    "rt_reconcileQueue (tables x) = rt_reconcileQueue x" "rt_reconcileActive (tables x) = rt_reconcileActive x"
    "rt_peerGenerations (tables x) = rt_peerGenerations x" "rt_peerOrder (tables x) = rt_peerOrder x"
    "rt_inspectedSources (tables x) = rt_inspectedSources x" "rt_inspectedOrder (tables x) = rt_inspectedOrder x"
    "rt_panic (tables x) = rt_panic x" for x by (simp_all add: tables_def)
  show "rt_acquisitions r = rt_acquisitions s" "rt_order r = rt_order s" "rt_reconcileQueue r = rt_reconcileQueue s"
    "rt_reconcileActive r = rt_reconcileActive s" "rt_peerGenerations r = rt_peerGenerations s"
    "rt_peerOrder r = rt_peerOrder s" "rt_inspectedSources r = rt_inspectedSources s"
    "rt_inspectedOrder r = rt_inspectedOrder s" "rt_panic r = rt_panic s"
    using arg_cong [OF assms] f by metis+
qed

lemma tables_simps [simp]:
  "tables (with_controller f r) = tables r"
  "tables (with_metrics g r) = tables r"
  "tables (set_disk fs r) = tables r"
  "tables (r\<lparr>rt_tx := t\<rparr>) = tables r"
  "tables (r\<lparr>rt_workCursor := w\<rparr>) = tables r"
  "tables (r\<lparr>rt_controller := k\<rparr>) = tables r"
  "tables (r\<lparr>rt_preferReconcile := b\<rparr>) = tables r"
  "tables (r\<lparr>rt_nextAdvertise := i\<rparr>) = tables r"
  "tables (r\<lparr>rt_nextLog := j\<rparr>) = tables r"
  "tables (r\<lparr>rt_completeIDs := ids\<rparr>) = tables r"
  by (simp_all add: tables_def with_controller_def with_metrics_def set_disk_def)

lemma draw_tables: "draw n r = (v, r') \<Longrightarrow> tables r' = tables r"
  by (auto simp: draw_def Let_def split: prod.splits)

lemma time_Now_tables: "time_Now r = (t, r') \<Longrightarrow> tables r' = tables r"
  by (auto simp: time_Now_def tables_def)

lemma send_tables: "send now wire r = (ok, r') \<Longrightarrow> tables r' = tables r"
  by (auto simp: send_def Let_def tables_def with_controller_def split: if_splits)

lemma refreshInventory_tables: "refreshInventory e r = (x, r') \<Longrightarrow> tables r' = tables r"
  by (auto simp: refreshInventory_def split: sum.splits)

lemma runtime_inv_simps [simp]:
  "runtime_inv c (with_controller f r) = runtime_inv c r"
  "runtime_inv c (with_metrics g r) = runtime_inv c r"
  "runtime_inv c (set_disk fs r) = runtime_inv c r"
  "runtime_inv c (r\<lparr>rt_tx := t\<rparr>) = runtime_inv c r"
  "runtime_inv c (r\<lparr>rt_workCursor := w\<rparr>) = runtime_inv c r"
  "runtime_inv c (r\<lparr>rt_controller := k\<rparr>) = runtime_inv c r"
  "runtime_inv c (r\<lparr>rt_preferReconcile := b\<rparr>) = runtime_inv c r"
  "runtime_inv c (r\<lparr>rt_nextAdvertise := i\<rparr>) = runtime_inv c r"
  "runtime_inv c (r\<lparr>rt_nextLog := j\<rparr>) = runtime_inv c r"
  "runtime_inv c (r\<lparr>rt_completeIDs := ids\<rparr>) = runtime_inv c r"
  by (intro tables_eq_inv; simp)+

lemma acq_simps [simp]:
  "acq (with_controller f r) = acq r" "acq (with_metrics g r) = acq r" "acq (set_disk fs r) = acq r"
  "acq (r\<lparr>rt_tx := t\<rparr>) = acq r" "acq (r\<lparr>rt_workCursor := w\<rparr>) = acq r" "acq (r\<lparr>rt_controller := k\<rparr>) = acq r"
  "acq (r\<lparr>rt_reconcileActive := j\<rparr>) = acq r" "acq (r\<lparr>rt_reconcileQueue := q\<rparr>) = acq r"
  "acq (r\<lparr>rt_peerOrder := ps\<rparr>) = acq r" "acq (r\<lparr>rt_peerGenerations := gs\<rparr>) = acq r"
  "acq (r\<lparr>rt_order := ord\<rparr>) = acq r" "acq (r\<lparr>rt_inspectedSources := ss\<rparr>) = acq r" "acq (r\<lparr>rt_inspectedOrder := ids\<rparr>) = acq r"
  by (rule ext, simp add: acq_def with_controller_def with_metrics_def set_disk_def)+

lemma tables_acq: "tables r' = tables r \<Longrightarrow> acq r' = acq r"
  by (rule ext) (metis acq_tables)

section \<open>The table of acquisitions\<close>

lemma acq_put_acq: "acq (put_acq a r) pid = (if pid = aq_id a then Some a else acq r pid)"
  by (auto simp: acq_def put_acq_def update_conv)

lemma acq_delete_acq: "acq (delete_acq p r) pid = (if pid = p then None else acq r pid)"
  by (simp add: acq_def delete_acq_def AList.delete_conv)

lemma acq_set: "distinct (map fst (rt_acquisitions r)) \<Longrightarrow> acq r pid = Some a \<longleftrightarrow> (pid, a) \<in> set (rt_acquisitions r)"
  by (simp add: acq_def)

lemma acq_keys: "acq r pid \<noteq> None \<longleftrightarrow> pid \<in> fst ` set (rt_acquisitions r)"
  by (simp add: acq_def map_of_eq_None_iff)

lemma tables_ok_acq:
  "tables_ok c r \<longleftrightarrow> distinct (map fst (rt_acquisitions r)) \<and> (\<forall>pid a. acq r pid = Some a \<longrightarrow> aq_id a = pid \<and> acquisition_ok c a) \<and>
     distinct (rt_order r) \<and> (\<forall>pid. pid \<in> set (rt_order r) \<longleftrightarrow> acq r pid \<noteq> None) \<and> \<not> rt_panic r"
  unfolding tables_ok_def acq_keys by (auto simp: acq_set split: prod.splits)

lemma keys_put_acq: "fst ` set (rt_acquisitions (put_acq a r)) = insert (aq_id a) (fst ` set (rt_acquisitions r))"
  by (simp add: put_acq_def dom_update [symmetric] flip: dom_map_of_conv_image_fst) (simp add: update_conv')

lemma put_acq_fields [simp]:
  "rt_order (put_acq a r) = rt_order r" "rt_reconcileActive (put_acq a r) = rt_reconcileActive r"
  "rt_reconcileQueue (put_acq a r) = rt_reconcileQueue r" "rt_panic (put_acq a r) = rt_panic r"
  by (simp_all add: put_acq_def)

lemma peers_ok_put_acq [simp]: "peers_ok (put_acq a r) = peers_ok r"
  by (simp add: peers_ok_def put_acq_def)

lemma inspected_ok_put_acq [simp]: "inspected_ok (put_acq a r) = inspected_ok r"
  by (simp add: inspected_ok_def put_acq_def)

lemma inv_acq:
  assumes "runtime_inv c r" "acq r pid = Some a"
  shows "aq_id a = pid" "acquisition_ok c a"
  using assms by (auto simp: runtime_inv_def tables_ok_acq)

text \<open>
  Putting back an acquisition that waits for nothing, or for something only if it did before; and one that
  has just been asked for when nothing was outstanding.
\<close>

lemma put_acq_inv:
  assumes "runtime_inv c r" "acq r (aq_id a) = Some old" "acquisition_ok c a"
    and "aq_waiting a \<noteq> 0 \<Longrightarrow> aq_waiting old \<noteq> 0"
  shows "runtime_inv c (put_acq a r)"
proof -
  have "distinct (map fst (rt_acquisitions (put_acq a r)))"
    using assms(1) by (simp add: inv_defs put_acq_def distinct_update)
  moreover have "one_outstanding (put_acq a r)"
    using assms(1,2,4) unfolding runtime_inv_def one_outstanding_def acq_put_acq
    by (metis (no_types, lifting) option.inject put_acq_fields(2))
  ultimately show ?thesis
    using assms(1-3) by (auto simp: runtime_inv_def tables_ok_acq acq_put_acq split: if_splits)
qed

definition nothing_outstanding :: "Runtime \<Rightarrow> bool" where
  "nothing_outstanding r \<longleftrightarrow> rt_reconcileActive r = None \<and> \<not> hasOutstandingAcquisition r"

lemma hasOutstanding_iff:
  "distinct (map fst (rt_acquisitions r)) \<Longrightarrow>
   hasOutstandingAcquisition r \<longleftrightarrow> (\<exists>pid a. acq r pid = Some a \<and> aq_waiting a \<noteq> 0)"
  by (auto simp: hasOutstandingAcquisition_def list_ex_iff acq_set split: prod.splits)

lemma put_request_inv:
  assumes "runtime_inv c r" "acq r (aq_id a) \<noteq> None" "acquisition_ok c a" "nothing_outstanding r"
  shows "runtime_inv c (put_acq a r)"
proof -
  have d: "distinct (map fst (rt_acquisitions r))" using assms(1) by (simp add: inv_defs)
  then have "distinct (map fst (rt_acquisitions (put_acq a r)))" by (simp add: put_acq_def distinct_update)
  moreover have "one_outstanding (put_acq a r)"
    using assms(4) unfolding nothing_outstanding_def hasOutstanding_iff [OF d] one_outstanding_def acq_put_acq
    by (auto split: if_splits)
  ultimately show ?thesis
    using assms(1-3) by (auto simp: runtime_inv_def tables_ok_acq acq_put_acq split: if_splits)
qed

section \<open>Failing, forgetting, adding\<close>

text \<open>What \<open>fail\<close> puts back.\<close>

definition failed :: "instant \<Rightarrow> acquisition \<Rightarrow> acquisition" where
  "failed t a = a\<lparr>aq_manifest := (if aq_waiting a = gnSignature then None else aq_manifest a),
     aq_manifestSource := (if aq_waiting a = gnSignature then 0 else aq_manifestSource a), aq_waiting := 0,
     aq_wanted := [], aq_activeSource := 0, aq_failures := aq_failures a + 1, aq_nextAttempt := t\<rparr>"

lemma tables_put_acq: "tables (put_acq a r) = put_acq a (tables r)"
  by (simp add: put_acq_def tables_def)

lemma put_acq_tables_cong: "tables r' = tables r \<Longrightarrow> tables (put_acq a r') = tables (put_acq a r)"
  by (simp add: tables_put_acq)

lemma fail_put: obtains t where "tables (fail now a r) = tables (put_acq (failed t a) r)"
proof -
  obtain v r' where d: "draw (Backoff (int (aq_failures a + 1)) div 2 + 1) r = (v, r')" by fastforce
  show thesis
    by (rule that [of "now + (Backoff (int (aq_failures a + 1)) + v)"])
       (use put_acq_tables_cong [OF draw_tables [OF d]] d in
         \<open>auto simp: fail_def Let_def failed_def split: prod.splits\<close>)
qed

lemma failed_simps [simp]:
  "aq_id (failed t a) = aq_id a" "aq_waiting (failed t a) = 0" "aq_assembly (failed t a) = aq_assembly a"
  "aq_sources (failed t a) = aq_sources a"
  by (simp_all add: failed_def)

lemma failed_ok: "acquisition_data c a \<Longrightarrow> acquisition_ok c (failed t a)"
  by (auto simp: acquisition_ok_def acquisition_data_def request_shape_def failed_def)

lemma fail_inv:
  assumes "runtime_inv c r" "acq r (aq_id a) \<noteq> None" "acquisition_data c a"
  shows "runtime_inv c (fail now a r)"
proof -
  obtain t where t: "tables (fail now a r) = tables (put_acq (failed t a) r)" by (rule fail_put)
  have "runtime_inv c (put_acq (failed t a) r)"
    using assms by (auto intro!: put_acq_inv failed_ok)
  then show ?thesis using tables_eq_inv [OF t] by simp
qed

lemma acq_fail_all: "\<exists>t. \<forall>pid. acq (fail now a r) pid = (if pid = aq_id a then Some (failed t a) else acq r pid)"
  by (metis (no_types, lifting) fail_put tables_acq acq_put_acq failed_simps(1))

lemma acq_fail: "\<exists>t. acq (fail now a r) pid = (if pid = aq_id a then Some (failed t a) else acq r pid)"
  by (metis (no_types, lifting) fail_put tables_acq acq_put_acq failed_simps(1))

text \<open>Deleting an acquisition with its place in the order.\<close>

lemma removeOrder_fields [simp]:
  "acq (removeOrder pid r) = acq r" "rt_acquisitions (removeOrder pid r) = rt_acquisitions r"
  "rt_reconcileActive (removeOrder pid r) = rt_reconcileActive r" "rt_panic (removeOrder pid r) = rt_panic r"
  "rt_order (removeOrder pid r) = remove1 pid (rt_order r)"
  "peers_ok (removeOrder pid r) = peers_ok r" "inspected_ok (removeOrder pid r) = inspected_ok r"
  by (auto simp: removeOrder_def acq_def Let_def peers_ok_def inspected_ok_def remove1_idem)

lemma delete_acq_fields [simp]:
  "rt_order (delete_acq pid r) = rt_order r" "rt_reconcileActive (delete_acq pid r) = rt_reconcileActive r"
  "rt_panic (delete_acq pid r) = rt_panic r"
  "peers_ok (delete_acq pid r) = peers_ok r" "inspected_ok (delete_acq pid r) = inspected_ok r"
  by (simp_all add: delete_acq_def peers_ok_def inspected_ok_def)

lemma one_outstanding_delete: "one_outstanding r \<Longrightarrow> one_outstanding (removeOrder pid (delete_acq pid r))"
  by (auto simp: one_outstanding_def acq_delete_acq)

lemma delete_inv: "runtime_inv c r \<Longrightarrow> runtime_inv c (removeOrder pid (delete_acq pid r))"
  unfolding runtime_inv_def
  by (auto simp: tables_ok_acq acq_delete_acq one_outstanding_delete)
     (simp_all add: delete_acq_def distinct_delete)

lemma keys_delete: "fst ` set (AList.delete k xs) = fst ` set xs - {k}"
  by (induction xs) (auto simp: AList.delete_eq)

lemma set_delete_subset: "set (AList.delete k xs) \<subseteq> set xs"
  by (auto simp: AList.delete_eq)

lemma keys_update: "fst ` set (AList.update k v xs) = insert k (fst ` set xs)"
  by (induction xs) auto

lemma set_update_subset: "set (AList.update k v xs) \<subseteq> insert (k, v) (set xs)"
  by (induction xs) auto

lemma length_update: "length (AList.update k v xs) = (if k \<in> fst ` set xs then length xs else Suc (length xs))"
  by (induction xs) auto

lemma clearInspected_inv:
  assumes "runtime_inv c r"
  shows "runtime_inv c (clearInspected pid r)"
proof -
  have "inspected_ok (clearInspected pid r)"
    using assms set_delete_subset [of pid "rt_inspectedSources r"] length_remove1 [of pid "rt_inspectedOrder r"]
    by (auto simp: runtime_inv_def inspected_ok_def clearInspected_def distinct_delete keys_delete split: if_splits)
  moreover have "tables_ok c (clearInspected pid r) = tables_ok c r" "peers_ok (clearInspected pid r) = peers_ok r"
    "one_outstanding (clearInspected pid r) = one_outstanding r"
    by (simp_all add: tables_ok_def peers_ok_def one_outstanding_def acq_def clearInspected_def)
  ultimately show ?thesis using assms by (simp add: runtime_inv_def)
qed

lemma clearInspected_delete: "clearInspected pid (delete_acq pid r) = delete_acq pid (clearInspected pid r)"
  by (simp add: clearInspected_def delete_acq_def)

lemma forget_inv: "runtime_inv c r \<Longrightarrow> runtime_inv c (forget pid r)"
  unfolding forget_def clearInspected_delete by (intro delete_inv clearInspected_inv)

lemma acq_forget: "acq (forget pid r) q = (if q = pid then None else acq r q)"
  by (simp add: forget_def clearInspected_delete acq_delete_acq) (simp add: acq_def clearInspected_def)

lemma committed_inv: "runtime_inv c r \<Longrightarrow> runtime_inv c (committed e pid r)"
  unfolding committed_def
  by (rule forget_inv) (metis prod.collapse refreshInventory_tables tables_eq_inv)

lemma acq_committed: "acq (committed e pid r) q = (if q = pid then None else acq r q)"
  unfolding committed_def acq_forget by (metis prod.collapse refreshInventory_tables tables_acq)

text \<open>A new candidate, or a new source of a known one.\<close>

lemma add_source_ok: "acquisition_ok c a \<Longrightarrow> acquisition_ok c (add_source source a)"
  by (auto simp: acquisition_ok_def acquisition_data_def request_shape_def add_source_def)

lemma add_source_fields [simp]:
  "aq_id (add_source source a) = aq_id a" "aq_waiting (add_source source a) = aq_waiting a"
  "aq_assembly (add_source source a) = aq_assembly a" "aq_manifest (add_source source a) = aq_manifest a"
  by (simp_all add: add_source_def)

lemma new_acquisition_ok: "acquisition_ok c (new_acquisition pid)"
  by (simp add: acquisition_ok_def acquisition_data_def request_shape_def new_acquisition_def)

lemma new_acquisition_fields [simp]:
  "aq_id (new_acquisition pid) = pid" "aq_waiting (new_acquisition pid) = 0" "aq_assembly (new_acquisition pid) = None"
  "aq_manifest (new_acquisition pid) = None"
  by (simp_all add: new_acquisition_def)

lemma addCandidate_inv:
  assumes "runtime_inv c r" "addCandidate pid source r = (x, r')"
  shows "runtime_inv c r'"
proof (cases "acq r pid")
  case (Some a)
  then have "aq_id a = pid" "acquisition_ok c a" using inv_acq [OF assms(1)] by simp_all
  then show ?thesis using assms Some
    by (auto simp: addCandidate_def Let_def intro!: put_acq_inv add_source_ok)
next
  case None
  let ?a = "add_source source (new_acquisition pid)" and ?s = "r\<lparr>rt_order := rt_order r @ [pid]\<rparr>"
  have "runtime_inv c (put_acq ?a ?s)"
  proof -
    have s: "acq ?s = acq r" by (rule ext) (simp add: acq_def)
    have "distinct (map fst (rt_acquisitions (put_acq ?a ?s)))"
      using assms(1) by (simp add: inv_defs put_acq_def distinct_update)
    moreover have "one_outstanding (put_acq ?a ?s)"
      using assms(1) by (auto simp: runtime_inv_def one_outstanding_def acq_put_acq s split: if_splits)
    moreover have "acquisition_ok c ?a" by (intro add_source_ok new_acquisition_ok)
    moreover have "peers_ok ?s = peers_ok r" "inspected_ok ?s = inspected_ok r"
      by (simp_all add: peers_ok_def inspected_ok_def)
    ultimately show ?thesis
      using assms(1) None by (auto simp: runtime_inv_def tables_ok_acq acq_put_acq s split: if_splits)
  qed
  then show ?thesis using assms None by (auto simp: addCandidate_def Let_def split: if_splits)
qed

lemma addCandidate_acq:
  assumes "runtime_inv c r" "addCandidate pid source r = (Some a, r')"
  shows "acq r' pid = Some a" "aq_id a = pid" "acquisition_ok c a"
proof -
  have r': "runtime_inv c r'" using assms by (rule addCandidate_inv)
  show "acq r' pid = Some a"
    using assms(2) inv_acq(1) [OF assms(1)]
    by (auto simp: addCandidate_def Let_def acq_put_acq split: option.splits if_splits)
  then show "aq_id a = pid" "acquisition_ok c a" using inv_acq [OF r'] by simp_all
qed

text \<open>Growth of the table: only a candidate without a source can exceed the bound.\<close>

lemma length_put_acq:
  "length (rt_acquisitions (put_acq a r)) =
     (if acq r (aq_id a) = None then Suc (length (rt_acquisitions r)) else length (rt_acquisitions r))"
  by (simp add: put_acq_def length_update acq_def map_of_eq_None_iff)

lemma addCandidate_bound:
  assumes "runtime_inv c r" "source \<noteq> 0" "addCandidate pid source r = (x, r')"
  shows "length (rt_acquisitions r') \<le> max maxAcquisitions (length (rt_acquisitions r))"
proof (cases "acq r pid")
  case (Some a)
  then have "aq_id a = pid" using inv_acq [OF assms(1)] by simp
  then show ?thesis using assms Some by (auto simp: addCandidate_def Let_def length_put_acq)
next
  case None
  then show ?thesis using assms
    by (auto simp: addCandidate_def Let_def length_put_acq acq_def split: if_splits)
qed

section \<open>Peers, the queue and the inspected sources\<close>

lemma one_outstanding_cong:
  "acq r' = acq r \<Longrightarrow> rt_reconcileActive r' = rt_reconcileActive r \<or> rt_reconcileActive r' = None \<Longrightarrow>
   one_outstanding r \<Longrightarrow> one_outstanding r'"
  by (auto simp: one_outstanding_def)

lemma tables_ok_cong:
  "rt_acquisitions r' = rt_acquisitions r \<Longrightarrow> rt_order r' = rt_order r \<Longrightarrow> rt_panic r' = rt_panic r \<Longrightarrow>
   tables_ok c r' = tables_ok c r"
  by (simp add: tables_ok_def)

lemma inactive_inv: "runtime_inv c r \<Longrightarrow> runtime_inv c (r\<lparr>rt_reconcileActive := None\<rparr>)"
  unfolding runtime_inv_def
  by (auto simp: tables_ok_def peers_ok_def inspected_ok_def intro: one_outstanding_cong [of _ r])

lemma queue_inv:
  "runtime_inv c r \<Longrightarrow> length q \<le> maxReconcileJobs \<Longrightarrow> runtime_inv c (r\<lparr>rt_reconcileQueue := q\<rparr>)"
  unfolding runtime_inv_def
  by (auto simp: tables_ok_def peers_ok_def inspected_ok_def intro: one_outstanding_cong [of _ r])

lemma reconcile_inv:
  assumes "runtime_inv c r" "length q \<le> maxReconcileJobs" "j = rt_reconcileActive r \<or> j = None"
  shows "runtime_inv c (r\<lparr>rt_reconcileActive := j, rt_reconcileQueue := q\<rparr>)"
  using assms unfolding runtime_inv_def
  by (auto simp: tables_ok_def peers_ok_def inspected_ok_def intro: one_outstanding_cong [of _ r])

lemma dropReconciliation_inv: "runtime_inv c r \<Longrightarrow> runtime_inv c (dropReconciliation peer r)"
  unfolding dropReconciliation_def
  by (rule reconcile_inv)
     (auto simp: inv_defs intro: le_trans [OF length_filter_le] split: option.splits)

lemma draw_inv: "draw n r = (v, r') \<Longrightarrow> runtime_inv c r' = runtime_inv c r"
  by (rule tables_eq_inv) (rule draw_tables)

lemma send_inv: "send now wire r = (ok, r') \<Longrightarrow> runtime_inv c r' = runtime_inv c r"
  by (rule tables_eq_inv) (rule send_tables)

lemma time_Now_inv: "time_Now r = (t, r') \<Longrightarrow> runtime_inv c r' = runtime_inv c r"
  by (rule tables_eq_inv) (rule time_Now_tables)

lemma queueReconciliation_cases:
  obtains "queueReconciliation peer g p now r = r"
  | r1 job where "length (rt_reconcileQueue r) < maxReconcileJobs" "tables r1 = tables r" "rj_prefix job = p"
    "queueReconciliation peer g p now r = r1\<lparr>rt_reconcileQueue := rt_reconcileQueue r1 @ [job]\<rparr>"
proof (cases "queueReconciliation peer g p now r = r")
  case False
  obtain v r1 where d: "draw (750 * Millisecond + 1) r = (v, r1)" by fastforce
  have short: "length (rt_reconcileQueue r) < maxReconcileJobs"
    by (rule ccontr) (use False in \<open>simp add: queueReconciliation_def not_less\<close>)
  let ?job = "\<lparr>rj_peer = peer, rj_generation = g, rj_prefix = p, rj_failures = 0, rj_nextAttempt = now + v,
    rj_transaction = 0, rj_deadline = 0\<rparr>"
  have "queueReconciliation peer g p now r = r1\<lparr>rt_reconcileQueue := rt_reconcileQueue r1 @ [?job]\<rparr>"
    using False unfolding queueReconciliation_def d by (auto split: if_splits)
  then show thesis using that(2) [OF short draw_tables [OF d], of ?job] by simp
qed (rule that)

lemma queueReconciliation_inv: "runtime_inv c r \<Longrightarrow> runtime_inv c (queueReconciliation peer g p now r)"
proof (cases rule: queueReconciliation_cases [of peer g p now r])
  case (2 r1 job)
  assume "runtime_inv c r"
  then have r1: "runtime_inv c r1" using tables_eq_inv [OF 2(2)] by simp
  then have "length (rt_reconcileQueue r1 @ [job]) \<le> maxReconcileJobs"
    using 2(1) tables_eq_fields(3) [OF 2(2)] by simp
  then show ?thesis unfolding 2(4) by (rule queue_inv [OF r1])
qed simp

lemma queue_all_inv: "runtime_inv c r \<Longrightarrow> runtime_inv c (queue_all peer g ps now r)"
  unfolding queue_all_def by (induction ps arbitrary: r) (auto intro: queueReconciliation_inv)

text \<open>The table of peers: one place in the order for each, and never more than 64.\<close>

lemma peers_inv:
  assumes "runtime_inv c r" "distinct order" "distinct (map fst gens)" "set order = fst ` set gens"
    and "length order \<le> maxTrackedPeers"
  shows "runtime_inv c (r\<lparr>rt_peerOrder := order, rt_peerGenerations := gens\<rparr>)"
  using assms unfolding runtime_inv_def
  by (auto simp: tables_ok_def peers_ok_def inspected_ok_def intro!: one_outstanding_cong [of _ r])

lemma dropReconciliation_fields [simp]:
  "rt_peerOrder (dropReconciliation p r) = rt_peerOrder r"
  "rt_peerGenerations (dropReconciliation p r) = rt_peerGenerations r"
  by (simp_all add: dropReconciliation_def)

lemma dropReconciliation_update:
  "dropReconciliation p (r\<lparr>rt_peerOrder := ps, rt_peerGenerations := gs\<rparr>) =
   (dropReconciliation p r)\<lparr>rt_peerOrder := ps, rt_peerGenerations := gs\<rparr>"
  by (simp add: dropReconciliation_def)

text \<open>\<open>track_peer\<close> on the two tables it keeps, apart from the reconciliations it drops.\<close>

definition tracked :: "NodeID \<Rightarrow> 32 word \<Rightarrow> NodeID list \<Rightarrow> (NodeID \<times> 32 word) list \<Rightarrow> NodeID list \<times> (NodeID \<times> 32 word) list" where
  "tracked peer g order gens =
     (case map_of gens peer of
        None \<Rightarrow> if length order \<ge> maxTrackedPeers
          then (tl order @ [peer], AList.update peer g (AList.delete (hd order) gens))
          else (order @ [peer], AList.update peer g gens)
      | Some old \<Rightarrow> (remove1 peer order @ [peer], if old \<noteq> g then AList.update peer g gens else gens))"

lemma track_peer_tracked:
  "\<exists>d. (\<forall>c. runtime_inv c r \<longrightarrow> runtime_inv c d) \<and>
     track_peer peer g r = d\<lparr>rt_peerOrder := fst (tracked peer g (rt_peerOrder r) (rt_peerGenerations r)),
       rt_peerGenerations := snd (tracked peer g (rt_peerOrder r) (rt_peerGenerations r))\<rparr>"
proof -
  let ?drop = "dropReconciliation peer r" and ?both = "dropReconciliation peer (dropReconciliation (hd (rt_peerOrder r)) r)"
  have swap: "s\<lparr>rt_peerGenerations := gs, rt_peerOrder := ps\<rparr> = s\<lparr>rt_peerOrder := ps, rt_peerGenerations := gs\<rparr>"
    "dropReconciliation p (s\<lparr>rt_peerOrder := ps\<rparr>) = (dropReconciliation p s)\<lparr>rt_peerOrder := ps\<rparr>" for s ps gs p
    by (simp_all add: dropReconciliation_def)
  let ?d = "case map_of (rt_peerGenerations r) peer of
      None \<Rightarrow> if length (rt_peerOrder r) \<ge> maxTrackedPeers then ?both else ?drop
    | Some old \<Rightarrow> if old = g then r else ?drop"
  have "track_peer peer g r = ?d\<lparr>rt_peerOrder := fst (tracked peer g (rt_peerOrder r) (rt_peerGenerations r)),
       rt_peerGenerations := snd (tracked peer g (rt_peerOrder r) (rt_peerGenerations r))\<rparr>"
    by (cases "map_of (rt_peerGenerations r) peer")
       (auto simp: track_peer_def tracked_def Let_def dropReconciliation_update swap)
  moreover have "runtime_inv c r \<longrightarrow> runtime_inv c ?d" for c
    by (auto simp: dropReconciliation_inv split: option.splits)
  ultimately show ?thesis by blast
qed

lemma tracked_ok:
  assumes "distinct order" "distinct (map fst gens)" "set order = fst ` set gens" "length order \<le> maxTrackedPeers"
    and "tracked peer g order gens = (order', gens')"
  shows "distinct order' \<and> distinct (map fst gens') \<and> set order' = fst ` set gens' \<and> length order' \<le> maxTrackedPeers"
proof (cases "map_of gens peer")
  case None
  then have new: "peer \<notin> set order" using assms(3) by (auto simp: map_of_eq_None_iff)
  show ?thesis
  proof (cases "length order \<ge> maxTrackedPeers")
    case True
    then obtain h t where order: "order = h # t" by (cases order) auto
    have o: "order' = t @ [peer]" "gens' = AList.update peer g (AList.delete h gens)"
      using assms(5) None True order by (auto simp: tracked_def)
    have t: "set t = fst ` set gens - {h}" "distinct t" "peer \<notin> set t" using assms(1,3) new order by auto
    then have "set order' = fst ` set gens'" unfolding o keys_update keys_delete by simp
    moreover have "distinct (map fst gens')" unfolding o using assms(2) by (simp add: distinct_update distinct_delete)
    ultimately show ?thesis using t o assms(4) order by simp
  next
    case False
    then have o: "order' = order @ [peer]" "gens' = AList.update peer g gens"
      using assms(5) None by (auto simp: tracked_def)
    have "set order' = fst ` set gens'" unfolding o keys_update using assms(3) by simp
    then show ?thesis using assms(1,2,4) new o False by (simp add: distinct_update)
  qed
next
  case (Some old)
  then have peer: "peer \<in> set order" using assms(3) by (metis map_of_eq_None_iff option.distinct(1))
  have o: "order' = remove1 peer order @ [peer]" "gens' = (if old \<noteq> g then AList.update peer g gens else gens)"
    using assms(5) Some by (auto simp: tracked_def)
  have "0 < length order" using peer by (cases order) simp_all
  then have "length order' \<le> maxTrackedPeers" using assms(4) peer by (simp add: o length_remove1)
  moreover have "set order' = fst ` set gens'"
    unfolding o using assms(1,3) peer by (simp add: keys_update insert_absorb)
  moreover have "distinct order'" "distinct (map fst gens')"
    unfolding o using assms(1,2) by (simp_all add: distinct_update)
  ultimately show ?thesis by simp
qed

lemma track_peer_inv:
  assumes "runtime_inv c r"
  shows "runtime_inv c (track_peer peer g r)"
proof -
  let ?t = "tracked peer g (rt_peerOrder r) (rt_peerGenerations r)"
  obtain d where d: "runtime_inv c d"
    "track_peer peer g r = d\<lparr>rt_peerOrder := fst ?t, rt_peerGenerations := snd ?t\<rparr>"
    using track_peer_tracked [of r peer g] assms by blast
  have "distinct (fst ?t) \<and> distinct (map fst (snd ?t)) \<and> set (fst ?t) = fst ` set (snd ?t) \<and>
      length (fst ?t) \<le> maxTrackedPeers"
    using assms by (intro tracked_ok [of "rt_peerOrder r" "rt_peerGenerations r" peer g]) (simp_all add: inv_defs)
  then show ?thesis unfolding d(2) using d(1) by (intro peers_inv) simp_all
qed

lemma inspected_inv:
  assumes "runtime_inv c r" "inspected_ok (r\<lparr>rt_inspectedSources := s, rt_inspectedOrder := t\<rparr>)"
  shows "runtime_inv c (r\<lparr>rt_inspectedSources := s, rt_inspectedOrder := t\<rparr>)"
  using assms unfolding runtime_inv_def
  by (auto simp: tables_ok_def peers_ok_def intro!: one_outstanding_cong [of _ r])

definition marked :: "ID \<Rightarrow> NodeID \<Rightarrow> (ID \<times> NodeID list) list \<Rightarrow> ID list \<Rightarrow> (ID \<times> NodeID list) list \<times> ID list" where
  "marked pid source sources order =
     (let (sources, order) =
        (if map_of sources pid = None
         then let (sources, order) = (if length order \<ge> maxInspectedIDs then (AList.delete (hd order) sources, tl order)
                                      else (sources, order))
           in (AList.update pid [] sources, order @ [pid])
         else (sources, order));
        inspected = the (map_of sources pid)
      in (if length inspected < maxInspectedSources then AList.update pid (List.insert source inspected) sources
          else sources, order))"

lemma markSourceInspected_marked:
  "markSourceInspected pid source r =
     r\<lparr>rt_inspectedSources := fst (marked pid source (rt_inspectedSources r) (rt_inspectedOrder r)),
       rt_inspectedOrder := snd (marked pid source (rt_inspectedSources r) (rt_inspectedOrder r))\<rparr>"
  by (simp add: markSourceInspected_def marked_def Let_def)

definition inspected_tables_ok :: "(ID \<times> NodeID list) list \<Rightarrow> ID list \<Rightarrow> bool" where
  "inspected_tables_ok sources order \<longleftrightarrow>
     distinct order \<and> distinct (map fst sources) \<and> set order = fst ` set sources \<and> length order \<le> maxInspectedIDs \<and>
     (\<forall>(pid, inspected) \<in> set sources. length inspected \<le> maxInspectedSources)"

lemma inspected_tables_update:
  assumes "inspected_tables_ok sources order" "pid \<in> set order" "length inspected \<le> maxInspectedSources"
  shows "inspected_tables_ok (AList.update pid inspected sources) order"
  using assms set_update_subset [of pid inspected sources]
  by (auto simp: inspected_tables_ok_def keys_update distinct_update)

lemma inspected_tables_new:
  assumes "inspected_tables_ok sources order" "pid \<notin> set order" "length order < maxInspectedIDs"
  shows "inspected_tables_ok (AList.update pid [] sources) (order @ [pid])"
  using assms set_update_subset [of pid "[]" sources]
  by (auto simp: inspected_tables_ok_def keys_update distinct_update)

lemma inspected_tables_evict:
  assumes "inspected_tables_ok sources order" "order \<noteq> []"
  shows "inspected_tables_ok (AList.delete (hd order) sources) (tl order)"
  using assms set_delete_subset [of "hd order" sources]
  by (cases order) (auto simp: inspected_tables_ok_def keys_delete distinct_delete)

lemma marked_ok:
  assumes "inspected_tables_ok sources order"
  shows "inspected_tables_ok (fst (marked pid source sources order)) (snd (marked pid source sources order))"
proof -
  let ?evict = "length order \<ge> maxInspectedIDs"
  let ?s1 = "if ?evict then AList.delete (hd order) sources else sources" and ?o1 = "if ?evict then tl order else order"
  let ?new = "map_of sources pid = None"
  let ?s = "if ?new then AList.update pid [] ?s1 else sources" and ?o = "if ?new then ?o1 @ [pid] else order"
  have keys: "set order = fst ` set sources" using assms by (simp add: inspected_tables_ok_def)
  have here: "inspected_tables_ok ?s ?o \<and> pid \<in> set ?o"
  proof (cases ?new)
    case True
    then have "pid \<notin> set order" using keys by (simp add: map_of_eq_None_iff)
    then have "pid \<notin> set ?o1" by (auto dest: list.set_sel(2) [rotated])
    moreover have "inspected_tables_ok ?s1 ?o1"
      using assms inspected_tables_evict [OF assms] by (cases "order = []") auto
    moreover have "length ?o1 < maxInspectedIDs" using assms by (auto simp: inspected_tables_ok_def)
    ultimately show ?thesis using True inspected_tables_new by simp
  next
    case False
    then show ?thesis using assms keys by (auto simp: map_of_eq_None_iff)
  qed
  define s1 o1 where "s1 = ?s" and "o1 = ?o"
  have eq: "marked pid source sources order =
      (if length (the (map_of s1 pid)) < maxInspectedSources
       then AList.update pid (List.insert source (the (map_of s1 pid))) s1 else s1, o1)"
    unfolding s1_def o1_def by (cases "map_of sources pid"; cases ?evict) (simp_all add: marked_def Let_def)
  have "inspected_tables_ok s1 o1" "pid \<in> set o1" using here by (simp_all add: s1_def o1_def)
  moreover have "length (List.insert source (the (map_of s1 pid))) \<le> maxInspectedSources"
    if "length (the (map_of s1 pid)) < maxInspectedSources" using that by (simp add: List.insert_def)
  ultimately show ?thesis unfolding eq by (auto intro: inspected_tables_update)
qed

lemma markSourceInspected_inv: "runtime_inv c r \<Longrightarrow> runtime_inv c (markSourceInspected pid source r)"
proof -
  assume inv: "runtime_inv c r"
  then have "inspected_tables_ok (rt_inspectedSources r) (rt_inspectedOrder r)"
    by (simp add: inv_defs inspected_tables_ok_def)
  from marked_ok [OF this, of pid source] show ?thesis
    unfolding markSourceInspected_marked
    by (intro inspected_inv [OF inv]) (simp add: inspected_ok_def inspected_tables_ok_def)
qed

lemma acq_markSourceInspected [simp]: "acq (markSourceInspected pid source r) = acq r"
  by (simp add: markSourceInspected_marked)

end
