(* ===== verification/Runtime_Steps.thy ===== *)
theory Runtime_Steps
  imports Runtime_Inv
begin

text \<open>
  Every handler, every tick and the start keep \<open>runtime_inv\<close>, so it holds in every reachable state. The lemmas
  follow the handlers: serving changes no table, accepting puts back the acquisition the packet answers or
  ends it, the tick expires requests and initiates when nothing is outstanding.
\<close>

section \<open>Serving\<close>

lemma snd_send_tables [simp]: "tables (snd (send now wire r)) = tables r"
  by (metis prod.collapse send_tables)

lemma serve_stored_tables: "tables (serve_stored e now encode packet r) = tables r"
  by (simp add: serve_stored_def split: sum.splits)

lemma serve_bits_tables: "tables (serve_bits e now packet req bs remaining r) = tables r"
proof (induction bs arbitrary: remaining r)
  case (Cons b bs)
  then show ?case
    by (auto simp: Let_def split: sum.splits prod.splits dest: send_tables)
qed simp

lemma serveChunks_tables: "tables (serveChunks e now packet r) = tables r"
  by (simp add: serveChunks_def serve_bits_tables split: sum.splits)

lemma serveSummary_tables: "tables (serveSummary e now packet r) = tables r"
  by (auto simp: serveSummary_def Let_def split: sum.splits prod.splits if_splits dest: send_tables)

section \<open>Accepting\<close>

lemma active_Some:
  assumes "runtime_inv c r" "active e k packet r = Some a"
  shows "acq r (aq_id a) = Some a" "acquisition_ok c a" "is_active e packet a"
proof -
  obtain pid where "acq r pid = Some a" "is_active e packet a"
    using assms(2) by (auto simp: active_def find_Some_iff split: option.splits)
  then show "acq r (aq_id a) = Some a" "acquisition_ok c a" "is_active e packet a"
    using inv_acq [OF assms(1)] by auto
qed

lemma active_fail_inv:
  "runtime_inv c r \<Longrightarrow> active e k packet r = Some a \<Longrightarrow> runtime_inv c (fail now a r)"
  by (rule fail_inv) (auto dest: active_Some simp: acquisition_ok_def)

lemma gn_DecodeManifest_ok:
  "gn_DecodeManifest packet pid = Inr m \<Longrightarrow> geometry m \<and> m_ID m = pid \<and> IDMatchesHash (m_ID m) (m_SHA256 m)"
  by (auto simp: gn_DecodeManifest_def DecodeManifest_iff manifest_of_def split: if_splits)

lemma acceptManifest_inv: "runtime_inv c r \<Longrightarrow> runtime_inv c (acceptManifest e now packet r)"
proof (cases "active e 1 packet r")
  case (Some a)
  assume inv: "runtime_inv c r"
  note a = active_Some [OF inv Some]
  have "runtime_inv c (put_acq (a\<lparr>aq_manifest := Some m, aq_manifestSource := s, aq_waiting := 0, aq_activeSource := 0,
      aq_nextAttempt := t\<rparr>) r)" if "gn_DecodeManifest packet (aq_id a) = Inr m" for m s t
    using inv a gn_DecodeManifest_ok [OF that]
    by (intro put_acq_inv) (auto simp: acquisition_ok_def acquisition_data_def request_shape_def)
  then show ?thesis using Some inv active_fail_inv [OF inv Some]
    by (auto simp: acceptManifest_def split: sum.splits)
qed (simp add: acceptManifest_def)

text \<open>A state that differs from one with the invariant outside the tables.\<close>

lemma rt_disk_simps [simp]:
  "rt_disk (set_disk fs r) = fs" "rt_disk (with_metrics g r) = rt_disk r" "rt_disk (with_controller f r) = rt_disk r"
  by (simp_all add: set_disk_def with_metrics_def with_controller_def)

lemma Begin_Inr_geometry:
  assumes "Begin c io m fs = (Inr a, fs')" "geometry m"
  shows "assembly_inv a" "a_Manifest a = m"
  using Begin_Inr [OF assms] by (simp_all add: mirrors_def)

lemma commit_new_inv:
  assumes "runtime_inv c r" "acq r (aq_id a) \<noteq> None" "acquisition_data c a"
  shows "runtime_inv c (commit_new e now a s r)"
proof -
  have "acquisition_data c (a\<lparr>aq_assembly := None\<rparr>)" using assms(3) by (auto simp: acquisition_data_def)
  then show ?thesis using assms
    by (auto simp: commit_new_def intro!: fail_inv committed_inv split: prod.splits sum.splits)
qed

lemma geometry_signed [simp]: "geometry (m\<lparr>m_Version := v, m_Signature := s\<rparr>) = geometry m"
  by (simp add: geometry_def)

lemma geometry_signed' [simp]: "geometry (m\<lparr>m_Signature := s, m_Version := v\<rparr>) = geometry m"
  by (simp add: geometry_def)

lemma accept_inspected_inv:
  assumes "runtime_inv (e_crypto e) r" "acq r (aq_id a) = Some a" "acquisition_ok (e_crypto e) a" "geometry m"
  shows "runtime_inv (e_crypto e) (accept_inspected e now a m r)"
proof -
  let ?c = "e_crypto e"
  have data: "acquisition_data ?c a" using assms(3) by (simp add: acquisition_ok_def)
  have fails: "runtime_inv ?c (fail now a (set_disk fs (with_metrics g (set_disk fs' r))))"
    "runtime_inv ?c (fail now a (set_disk fs r))" for fs fs' g
    using assms(1,2) data by (auto intro!: fail_inv)
  have deletes: "runtime_inv ?c (removeOrder pid (delete_acq pid (with_metrics g (set_disk fs r))))" for pid g fs
    using assms(1) by (intro delete_inv) simp
  have begun: "runtime_inv ?c (commit_new e now (a\<lparr>aq_assembly := Some s, aq_manifest := None, aq_manifestSource := 0\<rparr>) s
      (set_disk fs' (with_metrics g (set_disk fs r))))"
    "runtime_inv ?c (put_acq (a\<lparr>aq_assembly := Some s, aq_manifest := None, aq_manifestSource := 0, aq_waiting := 0,
        aq_failures := 0, aq_nextAttempt := t\<rparr>) (set_disk fs' (with_metrics g (set_disk fs r))))"
    if "Begin ?c (e_io e) m fs = (Inr s, fs')" "Accept ?c (e_io e) fs p m partial wanted"
    for s fs fs' g p partial wanted t
  proof -
    have v: "verified ?c s"
      using Begin_Inr_geometry [OF that(1) assms(4)] Accept_verifies [OF that(2)] by (simp add: verified_def)
    then show "runtime_inv ?c (commit_new e now (a\<lparr>aq_assembly := Some s, aq_manifest := None, aq_manifestSource := 0\<rparr>) s
      (set_disk fs' (with_metrics g (set_disk fs r))))"
      "runtime_inv ?c (put_acq (a\<lparr>aq_assembly := Some s, aq_manifest := None, aq_manifestSource := 0, aq_waiting := 0,
        aq_failures := 0, aq_nextAttempt := t\<rparr>) (set_disk fs' (with_metrics g (set_disk fs r))))"
      using assms(1,2) data
      by (auto intro!: commit_new_inv put_acq_inv simp: acquisition_ok_def acquisition_data_def request_shape_def)
  qed
  show ?thesis
  proof (cases "SaveKnown ?c (e_io e) m (rt_disk r)")
    case (Pair x fs)
    show ?thesis
    proof (cases x)
      case (Inl err)
      then show ?thesis using Pair fails by (simp add: accept_inspected_def)
    next
      case (Inr u)
      show ?thesis
        using Pair Inr fails deletes begun
        by (auto simp: accept_inspected_def Let_def split: prod.splits sum.splits)
    qed
  qed
qed

lemma acceptSignature_inv:
  assumes "runtime_inv (e_crypto e) r"
  shows "runtime_inv (e_crypto e) (acceptSignature e now packet r)"
proof (cases "active e 1 packet r")
  case (Some a)
  note a = active_Some [OF assms Some]
  show ?thesis
  proof (cases "aq_manifest a")
    case man: (Some m)
    then have "geometry m" using a(2) by (simp add: acquisition_ok_def acquisition_data_def)
    then have "runtime_inv (e_crypto e) (accept_inspected e now a (m\<lparr>m_Signature := sig, m_Version := v\<rparr>)
        (markSourceInspected pid source r))" for sig v pid source
      using a assms by (intro accept_inspected_inv markSourceInspected_inv) simp_all
    moreover have "runtime_inv (e_crypto e) (forget pid (markSourceInspected pid' source r))" for pid pid' source
      using assms by (intro forget_inv markSourceInspected_inv)
    ultimately show ?thesis using Some man assms active_fail_inv [OF assms Some]
      by (auto simp: acceptSignature_def Let_def split: sum.splits)
  qed (use Some assms in \<open>simp add: acceptSignature_def\<close>)
qed (use assms in \<open>simp add: acceptSignature_def\<close>)

lemma Store_Add_verified:
  assumes "Store_Add io s index data fs = (x, s', fs')" "verified c s"
  shows "verified c s'" "a_Manifest s' = a_Manifest s"
proof -
  have inv: "assembly_inv s" using assms(2) by (simp add: verified_def)
  from inv assms(1) have "assembly_inv s' \<and> a_Manifest s' = a_Manifest s"
  proof (cases rule: Store_Add_cases)
    case 3
    then show ?thesis
      using inv Add_inv [OF inv, of index data] Add_iff [OF inv, of index data] by auto
  qed (use inv in auto)
  then show "verified c s'" "a_Manifest s' = a_Manifest s" using assms(2) by (simp_all add: verified_def)
qed

lemma Restart_verified:
  assumes "Restart c io (a_Manifest s) fs = (Inr s', fs')" "verified k s"
  shows "verified k s'"
proof -
  obtain fs1 where "Begin c io (a_Manifest s) fs1 = (Inr s', fs')"
    using assms(1) by (auto simp: Restart_def)
  then show ?thesis using assms(2) Begin_Inr_geometry by (auto simp: verified_def assembly_inv_def)
qed

text \<open>The end of \<open>acceptChunk\<close>, once the chunk is in the assembly.\<close>

definition chunk_stored :: "env \<Rightarrow> instant \<Rightarrow> acquisition \<Rightarrow> Assembly \<Rightarrow> Runtime \<Rightarrow> Runtime" where
  "chunk_stored e now a assembly r =
     (if assembly_Complete assembly
      then (case Commit (e_crypto e) (e_io e) assembly (rt_disk r) of
             (Inl err, fs) \<Rightarrow>
               if err = HashMismatch
               then (case Restart (e_crypto e) (e_io e) (a_Manifest assembly) fs of
                       (Inl _, fs) \<Rightarrow> fail now a (set_disk fs r)
                     | (Inr restarted, fs) \<Rightarrow> fail now (a\<lparr>aq_assembly := Some restarted\<rparr>) (set_disk fs r))
               else fail now a (set_disk fs r)
           | (Inr _, fs) \<Rightarrow> committed e (aq_id a) (set_disk fs r))
      else if aq_wanted a = []
      then put_acq (a\<lparr>aq_waiting := 0, aq_failures := 0, aq_nextAttempt := now + 100 * Millisecond\<rparr>) r
      else put_acq a r)"

lemma acceptChunk_cases:
  assumes "active e 1 packet r = Some a"
  obtains "acceptChunk e now packet r = r"
  | "aq_waiting a = gnChunk" "aq_assembly a = None" "acceptChunk e now packet r = r\<lparr>rt_panic := True\<rparr>"
  | index data s err s' fs where "aq_waiting a = gnChunk" "gn_DecodeChunk packet = Inr (index, data)"
    "index \<in> set (aq_wanted a)" "aq_assembly a = Some s" "Store_Add (e_io e) s index data (rt_disk r) = (Inl err, s', fs)"
    "acceptChunk e now packet r = put_acq (a\<lparr>aq_assembly := Some s'\<rparr>) (set_disk fs r)"
  | index data s s' fs where "aq_waiting a = gnChunk" "gn_DecodeChunk packet = Inr (index, data)"
    "index \<in> set (aq_wanted a)" "aq_assembly a = Some s" "Store_Add (e_io e) s index data (rt_disk r) = (Inr (), s', fs)"
    "acceptChunk e now packet r =
       chunk_stored e now (a\<lparr>aq_assembly := Some s', aq_wanted := removeAll index (aq_wanted a)\<rparr>) s' (set_disk fs r)"
proof (cases "aq_waiting a = gnChunk")
  case False
  then show thesis using that(1) assms by (simp add: acceptChunk_def)
next
  case waiting: True
  show thesis
  proof (cases "gn_DecodeChunk packet")
    case (Inl err)
    then show thesis using that(1) assms waiting by (simp add: acceptChunk_def)
  next
    case (Inr c)
    obtain index data where c: "c = (index, data)" by (cases c)
    show thesis
    proof (cases "index \<in> set (aq_wanted a)")
      case False
      then show thesis using that(1) assms waiting Inr c by (simp add: acceptChunk_def)
    next
      case True
      note facts = assms waiting Inr [unfolded c] True
      show thesis
      proof (cases "aq_assembly a")
        case None
        then show thesis using that(2) facts by (simp add: acceptChunk_def)
      next
        case (Some s)
        obtain x s' fs where add: "Store_Add (e_io e) s index data (rt_disk r) = (x, s', fs)" by (rule prod_cases3)
        show thesis
        proof (cases x)
          case (Inl err)
          show thesis
            by (rule that(3) [OF waiting facts(3,4) Some add [unfolded Inl]])
               (use facts Some add Inl in \<open>simp add: acceptChunk_def\<close>)
        next
          case (Inr u)
          then have stored: "Store_Add (e_io e) s index data (rt_disk r) = (Inr (), s', fs)" using add by simp
          show thesis
            by (rule that(4) [OF waiting facts(3,4) Some stored])
               (use facts Some stored in \<open>simp add: acceptChunk_def chunk_stored_def Let_def\<close>)
        qed
      qed
    qed
  qed
qed

lemma chunk_stored_inv:
  assumes "runtime_inv (e_crypto e) r" "acq r (aq_id a) = Some old" "acquisition_ok (e_crypto e) a"
    and "verified (e_crypto e) s" "aq_waiting old = aq_waiting a" "aq_assembly a = Some s"
  shows "runtime_inv (e_crypto e) (chunk_stored e now a s r)"
proof -
  let ?c = "e_crypto e"
  have data: "acquisition_data ?c a" using assms(3) by (simp add: acquisition_ok_def)
  have "acquisition_data ?c (a\<lparr>aq_assembly := Some s'\<rparr>)"
    if "Restart ?c (e_io e) (a_Manifest s) fs = (Inr s', fs')" for s' fs fs'
    using data Restart_verified [OF that assms(4)] by (simp add: acquisition_data_def)
  then have fails: "runtime_inv ?c (fail now (a\<lparr>aq_assembly := Some s'\<rparr>) (set_disk fs' r))"
    if "Restart ?c (e_io e) (a_Manifest s) fs = (Inr s', fs')" for s' fs fs'
    using assms(1,2) that by (intro fail_inv) auto
  have failed: "runtime_inv ?c (fail now a (set_disk fs r))" for fs
    using assms(1,2) data by (intro fail_inv) simp_all
  have "runtime_inv ?c (put_acq (a\<lparr>aq_waiting := 0, aq_failures := 0, aq_nextAttempt := t\<rparr>) r)" for t
    using assms(1,2) data
    by (intro put_acq_inv) (auto simp: acquisition_ok_def acquisition_data_def request_shape_def)
  moreover have "runtime_inv ?c (put_acq a r)" using assms by (intro put_acq_inv [of ?c r a old]) simp_all
  moreover have "runtime_inv ?c (committed e pid (set_disk fs r))" for pid fs
    using assms(1) by (intro committed_inv) simp
  ultimately show ?thesis using fails failed
    by (simp add: chunk_stored_def split: prod.splits sum.splits)
qed

lemma acceptChunk_inv:
  assumes "runtime_inv (e_crypto e) r"
  shows "runtime_inv (e_crypto e) (acceptChunk e now packet r)"
proof (cases "active e 1 packet r")
  case (Some a)
  let ?c = "e_crypto e"
  note a = active_Some [OF assms Some]
  have v: "verified ?c s" if "aq_assembly a = Some s" for s
    using a(2) that by (simp add: acquisition_ok_def acquisition_data_def)
  show ?thesis
  proof (cases rule: acceptChunk_cases [OF Some, of now])
    case 2
    then show ?thesis using a(2) by (simp add: acquisition_ok_def request_shape_def)
  next
    case (3 index data s err s' fs)
    have "verified ?c s'" using Store_Add_verified(1) [OF 3(5) v [OF 3(4)]] .
    then show ?thesis unfolding 3(6) using assms a 3(1,4)
      by (intro put_acq_inv) (auto simp: acquisition_ok_def acquisition_data_def request_shape_def)
  next
    case (4 index data s s' fs)
    have "verified ?c s'" using Store_Add_verified(1) [OF 4(5) v [OF 4(4)]] .
    then show ?thesis unfolding 4(6) using assms a 4(1,4)
      by (intro chunk_stored_inv) (auto simp: acquisition_ok_def acquisition_data_def request_shape_def)
  qed (use assms in simp)
qed (use assms in \<open>simp add: acceptChunk_def\<close>)

section \<open>Reconciliation\<close>

lemma handleRootSummary_inv: "runtime_inv c r \<Longrightarrow> runtime_inv c (handleRootSummary e now packet r)"
  by (auto simp: handleRootSummary_def Let_def intro!: queue_all_inv track_peer_inv split: sum.splits)

lemma acceptSummary_inv: "runtime_inv c r \<Longrightarrow> runtime_inv c (acceptSummary e now packet r)"
  by (auto simp: acceptSummary_def Let_def intro!: inactive_inv queue_all_inv split: sum.splits option.splits)

lemma schedule_candidate_inv:
  assumes "runtime_inv c r" and first: "\<And>r t r'. first r = (t, r') \<Longrightarrow> tables r' = tables r"
  shows "runtime_inv c (schedule_candidate pid source first r)"
proof (cases "addCandidate pid source r")
  case (Pair x r1)
  have r1: "runtime_inv c r1" using assms(1) Pair by (rule addCandidate_inv)
  show ?thesis
  proof (cases x)
    case (Some a)
    note a = addCandidate_acq [OF assms(1) Pair [unfolded Some]]
    obtain t r2 where t: "first r1 = (t, r2)" by fastforce
    have r2: "runtime_inv c r2" "acq r2 pid = Some a"
      using r1 a(1) tables_eq_inv [OF first [OF t]] tables_acq [OF first [OF t]] by simp_all
    have "runtime_inv c (put_acq (a\<lparr>aq_nextAttempt := t\<rparr>) r2)"
      using r2 a by (intro put_acq_inv) (auto simp: acquisition_ok_def acquisition_data_def request_shape_def)
    then show ?thesis using Pair Some t r1 by (simp add: schedule_candidate_def)
  qed (use Pair r1 in \<open>simp add: schedule_candidate_def\<close>)
qed

lemma leaf_id_inv: "runtime_inv c r \<Longrightarrow> runtime_inv c (leaf_id e now source pid r)"
  by (auto simp: leaf_id_def Let_def intro!: schedule_candidate_inv dest: draw_tables split: prod.splits)

lemma fold_inv: "(\<And>x r. runtime_inv c r \<Longrightarrow> runtime_inv c (f x r)) \<Longrightarrow> runtime_inv c r \<Longrightarrow> runtime_inv c (fold f xs r)"
  by (induction xs arbitrary: r) auto

lemma acceptLeaf_inv: "runtime_inv c r \<Longrightarrow> runtime_inv c (acceptLeaf e now packet r)"
  by (auto simp: acceptLeaf_def Let_def intro!: inactive_inv fold_inv leaf_id_inv split: sum.splits option.splits)

section \<open>Incoming packets\<close>

lemma handleAddressed_inv:
  "runtime_inv (e_crypto e) r \<Longrightarrow> runtime_inv (e_crypto e) (handleAddressed e now packet r)"
  using tables_eq_inv [OF serve_stored_tables] tables_eq_inv [OF serveChunks_tables] tables_eq_inv [OF serveSummary_tables]
  by (simp add: handleAddressed_def Let_def acceptManifest_inv acceptSignature_inv acceptChunk_inv acceptSummary_inv
      acceptLeaf_inv serveManifest_def serveSignature_def)

lemma handleIncoming_inv:
  "runtime_inv (e_crypto e) r \<Longrightarrow> runtime_inv (e_crypto e) (handleIncoming e now rx r)"
  by (simp add: handleIncoming_def observe_packet_def Let_def handleRootSummary_inv handleAddressed_inv split: sum.splits)

section \<open>The tick\<close>

lemma nothing_outstanding_tables: "tables r' = tables r \<Longrightarrow> nothing_outstanding r' = nothing_outstanding r"
  using tables_eq_fields(1,4) [of r' r] by (simp add: nothing_outstanding_def hasOutstandingAcquisition_def)

lemma request_inv:
  assumes "runtime_inv c r" "acq r (aq_id a) \<noteq> None" "nothing_outstanding r" "acquisition_data c a"
    and "kind = gnManifest \<and> aq_manifest a = None \<and> aq_assembly a = None \<or>
      kind = gnSignature \<and> aq_manifest a \<noteq> None \<and> aq_assembly a = None \<or> kind = gnChunk \<and> aq_assembly a \<noteq> None"
  shows "runtime_inv c (request e now a wire kind count r)"
proof (cases "send now wire r")
  case (Pair ok r1)
  note t1 = send_tables [OF Pair]
  show ?thesis
  proof (cases ok)
    case True
    obtain t r2 where t: "time_Now (with_metrics count r1) = (t, r2)" by fastforce
    have t2: "tables r2 = tables r" using time_Now_tables [OF t] t1 by simp
    have "acquisition_ok c (a\<lparr>aq_waiting := kind, aq_deadline := d\<rparr>)" for d
      using assms(4,5) by (auto simp: acquisition_ok_def acquisition_data_def request_shape_def)
    then have "runtime_inv c (put_acq (a\<lparr>aq_waiting := kind, aq_deadline := d\<rparr>) r2)" for d
      using assms tables_eq_inv [OF t2] tables_acq [OF t2] nothing_outstanding_tables [OF t2]
      by (intro put_request_inv) simp_all
    then show ?thesis using Pair True t by (simp add: request_def)
  next
    case False
    have "runtime_inv c (fail now a r1)"
      using assms tables_eq_inv [OF t1] tables_acq [OF t1] by (intro fail_inv) simp_all
    then show ?thesis using Pair False by (simp add: request_def)
  qed
qed

lemma acquisition_data_updates [simp]:
  "acquisition_data c (a\<lparr>aq_sourceCursor := i\<rparr>) = acquisition_data c a"
  "acquisition_data c (a\<lparr>aq_activeSource := s\<rparr>) = acquisition_data c a"
  "acquisition_data c (a\<lparr>aq_transaction := t\<rparr>) = acquisition_data c a"
  "acquisition_data c (a\<lparr>aq_wanted := w\<rparr>) = acquisition_data c a"
  "acquisition_data c (a\<lparr>aq_cursor := k\<rparr>) = acquisition_data c a"
  by (simp_all add: acquisition_data_def)

lemma prepared_fields [simp]:
  "aq_id (prepared a t) = aq_id a" "aq_assembly (prepared a t) = aq_assembly a"
  "aq_manifest (prepared a t) = aq_manifest a" "aq_waiting (prepared a t) = aq_waiting a"
  "acquisition_data c (prepared a t) = acquisition_data c a" "aq_sources (prepared a t) = aq_sources a"
  "aq_transaction (prepared a t) = t" "aq_cursor (prepared a t) = aq_cursor a" "aq_wanted (prepared a t) = aq_wanted a"
  by (simp_all add: prepared_def Let_def acquisition_data_def)

lemma initiate_inv:
  assumes "runtime_inv c r" "acq r (aq_id a) = Some a" "aq_sources a \<noteq> []" "nothing_outstanding r" "aq_waiting a = 0"
  shows "runtime_inv c (initiate e now a r)"
proof -
  let ?r = "r\<lparr>rt_tx := rt_tx r + 1\<rparr>" and ?a = "prepared a (rt_tx r + 1)"
  have data: "acquisition_data c a" using inv_acq [OF assms(1,2)] by (simp add: acquisition_ok_def)
  have ok: "acquisition_ok c ?a" using data assms(5) by (simp add: acquisition_ok_def request_shape_def)
  have no: "nothing_outstanding ?r" "nothing_outstanding (?r\<lparr>rt_controller := k\<rparr>)" for k
    using assms(4) nothing_outstanding_tables [of "?r" r] nothing_outstanding_tables [of "?r\<lparr>rt_controller := k\<rparr>" r] by simp_all
  have "runtime_inv c (put_acq ?a ?r)" using assms(1,2,5) ok by (intro put_acq_inv [of c ?r ?a a]) simp_all
  moreover have "runtime_inv c (request e now ?a w kind count ?r)"
    if "aq_assembly a = None" "kind = gnManifest \<and> aq_manifest a = None \<or> kind = gnSignature \<and> aq_manifest a \<noteq> None"
    for w kind count
    using assms(1,2) no data that by (intro request_inv) auto
  moreover have "runtime_inv c (request e now (?a\<lparr>aq_wanted := ch, aq_cursor := k\<rparr>) w gnChunk count (?r\<lparr>rt_controller := ctl\<rparr>))"
    if "aq_assembly a \<noteq> None" for w count ctl ch k
    using assms(1,2) no data that by (intro request_inv) auto
  ultimately show ?thesis
    using assms(3) unfolding initiate_def Let_def by (auto split: option.splits prod.splits)
qed

lemma nextWork_Some:
  assumes "nextWork now r = (Some a, r')" "runtime_inv c r"
  shows "acq r (aq_id a) = Some a" "aq_waiting a = 0" "aq_sources a \<noteq> []" "aq_nextAttempt a \<le> now"
    "\<exists>w. r' = r\<lparr>rt_workCursor := w\<rparr>"
proof -
  let ?P = "\<lambda>offset. case acq r (rt_order r ! ((rt_workCursor r + offset) mod length (rt_order r))) of None \<Rightarrow> False
     | Some a \<Rightarrow> aq_waiting a = 0 \<and> length (aq_sources a) > 0 \<and> \<not> now < aq_nextAttempt a"
  obtain offset where f: "find ?P [0..<length (rt_order r)] = Some offset"
    and a: "acq r (rt_order r ! ((rt_workCursor r + offset) mod length (rt_order r))) = Some a"
    and r': "\<exists>w. r' = r\<lparr>rt_workCursor := w\<rparr>"
    using assms(1) by (auto simp: nextWork_def Let_def split: if_splits option.splits)
  have "?P offset" using f unfolding find_Some_iff by blast
  then show "acq r (aq_id a) = Some a" "aq_waiting a = 0" "aq_sources a \<noteq> []" "aq_nextAttempt a \<le> now"
    using a inv_acq(1) [OF assms(2) a] by auto
  show "\<exists>w. r' = r\<lparr>rt_workCursor := w\<rparr>" by (rule r')
qed

lemma nextWork_tables: "nextWork now r = (x, r') \<Longrightarrow> tables r' = tables r"
  by (auto simp: nextWork_def Let_def split: if_splits option.splits)

lemma length_around_dropWhile:
  "dropWhile P xs = y # ys \<Longrightarrow> length (takeWhile P xs @ ys) < length xs"
  using takeWhile_dropWhile_id [of P xs] by (metis length_append length_Cons add_Suc_right lessI)

lemma initiateReconcile_inv:
  assumes "runtime_inv c r"
  shows "runtime_inv c (snd (initiateReconcile e now r))"
proof (cases "nothing_outstanding r \<and> dropWhile (\<lambda>job. now < rj_nextAttempt job) (rt_reconcileQueue r) \<noteq> []")
  case False
  then show ?thesis using assms
    by (auto simp: initiateReconcile_def nothing_outstanding_def simp del: dropWhile_eq_Nil_conv)
next
  case True
  let ?P = "\<lambda>job. now < rj_nextAttempt job"
  obtain job rest where q: "dropWhile ?P (rt_reconcileQueue r) = job # rest" using True by (cases "dropWhile ?P (rt_reconcileQueue r)") auto
  let ?q = "takeWhile ?P (rt_reconcileQueue r) @ rest"
  let ?r = "r\<lparr>rt_reconcileQueue := ?q, rt_tx := rt_tx r + 1\<rparr>"
  have short: "length ?q < maxReconcileJobs" using length_around_dropWhile [OF q] assms by (simp add: inv_defs)
  have inv: "runtime_inv c ?r" using queue_inv [OF assms, of ?q] short by simp
  have appended: "runtime_inv c (s\<lparr>rt_reconcileQueue := rt_reconcileQueue s @ [j]\<rparr>)" if "tables s = tables ?r" for s j
    using tables_eq_inv [OF that, of c] tables_eq_fields(3) [OF that] inv short
    by (intro queue_inv) simp_all
  have started: "runtime_inv c (s\<lparr>rt_reconcileActive := Some j\<rparr>)" if "tables s = tables ?r" for s j
  proof -
    have "\<not> hasOutstandingAcquisition s" "acq s = acq ?r"
      using True tables_eq_fields(1) [OF that] tables_acq [OF that]
      by (simp_all add: nothing_outstanding_def hasOutstandingAcquisition_def)
    moreover have "runtime_inv c s" using tables_eq_inv [OF that] inv by simp
    ultimately show ?thesis unfolding runtime_inv_def
      by (auto simp: tables_ok_def peers_ok_def inspected_ok_def one_outstanding_def hasOutstanding_iff)
  qed
  show ?thesis
  proof (cases "EncodeSummaryRequest (node_id e) (rj_peer job) (rt_tx r + 1) (rj_generation job) (rj_prefix job)")
    case (Inl err)
    then show ?thesis using True q inv by (simp add: initiateReconcile_def nothing_outstanding_def Let_def)
  next
    case (Inr wire)
    obtain ok r1 where s: "send now wire ?r = (ok, r1)" by fastforce
    note t1 = send_tables [OF s]
    show ?thesis
    proof (cases ok)
      case True
      obtain t r2 where t: "time_Now r1 = (t, r2)" by fastforce
      then have "tables r2 = tables ?r" using time_Now_tables t1 by simp
      then show ?thesis using True q Inr s t started \<open>nothing_outstanding r \<and> _\<close>
        by (simp add: initiateReconcile_def nothing_outstanding_def Let_def)
    next
      case False
      let ?n = "Backoff (int (rj_failures job + 1)) div 2 + 1"
      obtain v r2 where d: "draw ?n r1 = (v, r2)" by fastforce
      then have "tables r2 = tables ?r" using draw_tables t1 by simp
      then show ?thesis using False q Inr s d appended \<open>nothing_outstanding r \<and> _\<close>
        by (simp add: initiateReconcile_def nothing_outstanding_def Let_def)
    qed
  qed
qed

lemma advertise_tables: "tables (advertise e now r) = tables r"
proof -
  obtain x r1 where f: "refreshInventory e r = (x, r1)" by fastforce
  have t: "tables (r2\<lparr>rt_nextAdvertise := i\<rparr>) = tables r" if "send now wire r1 = (ok, r2)" for wire ok r2 i
    using send_tables [OF that] refreshInventory_tables [OF f] by simp
  show ?thesis using f refreshInventory_tables [OF f]
    by (cases x) (auto simp: advertise_def Let_def split: prod.splits if_splits dest: t)
qed

lemma expire_acquisition_inv: "runtime_inv c r \<Longrightarrow> runtime_inv c (expire_acquisition now pid r)"
  by (auto simp: expire_acquisition_def acquisition_ok_def dest: inv_acq intro!: fail_inv split: option.splits)

lemma expire_reconcile_inv:
  assumes "runtime_inv c r"
  shows "runtime_inv c (expire_reconcile now r)"
proof (cases "rt_reconcileActive r")
  case (Some job)
  let ?r = "r\<lparr>rt_reconcileActive := None\<rparr>" and ?n = "Backoff (int (rj_failures job + 1)) div 2 + 1"
  obtain v r1 where d: "draw ?n ?r = (v, r1)" by fastforce
  have r1: "runtime_inv c r1" using draw_inv [OF d] inactive_inv [OF assms] by simp
  then have "runtime_inv c (r1\<lparr>rt_reconcileQueue := rt_reconcileQueue r1 @ [j]\<rparr>)"
    if "length (rt_reconcileQueue r1) < maxReconcileJobs" for j
    using that by (intro queue_inv) simp_all
  then show ?thesis using Some assms d r1 by (simp add: expire_reconcile_def Let_def)
qed (use assms in \<open>simp add: expire_reconcile_def\<close>)

lemma log_metrics_tables [simp]: "tables (log_metrics e now r) = tables r"
  by (simp add: log_metrics_def Let_def)

lemma initiate_something_inv:
  assumes "runtime_inv c r"
  shows "runtime_inv c (initiate_something e now r)"
proof (cases "CanInitiate now (rt_controller r)")
  case (Pair may k)
  let ?r = "r\<lparr>rt_controller := k\<rparr>"
  have inv: "runtime_inv c ?r" using assms by simp
  let ?first = "if rt_preferReconcile ?r then initiateReconcile e now ?r else (False, ?r)"
  obtain done1 r1 where r1: "?first = (done1, r1)" by fastforce
  have inv1: "runtime_inv c r1" using r1 inv initiateReconcile_inv [OF inv, of e now] by (auto split: if_splits)
  have no1: "nothing_outstanding r1" if "\<not> done1" "nothing_outstanding ?r"
    using r1 that by (auto simp: initiateReconcile_def Let_def nothing_outstanding_def hasOutstandingAcquisition_def
        split: if_splits list.splits sum.splits prod.splits bool.splits)
  obtain x r2 where w: "nextWork now r1 = (x, r2)" by fastforce
  note t2 = nextWork_tables [OF w]
  have inv2: "runtime_inv c r2" using tables_eq_inv [OF t2] inv1 by simp
  have work: "runtime_inv c (initiate e now a r2)" if "x = Some a" "\<not> done1" "nothing_outstanding ?r" for a
    using nextWork_Some [OF w [unfolded that(1)] inv1] inv2 no1 [OF that(2,3)] nothing_outstanding_tables [OF t2]
      tables_acq [OF t2] by (intro initiate_inv) simp_all
  have "runtime_inv c (snd (initiateReconcile e now r2))" using inv2 by (rule initiateReconcile_inv)
  then show ?thesis
    using Pair inv inv1 r1 w work inv2 tables_eq_inv [OF advertise_tables, of c e now ?r]
    by (auto simp: initiate_something_def Let_def nothing_outstanding_def split: prod.splits option.splits if_splits)
qed

lemma onTick_inv: "runtime_inv c r \<Longrightarrow> runtime_inv c (onTick e now r)"
  unfolding onTick_def Let_def
  by (intro initiate_something_inv) (simp add: tables_eq_inv [OF log_metrics_tables] expire_reconcile_inv
      fold_inv expire_acquisition_inv)

section \<open>Start, and all reachable states\<close>

lemma fresh_runtime_inv: "runtime_inv c (fresh_runtime k fs radio clock)"
  by (simp add: fresh_runtime_def Intn_def inv_defs acq_def)

lemma addCandidate_idle: "runtime_inv c r \<Longrightarrow> all_idle r \<Longrightarrow> addCandidate pid source r = (x, r') \<Longrightarrow> all_idle r'"
  by (auto simp: all_idle_def addCandidate_def Let_def acq_put_acq split: option.splits if_splits)

text \<open>Nothing waits for an answer while the node starts.\<close>

lemma resume_partial_inv:
  assumes "runtime_inv (e_crypto e) r \<and> all_idle r"
  shows "runtime_inv (e_crypto e) (resume_partial e pid r) \<and> all_idle (resume_partial e pid r)"
proof (cases "LoadPartial (e_crypto e) (e_io e) pid (rt_disk r)")
  case (Pair x fs)
  have idle: "all_idle (set_disk fs' r)" for fs' using assms by (simp add: all_idle_def)
  have add: "runtime_inv (e_crypto e) (snd (addCandidate pid 0 (set_disk fs' r))) \<and>
      all_idle (snd (addCandidate pid 0 (set_disk fs' r)))" for fs'
    using addCandidate_inv [of "e_crypto e" "set_disk fs' r" pid 0] addCandidate_idle [of "e_crypto e" "set_disk fs' r" pid 0]
      assms idle by (metis prod.collapse runtime_inv_simps(3))
  show ?thesis
  proof (cases x)
    case (Inl err)
    then show ?thesis using Pair add by (simp add: resume_partial_def)
  next
    case (Inr s)
    then obtain m where m: "manifest_ok m" "Begin (e_crypto e) (e_io e) m (rt_disk r) = (Inr s, fs)"
      using Pair by (auto simp: LoadPartial_def dest: readManifest_Inr split: sum.splits)
    have s: "assembly_inv s" using Begin_Inr_geometry [OF m(2)] m(1) by (simp add: manifest_ok_def)
    obtain y r1 where y: "addCandidate pid 0 (set_disk fs r) = (y, r1)" by fastforce
    have inv: "runtime_inv (e_crypto e) (set_disk fs r)" using assms by simp
    obtain q where q: "y = Some q" using y by (auto simp: addCandidate_def Let_def split: option.splits)
    note a = addCandidate_acq [OF inv y [unfolded q]]
    have r1: "runtime_inv (e_crypto e) r1" "all_idle r1" using addCandidate_inv [OF inv y] addCandidate_idle [OF inv idle y] .
    then have w: "aq_waiting q = 0" using a(1) by (simp add: all_idle_def)
    have "runtime_inv (e_crypto e) (put_acq (q\<lparr>aq_assembly := Some s\<rparr>) r1)" if "VerifyManifestSignature (e_crypto e) (a_Manifest s) = Inr ()"
      using r1 a that s w by (intro put_acq_inv) (auto simp: acquisition_ok_def acquisition_data_def request_shape_def verified_def)
    moreover have "all_idle (put_acq (q\<lparr>aq_assembly := Some s\<rparr>) r1)"
      using r1(2) w by (simp add: all_idle_def acq_put_acq)
    ultimately show ?thesis using Pair Inr y q inv idle
      by (auto simp: resume_partial_def Let_def dest: Accept_verifies)
  qed
qed

lemma NewRuntime_form:
  assumes "NewRuntime e k now fs radio clock = Inr r"
  obtains r0 partial wanted ctl t i where "refreshInventory e (fresh_runtime k fs radio clock) = (Inr (), r0)"
    "PartialIDs (e_io e) (rt_disk r0) = Inr partial"
    "WantedIDs (e_crypto e) (e_io e) (rt_disk (fold (resume_partial e) partial r0)) = Inr wanted"
    "r = (fold (\<lambda>pid r. snd (addCandidate pid 0 r)) wanted (fold (resume_partial e) partial r0))
       \<lparr>rt_controller := ctl, rt_nextAdvertise := t, rt_nextLog := i\<rparr>"
    "node_id e \<noteq> 0" "node_id e \<noteq> Broadcast"
proof -
  obtain u r0 where f: "refreshInventory e (fresh_runtime k fs radio clock) = (u, r0)" by fastforce
  then have "u = Inr ()" using assms by (cases u) (auto simp: NewRuntime_def split: if_splits)
  then show thesis using assms f that
    by (auto simp: NewRuntime_def Let_def case_prod_unfold split: if_splits)
qed

lemma NewRuntime_inv:
  assumes "NewRuntime e k now fs radio clock = Inr r"
  shows "runtime_inv (e_crypto e) r"
proof -
  let ?c = "e_crypto e"
  from assms obtain r0 partial wanted ctl t i where
    r0: "refreshInventory e (fresh_runtime k fs radio clock) = (Inr (), r0)" and
    r: "r = (fold (\<lambda>pid r. snd (addCandidate pid 0 r)) wanted (fold (resume_partial e) partial r0))
       \<lparr>rt_controller := ctl, rt_nextAdvertise := t, rt_nextLog := i\<rparr>"
    by (rule NewRuntime_form)
  have "runtime_inv ?c r0" using tables_eq_inv [OF refreshInventory_tables [OF r0]] fresh_runtime_inv by simp
  moreover have "acq r0 = acq (fresh_runtime k fs radio clock)" by (rule tables_acq) (rule refreshInventory_tables [OF r0])
  then have "all_idle r0" by (simp add: all_idle_def acq_def fresh_runtime_def Intn_def)
  ultimately have "runtime_inv ?c r0 \<and> all_idle r0" ..
  then have "runtime_inv ?c (fold (resume_partial e) partial r0) \<and> all_idle (fold (resume_partial e) partial r0)"
    by (induction partial arbitrary: r0) (simp_all add: resume_partial_inv)
  then have "runtime_inv ?c (fold (resume_partial e) partial r0)" ..
  then have "runtime_inv ?c (fold (\<lambda>pid r. snd (addCandidate pid 0 r)) wanted (fold (resume_partial e) partial r0))"
    by (rule fold_inv [rotated]) (metis addCandidate_inv prod.collapse)
  then show ?thesis unfolding r by simp
qed

lemma run_event_inv: "runtime_inv (e_crypto e) r \<Longrightarrow> runtime_inv (e_crypto e) (run_event e ev r)"
  by (cases ev) (simp_all add: onTick_inv handleIncoming_inv)

lemma reachable_inv: "reachable c cfg r \<Longrightarrow> runtime_inv c r"
proof (induction rule: reachable.induct)
  case (start io iter ctl now fs radio clock r)
  then show ?case using NewRuntime_inv by fastforce
next
  case (step r io iter ev)
  then show ?case using run_event_inv [of "\<lparr>e_crypto = c, e_cfg = default_config cfg, e_io = io, e_iter = iter\<rparr>"] by simp
qed

end
