(* ===== verification/Runtime_Examples.thy ===== *)
theory Runtime_Examples
  imports Runtime_Steps
begin

text \<open>
  Concrete nodes for the witnesses: a configuration, a node started on an empty store, and one started on a
  store that holds a partial publication, which it takes up again.
\<close>

definition example_policy :: AcquisitionPolicy where
  "example_policy = \<lparr>ap_MaxAutoSize = 0, ap_HasMaxSize = False, ap_Signature = SignaturePermissive, ap_HasTrust = False\<rparr>"

definition example_config :: NodeConfig where
  "example_config = \<lparr>nc_ID = 7, nc_AdvertiseInterval = 0, nc_StartupBackoff = 0, nc_ResponseTimeout = 0, nc_PollInterval = 0,
     nc_LogInterval = 0, nc_ReplyGap = 0, nc_Policy = example_policy\<rparr>"

definition example_env :: env where
  "example_env = \<lparr>e_crypto = toy_crypto, e_cfg = default_config example_config, e_io = no_faults, e_iter = \<lambda>_ ks. ks\<rparr>"

lemma example_env_simps [simp]:
  "e_crypto example_env = toy_crypto" "e_io example_env = no_faults" "e_iter example_env = (\<lambda>_ ks. ks)"
  "node_id example_env = 7" "nc_ResponseTimeout (e_cfg example_env) = 3000000000"
  by (simp_all add: example_env_def default_config_def example_config_def)

lemma ReadDir_empty: "ReadDir no_faults [] d = (if d = [] then Inr [] else Inl NotExist)"
  by (simp add: ReadDir_def is_dir_def lookup_def)

lemma list_ids_empty: "d \<noteq> [] \<Longrightarrow> list_ids no_faults [] d f = Inr []"
  by (simp add: list_ids_def ReadDir_empty)

lemma example_start_idle:
  "\<exists>r. reachable toy_crypto example_config r \<and> rt_acquisitions r = [] \<and> rt_completeIDs r = [] \<and> rt_sent r = []"
proof -
  have ids: "IDs toy_crypto no_faults [] = Inr []" "PartialIDs no_faults [] = Inr []" "WantedIDs toy_crypto no_faults [] = Inr []"
    by (simp_all add: IDs_def PartialIDs_def WantedIDs_def KnownIDs_def list_ids_empty)
  have "rt_disk (fresh_runtime k fs radio clock) = fs" for k fs radio clock
    by (simp add: fresh_runtime_def Intn_def)
  then have "\<exists>r. NewRuntime example_env (NewController (sconst 0)) 1 [] (sconst True) (sconst 1) = Inr r \<and>
      rt_acquisitions r = [] \<and> rt_completeIDs r = [] \<and> rt_sent r = []"
    by (simp add: NewRuntime_def refreshInventory_def ids Let_def case_prod_unfold)
       (simp add: fresh_runtime_def Intn_def)
  then show ?thesis unfolding example_env_def by (blast intro: reachable.start)
qed

lemma example_reachable: "\<exists>r. reachable toy_crypto example_config r \<and> rt_acquisitions r = []"
  using example_start_idle by blast

text \<open>A disk with one partial publication, opened and nothing received.\<close>

definition partial_disk :: "Manifest \<Rightarrow> disk" where
  "partial_disk m = [([str ''partial''], Dir), (partialDir (m_ID m), Dir), (chunks_dir (m_ID m), Dir),
     (manifest_file (partialDir (m_ID m)), File 384 (encoded_manifest toy_crypto m))]"

lemma partial_disk_lookup:
  "lookup (partial_disk m) [str ''partial''] = Some Dir"
  "lookup (partial_disk m) (partialDir (m_ID m)) = Some Dir"
  "lookup (partial_disk m) (chunks_dir (m_ID m)) = Some Dir"
  "lookup (partial_disk m) (manifest_file (partialDir (m_ID m))) = Some (File 384 (encoded_manifest toy_crypto m))"
  "lookup (partial_disk m) (want_file pid) = None"
  "lookup (partial_disk m) (chunk_file pid i) = None"
  by (simp_all add: partial_disk_def lookup_def path_defs chunks_dir_def str_def)

lemma partial_disk_ids:
  "IDs toy_crypto no_faults (partial_disk m) = Inr []"
  "WantedIDs toy_crypto no_faults (partial_disk m) = Inr []"
  "PartialIDs no_faults (partial_disk m) = Inr [m_ID m]"
proof -
  have none: "lookup (partial_disk m) [str ''objects''] = None" "lookup (partial_disk m) [str ''known''] = None"
    by (simp_all add: partial_disk_def lookup_def path_defs chunks_dir_def str_def)
  show "IDs toy_crypto no_faults (partial_disk m) = Inr []" "WantedIDs toy_crypto no_faults (partial_disk m) = Inr []"
    by (simp_all add: IDs_def WantedIDs_def KnownIDs_def list_ids_def ReadDir_def is_dir_def none)
  have "filter (\<lambda>q. q \<noteq> [] \<and> butlast q = [str ''partial'']) (map fst (partial_disk m)) = [partialDir (m_ID m)]"
    by (simp add: partial_disk_def path_defs chunks_dir_def str_def)
  then have "ReadDir no_faults (partial_disk m) [str ''partial''] = Inr [(ID_String (m_ID m), True)]"
    using partial_disk_lookup(1,2) by (simp add: ReadDir_def is_dir_def) (simp add: partialDir_def)
  then show "PartialIDs no_faults (partial_disk m) = Inr [m_ID m]"
    by (simp add: PartialIDs_def list_ids_def HasPartial_def Stat_def partial_disk_lookup)
qed

lemma partial_disk_Begin:
  assumes "safe_name (m_Filename m)"
  shows "Begin toy_crypto no_faults m (partial_disk m) = (Inr (NewAssembly m), partial_disk m)"
proof -
  have dirs: "MkdirAll no_faults (chunks_dir (m_ID m)) (partial_disk m) = (Inr (), partial_disk m)"
    using partial_disk_lookup(1-3) [of m] by (simp add: MkdirAll_def chunks_dir_def partialDir_def)
  have "load_chunks no_faults (partial_disk m) [0..<unat (m_ChunkCount m)] (NewAssembly m) = Inr (NewAssembly m)"
    by (rule load_chunks_fresh) (simp add: partial_disk_lookup)
  moreover have "ReadFile no_faults (partial_disk m) (manifest_file (partialDir (m_ID m))) = Inr (encoded_manifest toy_crypto m)"
    by (simp add: partial_disk_lookup)
  ultimately show ?thesis using assms dirs
    by (simp add: Begin_def safe_name_def and_then_def chunks_dir_def del: ReadFile_Inr_iff)
qed

lemma partial_disk_LoadPartial:
  assumes "manifest_ok m" "stored_version m" "utf8_valid (m_Filename m)" "safe_name (m_Filename m)"
  shows "LoadPartial toy_crypto no_faults (m_ID m) (partial_disk m) = (Inr (NewAssembly m), partial_disk m)"
  using readManifest_encoded [OF partial_disk_lookup(4), of no_faults] assms partial_disk_Begin
  by (simp add: LoadPartial_def)

definition resumed :: "Manifest \<Rightarrow> acquisition" where
  "resumed m = (new_acquisition (m_ID m))\<lparr>aq_assembly := Some (NewAssembly m)\<rparr>"

lemma resumed_start:
  assumes "manifest_ok m" "stored_version m" "utf8_valid (m_Filename m)" "safe_name (m_Filename m)" "m_Signature m = None"
    and "m_Version m = 1"
  shows "\<exists>r. reachable toy_crypto example_config r \<and> rt_acquisitions r = [(m_ID m, resumed m)] \<and>
    rt_reconcileActive r = None \<and> rt_order r = [m_ID m]"
proof -
  let ?r0 = "(fresh_runtime (NewController (sconst 0)) (partial_disk m) (sconst True) (sconst 1))\<lparr>rt_completeIDs := []\<rparr>"
  have d0: "rt_disk ?r0 = partial_disk m" "rt_acquisitions ?r0 = []" "rt_reconcileActive ?r0 = None" "rt_order ?r0 = []" by (simp_all add: fresh_runtime_def Intn_def)
  have "VerifyManifestSignature toy_crypto m = Inr ()" using assms(5,6) by (simp add: VerifyManifestSignature_def)
  then have acc: "Accept toy_crypto no_faults (partial_disk m) (nc_Policy (e_cfg example_env)) m True b" for b
    by (simp add: Accept_iff example_env_def default_config_def example_config_def example_policy_def)
  have res: "rt_acquisitions (resume_partial example_env (m_ID m) ?r0) = [(m_ID m, resumed m)]"
    "rt_disk (resume_partial example_env (m_ID m) ?r0) = partial_disk m"
    "rt_reconcileActive (resume_partial example_env (m_ID m) ?r0) = None"
    "rt_order (resume_partial example_env (m_ID m) ?r0) = [m_ID m]"
    using partial_disk_LoadPartial [OF assms(1-4)] acc d0
    by (simp_all add: resume_partial_def Let_def set_disk_def addCandidate_def acq_def resumed_def add_source_def put_acq_def)
  have "\<exists>r. NewRuntime example_env (NewController (sconst 0)) 1 (partial_disk m) (sconst True) (sconst 1) = Inr r \<and>
      rt_acquisitions r = [(m_ID m, resumed m)] \<and> rt_reconcileActive r = None \<and> rt_order r = [m_ID m]"
    using res d0 by (simp add: NewRuntime_def refreshInventory_def partial_disk_ids Let_def case_prod_unfold Broadcast_def
        fresh_runtime_def Intn_def)
  then show ?thesis unfolding example_env_def by (blast intro: reachable.start)
qed

lemma example_manifest_safe: "safe_name (m_Filename example_manifest)" "utf8_valid (m_Filename example_manifest)"
  "stored_version example_manifest" "m_Signature example_manifest = None" "m_Version example_manifest = 1"
  using utf8_valid_ascii [of "m_Filename example_manifest"]
  by (simp_all add: safe_name_def example_manifest_def Base_def stored_version_def)

lemma example_resumed:
  "\<exists>r. reachable toy_crypto example_config r \<and> rt_acquisitions r = [(m_ID example_manifest, resumed example_manifest)] \<and>
     rt_reconcileActive r = None \<and> rt_order r = [m_ID example_manifest]"
  using resumed_start [OF example_manifest_ok] example_manifest_safe by blast

lemma empty_resumed:
  "\<exists>r. reachable toy_crypto example_config r \<and> rt_acquisitions r = [(m_ID empty_example, resumed empty_example)]"
proof -
  have "manifest_ok empty_example" "stored_version empty_example" "utf8_valid (m_Filename empty_example)"
    using empty_example_committable by (simp_all add: committable_def)
  moreover have "safe_name (m_Filename empty_example)" "m_Signature empty_example = None" "m_Version empty_example = 1"
    using example_manifest_safe by (simp_all add: empty_example_def)
  ultimately show ?thesis using resumed_start by blast
qed

end
