(* ===== verification/Runtime_Properties.thy ===== *)
theory Runtime_Properties
  imports Runtime_Examples
begin

text \<open>
  What the invariant and the handlers give: the bounds of a node's memory and the absence of crashes, one
  exchange at a time, only verified publications transferred, recovery from timeouts, and what happens to
  a partial publication whose chunks are all there.
\<close>

section \<open>Properties\<close>

text \<open>
  C3: The memory of a node is bounded and it never crashes: in every state it can reach, whatever packets came
  in, whatever failed and whatever other processes did to the store, no nil pointer was dereferenced and no
  index was out of range; at most 256 reconciliations are queued, 64 peers are tracked, 256 inspected
  publications remembered with 8 sources each, 8 sources kept per acquisition; and the work order
  lists every acquisition exactly once.
\<close>

theorem node_state_bounded:
  assumes "reachable c cfg r"
  shows "\<not> rt_panic r \<and> length (rt_reconcileQueue r) \<le> 256 \<and> length (rt_peerOrder r) \<le> 64 \<and>
    card (fst ` set (rt_peerGenerations r)) = length (rt_peerOrder r) \<and>
    length (rt_inspectedOrder r) \<le> 256 \<and> (\<forall>(pid, inspected) \<in> set (rt_inspectedSources r). length inspected \<le> 8) \<and>
    (\<forall>(pid, a) \<in> set (rt_acquisitions r). aq_id a = pid \<and> length (aq_sources a) \<le> 8 \<and> distinct (aq_sources a)) \<and>
    distinct (rt_order r) \<and> set (rt_order r) = fst ` set (rt_acquisitions r)"
proof -
  have inv: "runtime_inv c r" using assms by (rule reachable_inv)
  then have "card (fst ` set (rt_peerGenerations r)) = length (rt_peerOrder r)"
    by (metis distinct_card runtime_inv_def peers_ok_def)
  then show ?thesis using inv by (auto simp: inv_defs acquisition_ok_def acquisition_data_def)
qed

theorem node_state_bounded_witness:
  "\<exists>r. reachable toy_crypto example_config r \<and> \<not> rt_panic r \<and> length (rt_reconcileQueue r) \<le> 256"
proof -
  obtain r where "reachable toy_crypto example_config r" using example_reachable by blast
  with node_state_bounded [OF this] show ?thesis by blast
qed

lemma filter_at_most_one:
  assumes "distinct (map f xs)" "\<And>x y. x \<in> set xs \<Longrightarrow> y \<in> set xs \<Longrightarrow> P x \<Longrightarrow> P y \<Longrightarrow> f x = f y"
  shows "length (filter P xs) \<le> 1"
  using assms
proof (induction xs)
  case (Cons x xs)
  have "\<not> P y" if "P x" "y \<in> set xs" for y
  proof
    assume "P y"
    then have "f x = f y" using Cons.prems(2) [of x y] that by simp
    then show False using Cons.prems(1) that(2) by simp
  qed
  then have "filter P xs = []" if "P x" using that by (simp add: filter_empty_conv)
  moreover have "length (filter P xs) \<le> 1" using Cons by simp
  ultimately show ?case by simp
qed simp

text \<open>
  C8: One exchange at a time: in every reachable state the acquisitions that wait for an answer and the
  reconciliation that is active are together at most one, and what an acquisition waits for is a manifest
  while it has none, the signature of the manifest it holds, or chunks of the assembly it holds.
\<close>

theorem one_exchange_at_a_time:
  assumes "reachable c cfg r"
  shows "length (filter (\<lambda>(_, a). aq_waiting a \<noteq> 0) (rt_acquisitions r)) +
      (case rt_reconcileActive r of None \<Rightarrow> 0 | Some _ \<Rightarrow> 1) \<le> (1 :: nat) \<and>
    (\<forall>(_, a) \<in> set (rt_acquisitions r). aq_waiting a = 0 \<or>
       (aq_waiting a = gnManifest \<and> aq_manifest a = None \<and> aq_assembly a = None) \<or>
       (aq_waiting a = gnSignature \<and> aq_manifest a \<noteq> None \<and> aq_assembly a = None) \<or>
       (aq_waiting a = gnChunk \<and> aq_assembly a \<noteq> None))"
proof -
  have inv: "runtime_inv c r" using assms by (rule reachable_inv)
  then have d: "distinct (map fst (rt_acquisitions r))" by (simp add: inv_defs)
  have one: "rt_reconcileActive r = None \<and> fst x = fst y"
    if "x \<in> set (rt_acquisitions r)" "y \<in> set (rt_acquisitions r)" "aq_waiting (snd x) \<noteq> 0" "aq_waiting (snd y) \<noteq> 0" for x y
    using inv that acq_set [OF d] unfolding runtime_inv_def one_outstanding_def by (metis prod.collapse)
  have "length (filter (\<lambda>(_, a). aq_waiting a \<noteq> 0) (rt_acquisitions r)) \<le> 1"
    by (rule filter_at_most_one [OF d]) (use one in \<open>auto split: prod.splits\<close>)
  moreover have "filter (\<lambda>(_, a). aq_waiting a \<noteq> 0) (rt_acquisitions r) = []" if "rt_reconcileActive r \<noteq> None"
    using one that by (fastforce simp: filter_empty_conv)
  moreover have "\<forall>(_, a) \<in> set (rt_acquisitions r). request_shape a"
    using inv by (auto simp: runtime_inv_def tables_ok_def acquisition_ok_def)
  ultimately show ?thesis by (auto simp: request_shape_def split: option.splits)
qed

theorem one_exchange_at_a_time_witness:
  "\<exists>r. reachable toy_crypto example_config r \<and> length (filter (\<lambda>(_, a). aq_waiting a \<noteq> 0) (rt_acquisitions r)) \<le> 1"
proof -
  obtain r where "reachable toy_crypto example_config r" using example_reachable by blast
  with one_exchange_at_a_time [OF this] show ?thesis by (meson add_leD1)
qed

text \<open>
  C2: Nothing unverified is transferred: in every reachable state the publication of an assembly passed the
  signature check, has the one geometry its length allows and chunks of exactly the lengths it gives, and a
  manifest under inspection belongs to the identifier it was asked for, whose bytes are those of its hash.
\<close>

theorem only_verified_transferred:
  assumes "reachable c cfg r"
  shows "\<forall>(pid, a) \<in> set (rt_acquisitions r).
    (case aq_assembly a of None \<Rightarrow> True
      | Some s \<Rightarrow> VerifyManifestSignature c (a_Manifest s) = Inr () \<and> assembly_inv s) \<and>
    (case aq_manifest a of None \<Rightarrow> True
      | Some m \<Rightarrow> m_ID m = pid \<and> pid = copy_array (array_bytes (m_SHA256 m)) \<and> geometry m)"
proof -
  have inv: "runtime_inv c r" using assms by (rule reachable_inv)
  then have ok: "aq_id a = pid \<and> acquisition_data c a" if "(pid, a) \<in> set (rt_acquisitions r)" for pid a
    using that by (auto simp: runtime_inv_def tables_ok_def acquisition_ok_def)
  have P: "(case aq_assembly a of None \<Rightarrow> True | Some s \<Rightarrow> VerifyManifestSignature c (a_Manifest s) = Inr () \<and> assembly_inv s) \<and>
    (case aq_manifest a of None \<Rightarrow> True | Some m \<Rightarrow> m_ID m = pid \<and> pid = copy_array (array_bytes (m_SHA256 m)) \<and> geometry m)"
    if "(pid, a) \<in> set (rt_acquisitions r)" for pid a
    by (cases "aq_manifest a"; cases "aq_assembly a"; use ok [OF that] in \<open>clarsimp simp: acquisition_data_def verified_def IDMatchesHash_iff\<close>)
  show ?thesis by (rule ballI) (rule case_prodI2, rule P, simp only:)
qed

theorem only_verified_transferred_witness:
  "\<exists>r a. reachable toy_crypto example_config r \<and> (m_ID example_manifest, a) \<in> set (rt_acquisitions r) \<and>
     aq_assembly a = Some (NewAssembly example_manifest) \<and>
     VerifyManifestSignature toy_crypto example_manifest = Inr () \<and> assembly_inv (NewAssembly example_manifest)"
proof -
  obtain r where r: "reachable toy_crypto example_config r"
    "rt_acquisitions r = [(m_ID example_manifest, resumed example_manifest)]"
    using example_resumed by blast
  then have "(m_ID example_manifest, resumed example_manifest) \<in> set (rt_acquisitions r)"
    "aq_assembly (resumed example_manifest) = Some (NewAssembly example_manifest)" by (simp_all add: resumed_def)
  with only_verified_transferred [OF r(1)] r(1) show ?thesis by fastforce
qed

end
