(* ===== verification/Runtime_Lifecycle.thy ===== *)
theory Runtime_Lifecycle
  imports Runtime_Examples
begin

text \<open>
  The life of one publication on a node, as the protocol describes it: a leaf makes it known, its manifest is
  inspected, its signature decides, its chunks are transferred. \<open>phase_step\<close> is that contract, labelled
  with the packet that makes the step (0 for the tick), and the handlers refine it: \<open>answers\<close> is what a handler
  that answers a request may do to the table of acquisitions, \<open>grows\<close> what the others do.
\<close>

section \<open>The contract\<close>

datatype phase = Unknown | Inspecting | Deciding | Transferring

inductive phase_step :: "byte \<Rightarrow> phase \<Rightarrow> phase \<Rightarrow> bool" where
  discovered: "phase_step gnLeaf Unknown Inspecting"
| inspected: "phase_step gnManifest Inspecting Deciding"
| admitted: "phase_step gnSignature Deciding Transferring"
| undecided: "phase_step gnSignature Deciding Inspecting"
| dropped: "phase_step gnSignature Deciding Unknown"
| committed_chunk: "phase_step gnChunk Transferring Unknown"
| timed_out: "phase_step 0 Deciding Inspecting"

inductive_simps phase_step_simps [simp]:
  "phase_step t Unknown p" "phase_step t Inspecting p" "phase_step t Deciding p" "phase_step t Transferring p"

definition phase_of :: "acquisition option \<Rightarrow> phase" where
  "phase_of x =
     (case x of
        None \<Rightarrow> Unknown
      | Some a \<Rightarrow> if aq_assembly a \<noteq> None then Transferring else if aq_manifest a \<noteq> None then Deciding else Inspecting)"

definition phase :: "Runtime \<Rightarrow> ID \<Rightarrow> phase" where
  "phase r pid = phase_of (acq r pid)"

definition moves :: "byte \<Rightarrow> phase \<Rightarrow> phase \<Rightarrow> bool" where
  "moves t p q \<longleftrightarrow> p = q \<or> phase_step t p q"

lemma moves_refl [simp]: "moves t p p"
  by (simp add: moves_def)

lemma phase_step_once: "phase_step t p q \<Longrightarrow> \<not> phase_step t q s"
  by (cases rule: phase_step.cases) auto

lemma moves_trans: "moves t p q \<Longrightarrow> moves t q s \<Longrightarrow> moves t p s"
  by (auto simp: moves_def dest: phase_step_once)

lemma phase_of_simps [simp]:
  "phase_of None = Unknown"
  "aq_assembly a \<noteq> None \<Longrightarrow> phase_of (Some a) = Transferring"
  "aq_assembly a = None \<Longrightarrow> aq_manifest a \<noteq> None \<Longrightarrow> phase_of (Some a) = Deciding"
  "aq_assembly a = None \<Longrightarrow> aq_manifest a = None \<Longrightarrow> phase_of (Some a) = Inspecting"
  by (simp_all add: phase_of_def)

section \<open>What the handlers do to the table\<close>

definition answers :: "byte \<Rightarrow> Runtime \<Rightarrow> Runtime \<Rightarrow> bool" where
  "answers t r r' \<longleftrightarrow>
     acq r' = acq r \<or>
     (\<exists>pid a x. acq r pid = Some a \<and> aq_waiting a \<noteq> 0 \<and> acq r' = (acq r)(pid := x) \<and> moves t (phase_of (Some a)) (phase_of x))"

definition grows :: "Runtime \<Rightarrow> Runtime \<Rightarrow> bool" where
  "grows r r' \<longleftrightarrow>
     (\<forall>pid. case acq r pid of
         Some a \<Rightarrow> \<exists>a'. acq r' pid = Some a' \<and> aq_assembly a' = aq_assembly a \<and> aq_manifest a' = aq_manifest a \<and>
           aq_waiting a' = aq_waiting a
       | None \<Rightarrow> \<forall>a'. acq r' pid = Some a' \<longrightarrow> aq_assembly a' = None \<and> aq_manifest a' = None \<and> aq_waiting a' = 0)"

lemma answers_same: "acq r' = acq r \<Longrightarrow> answers t r r'"
  by (simp add: answers_def)

lemma answers_update:
  "acq r pid = Some a \<Longrightarrow> aq_waiting a \<noteq> 0 \<Longrightarrow> (\<And>q. acq r' q = (if q = pid then x else acq r q)) \<Longrightarrow>
   moves t (phase_of (Some a)) (phase_of x) \<Longrightarrow> answers t r r'"
  unfolding answers_def by (rule disjI2, rule exI [of _ pid], rule exI [of _ a], rule exI [of _ x]) auto

lemma answers_phase: "answers t r r' \<Longrightarrow> moves t (phase r pid) (phase r' pid)"
  by (auto simp: answers_def phase_def)

lemma grows_refl [simp]: "acq r' = acq r \<Longrightarrow> grows r r'"
  by (auto simp: grows_def split: option.splits)

lemma grows_trans: "grows r s \<Longrightarrow> grows s t \<Longrightarrow> grows r t"
proof (unfold grows_def, rule allI)
  fix pid
  assume "\<forall>pid. case acq r pid of Some a \<Rightarrow> \<exists>a'. acq s pid = Some a' \<and> aq_assembly a' = aq_assembly a \<and>
      aq_manifest a' = aq_manifest a \<and> aq_waiting a' = aq_waiting a
    | None \<Rightarrow> \<forall>a'. acq s pid = Some a' \<longrightarrow> aq_assembly a' = None \<and> aq_manifest a' = None \<and> aq_waiting a' = 0"
    and "\<forall>pid. case acq s pid of Some a \<Rightarrow> \<exists>a'. acq t pid = Some a' \<and> aq_assembly a' = aq_assembly a \<and>
      aq_manifest a' = aq_manifest a \<and> aq_waiting a' = aq_waiting a
    | None \<Rightarrow> \<forall>a'. acq t pid = Some a' \<longrightarrow> aq_assembly a' = None \<and> aq_manifest a' = None \<and> aq_waiting a' = 0"
  from this [THEN spec, of pid] show "case acq r pid of Some a \<Rightarrow> \<exists>a'. acq t pid = Some a' \<and> aq_assembly a' = aq_assembly a \<and>
      aq_manifest a' = aq_manifest a \<and> aq_waiting a' = aq_waiting a
    | None \<Rightarrow> \<forall>a'. acq t pid = Some a' \<longrightarrow> aq_assembly a' = None \<and> aq_manifest a' = None \<and> aq_waiting a' = 0"
    by (cases "acq r pid"; cases "acq s pid") auto
qed

lemma grows_phase: "grows r r' \<Longrightarrow> moves gnLeaf (phase r pid) (phase r' pid)"
  unfolding grows_def phase_def
  by (drule spec [of _ pid], cases "acq r pid"; cases "acq r' pid") (auto simp: phase_of_def moves_def)

section \<open>The handlers\<close>

lemma fail_answers:
  assumes "acq r (aq_id a) = Some old" "aq_waiting old \<noteq> 0" "acq s = acq r"
    and "\<And>u. moves t (phase_of (Some old)) (phase_of (Some (failed u a)))"
  shows "answers t r (fail now a s)"
proof -
  obtain u where u: "\<And>q. acq (fail now a s) q = (if q = aq_id a then Some (failed u a) else acq s q)"
    using acq_fail_all [of now a s] by blast
  show ?thesis by (rule answers_update [OF assms(1,2) _ assms(4) [of u]]) (simp add: u assms(3))
qed

lemma put_answers:
  assumes "acq r (aq_id a) = Some old" "aq_waiting old \<noteq> 0" "acq s = acq r"
    and "moves t (phase_of (Some old)) (phase_of (Some a))"
  shows "answers t r (put_acq a s)"
  by (rule answers_update [OF assms(1,2) _ assms(4)]) (simp add: acq_put_acq assms(3))

lemma gone_answers:
  assumes "acq r pid = Some old" "aq_waiting old \<noteq> 0" "\<And>q. acq s q = (if q = pid then None else acq r q)"
    and "moves t (phase_of (Some old)) Unknown"
  shows "answers t r s"
  by (rule answers_update [where x = None, OF assms(1-3)]) (use assms(4) in simp)

lemma acceptManifest_answers:
  assumes "runtime_inv (e_crypto e) r"
  shows "answers gnManifest r (acceptManifest e now packet r)"
proof (cases "active e 1 packet r")
  case (Some a)
  note a = active_Some [OF assms Some]
  show ?thesis
  proof (cases "aq_waiting a = gnManifest")
    case True
    then have p: "aq_manifest a = None" "aq_assembly a = None"
      using a(2) by (auto simp: acquisition_ok_def request_shape_def)
    have f: "answers gnManifest r (fail now a r)"
      by (rule fail_answers [OF a(1)]) (use True p in \<open>simp_all add: failed_def moves_def\<close>)
    have "answers gnManifest r (put_acq (a\<lparr>aq_manifest := Some m, aq_manifestSource := s, aq_waiting := 0,
        aq_activeSource := 0, aq_nextAttempt := t\<rparr>) r)" for m s t
      by (rule put_answers [of _ _ a]) (use a True p in \<open>simp_all add: moves_def\<close>)
    then show ?thesis using Some True f by (simp add: acceptManifest_def split: sum.split)
  qed (use Some in \<open>simp add: acceptManifest_def answers_same\<close>)
qed (simp add: acceptManifest_def answers_same)

lemma deciding_moves [simp]: "t = gnSignature \<Longrightarrow> moves t Deciding q"
  by (cases q) (simp_all add: moves_def)

lemma commit_new_answers:
  assumes "acq r (aq_id a) = Some old" "aq_waiting old \<noteq> 0" "acq s = acq r" "phase_of (Some old) = Deciding"
  shows "answers gnSignature r (commit_new e now a assembly s)"
proof (cases "Commit (e_crypto e) (e_io e) assembly (rt_disk s)")
  case (Pair x fs)
  have "answers gnSignature r (fail now a' (set_disk fs' s))" if "aq_id a' = aq_id a" for a' fs'
    by (rule fail_answers [of _ _ old]) (use assms that in simp_all)
  moreover have "answers gnSignature r (committed e (aq_id a) (set_disk fs s))"
    by (rule gone_answers [OF assms(1,2)]) (use assms in \<open>simp_all add: acq_committed\<close>)
  ultimately show ?thesis using Pair by (simp add: commit_new_def split: sum.split)
qed

lemma accept_inspected_answers:
  assumes "acq r (aq_id a) = Some a" "aq_waiting a \<noteq> 0" "acq s = acq r" "phase_of (Some a) = Deciding"
  shows "answers gnSignature r (accept_inspected e now a m s)"
proof -
  have f: "answers gnSignature r (fail now a (set_disk fs s))"
    "answers gnSignature r (fail now a (set_disk fs (with_metrics g (set_disk fs' s))))" for fs fs' g
    by (rule fail_answers [of _ _ a]; use assms in simp)+
  have g: "answers gnSignature r (removeOrder (aq_id a) (delete_acq (aq_id a) (with_metrics g (set_disk fs s))))" for g fs
    by (rule gone_answers [OF assms(1,2)]) (use assms in \<open>simp_all add: acq_delete_acq\<close>)
  have "answers gnSignature r (put_acq a' (set_disk fs' (with_metrics g (set_disk fs s))))"
    "answers gnSignature r (commit_new e now a' assembly (set_disk fs' (with_metrics g (set_disk fs s))))"
    if "aq_id a' = aq_id a" for a' fs fs' g assembly
    by (rule put_answers [of _ _ a] commit_new_answers [of _ _ a]; use assms that in simp)+
  then show ?thesis using f g
    by (auto simp: accept_inspected_def Let_def split: prod.splits sum.splits)
qed

lemma acceptSignature_answers:
  assumes "runtime_inv (e_crypto e) r"
  shows "answers gnSignature r (acceptSignature e now packet r)"
proof (cases "active e 1 packet r")
  case (Some a)
  note a = active_Some [OF assms Some]
  show ?thesis
  proof (cases "aq_manifest a = None \<or> aq_waiting a \<noteq> gnSignature")
    case True
    then show ?thesis using Some by (auto simp: acceptSignature_def answers_same split: option.splits)
  next
    case False
    then obtain m where m: "aq_manifest a = Some m" and w: "aq_waiting a \<noteq> 0" by auto
    have p: "phase_of (Some a) = Deciding" using a(2) False by (auto simp: acquisition_ok_def request_shape_def)
    have "answers gnSignature r (fail now a r)" by (rule fail_answers [OF a(1) w]) (simp_all add: p)
    moreover have "answers gnSignature r (forget (aq_id a) (markSourceInspected pid source r))" for pid source
      by (rule gone_answers [OF a(1) w]) (simp_all add: acq_forget p)
    moreover have "answers gnSignature r (accept_inspected e now a m' (markSourceInspected pid source r))" for m' pid source
      by (rule accept_inspected_answers [OF a(1) w]) (simp_all add: p)
    ultimately show ?thesis using Some m False by (simp add: acceptSignature_def Let_def split: sum.split)
  qed
qed (simp add: acceptSignature_def answers_same)

lemma chunk_stored_answers:
  assumes "acq r (aq_id a) = Some old" "aq_waiting old \<noteq> 0" "acq s = acq r" "phase_of (Some old) = Transferring"
    and "aq_assembly a \<noteq> None"
  shows "answers gnChunk r (chunk_stored e now a assembly s)"
proof -
  have f: "answers gnChunk r (fail now a' (set_disk fs s))" if "aq_id a' = aq_id a" "aq_assembly a' \<noteq> None" for a' fs
    by (rule fail_answers [of _ _ old]) (use assms that in simp_all)
  have "answers gnChunk r (committed e (aq_id a) (set_disk fs s))" for fs
    by (rule gone_answers [OF assms(1,2)]) (use assms in \<open>simp_all add: acq_committed moves_def\<close>)
  moreover have "answers gnChunk r (put_acq a' s)" if "aq_id a' = aq_id a" "aq_assembly a' \<noteq> None" for a'
    by (rule put_answers [of _ _ old]) (use assms that in simp_all)
  ultimately show ?thesis using f assms(5)
    by (auto simp: chunk_stored_def split: prod.splits sum.splits)
qed

lemma acceptChunk_answers:
  assumes "runtime_inv (e_crypto e) r"
  shows "answers gnChunk r (acceptChunk e now packet r)"
proof (cases "active e 1 packet r")
  case (Some a)
  note a = active_Some [OF assms Some]
  show ?thesis
  proof (cases rule: acceptChunk_cases [OF Some, of now])
    case (3 index data s err s' fs)
    show ?thesis unfolding 3(6) by (rule put_answers [of _ _ a]) (use a 3 in simp_all)
  next
    case (4 index data s s' fs)
    show ?thesis unfolding 4(6) by (rule chunk_stored_answers [of _ _ a]) (use a 4 in simp_all)
  qed (use a in \<open>auto simp: answers_same acquisition_ok_def request_shape_def\<close>)
qed (simp add: acceptChunk_def answers_same)

text \<open>Reconciliation only adds candidates and sources.\<close>

lemma grows_put:
  assumes "acq s = acq r" "case acq r (aq_id a) of
      Some old \<Rightarrow> aq_assembly a = aq_assembly old \<and> aq_manifest a = aq_manifest old \<and> aq_waiting a = aq_waiting old
    | None \<Rightarrow> aq_assembly a = None \<and> aq_manifest a = None \<and> aq_waiting a = 0"
  shows "grows r (put_acq a s)"
  using assms unfolding grows_def by (auto simp: acq_put_acq split: option.splits)

lemma addCandidate_grows:
  assumes "runtime_inv c r" "addCandidate pid source r = (x, r')"
  shows "grows r r'"
  using assms inv_acq(1) [OF assms(1), of pid]
  by (auto simp: addCandidate_def Let_def intro!: grows_put split: option.splits if_splits)

lemma schedule_candidate_grows:
  assumes "runtime_inv c r" "\<And>s. acq (snd (first s)) = acq s"
  shows "grows r (schedule_candidate pid source first r)"
proof -
  obtain x r1 where x: "addCandidate pid source r = (x, r1)" by fastforce
  note g = addCandidate_grows [OF assms(1) x]
  show ?thesis
  proof (cases x)
    case (Some a)
    note a = addCandidate_acq [OF assms(1) x [unfolded Some]]
    have "grows r1 (put_acq (a\<lparr>aq_nextAttempt := t\<rparr>) (snd (first r1)))" for t
      using a(1,2) assms(2) by (intro grows_put) simp_all
    then show ?thesis using x Some g grows_trans [OF g] by (simp add: schedule_candidate_def case_prod_unfold Let_def)
  qed (use x g in \<open>simp add: schedule_candidate_def\<close>)
qed

lemma leaf_id_grows:
  assumes "runtime_inv c r"
  shows "grows r (leaf_id e now source pid r)"
proof -
  have d: "acq (snd (let (v, r) = draw n s in (now + v, r))) = acq s" for n s
    by (simp add: draw_def Let_def case_prod_unfold)
  have "grows r (schedule_candidate pid source (\<lambda>r. (now, r)) r)"
    by (rule schedule_candidate_grows [OF assms]) simp
  moreover have "grows r (schedule_candidate pid source (\<lambda>r. let (v, r) = draw n r in (now + v, r)) (with_metrics g r))" for n g
    by (rule grows_trans [OF _ schedule_candidate_grows [of c]]) (use assms d in simp_all)
  ultimately show ?thesis by (simp add: leaf_id_def Let_def)
qed

lemma fold_grows:
  assumes "\<And>x r. runtime_inv c r \<Longrightarrow> grows r (f x r)" "\<And>x r. runtime_inv c r \<Longrightarrow> runtime_inv c (f x r)" "runtime_inv c r"
  shows "grows r (fold f xs r)"
  using assms(3)
proof (induction xs arbitrary: r)
  case (Cons x xs)
  show ?case using grows_trans [OF assms(1) [OF Cons.prems, of x] Cons.IH [OF assms(2) [OF Cons.prems]]] by simp
qed simp

lemma acceptLeaf_grows:
  assumes "runtime_inv c r"
  shows "grows r (acceptLeaf e now packet r)"
proof -
  have "grows (r\<lparr>rt_reconcileActive := None\<rparr>) (fold (leaf_id e now source) ids (r\<lparr>rt_reconcileActive := None\<rparr>))" for source ids
    by (rule fold_grows [of c]) (use assms in \<open>auto intro: leaf_id_grows leaf_id_inv inactive_inv\<close>)
  from grows_trans [OF _ this] have "grows r (fold (leaf_id e now source) ids (r\<lparr>rt_reconcileActive := None\<rparr>))" for source ids
    by simp
  then show ?thesis by (simp add: acceptLeaf_def split: option.split sum.split)
qed

lemma acq_dropReconciliation [simp]: "acq (dropReconciliation p r) = acq r"
  by (simp add: dropReconciliation_def)

lemma acq_draw: "draw n r = (v, r') \<Longrightarrow> acq r' = acq r"
  by (rule tables_acq) (rule draw_tables)

lemma acq_queueReconciliation [simp]: "acq (queueReconciliation p g x now r) = acq r"
proof (cases rule: queueReconciliation_cases [of p g x now r])
  case (2 r1 job)
  then show ?thesis using tables_acq [OF 2(2)] by simp
qed simp

lemma acq_queue_all [simp]: "acq (queue_all p g xs now r) = acq r"
  unfolding queue_all_def by (induction xs arbitrary: r) simp_all

lemma acq_track_peer [simp]: "acq (track_peer p g r) = acq r"
proof -
  have "acq (r\<lparr>rt_peerOrder := ps, rt_peerGenerations := gs\<rparr>) = acq r" "acq (if b then s else s') = acq r"
    if "acq s = acq r" "acq s' = acq r" for ps gs b s s' using that by simp_all
  then show ?thesis unfolding track_peer_def Let_def by simp
qed

lemma acq_unchanged:
  "acq (handleRootSummary e now packet r) = acq r" "acq (acceptSummary e now packet r) = acq r"
  "acq (serveManifest e now packet r) = acq r" "acq (serveSignature e now packet r) = acq r"
  "acq (serveChunks e now packet r) = acq r" "acq (serveSummary e now packet r) = acq r"
  "acq (observe_packet e now rx packet r) = acq r"
  using tables_acq [OF serveChunks_tables] tables_acq [OF serveSummary_tables] tables_acq [OF serve_stored_tables]
  by (simp_all add: handleRootSummary_def acceptSummary_def Let_def observe_packet_def serveManifest_def serveSignature_def
      split: sum.split option.split)

lemma handleAddressed_moves:
  assumes "runtime_inv (e_crypto e) r"
  shows "answers (np_Type packet) r (handleAddressed e now packet r) \<or>
    np_Type packet = gnLeaf \<and> grows r (handleAddressed e now packet r)"
  using acceptManifest_answers [OF assms] acceptSignature_answers [OF assms] acceptChunk_answers [OF assms]
    acceptLeaf_grows [OF assms]
  by (simp add: handleAddressed_def Let_def acq_unchanged answers_same)

text \<open>The tick: what has expired, and what a node initiates.\<close>

definition same_data :: "Runtime \<Rightarrow> Runtime \<Rightarrow> bool" where
  "same_data r r' \<longleftrightarrow> (\<forall>pid. map_option (\<lambda>a. (aq_assembly a, aq_manifest a)) (acq r' pid) =
     map_option (\<lambda>a. (aq_assembly a, aq_manifest a)) (acq r pid))"

lemma same_data_phase: "same_data r r' \<Longrightarrow> phase r' pid = phase r pid"
  unfolding same_data_def phase_def
  by (drule spec [of _ pid], cases "acq r pid"; cases "acq r' pid") (auto simp: phase_of_def)

lemma same_data_refl [simp]: "acq r' = acq r \<Longrightarrow> same_data r r'"
  by (simp add: same_data_def)

lemma same_data_put:
  assumes "acq s = acq r" "acq r (aq_id a) = Some old" "aq_assembly a = aq_assembly old" "aq_manifest a = aq_manifest old"
  shows "same_data r (put_acq a s)"
  using assms by (simp add: same_data_def acq_put_acq)

lemma expire_acquisition_answers:
  assumes "runtime_inv c r"
  shows "answers 0 r (expire_acquisition now pid r)"
proof (cases "acq r pid")
  case (Some a)
  note a = inv_acq [OF assms Some]
  show ?thesis
  proof (cases "aq_waiting a \<noteq> 0 \<and> now > aq_deadline a")
    case True
    have m: "moves 0 (phase_of (Some a)) (phase_of (Some (failed u a)))" for u
    proof (cases "aq_waiting a = gnSignature")
      case True
      then have "aq_manifest a \<noteq> None" "aq_assembly a = None" using a(2) by (auto simp: acquisition_ok_def request_shape_def)
      then show ?thesis using True by (simp add: failed_def moves_def)
    next
      case False
      then show ?thesis by (simp add: failed_def phase_of_def)
    qed
    have "answers 0 r (fail now a (with_controller (Observe now TrafficFailure) r))"
      by (rule fail_answers [of _ _ a]) (use Some a True m in simp_all)
    then show ?thesis using Some True by (simp add: expire_acquisition_def)
  qed (use Some in \<open>auto simp: expire_acquisition_def answers_same\<close>)
qed (simp add: expire_acquisition_def answers_same)

lemma acq_expire_reconcile [simp]: "acq (expire_reconcile now r) = acq r"
proof (cases "rt_reconcileActive r")
  case (Some job)
  obtain v r1 where d: "draw (Backoff (int (rj_failures job + 1)) div 2 + 1) (r\<lparr>rt_reconcileActive := None\<rparr>) = (v, r1)"
    by fastforce
  then show ?thesis using Some acq_draw [OF d] by (simp add: expire_reconcile_def Let_def)
qed (simp add: expire_reconcile_def)

lemma request_data:
  assumes "acq r (aq_id a) = Some old" "aq_waiting a = 0" "aq_assembly a = aq_assembly old" "aq_manifest a = aq_manifest old"
    and "acq s = acq r"
  shows "same_data r (request e now a wire kind count s)"
proof (cases "send now wire s")
  case (Pair ok r1)
  have t1: "acq r1 = acq r" using tables_acq [OF send_tables [OF Pair]] assms(5) by simp
  show ?thesis
  proof (cases ok)
    case True
    have "acq (snd (time_Now (with_metrics count r1))) = acq r"
      using t1 tables_acq [OF time_Now_tables [of "with_metrics count r1"]] by (simp add: prod_eq_iff)
    then have "same_data r (put_acq (a\<lparr>aq_waiting := kind, aq_deadline := d\<rparr>) (snd (time_Now (with_metrics count r1))))" for d
      by (rule same_data_put [of _ _ _ old]) (use assms in simp_all)
    then show ?thesis using Pair True by (simp add: request_def case_prod_unfold Let_def)
  next
    case False
    obtain u where u: "\<And>q. acq (fail now a r1) q = (if q = aq_id a then Some (failed u a) else acq r1 q)"
      using acq_fail_all [of now a r1] by blast
    have "aq_manifest (failed u a) = aq_manifest old" using assms by (simp add: failed_def)
    then have "same_data r (fail now a r1)" using assms t1 u by (simp add: same_data_def)
    then show ?thesis using Pair False by (simp add: request_def)
  qed
qed

lemma initiate_data:
  assumes "acq r (aq_id a) = Some a" "aq_waiting a = 0"
  shows "same_data r (initiate e now a r)"
proof -
  let ?r = "r\<lparr>rt_tx := rt_tx r + 1\<rparr>" and ?a = "prepared a (rt_tx r + 1)"
  have put: "same_data r (put_acq ?a ?r)" by (rule same_data_put [of _ _ _ a]) (use assms in simp_all)
  have "same_data r (request e now ?a w k c ?r)" for w k c
    by (rule request_data [of _ _ a]) (use assms in simp_all)
  moreover have "same_data r (request e now (?a\<lparr>aq_wanted := ws, aq_cursor := n\<rparr>) w k c (?r\<lparr>rt_controller := ctl\<rparr>))" for w k c ws n ctl
    by (rule request_data [of _ _ a]) (use assms in simp_all)
  moreover have "acq (r\<lparr>rt_panic := True\<rparr>) = acq r" by (simp add: acq_def fun_eq_iff)
  ultimately show ?thesis using put unfolding initiate_def Let_def
    by (simp split: option.split prod.split)
qed

lemma acq_initiateReconcile [simp]: "acq (snd (initiateReconcile e now r)) = acq r"
proof (cases "nothing_outstanding r \<and> dropWhile (\<lambda>job. now < rj_nextAttempt job) (rt_reconcileQueue r) \<noteq> []")
  case False
  then show ?thesis
    by (auto simp: initiateReconcile_def nothing_outstanding_def simp del: dropWhile_eq_Nil_conv)
next
  case True
  let ?P = "\<lambda>job. now < rj_nextAttempt job"
  obtain job rest where q: "dropWhile ?P (rt_reconcileQueue r) = job # rest" using True by (cases "dropWhile ?P (rt_reconcileQueue r)") auto
  let ?r = "r\<lparr>rt_reconcileQueue := takeWhile ?P (rt_reconcileQueue r) @ rest, rt_tx := rt_tx r + 1\<rparr>"
  have rq: "acq ?r = acq r" by (simp add: acq_def fun_eq_iff)
  show ?thesis
  proof (cases "EncodeSummaryRequest (node_id e) (rj_peer job) (rt_tx r + 1) (rj_generation job) (rj_prefix job)")
    case (Inl err)
    then show ?thesis using True q rq by (simp add: initiateReconcile_def nothing_outstanding_def Let_def)
  next
    case (Inr wire)
    obtain ok r1 where s: "send now wire ?r = (ok, r1)" by fastforce
    have t1: "acq r1 = acq r" using tables_acq [OF send_tables [OF s]] rq by simp
    obtain v r2 where d: "draw (Backoff (int (rj_failures job + 1)) div 2 + 1) r1 = (v, r2)" by fastforce
    obtain t r3 where t: "time_Now r1 = (t, r3)" by fastforce
    have "acq r2 = acq r" "acq r3 = acq r" using acq_draw [OF d] tables_acq [OF time_Now_tables [OF t]] t1 by simp_all
    then show ?thesis using True q Inr s d t
      by (cases ok) (simp_all add: initiateReconcile_def nothing_outstanding_def Let_def)
  qed
qed

lemma same_data_trans: "same_data r s \<Longrightarrow> same_data s t \<Longrightarrow> same_data r t"
  by (simp add: same_data_def)

lemma acq_flags [simp]:
  "acq (r\<lparr>rt_preferReconcile := b\<rparr>) = acq r" "acq (advertise e now r) = acq r" "acq (log_metrics e now r) = acq r"
  using tables_acq [OF advertise_tables] tables_acq [OF log_metrics_tables] by (simp_all add: acq_def fun_eq_iff)

text \<open>
  \<open>initiate_something\<close> changes the table at most for one acquisition, through \<open>initiate\<close>: \<open>P\<close> is what a caller
  wants to know of the change.
\<close>

lemma initiate_something_cases:
  assumes "runtime_inv c r" and "acq (initiate_something e now r) \<noteq> acq r"
  obtains a s where "acq r (aq_id a) = Some a" "aq_waiting a = 0" "aq_sources a \<noteq> []" "aq_nextAttempt a \<le> now"
    "acq s = acq r" "acq (initiate_something e now r) = acq (initiate e now a s)"
proof -
  obtain may k where can: "CanInitiate now (rt_controller r) = (may, k)" by fastforce
  let ?r = "r\<lparr>rt_controller := k\<rparr>"
  have inv: "runtime_inv c ?r" using assms(1) by simp
  let ?first = "if rt_preferReconcile ?r then initiateReconcile e now ?r else (False, ?r)"
  obtain done1 r1 where r1: "?first = (done1, r1)" by fastforce
  have "acq (snd ?first) = acq r" by (cases "rt_preferReconcile r") simp_all
  then have t1: "acq r1 = acq r" by (simp only: r1 snd_conv)
  have inv1: "runtime_inv c r1" using r1 inv initiateReconcile_inv [OF inv, of e now] by (auto split: if_splits)
  obtain x r2 where w: "nextWork now r1 = (x, r2)" by fastforce
  have t2: "acq r2 = acq r" using tables_acq [OF nextWork_tables [OF w]] t1 by simp
  obtain done2 r3 where fin: "initiateReconcile e now r2 = (done2, r3)" "acq r3 = acq r"
    using acq_initiateReconcile [of e now r2] t2 by (cases "initiateReconcile e now r2") simp
  have shape: "acq (initiate_something e now r) = acq r \<or>
      (\<exists>a. x = Some a \<and> acq (initiate_something e now r) = acq (initiate e now a r2))"
    using can r1 t1 t2 w fin
    by (cases x) (auto simp: initiate_something_def Let_def split: prod.splits if_splits)
  with assms(2) obtain a where a: "x = Some a" "acq (initiate_something e now r) = acq (initiate e now a r2)" by blast
  note n = nextWork_Some [OF w [unfolded a(1)] inv1]
  show thesis by (rule that [OF _ n(2-4) t2 a(2)]) (use n(1) t1 in simp)
qed

lemma initiate_something_data:
  assumes "runtime_inv c r"
  shows "same_data r (initiate_something e now r)"
proof (cases "acq (initiate_something e now r) = acq r")
  case False
  then obtain a s where a: "acq r (aq_id a) = Some a" "aq_waiting a = 0" "acq s = acq r"
    "acq (initiate_something e now r) = acq (initiate e now a s)"
    using initiate_something_cases [OF assms] by metis
  have "same_data s (initiate e now a s)" by (rule initiate_data) (use a in simp_all)
  then show ?thesis using a(3,4) by (simp add: same_data_def)
qed simp

lemma fold_expire:
  assumes "runtime_inv c r"
  shows "runtime_inv c (fold (expire_acquisition now) pids r) \<and>
    moves 0 (phase r pid) (phase (fold (expire_acquisition now) pids r) pid)"
  using assms
proof (induction pids arbitrary: r)
  case (Cons p pids)
  from Cons.IH [OF expire_acquisition_inv [OF Cons.prems]]
    answers_phase [OF expire_acquisition_answers [OF Cons.prems], of pid now p]
  show ?case by (auto intro: moves_trans)
qed simp

lemma onTick_moves:
  assumes "runtime_inv c r"
  shows "moves 0 (phase r pid) (phase (onTick e now r) pid)"
proof -
  let ?r = "fold (expire_acquisition now) (e_iter e 2 (map fst (rt_acquisitions r))) r"
  let ?s = "log_metrics e now (expire_reconcile now ?r)"
  have r: "runtime_inv c ?r" "moves 0 (phase r pid) (phase ?r pid)" using fold_expire [OF assms] by blast+
  have "runtime_inv c ?s" using expire_reconcile_inv [OF r(1)] by (simp add: tables_eq_inv [OF log_metrics_tables])
  from same_data_phase [OF initiate_something_data [OF this]]
  have "phase (onTick e now r) pid = phase ?s pid" by (simp add: onTick_def Let_def)
  then show ?thesis using r(2) by (simp add: phase_def)
qed

section \<open>Publications nothing moves\<close>

definition stays :: "ID \<Rightarrow> Assembly \<Rightarrow> Runtime \<Rightarrow> bool" where
  "stays pid s r \<longleftrightarrow> (\<exists>a. acq r pid = Some a \<and> aq_assembly a = Some s \<and> aq_waiting a = 0)"

lemma stays_same: "acq r' = acq r \<Longrightarrow> stays pid s r' = stays pid s r"
  by (simp add: stays_def)

lemma stays_answers: "answers t r r' \<Longrightarrow> stays pid s r \<Longrightarrow> stays pid s r'"
  by (auto simp: answers_def stays_def)

lemma stays_grows: "grows r r' \<Longrightarrow> stays pid s r \<Longrightarrow> stays pid s r'"
  unfolding grows_def stays_def by (drule spec [of _ pid]) auto

lemma request_other: "q \<noteq> aq_id a \<Longrightarrow> acq (request e now a wire kind count s) q = acq s q"
proof (cases "send now wire s")
  case (Pair ok r1)
  assume q: "q \<noteq> aq_id a"
  have t1: "acq r1 = acq s" using tables_acq [OF send_tables [OF Pair]] .
  have "acq (snd (time_Now (with_metrics count r1))) = acq s"
    using t1 tables_acq [OF time_Now_tables [of "with_metrics count r1"]] by (simp add: prod_eq_iff)
  moreover have "acq (fail now a r1) q = acq s q" using acq_fail [of now a r1 q] q t1 by simp
  ultimately show ?thesis using Pair q
    by (cases ok) (simp_all add: request_def case_prod_unfold Let_def acq_put_acq)
qed

lemma acq_panic [simp]: "acq (r\<lparr>rt_panic := b\<rparr>) = acq r"
  by (simp add: acq_def fun_eq_iff)

lemma initiate_other: "q \<noteq> aq_id a \<Longrightarrow> acq (initiate e now a r) q = acq r q"
  unfolding initiate_def Let_def
  by (auto simp: request_other acq_put_acq split: option.split prod.split)

lemma initiate_complete:
  assumes "aq_assembly a = Some s" "assembly_Complete s" "aq_sources a \<noteq> []"
  shows "initiate e now a r = put_acq (prepared a (rt_tx r + 1)) (r\<lparr>rt_tx := rt_tx r + 1\<rparr>)"
proof -
  have "MissingBatch (Received s) i = (0, 0, [])" for i
    using assms(2) by (intro MissingBatch_none) (simp add: assembly_Complete_iff Received_def list_all_length)
  then show ?thesis using assms by (simp add: initiate_def Let_def)
qed

lemma stays_tick:
  assumes "runtime_inv c r" "stays pid s r" "assembly_Complete s"
  shows "stays pid s (onTick e now r)"
proof -
  let ?r = "fold (expire_acquisition now) (e_iter e 2 (map fst (rt_acquisitions r))) r"
  let ?s = "log_metrics e now (expire_reconcile now ?r)"
  have "runtime_inv c (fold (expire_acquisition now) pids r) \<and> stays pid s (fold (expire_acquisition now) pids r)" for pids
    using assms(1,2)
  proof (induction pids arbitrary: r)
    case (Cons p pids)
    then show ?case
      using Cons.IH [OF expire_acquisition_inv stays_answers [OF expire_acquisition_answers]] by simp
  qed simp
  then have "runtime_inv c ?r" "stays pid s ?r" by blast+
  then have s: "runtime_inv c ?s" "stays pid s ?s"
    using expire_reconcile_inv [of c ?r now] stays_same [of ?s ?r pid s] by (simp_all add: tables_eq_inv [OF log_metrics_tables])
  have "stays pid s (initiate_something e now ?s)"
  proof (cases "acq (initiate_something e now ?s) = acq ?s")
    case True
    then show ?thesis using s(2) stays_same by metis
  next
    case False
    obtain a t where a: "acq ?s (aq_id a) = Some a" "aq_waiting a = 0" "aq_sources a \<noteq> []" "acq t = acq ?s"
      "acq (initiate_something e now ?s) = acq (initiate e now a t)"
      using initiate_something_cases [OF s(1) False] by metis
    have "stays pid s (initiate e now a t)"
    proof (cases "pid = aq_id a")
      case True
      then have "aq_assembly a = Some s" using s(2) a(1) by (simp add: stays_def)
      from initiate_complete [OF this assms(3) a(3)] show ?thesis
        using True a(2) \<open>aq_assembly a = Some s\<close> by (simp add: stays_def acq_put_acq)
    next
      case False
      then show ?thesis using initiate_other [OF False] s(2) a(4) by (simp add: stays_def)
    qed
    then show ?thesis using a(5) stays_same by metis
  qed
  then show ?thesis by (simp add: onTick_def Let_def)
qed

lemma stays_incoming:
  assumes "runtime_inv (e_crypto e) r" "stays pid s r"
  shows "stays pid s (handleIncoming e now rx r)"
proof (cases "Decode (rx_Payload rx)")
  case (Inr packet)
  let ?r = "observe_packet e now rx packet r"
  have o: "runtime_inv (e_crypto e) ?r" using assms(1) by (simp add: observe_packet_def Let_def)
  have "stays pid s ?r" using assms(2) stays_same [OF acq_unchanged(7)] by simp
  moreover from this have "stays pid s (handleAddressed e now packet ?r)"
    using handleAddressed_moves [OF o, of packet now] stays_answers stays_grows by metis
  moreover have "stays pid s (handleRootSummary e now packet ?r)"
    using stays_same [OF acq_unchanged(1)] \<open>stays pid s ?r\<close> by simp
  ultimately show ?thesis using Inr by (simp add: handleIncoming_def Let_def)
qed (use assms in \<open>simp add: handleIncoming_def\<close>)

section \<open>Properties\<close>

text \<open>
  C1: The node refines the life cycle of the protocol: whatever packet comes in, each publication either stays
  in its phase or makes the one step its type of packet allows, and a tick can only send a publication whose
  signature did not come back to inspection. So no chunk is asked for before a manifest was inspected and
  its signature admitted, and only a leaf makes a publication known.
\<close>

theorem acquisition_refines_protocol:
  assumes "reachable (e_crypto e) cfg r"
  shows "(case Decode (rx_Payload rx) of
      Inl _ \<Rightarrow> handleIncoming e now rx r = r
    | Inr packet \<Rightarrow> moves (np_Type packet) (phase r pid) (phase (handleIncoming e now rx r) pid)) \<and>
    moves 0 (phase r pid) (phase (onTick e now r) pid)"
proof -
  have inv: "runtime_inv (e_crypto e) r" using assms by (rule reachable_inv)
  have "moves (np_Type packet) (phase r pid) (phase (handleIncoming e now rx r) pid)"
    if "Decode (rx_Payload rx) = Inr packet" for packet
  proof -
    let ?r = "observe_packet e now rx packet r"
    have o: "runtime_inv (e_crypto e) ?r" using inv by (simp add: observe_packet_def Let_def)
    have "phase ?r = phase r" by (rule ext) (simp add: phase_def acq_unchanged)
    moreover have "moves (np_Type packet) (phase ?r pid) (phase (handleAddressed e now packet ?r) pid)"
      using handleAddressed_moves [OF o, of packet now] answers_phase grows_phase by metis
    moreover have "phase (handleRootSummary e now packet ?r) pid = phase ?r pid"
      by (simp add: phase_def acq_unchanged)
    ultimately show ?thesis using that by (simp add: handleIncoming_def Let_def)
  qed
  then show ?thesis using onTick_moves [OF inv] by (auto simp: handleIncoming_def split: sum.split)
qed

theorem acquisition_refines_protocol_witness:
  "\<exists>r. phase r (m_ID example_manifest) = Transferring \<and> reachable toy_crypto example_config r \<and>
     phase (onTick example_env 5 r) (m_ID example_manifest) = Transferring"
proof -
  obtain r where r: "reachable (e_crypto example_env) example_config r"
    "rt_acquisitions r = [(m_ID example_manifest, resumed example_manifest)]"
    using example_resumed by auto
  have p: "phase r (m_ID example_manifest) = Transferring" using r(2) by (simp add: phase_def acq_def resumed_def)
  have "moves 0 (phase r (m_ID example_manifest)) (phase (onTick example_env 5 r) (m_ID example_manifest))"
    using acquisition_refines_protocol [OF r(1)] by blast
  then show ?thesis using r(1) p by (auto simp: moves_def)
qed

text \<open>
  C39: A publication whose chunks are all there but that was not committed is never finished: once an
  acquisition that waits for nothing holds a complete assembly (a commit failed, or the node stopped
  between the last chunk and the commit and took the partial publication up again), it keeps that
  assembly and goes on waiting for nothing, whatever packets, ticks, changes of the store by others and
  failures follow. Only another packet for a chunk would commit it, and none is ever asked for.
\<close>

theorem uncommitted_partial_stuck:
  assumes "reachable c cfg r" and "acq r pid = Some a" and "aq_assembly a = Some s" and "assembly_Complete s"
    and "aq_waiting a = 0"
  shows "\<exists>a'. acq (run_events c cfg evs r) pid = Some a' \<and> aq_assembly a' = Some s \<and> aq_waiting a' = 0"
proof -
  have "runtime_inv c r" "stays pid s r"
    using reachable_inv [OF assms(1)] assms(2,3,5) by (simp_all add: stays_def)
  then have "stays pid s (run_events c cfg evs r)"
  proof (induction evs arbitrary: r)
    case (Cons x evs)
    obtain io iter ev where x: "x = (io, iter, ev)" by (rule prod_cases3)
    let ?e = "\<lparr>e_crypto = c, e_cfg = default_config cfg, e_io = io, e_iter = iter\<rparr>"
    have inv: "runtime_inv c (run_event ?e ev r)" using run_event_inv [of ?e r ev] Cons.prems(1) by simp
    have "stays pid s (run_event ?e ev r)"
    proof (cases ev)
      case (PacketIn rx now later)
      have "runtime_inv c (handleIncoming ?e now rx r)" using handleIncoming_inv [of ?e r now rx] Cons.prems(1) by simp
      from stays_tick [OF this stays_incoming [of ?e] assms(4)] show ?thesis using PacketIn Cons.prems by simp
    next
      case (Quiet now)
      then show ?thesis using stays_tick [OF Cons.prems assms(4)] by simp
    next
      case (Outside fs)
      have "stays pid s (set_disk fs r) = stays pid s r" by (rule stays_same) simp
      then show ?thesis using Outside Cons.prems(2) by simp
    qed
    then show ?case using Cons.IH [OF inv] x by simp
  qed simp
  then show ?thesis by (simp add: stays_def)
qed

theorem uncommitted_partial_stuck_witness:
  "\<exists>r. reachable toy_crypto example_config r \<and>
     (\<forall>evs. \<exists>a'. acq (run_events toy_crypto example_config evs r) (m_ID empty_example) = Some a' \<and> aq_assembly a' = Some (NewAssembly empty_example) \<and> aq_waiting a' = 0)"
proof -
  obtain r where r: "reachable toy_crypto example_config r"
    "rt_acquisitions r = [(m_ID empty_example, resumed empty_example)]"
    using empty_resumed by blast
  have a: "acq r (m_ID empty_example) = Some (resumed empty_example)"
    "aq_assembly (resumed empty_example) = Some (NewAssembly empty_example)" "aq_waiting (resumed empty_example) = 0"
    using r(2) by (simp_all add: acq_def resumed_def)
  have "assembly_Complete (NewAssembly empty_example)"
    by (simp add: assembly_Complete_iff) (simp add: NewAssembly_def empty_example_def example_manifest_def)
  from uncommitted_partial_stuck [OF r(1) a(1,2) this a(3)] r(1) show ?thesis by blast
qed

end
