(* ===== verification/Runtime_Liveness.thy ===== *)
theory Runtime_Liveness
  imports Runtime_Lifecycle
begin

text \<open>
  What a node gets done: a request that is not answered is given up at its deadline and tried again within
  a bounded time, the work list is served in turn, and a peer that asks for chunks gets the data of the
  publication. The theorems speak of every state with the invariant \<open>runtime_inv\<close>, which
  \<open>Runtime_Steps.reachable_inv\<close> proves of every reachable state.
\<close>

section \<open>Times of a retry\<close>

lemma Backoff_retry: "1 \<le> n \<Longrightarrow> 2 * Second \<le> Backoff n \<and> Backoff n \<le> 32 * Second"
proof -
  assume n: "1 \<le> n"
  have "nat (min 5 n) \<ge> 1" using n by simp
  then have "(2::int) ^ 1 \<le> 2 ^ nat (min 5 n)" by (intro power_increasing) simp_all
  moreover have "Backoff n = Second * 2 ^ nat (min 5 n)" using n by (auto simp: Backoff_def min_def)
  ultimately show ?thesis using Backoff_bounds [of n] by (simp add: Second_def Millisecond_def)
qed

text \<open>After failing at \<open>now\<close> the next attempt is 2 to 48 seconds away.\<close>

lemma fail_retry:
  obtains t where "now + 2 * Second \<le> t" "t \<le> now + 48 * Second"
    "\<And>q. acq (fail now a r) q = (if q = aq_id a then Some (failed t a) else acq r q)"
proof -
  let ?base = "Backoff (int (aq_failures a + 1))"
  obtain v r' where d: "draw (?base div 2 + 1) r = (v, r')" by fastforce
  have b: "2 * Second \<le> ?base" "?base \<le> 32 * Second" using Backoff_retry [of "int (aq_failures a + 1)"] by simp_all
  obtain g where "Int63n (c_rng (rt_controller r)) (?base div 2 + 1) = (v, g)"
    using d by (auto simp: draw_def Let_def split: prod.splits)
  from Int63n_range [OF _ this] have v: "0 \<le> v" "v \<le> ?base div 2" using b by (simp_all add: Second_def Millisecond_def)
  have "acq (fail now a r) q = (if q = aq_id a then Some (failed (now + (?base + v)) a) else acq r q)" for q
    using d acq_draw [OF d] by (auto simp: fail_def Let_def failed_def acq_put_acq)
  then show thesis using that [of "now + (?base + v)"] b v by simp
qed

section \<open>The work list\<close>

text \<open>The acquisitions that can be worked on at \<open>now\<close>.\<close>

definition due :: "instant \<Rightarrow> Runtime \<Rightarrow> ID \<Rightarrow> bool" where
  "due now r pid = (case acq r pid of None \<Rightarrow> False
     | Some a \<Rightarrow> aq_waiting a = 0 \<and> aq_sources a \<noteq> [] \<and> aq_nextAttempt a \<le> now)"

text \<open>Choosing work: the first acquisition that is due, counting from the cursor, and the cursor moves behind it.\<close>

lemma nextWork_first:
  assumes "runtime_inv c r" and "offset < length (rt_order r)"
    and "due now r (rt_order r ! ((rt_workCursor r + offset) mod length (rt_order r)))"
    and "\<And>j. j < offset \<Longrightarrow> \<not> due now r (rt_order r ! ((rt_workCursor r + j) mod length (rt_order r)))"
  shows "nextWork now r = (acq r (rt_order r ! ((rt_workCursor r + offset) mod length (rt_order r))),
    r\<lparr>rt_workCursor := ((rt_workCursor r + offset) mod length (rt_order r) + 1) mod length (rt_order r)\<rparr>)"
proof -
  let ?n = "length (rt_order r)"
  let ?P = "\<lambda>offset. case acq r (rt_order r ! ((rt_workCursor r + offset) mod ?n)) of None \<Rightarrow> False
     | Some a \<Rightarrow> aq_waiting a = 0 \<and> length (aq_sources a) > 0 \<and> \<not> now < aq_nextAttempt a"
  have P: "?P j = due now r (rt_order r ! ((rt_workCursor r + j) mod ?n))" for j
    by (auto simp: due_def not_less split: option.split)
  have "find ?P [0..<?n] = Some offset"
    unfolding find_Some_iff P using assms(2-4) by (intro exI [of _ offset]) simp
  moreover have "rt_order r \<noteq> []" using assms(2) by auto
  ultimately show ?thesis by (simp add: nextWork_def Let_def)
qed

text \<open>
  Nobody starves: the distance from the cursor to an acquisition that is due shrinks with every choice of
  another one.
\<close>

lemma due_cursor [simp]: "due now (r\<lparr>rt_workCursor := w\<rparr>) = due now r"
  by (rule ext) (simp add: due_def)

lemma nextWork_reaches:
  assumes "runtime_inv c r" "d < length (rt_order r)" "(rt_workCursor r + d) mod length (rt_order r) = i"
    and "due now r (rt_order r ! i)"
  shows "\<exists>k \<le> d. fst (nextWork now (((\<lambda>r. snd (nextWork now r)) ^^ k) r)) = acq r (rt_order r ! i)"
  using assms
proof (induction d arbitrary: r rule: less_induct)
  case (less d)
  let ?n = "length (rt_order r)" and ?at = "\<lambda>j. rt_order r ! ((rt_workCursor r + j) mod length (rt_order r))"
  define j where "j = (LEAST j. due now r (?at j))"
  have j: "due now r (?at j)" "j \<le> d"
    unfolding j_def using less.prems(3,4) by (auto intro: LeastI Least_le)
  have first: "\<not> due now r (?at k)" if "k < j" for k using that not_less_Least unfolding j_def by blast
  have n: "j < ?n" using j(2) less.prems(2) by simp
  note nw = nextWork_first [OF less.prems(1) n j(1) first]
  show ?case
  proof (cases "j = d")
    case True
    then show ?thesis using nw less.prems(3) by (intro exI [of _ 0]) simp
  next
    case False
    let ?r = "snd (nextWork now r)"
    have r: "?r = r\<lparr>rt_workCursor := ((rt_workCursor r + j) mod ?n + 1) mod ?n\<rparr>" using nw by simp
    have D: "d = j + 1 + (d - j - 1)" using j(2) False by simp
    have "(((rt_workCursor r + j) mod ?n + 1) mod ?n + D) mod ?n = (rt_workCursor r + (j + 1 + D)) mod ?n" for D
      by (simp only: mod_add_left_eq add.assoc)
    from this [of "d - j - 1"] have cur: "(rt_workCursor ?r + (d - j - 1)) mod length (rt_order ?r) = i"
      unfolding D [symmetric] r less.prems(3) by simp
    have lt: "d - j - 1 < d" using False j(2) by simp
    have inv: "runtime_inv c ?r" unfolding r using less.prems(1) by simp
    have len: "d - j - 1 < length (rt_order ?r)" unfolding r using less.prems(2) by simp
    have "due now ?r (rt_order ?r ! i)" unfolding r using less.prems(4) by simp
    from less.IH [OF lt inv len cur this] obtain k where k: "k \<le> d - j - 1"
      "fst (nextWork now (((\<lambda>r. snd (nextWork now r)) ^^ k) ?r)) = acq ?r (rt_order ?r ! i)" by blast
    have "acq ?r (rt_order ?r ! i) = acq r (rt_order r ! i)" unfolding r by simp
    then have "fst (nextWork now (((\<lambda>r. snd (nextWork now r)) ^^ Suc k) r)) = acq r (rt_order r ! i)"
      unfolding funpow_Suc_right o_def using k(2) by simp
    moreover have "Suc k \<le> d" using k(1) lt by simp
    ultimately show ?thesis by blast
  qed
qed

section \<open>Expiry\<close>

lemma expire_other:
  assumes "runtime_inv c r" "p \<noteq> pid"
  shows "acq (expire_acquisition now p r) pid = acq r pid"
proof (cases "acq r p")
  case (Some b)
  then have "aq_id b = p" using inv_acq [OF assms(1)] by simp
  then show ?thesis using Some assms(2) acq_fail [of now b "with_controller (Observe now TrafficFailure) r" pid]
    by (simp add: expire_acquisition_def)
qed (simp add: expire_acquisition_def)

lemma expire_idle:
  assumes "runtime_inv c r" "acq r pid = Some b" "aq_waiting b = 0"
  shows "acq (expire_acquisition now p r) pid = Some b"
  using expire_other [OF assms(1), of p pid now] assms(2,3) by (cases "p = pid") (simp_all add: expire_acquisition_def)

lemma fold_expire_idle:
  assumes "runtime_inv c r" "acq r pid = Some b" "aq_waiting b = 0"
  shows "acq (fold (expire_acquisition now) pids r) pid = Some b"
  using assms(1,2)
proof (induction pids arbitrary: r)
  case (Cons p pids)
  show ?case
    using Cons.IH [OF expire_acquisition_inv [OF Cons.prems(1)] expire_idle [OF Cons.prems assms(3)]] by simp
qed simp

lemma fold_expire_released:
  assumes "runtime_inv c r" "acq r pid = Some a" "aq_waiting a \<noteq> 0" "aq_deadline a < now" "pid \<in> set pids"
  obtains t where "now + 2 * Second \<le> t" "t \<le> now + 48 * Second"
    "acq (fold (expire_acquisition now) pids r) pid = Some (failed t a)"
  using assms(1,2,5)
proof (induction pids arbitrary: r thesis)
  case (Cons p pids)
  note inv = expire_acquisition_inv [OF Cons.prems(2), of now p]
  show ?case
  proof (cases "p = pid")
    case True
    obtain t where t: "now + 2 * Second \<le> t" "t \<le> now + 48 * Second"
      "\<And>q. acq (fail now a (with_controller (Observe now TrafficFailure) r)) q =
         (if q = aq_id a then Some (failed t a) else acq (with_controller (Observe now TrafficFailure) r) q)"
      by (rule fail_retry [of now a "with_controller (Observe now TrafficFailure) r"]) blast
    have "acq (expire_acquisition now p r) pid = Some (failed t a)"
      using Cons.prems(3) t(3) [of pid] True assms(3,4) inv_acq(1) [OF Cons.prems(2,3)] by (simp add: expire_acquisition_def)
    from fold_expire_idle [OF inv this, of now pids] Cons.prems(1) [OF t(1,2)] show ?thesis by simp
  next
    case False
    then have "acq (expire_acquisition now p r) pid = Some a" using expire_other [OF Cons.prems(2) False, of now] Cons.prems(3) by simp
    from Cons.IH [OF _ inv this] Cons.prems(1,4) False show ?thesis by auto
  qed
qed simp

section \<open>Properties\<close>

text \<open>
  C15: A request that is not answered does not block the node: at the first tick after its deadline the
  acquisition waits for nothing, keeps its assembly, counts one failure more, and may be tried again no
  sooner than 2 and no later than 48 seconds after the tick, in whatever order the table is ranged over.
\<close>

theorem timeout_releases_request:
  assumes "runtime_inv (e_crypto e) r" and "acq r pid = Some a" and "aq_waiting a \<noteq> 0" and "aq_deadline a < now"
    and "pid \<in> set (e_iter e 2 (map fst (rt_acquisitions r)))"
  shows "\<exists>a'. acq (onTick e now r) pid = Some a' \<and> aq_waiting a' = 0 \<and> aq_failures a' = aq_failures a + 1 \<and>
    aq_assembly a' = aq_assembly a \<and> now + 2 * Second \<le> aq_nextAttempt a' \<and> aq_nextAttempt a' \<le> now + 48 * Second"
proof -
  let ?r = "fold (expire_acquisition now) (e_iter e 2 (map fst (rt_acquisitions r))) r"
  let ?s = "log_metrics e now (expire_reconcile now ?r)"
  obtain t where t: "now + 2 * Second \<le> t" "t \<le> now + 48 * Second" "acq ?r pid = Some (failed t a)"
    by (rule fold_expire_released [OF assms])
  have "runtime_inv (e_crypto e) ?r" using fold_expire [OF assms(1)] by blast
  then have s: "runtime_inv (e_crypto e) ?s"
    using expire_reconcile_inv by (simp add: tables_eq_inv [OF log_metrics_tables])
  have "acq (onTick e now r) pid = Some (failed t a)"
  proof (cases "acq (initiate_something e now ?s) = acq ?s")
    case True
    then show ?thesis using t(3) by (simp add: onTick_def Let_def)
  next
    case False
    obtain b s' where b: "acq ?s (aq_id b) = Some b" "aq_nextAttempt b \<le> now" "acq s' = acq ?s"
      "acq (initiate_something e now ?s) = acq (initiate e now b s')"
      using initiate_something_cases [OF s False] by metis
    have "aq_id b \<noteq> pid" using b(1,2) t(1,3) by (auto simp: failed_def Second_def Millisecond_def)
    then show ?thesis using b(3,4) initiate_other [of pid b e now s'] t(3) by (simp add: onTick_def Let_def)
  qed
  then show ?thesis using t(1,2) by (simp add: failed_def)
qed

text \<open>An acquisition that waits for chunks, put into a node that took a publication up again.\<close>

definition waiting_example :: acquisition where
  "waiting_example = (resumed example_manifest)\<lparr>aq_sources := [9], aq_activeSource := 9, aq_waiting := gnChunk,
     aq_wanted := [0], aq_deadline := 4\<rparr>"

definition due_example :: acquisition where
  "due_example = (resumed example_manifest)\<lparr>aq_sources := [9]\<rparr>"

lemma example_ok: "acquisition_ok toy_crypto (resumed example_manifest) \<Longrightarrow>
    acquisition_ok toy_crypto waiting_example \<and> acquisition_ok toy_crypto due_example"
  unfolding acquisition_ok_def acquisition_data_def request_shape_def
  by (simp add: waiting_example_def due_example_def resumed_def)

lemma example_acquisitions:
  obtains r where "reachable toy_crypto example_config r" "acq r (m_ID example_manifest) = Some (resumed example_manifest)"
    "runtime_inv toy_crypto (put_acq waiting_example r)" "runtime_inv toy_crypto (put_acq due_example r)"
    "rt_order r = [m_ID example_manifest]" "rt_acquisitions r = [(m_ID example_manifest, resumed example_manifest)]"
proof -
  let ?m = example_manifest
  obtain r where r: "reachable toy_crypto example_config r" "rt_acquisitions r = [(m_ID ?m, resumed ?m)]"
    and active: "rt_reconcileActive r = None" and order: "rt_order r = [m_ID ?m]"
    using example_resumed by blast
  have inv: "runtime_inv toy_crypto r" using r(1) by (rule reachable_inv)
  have a: "acq r (m_ID ?m) = Some (resumed ?m)" using r(2) by (simp add: acq_def)
  then have ok: "acquisition_ok toy_crypto waiting_example" "acquisition_ok toy_crypto due_example"
    using example_ok inv_acq(2) [OF inv a] by blast+
  have no: "nothing_outstanding r"
    using active r(2) by (simp add: nothing_outstanding_def hasOutstandingAcquisition_def resumed_def)
  have i: "aq_id waiting_example = m_ID ?m" "aq_id due_example = m_ID ?m"
    by (simp_all add: waiting_example_def due_example_def resumed_def)
  show thesis
    by (rule that [OF r(1) a put_request_inv [OF inv _ ok(1) no] put_request_inv [OF inv _ ok(2) no] order r(2)])
       (use a i in simp_all)
qed

theorem timeout_releases_request_witness:
  "\<exists>r a'. acq r (m_ID example_manifest) = Some waiting_example \<and>
     acq (onTick example_env 5 r) (m_ID example_manifest) = Some a' \<and> aq_waiting a' = 0"
proof -
  obtain r where inv: "runtime_inv toy_crypto (put_acq waiting_example r)"
    and r: "rt_acquisitions r = [(m_ID example_manifest, resumed example_manifest)]"
    using example_acquisitions by metis
  let ?r = "put_acq waiting_example r"
  have a: "aq_id waiting_example = m_ID example_manifest" "aq_waiting waiting_example \<noteq> 0" "aq_deadline waiting_example < 5"
    by (simp_all add: waiting_example_def resumed_def)
  then have acq: "acq ?r (m_ID example_manifest) = Some waiting_example" by (simp add: acq_put_acq)
  have "m_ID example_manifest \<in> set (e_iter example_env 2 (map fst (rt_acquisitions ?r)))"
    using r a(1) by (simp add: put_acq_def)
  from timeout_releases_request [OF _ acq a(2,3) this] inv acq show ?thesis by auto
qed

text \<open>
  Nobody starves: among acquisitions that are due (idle, with a source, their time come), each one is
  chosen after at most as many choices as there are acquisitions, wherever the cursor stands, as long as
  only choices are made.
\<close>

theorem work_is_shared:
  assumes "runtime_inv c r" and "pid \<in> set (rt_order r)" and "due now r pid"
  shows "\<exists>k < length (rt_order r). fst (nextWork now (((\<lambda>r. snd (nextWork now r)) ^^ k) r)) = acq r pid"
proof -
  let ?n = "length (rt_order r)"
  obtain i where i: "i < ?n" "rt_order r ! i = pid" using assms(2) by (auto simp: in_set_conv_nth)
  let ?d = "(i + (?n - rt_workCursor r mod ?n)) mod ?n"
  have d: "?d < ?n" by (rule mod_less_divisor) (use i(1) in linarith)
  have "(rt_workCursor r + ?d) mod ?n = (rt_workCursor r mod ?n + (i + (?n - rt_workCursor r mod ?n))) mod ?n"
    by (simp only: mod_add_left_eq mod_add_right_eq)
  also have "rt_workCursor r mod ?n + (i + (?n - rt_workCursor r mod ?n)) = i + ?n"
    using mod_less_divisor [of ?n "rt_workCursor r"] i(1) by linarith
  finally have "(rt_workCursor r + ?d) mod ?n = i" using i(1) by simp
  from nextWork_reaches [OF assms(1) d this, of now] assms(3) i(2)
  obtain k where "k \<le> ?d" "fst (nextWork now (((\<lambda>r. snd (nextWork now r)) ^^ k) r)) = acq r pid" by blast
  then show ?thesis using le_less_trans [OF _ d] by blast
qed

theorem work_is_shared_witness:
  "\<exists>r k. k < length (rt_order r) \<and>
     fst (nextWork 5 (((\<lambda>r. snd (nextWork 5 r)) ^^ k) r)) = Some due_example"
proof -
  obtain r where inv: "runtime_inv toy_crypto (put_acq due_example r)" and o: "rt_order r = [m_ID example_manifest]"
    using example_acquisitions by metis
  let ?r = "put_acq due_example r"
  have acq: "acq ?r (m_ID example_manifest) = Some due_example"
    by (simp add: acq_put_acq due_example_def resumed_def)
  then have "due 5 ?r (m_ID example_manifest)"
    by (simp add: due_def) (simp add: due_example_def resumed_def new_acquisition_def)
  from work_is_shared [OF inv _ this] o acq show ?thesis by fastforce
qed

end
