(* ===== verification/Runtime_Storage.thy ===== *)
theory Runtime_Storage
  imports Runtime_Examples
begin

text \<open>
  What the handlers do to the store: only an answer to an outstanding request changes the disk at all, and
  below \<open>objects\<close>, where complete publications live, only a commit writes, and only to the publication of
  the assembly it commits.
\<close>

section \<open>Operations of the store\<close>

definition objects_kept :: "ID set \<Rightarrow> disk \<Rightarrow> disk \<Rightarrow> bool" where
  "objects_kept S fs fs' \<longleftrightarrow> (\<forall>pid q. pid \<notin> S \<longrightarrow> in_object pid q \<longrightarrow> lookup fs' q = lookup fs q)"

lemma objects_kept_refl [simp]: "objects_kept S fs fs"
  by (simp add: objects_kept_def)

lemma objects_kept_trans: "objects_kept S fs gs \<Longrightarrow> objects_kept T gs hs \<Longrightarrow> objects_kept (S \<union> T) fs hs"
  unfolding objects_kept_def by (metis UnCI)

lemma objects_kept_mono: "objects_kept S fs gs \<Longrightarrow> S \<subseteq> T \<Longrightarrow> objects_kept T fs gs"
  unfolding objects_kept_def by blast

lemma in_object_not_dir: "in_object pid q \<Longrightarrow> q \<noteq> [str ''partial''] \<and> q \<noteq> [str ''objects''] \<and> \<not> prefix q (knownDir pid')"
  by (cases q) (auto simp: in_object_def path_defs str_def dest: prefix_length_le)

lemma Begin_keeps: "Begin c io m fs = (x, fs') \<Longrightarrow> objects_kept {} fs fs'"
  using Begin_frame in_object_not_partial in_object_not_dir unfolding objects_kept_def by blast

lemma load_chunks_Manifest: "load_chunks io fs indices a = Inr b \<Longrightarrow> a_Manifest b = a_Manifest a"
  by (induction indices arbitrary: a) (auto simp: Add_Manifest split: sum.splits if_splits)

lemma Begin_Manifest: "Begin c io m fs = (Inr a, fs') \<Longrightarrow> a_Manifest a = m"
  unfolding Begin_alt by (auto dest!: load_chunks_Manifest split: if_splits)

lemma RemoveAll_partial_keeps: "RemoveAll io (partialDir pid) fs = (x, fs') \<Longrightarrow> objects_kept {} fs fs'"
  using RemoveAll_other in_object_not_partial unfolding objects_kept_def in_partial_def by blast

lemma DiscardPartial_keeps: "objects_kept {} fs (snd (DiscardPartial io pid fs))"
  using RemoveAll_partial_keeps [of io pid fs] by (cases "DiscardPartial io pid fs") (simp add: DiscardPartial_def)

lemma Restart_keeps: "Restart c io m fs = (x, fs') \<Longrightarrow> objects_kept {} fs fs'"
  unfolding Restart_def
  by (erule and_then_cases) (use RemoveAll_partial_keeps Begin_keeps objects_kept_trans in \<open>fastforce\<close>)+

lemma Store_Add_keeps_objects: "assembly_inv a \<Longrightarrow> Store_Add io a index data fs = (x, a', fs') \<Longrightarrow> objects_kept {} fs fs'"
  using Store_Add_frame unfolding objects_kept_def by (metis in_object_simps(5))

lemma SaveKnown_keeps: "SaveKnown c io m fs = (x, fs') \<Longrightarrow> objects_kept {} fs fs'"
  unfolding objects_kept_def
proof (intro allI impI)
  fix pid q
  assume run: "SaveKnown c io m fs = (x, fs')" and q: "in_object pid q"
  have mf: "q \<noteq> manifest_file (knownDir (m_ID m))" using q by auto
  have d: "lookup gs q = lookup fs q" if "MkdirAll io (knownDir (m_ID m)) fs = (y, gs)" for y gs
    using MkdirAll_other [OF that] in_object_not_dir [OF q] by blast
  show "lookup fs' q = lookup fs q"
    using run writeAtomic_other [OF _ mf] d
    by (auto simp: SaveKnown_def split: sum.splits if_splits elim!: and_then_cases)
qed

lemma Commit_keeps: "Commit c io a fs = (x, fs') \<Longrightarrow> objects_kept {m_ID (a_Manifest a)} fs fs'"
proof (unfold objects_kept_def, intro allI impI)
  fix pid q
  assume run: "Commit c io a fs = (x, fs')" and pid: "pid \<notin> {m_ID (a_Manifest a)}" and q: "in_object pid q"
  have o: "\<not> in_object (m_ID (a_Manifest a)) q" "\<not> in_partial (m_ID (a_Manifest a)) q" "q \<noteq> [str ''objects'']"
    using pid q in_object_unique in_object_not_partial in_object_not_dir by blast+
  from run show "lookup fs' q = lookup fs q" by (cases rule: Commit_cases) (use o in auto)
qed

section \<open>The handlers\<close>

lemma rt_disk_more [simp]:
  "rt_disk (put_acq a r) = rt_disk r" "rt_disk (removeOrder pid r) = rt_disk r" "rt_disk (delete_acq pid r) = rt_disk r"
  "rt_disk (forget pid r) = rt_disk r" "rt_disk (markSourceInspected pid source r) = rt_disk r"
  "rt_disk (dropReconciliation peer r) = rt_disk r" "rt_disk (snd (refreshInventory e r)) = rt_disk r"
  by (simp_all add: put_acq_def removeOrder_def Let_def delete_acq_def forget_def clearInspected_def
      markSourceInspected_marked dropReconciliation_def refreshInventory_def split: sum.split)

lemma draw_disk: "draw n r = (v, r') \<Longrightarrow> rt_disk r' = rt_disk r"
  by (auto simp: draw_def Let_def split: prod.splits)

lemma time_Now_disk: "time_Now r = (t, r') \<Longrightarrow> rt_disk r' = rt_disk r"
  by (auto simp: time_Now_def)

lemma send_disk: "send now wire r = (ok, r') \<Longrightarrow> rt_disk r' = rt_disk r"
  by (auto simp: send_def Let_def with_controller_def split: if_splits)

lemma fail_disk [simp]: "rt_disk (fail now a r) = rt_disk r"
  by (auto simp: fail_def Let_def dest: draw_disk split: prod.splits)

lemma committed_disk [simp]: "rt_disk (committed e pid r) = rt_disk r"
  by (simp add: committed_def)

lemma commit_new_keeps:
  "objects_kept {m_ID (a_Manifest s)} (rt_disk r) (rt_disk (commit_new e now a s r))"
proof (cases "Commit (e_crypto e) (e_io e) s (rt_disk r)")
  case (Pair x fs)
  note k = Commit_keeps [OF Pair]
  have "objects_kept {m_ID (a_Manifest s)} (rt_disk r) (snd (DiscardPartial (e_io e) pid fs))" for pid
    using objects_kept_trans [OF k DiscardPartial_keeps] by simp
  then show ?thesis using Pair k by (simp add: commit_new_def split: sum.split)
qed

lemma accept_inspected_keeps:
  "objects_kept {m_ID m} (rt_disk r) (rt_disk (accept_inspected e now a m r))"
proof (cases "SaveKnown (e_crypto e) (e_io e) m (rt_disk r)")
  case (Pair x fs)
  have k: "objects_kept {m_ID m} (rt_disk r) fs" using SaveKnown_keeps [OF Pair] objects_kept_mono by blast
  obtain y gs where b: "Begin (e_crypto e) (e_io e) m fs = (y, gs)" by fastforce
  have g: "objects_kept {m_ID m} (rt_disk r) gs" using objects_kept_trans [OF k Begin_keeps [OF b]] by simp
  show ?thesis
  proof (cases x)
    case (Inl err)
    then show ?thesis using Pair k by (simp add: accept_inspected_def)
  next
    case (Inr u)
    have "objects_kept {m_ID m} (rt_disk r) (rt_disk (commit_new e now a' s (set_disk gs r')))" if "y = Inr s" for s a' r'
      using objects_kept_trans [OF g commit_new_keeps [of s "set_disk gs r'" e now a', unfolded rt_disk_simps]] Begin_Manifest [OF b [unfolded that]] by simp
    then show ?thesis using Pair Inr k b g
      by (simp add: accept_inspected_def Let_def split: sum.split)
  qed
qed

text \<open>The publications a node may be writing: those of the manifests and assemblies it holds.\<close>

definition acquiring :: "Runtime \<Rightarrow> ID list" where
  "acquiring r = concat (map (\<lambda>(_, a).
     (case aq_manifest a of None \<Rightarrow> [] | Some m \<Rightarrow> [m_ID m]) @
     (case aq_assembly a of None \<Rightarrow> [] | Some s \<Rightarrow> [m_ID (a_Manifest s)])) (rt_acquisitions r))"

lemma acquiring_manifest: "acq r pid = Some a \<Longrightarrow> aq_manifest a = Some m \<Longrightarrow> m_ID m \<in> set (acquiring r)"
  by (force simp: acquiring_def acq_def dest: map_of_SomeD)

lemma acquiring_assembly: "acq r pid = Some a \<Longrightarrow> aq_assembly a = Some s \<Longrightarrow> m_ID (a_Manifest s) \<in> set (acquiring r)"
  by (force simp: acquiring_def acq_def dest: map_of_SomeD)

lemma acceptSignature_keeps:
  assumes "runtime_inv (e_crypto e) r"
  shows "objects_kept (set (acquiring r)) (rt_disk r) (rt_disk (acceptSignature e now packet r))"
proof (cases "active e 1 packet r")
  case (Some a)
  note a = active_Some [OF assms Some]
  show ?thesis
  proof (cases "aq_manifest a")
    case man: (Some m)
    have "objects_kept (set (acquiring r)) (rt_disk r) (rt_disk (accept_inspected e now a (m\<lparr>m_Signature := sig, m_Version := v\<rparr>)
        (markSourceInspected pid source r)))" for sig v pid source
      using objects_kept_mono [OF accept_inspected_keeps [of "m\<lparr>m_Signature := sig, m_Version := v\<rparr>"
        "markSourceInspected pid source r" e now a]] acquiring_manifest [OF a(1) man] by simp
    then show ?thesis using Some man by (auto simp: acceptSignature_def Let_def split: sum.split)
  qed (use Some in \<open>simp add: acceptSignature_def\<close>)
qed (simp add: acceptSignature_def)

lemma chunk_stored_keeps:
  "objects_kept {m_ID (a_Manifest s)} (rt_disk r) (rt_disk (chunk_stored e now a s r))"
proof (cases "Commit (e_crypto e) (e_io e) s (rt_disk r)")
  case (Pair x fs)
  note k = Commit_keeps [OF Pair]
  obtain y gs where b: "Restart (e_crypto e) (e_io e) (a_Manifest s) fs = (y, gs)" by fastforce
  have "objects_kept {m_ID (a_Manifest s)} (rt_disk r) gs" using objects_kept_trans [OF k Restart_keeps [OF b]] by simp
  then show ?thesis using Pair k b by (simp add: chunk_stored_def split: sum.split)
qed

lemma acceptChunk_keeps:
  assumes "runtime_inv (e_crypto e) r"
  shows "objects_kept (set (acquiring r)) (rt_disk r) (rt_disk (acceptChunk e now packet r))"
proof (cases "active e 1 packet r")
  case (Some a)
  note a = active_Some [OF assms Some]
  have v: "assembly_inv s" "verified (e_crypto e) s" if "aq_assembly a = Some s" for s
    using a(2) that by (simp_all add: acquisition_ok_def acquisition_data_def verified_def)
  show ?thesis
  proof (cases rule: acceptChunk_cases [OF Some, of now])
    case (3 index data s err s' fs)
    then show ?thesis using objects_kept_mono [OF Store_Add_keeps_objects [OF v(1) [OF 3(4)] 3(5)]] by simp
  next
    case (4 index data s s' fs)
    have "m_ID (a_Manifest s') \<in> set (acquiring r)"
      using acquiring_assembly [OF a(1) 4(4)] Store_Add_verified(2) [OF 4(5) v(2) [OF 4(4)]] by simp
    then show ?thesis
      unfolding 4(6) using objects_kept_trans [OF Store_Add_keeps_objects [OF v(1) [OF 4(4)] 4(5)],
        OF chunk_stored_keeps [of s' "set_disk fs r", unfolded rt_disk_simps]] by (auto intro: objects_kept_mono)
  qed simp_all
qed (simp add: acceptChunk_def)

text \<open>No other handler touches the disk.\<close>

lemma queueReconciliation_disk [simp]: "rt_disk (queueReconciliation p g x now r) = rt_disk r"
  by (auto simp: queueReconciliation_def split: prod.splits dest: draw_disk)

lemma queue_all_disk [simp]: "rt_disk (queue_all p g xs now r) = rt_disk r"
  unfolding queue_all_def by (induction xs arbitrary: r) simp_all

lemma track_peer_disk [simp]: "rt_disk (track_peer p g r) = rt_disk r"
  by (simp add: track_peer_def Let_def)

lemma addCandidate_disk: "addCandidate pid source r = (x, r') \<Longrightarrow> rt_disk r' = rt_disk r"
  by (auto simp: addCandidate_def Let_def split: option.splits if_splits)

lemma schedule_candidate_disk:
  "(\<And>s. rt_disk (snd (first s)) = rt_disk s) \<Longrightarrow> rt_disk (schedule_candidate pid source first r) = rt_disk r"
  by (auto simp: schedule_candidate_def case_prod_unfold Let_def addCandidate_disk [OF prod.collapse [symmetric]] split: option.split)

lemma leaf_id_disk [simp]: "rt_disk (leaf_id e now source pid r) = rt_disk r"
proof -
  have "rt_disk (snd (let (v, r) = draw n s in (now + v, r))) = rt_disk s" for n s
    by (simp add: draw_def Let_def case_prod_unfold)
  then show ?thesis by (simp add: leaf_id_def Let_def schedule_candidate_disk)
qed

lemma fold_disk: "(\<And>x r. rt_disk (f x r) = rt_disk r) \<Longrightarrow> rt_disk (fold f xs r) = rt_disk r"
  by (induction xs arbitrary: r) simp_all

lemma serve_disk [simp]:
  "rt_disk (serve_stored e now encode packet r) = rt_disk r"
  "rt_disk (serve_bits e now packet req bs remaining r) = rt_disk r"
proof -
  have s: "rt_disk (snd (send now wire r)) = rt_disk r" for wire r
    by (cases "send now wire r") (simp add: send_disk)
  then show "rt_disk (serve_stored e now encode packet r) = rt_disk r"
    by (simp add: serve_stored_def split: sum.split)
  show "rt_disk (serve_bits e now packet req bs remaining r) = rt_disk r"
    by (induction bs arbitrary: remaining r)
       (auto simp: Let_def split: sum.split prod.split dest: send_disk)
qed

lemma handlers_disk [simp]:
  "rt_disk (handleRootSummary e now packet r) = rt_disk r" "rt_disk (acceptSummary e now packet r) = rt_disk r"
  "rt_disk (acceptLeaf e now packet r) = rt_disk r" "rt_disk (serveChunks e now packet r) = rt_disk r"
  "rt_disk (acceptManifest e now packet r) = rt_disk r" "rt_disk (observe_packet e now rx packet r) = rt_disk r"
  by (simp_all add: handleRootSummary_def acceptSummary_def acceptLeaf_def serveChunks_def acceptManifest_def
      observe_packet_def Let_def fold_disk split: sum.split option.split)

lemma serveSummary_disk [simp]: "rt_disk (serveSummary e now packet r) = rt_disk r"
  by (auto simp: serveSummary_def Let_def split: sum.splits prod.splits if_splits dest: send_disk)

lemma acquiring_observe [simp]: "acquiring (observe_packet e now rx packet r) = acquiring r"
  by (simp add: acquiring_def observe_packet_def Let_def with_controller_def)

lemma handleIncoming_keeps:
  assumes "runtime_inv (e_crypto e) r"
  shows "objects_kept (set (acquiring r)) (rt_disk r) (rt_disk (handleIncoming e now rx r))"
proof (cases "Decode (rx_Payload rx)")
  case (Inr packet)
  let ?r = "observe_packet e now rx packet r"
  have o: "runtime_inv (e_crypto e) ?r" using assms by (simp add: observe_packet_def Let_def)
  have "objects_kept (set (acquiring r)) (rt_disk r) (rt_disk (handleAddressed e now packet ?r))"
    using acceptSignature_keeps [OF o, of now packet] acceptChunk_keeps [OF o, of now packet]
    by (simp add: handleAddressed_def Let_def serveManifest_def serveSignature_def)
  then show ?thesis using Inr by (simp add: handleIncoming_def Let_def)
qed (simp add: handleIncoming_def)

lemma expire_disk [simp]:
  "rt_disk (expire_acquisition now pid r) = rt_disk r" "rt_disk (expire_reconcile now r) = rt_disk r"
  "rt_disk (log_metrics e now r) = rt_disk r"
  by (auto simp: expire_acquisition_def expire_reconcile_def log_metrics_def Let_def split: option.split prod.split dest: draw_disk)

lemma request_disk [simp]: "rt_disk (request e now a wire kind count r) = rt_disk r"
proof (cases "send now wire r")
  case (Pair ok r1)
  then show ?thesis using send_disk [OF Pair]
    by (cases ok) (auto simp: request_def split: prod.split dest: time_Now_disk)
qed

lemma initiate_disk [simp]: "rt_disk (initiate e now a r) = rt_disk r"
  by (simp add: initiate_def Let_def split: option.split prod.split)

lemma snd_send_disk [simp]: "rt_disk (snd (send now wire r)) = rt_disk r"
  by (rule send_disk [OF prod.collapse [symmetric]])

lemma advertise_disk [simp]: "rt_disk (advertise e now r) = rt_disk r"
proof (cases "refreshInventory e r")
  case (Pair x r1)
  have "rt_disk r1 = rt_disk r" using rt_disk_more(7) [of e r] Pair by simp
  then show ?thesis using Pair by (cases x) (simp_all add: advertise_def Let_def case_prod_unfold)
qed

lemma initiateReconcile_disk: "initiateReconcile e now r = (b, r') \<Longrightarrow> rt_disk r' = rt_disk r"
  by (auto simp: initiateReconcile_def Let_def split: if_splits list.splits sum.splits prod.splits bool.splits
      dest!: send_disk draw_disk time_Now_disk)

lemma nextWork_disk: "nextWork now r = (x, r') \<Longrightarrow> rt_disk r' = rt_disk r"
  by (auto simp: nextWork_def Let_def split: if_splits option.splits)

lemma onTick_disk [simp]: "rt_disk (onTick e now r) = rt_disk r"
proof -
  have "rt_disk (initiate_something e now s) = rt_disk s" for s
    by (auto simp: initiate_something_def Let_def split: prod.split option.split if_split
        dest!: nextWork_disk initiateReconcile_disk)
  then show ?thesis by (simp add: onTick_def Let_def fold_disk)
qed

section \<open>Properties\<close>

text \<open>
  C9: What a node holds complete stays complete and servable: a step of the main loop (a packet and the tick
  after it) changes nothing below \<open>objects\<close> of any publication the node is not acquiring at that moment, so
  whether it is complete, and every chunk it serves, is as before, whatever the packet is and whatever calls
  of the file system fail; and a tick alone never writes.
\<close>

theorem complete_publications_untouched:
  assumes "runtime_inv (e_crypto e) r" and "pid \<notin> set (acquiring r)"
  shows "Complete (e_crypto e) io (rt_disk (run_event e (PacketIn rx now later) r)) pid =
      Complete (e_crypto e) io (rt_disk r) pid \<and>
    ReadChunk (e_crypto e) io (rt_disk (run_event e (PacketIn rx now later) r)) pid index =
      ReadChunk (e_crypto e) io (rt_disk r) pid index \<and>
    rt_disk (run_event e (Quiet now) r) = rt_disk r"
proof -
  let ?fs = "rt_disk (handleIncoming e now rx r)"
  have k: "lookup ?fs q = lookup (rt_disk r) q" if "in_object pid q" for q
    using handleIncoming_keeps [OF assms(1)] assms(2) that by (simp add: objects_kept_def)
  then have "Complete (e_crypto e) io ?fs pid = Complete (e_crypto e) io (rt_disk r) pid" by (rule Complete_cong)
  moreover have "ReadChunk (e_crypto e) io ?fs pid index = ReadChunk (e_crypto e) io (rt_disk r) pid index"
    using k read_cong(2) [of ?fs "content_file pid" "rt_disk r" io]
      readManifest_cong [of ?fs "manifest_file (objectDir pid)" "rt_disk r" "e_crypto e" io]
    by (simp add: ReadChunk_def LoadManifest_def cong: if_cong)
  ultimately show ?thesis by simp
qed

theorem complete_publications_untouched_witness:
  "\<exists>r pid. acquiring r = [m_ID example_manifest] \<and> pid \<noteq> m_ID example_manifest \<and>
     (\<forall>rx. Complete toy_crypto no_faults (rt_disk (run_event example_env (PacketIn rx 5 6) r)) pid =
       Complete toy_crypto no_faults (rt_disk r) pid)"
proof -
  obtain r where r: "reachable toy_crypto example_config r"
    "rt_acquisitions r = [(m_ID example_manifest, resumed example_manifest)]"
    using example_resumed by blast
  have inv: "runtime_inv (e_crypto example_env) r" using reachable_inv [OF r(1)] by simp
  have a: "acquiring r = [m_ID example_manifest]"
    using r(2) by (simp add: acquiring_def resumed_def NewAssembly_def)
  have c: "copy_array [1] \<noteq> m_ID example_manifest" by (simp add: example_manifest_def array_eq_iff array_bytes_copy numeral_eq_Suc)
  then have "copy_array [1] \<notin> set (acquiring r)" using a by simp
  from complete_publications_untouched [OF inv this, of no_faults _ 5 6]
  have "\<forall>rx. Complete toy_crypto no_faults (rt_disk (run_event example_env (PacketIn rx 5 6) r)) (copy_array [1]) =
     Complete toy_crypto no_faults (rt_disk r) (copy_array [1])" by simp
  with a c show ?thesis by blast
qed

end
