(* ===== verification/Runtime_Serving.thy ===== *)
theory Runtime_Serving
  imports Runtime_Liveness
begin

text \<open>
  The exchange of chunks across two nodes: the request one node builds from its missing chunks is answered
  by the other with exactly those chunks.
\<close>

section \<open>The request\<close>

lemma chosen_bitmap_mark:
  assumes "\<forall>b \<in> set w. b < 8"
  shows "chosen_bitmap base (map (\<lambda>b. base + of_nat b) w) = mark w"
proof -
  have u: "unat (base + of_nat b - base :: 16 word) = b" if "b \<in> set w" for b
  proof -
    have "b < 8" using assms that by blast
    then show ?thesis by (simp add: unat_of_nat_fits)
  qed
  have "foldl (\<lambda>v index. v OR push_bit (unat (index - base)) 1) z (map (\<lambda>b. base + of_nat b) w) =
      foldl (\<lambda>v b. v OR push_bit b 1) z w" for z :: byte
    using u by (induction w arbitrary: z) simp_all
  then show ?thesis by (simp add: chosen_bitmap_def mark_def)
qed

text \<open>The first \<open>k\<close> chunks of a batch, and the offsets the other side reads off the bitmap made for them.\<close>

lemma chosen_offsets:
  assumes "MissingBatch flags start = (base, bitmap, indexes)" "length flags \<le> 65535"
  obtains w where "take k indexes = map (\<lambda>b. base + of_nat b) w"
    "filter (bit (chosen_bitmap base (take k indexes))) [0..<8] = w" "bits (chosen_bitmap base (take k indexes)) = length w"
    "length w \<le> 4" "\<forall>b \<in> set w. unat (base + of_nat b) < length flags"
proof (cases "\<forall>i < length flags. flags ! i")
  case True
  then have "indexes = []" using assms(1) by (simp add: MissingBatch_none)
  then show thesis using that [of "[]"] by (simp add: chosen_bitmap_def bits_eq_card)
next
  case False
  obtain i baseInt w where w: "w = take 4 (window flags baseInt [0..<8])"
    "MissingBatch flags start = (of_nat baseInt, mark w, map (\<lambda>b. of_nat (baseInt + b)) w)"
    by (rule MissingBatch_some [OF False]) blast
  have "take k w = take (min k 4) (window flags baseInt [0..<8])" using w(1) by (simp add: min.commute)
  note t = take_window [OF this]
  have base: "base = of_nat baseInt" "indexes = map (\<lambda>b. base + of_nat b) w" using assms(1) w(2) by auto
  then have tk: "take k indexes = map (\<lambda>b. base + of_nat b) (take k w)" by (simp add: take_map)
  have u: "unat (base + of_nat b) < length flags" if "b \<in> set (take k w)" for b
    using t(4) that assms(2) unfolding base(1) of_nat_add [symmetric] by (subst unat_of_nat_fits) fastforce+
  show thesis
    by (rule that [of "take k w"])
       (use tk t u w(1) in \<open>simp_all add: chosen_bitmap_mark filter_mark bits_mark\<close>)
qed

section \<open>The answer\<close>

lemma send_ok:
  assumes "shd (rt_radio r)"
  obtains r' where "send now wire r = (True, r')" "rt_sent r' = rt_sent r @ [(wire, True)]" "rt_disk r' = rt_disk r"
    "rt_radio r' = stl (rt_radio r)"
  using assms that by (simp add: send_def Let_def with_controller_def)

lemma serve_bits_sent:
  assumes "\<And>b. b \<in> set bs \<Longrightarrow> bit (cr_Bitmap req) b \<Longrightarrow>
      ReadChunk (e_crypto e) (e_io e) (rt_disk r) (cr_ID req) (cr_Base req + of_nat b) = Inr (data b) \<and>
      gn_EncodeChunk (node_id e) (np_Source packet) (np_Transaction packet) (cr_Base req + of_nat b) (data b) = Inr (wire b)"
    and "length (filter (bit (cr_Bitmap req)) bs) \<le> remaining"
    and "list_all id (stake (length (filter (bit (cr_Bitmap req)) bs)) (rt_radio r))"
  shows "rt_sent (serve_bits e now packet req bs remaining r) =
    rt_sent r @ map (\<lambda>b. (wire b, True)) (filter (bit (cr_Bitmap req)) bs)"
  using assms
proof (induction bs arbitrary: remaining r)
  case (Cons b bs)
  show ?case
  proof (cases "bit (cr_Bitmap req) b")
    case False
    then show ?thesis using Cons.IH [of r remaining] Cons.prems by (cases remaining) auto
  next
    case True
    then have "shd (rt_radio r)" using Cons.prems(3) by simp
    then obtain r' where r': "send now (wire b) r = (True, r')" "rt_sent r' = rt_sent r @ [(wire b, True)]"
      "rt_disk r' = rt_disk r" "rt_radio r' = stl (rt_radio r)" by (rule send_ok)
    let ?r = "with_metrics (\<lambda>m. m\<lparr>BulkBytes := BulkBytes m + of_nat (length (wire b))\<rparr>) r'"
    have "rt_sent (serve_bits e now packet req bs (remaining - 1) ?r) =
        rt_sent ?r @ map (\<lambda>b. (wire b, True)) (filter (bit (cr_Bitmap req)) bs)"
      by (rule Cons.IH) (use Cons.prems True r' in \<open>auto simp: with_metrics_def\<close>)
    then show ?thesis using Cons.prems(1) [of b] Cons.prems(2) True r' by (simp add: with_metrics_def)
  qed
qed simp

lemma gn_EncodeChunk_address:
  assumes "gn_EncodeChunk s d t index data = Inr wire"
  obtains p where "Decode wire = Inr p" "np_Source p = s" "np_Destination p = d" "np_Transaction p = t"
  using assms that by (auto simp: gn_EncodeChunk_def Encode_Inr_iff split: if_splits)

lemma EncodeChunkRequest_address:
  assumes "EncodeChunkRequest s d t req = Inr wire" "Decode wire = Inr p"
  shows "np_Source p = s" "np_Destination p = d" "np_Transaction p = t"
  using assms by (auto simp: EncodeChunkRequest_def Encode_Inr_iff split: if_splits)

lemma stake_prefix: "list_all id (stake n s) \<Longrightarrow> k \<le> n \<Longrightarrow> list_all id (stake k s)"
  by (metis list_all_append stake_add le_Suc_ex)

section \<open>Properties\<close>

text \<open>
  C19: A node that asks for chunks gets them: a receiver asks for the first few (its pressure decides how many) of
  the chunks \<open>MissingBatch\<close> lists; the node that holds the publication complete and whose radio accepts
  its packets sends exactly those chunks, in that order, each decoding to its index and to the chunk of the
  content the hash of the manifest is of, under the transaction of the request, and sends nothing else.
\<close>

theorem chunk_request_served:
  assumes "Complete (e_crypto e) (e_io e) (rt_disk r) pid"
    and "LoadManifest (e_crypto e) (e_io e) (rt_disk r) pid = Inr m"
    and "length flags = unat (m_ChunkCount m)" and "MissingBatch flags start = (base, bitmap, indexes)"
    and "EncodeChunkRequest requester (node_id e) tx
      \<lparr>cr_ID = pid, cr_Base = base, cr_Bitmap = chosen_bitmap base (take k indexes)\<rparr> = Inr request_wire"
    and "Decode request_wire = Inr packet" and "list_all id (stake 4 (rt_radio r))"
  shows "\<exists>content wires. ReadBytes (e_io e) (rt_disk r) (content_file pid) = Inr content \<and>
    sha256 (e_crypto e) content = m_SHA256 m \<and>
    rt_sent (serveChunks e now packet r) = rt_sent r @ map (\<lambda>w. (w, True)) wires \<and>
    map (\<lambda>w. bind_err (Decode w) gn_DecodeChunk) wires =
      map (\<lambda>index. Inr (index, chunk_of m content (unat index))) (take k indexes) \<and>
    (\<forall>w \<in> set wires. \<exists>p. Decode w = Inr p \<and> np_Source p = node_id e \<and> np_Destination p = requester \<and> np_Transaction p = tx)"
proof -
  let ?req = "\<lparr>cr_ID = pid, cr_Base = base, cr_Bitmap = chosen_bitmap base (take k indexes)\<rparr>"
  obtain content where c: "sha256 (e_crypto e) content = m_SHA256 m" "length content = unat (m_Length m)" "manifest_ok m"
    "\<forall>index < m_ChunkCount m. ReadChunk (e_crypto e) (e_io e) (rt_disk r) pid index = Inr (chunk_of m content (unat index))"
    "ReadBytes (e_io e) (rt_disk r) (content_file pid) = Inr content"
    using Complete_content [OF assms(1)] assms(2) by (metis sum.inject(2))
  have short: "length flags \<le> 65535" using c(3) assms(3) by (simp add: manifest_ok_def geometry_def)
  obtain w where w: "take k indexes = map (\<lambda>b. base + of_nat b) w" "filter (bit (cr_Bitmap ?req)) [0..<8] = w"
    "length w \<le> 4" "\<forall>b \<in> set w. unat (base + of_nat b) < length flags"
    by (rule chosen_offsets [OF assms(4), of k]) (use short in simp_all)
  have packet: "DecodeChunkRequest packet = Inr ?req"
    using DecodeChunkRequest_EncodeChunkRequest [OF assms(5)] assms(6) by simp
  have addr: "np_Source packet = requester" "np_Transaction packet = tx"
    using EncodeChunkRequest_address [OF assms(5,6)] by simp_all
  define data where "data b = chunk_of m content (unat (base + of_nat b))" for b
  have "length (data b) \<le> ChunkDataSize" for b
    using c(2,3) by (simp add: data_def length_chunk_of chunk_len_def manifest_ok_def geometry_def min.coboundedI1)
  then have "\<forall>b. \<exists>x. gn_EncodeChunk (node_id e) requester tx (base + of_nat b) (data b) = Inr x"
    using gn_EncodeChunk_total by blast
  from choice [OF this] obtain wire where enc: "gn_EncodeChunk (node_id e) requester tx (base + of_nat b) (data b) = Inr (wire b)" for b
    by blast
  have "rt_sent (serve_bits e now packet ?req [0..<8] MaxChunkBatch r) =
      rt_sent r @ map (\<lambda>b. (wire b, True)) (filter (bit (cr_Bitmap ?req)) [0..<8])"
  proof (rule serve_bits_sent [where data = data])
    fix b assume "b \<in> set [0..<8]" "bit (cr_Bitmap ?req) b"
    then have "b \<in> set w" using w(2) by auto
    then have "base + of_nat b < m_ChunkCount m" using w(4) assms(3) by (simp add: word_less_nat_alt)
    then show "ReadChunk (e_crypto e) (e_io e) (rt_disk r) (cr_ID ?req) (cr_Base ?req + of_nat b) = Inr (data b) \<and>
        gn_EncodeChunk (node_id e) (np_Source packet) (np_Transaction packet) (cr_Base ?req + of_nat b) (data b) = Inr (wire b)"
      using c(4) enc addr by (simp add: data_def)
  next
    show "length (filter (bit (cr_Bitmap ?req)) [0..<8]) \<le> MaxChunkBatch" using w(2,3) by simp
    show "list_all id (stake (length (filter (bit (cr_Bitmap ?req)) [0..<8])) (rt_radio r))"
      using stake_prefix [OF assms(7) w(3)] w(2) by simp
  qed
  then have "rt_sent (serveChunks e now packet r) = rt_sent r @ map (\<lambda>w. (w, True)) (map wire w)"
    using packet assms(1) w(2) by (simp add: serveChunks_def)
  moreover have "map (\<lambda>w. bind_err (Decode w) gn_DecodeChunk) (map wire w) =
      map (\<lambda>index. Inr (index, chunk_of m content (unat index))) (take k indexes)"
    unfolding w(1) using gn_DecodeChunk_gn_EncodeChunk [OF enc] by (simp add: data_def)
  moreover have "\<forall>x \<in> set (map wire w). \<exists>p. Decode x = Inr p \<and> np_Source p = node_id e \<and> np_Destination p = requester \<and> np_Transaction p = tx"
    using gn_EncodeChunk_address [OF enc] by (metis (no_types, lifting) image_iff list.set_map)
  ultimately show ?thesis using c(1,5) by blast
qed

theorem chunk_request_served_witness:
  "\<exists>r packet wires (m :: Manifest). Complete toy_crypto no_faults (rt_disk r) (m_ID m) \<and> m_ChunkCount m = 1 \<and>
     rt_sent (serveChunks example_env 5 packet r) = map (\<lambda>w. (w, True)) wires \<and>
     map (\<lambda>w. bind_err (Decode w) gn_DecodeChunk) wires = [Inr (0, [7])]"
proof -
  obtain m p fs where run: "AddFileSigned toy_crypto no_faults (str ''a'') (Inr [7]) (Some toy_identity) [] = (Inr (m, p), fs)"
    by (rule toy_publishing [of "[7]" "str ''a''"]) (simp_all add: Base_def str_def)
  note w = AddFileSigned_written [OF run empty_not_Complete]
  have name: "m_Filename m = Base (str ''a'')" using w by simp
  have "utf8_valid (m_Filename m)" unfolding name by (rule utf8_valid_ascii) (simp add: Base_def str_def)
  then have wr: "Complete toy_crypto no_faults fs (m_ID m)" "LoadManifest toy_crypto no_faults fs (m_ID m) = Inr m"
    using written_Complete [of toy_crypto fs m "[7]"] w by simp_all
  have len: "unat (m_Length m) = 1" and geo: "0 < unat (m_ChunkSize m)"
    "unat (m_ChunkCount m) = chunk_total (unat (m_Length m)) (unat (m_ChunkSize m))"
    using w by (simp_all add: manifest_ok_def geometry_def word_less_nat_alt)
  have one: "unat (m_ChunkCount m) = 1" using len geo by (simp add: chunk_total_def)
  let ?r = "fresh_runtime (NewController (sconst 0)) fs (sconst True) (sconst 1)"
  have r: "rt_disk ?r = fs" "rt_sent ?r = []" "rt_radio ?r = sconst True" by (simp_all add: fresh_runtime_def Intn_def)
  have batch: "MissingBatch [False] 0 = (0, 1, [0])" by (simp add: MissingBatch_def upt_rec Let_def)
  let ?req = "\<lparr>cr_ID = m_ID m, cr_Base = 0, cr_Bitmap = chosen_bitmap 0 (take 4 [0])\<rparr>"
  have "bits (cr_Bitmap ?req) \<le> MaxChunkBatch" by (simp add: chosen_bitmap_def bits.simps [of 1] bits.simps [of 0])
  then obtain wire where enc: "EncodeChunkRequest 9 (node_id example_env) 3 ?req = Inr wire"
    using EncodeChunkRequest_total by blast
  then obtain packet where dec: "Decode wire = Inr packet"
    by (auto simp: EncodeChunkRequest_def Encode_Inr_iff split: if_splits)
  have radio: "list_all id (stake 4 (rt_radio ?r))" unfolding r by (simp add: eval_nat_numeral)
  have held: "Complete (e_crypto example_env) (e_io example_env) (rt_disk ?r) (m_ID m)"
    "LoadManifest (e_crypto example_env) (e_io example_env) (rt_disk ?r) (m_ID m) = Inr m"
    "length [False] = unat (m_ChunkCount m)" using wr one r by simp_all
  obtain content wires where s: "ReadBytes (e_io example_env) (rt_disk ?r) (content_file (m_ID m)) = Inr content"
    "rt_sent (serveChunks example_env 5 packet ?r) = rt_sent ?r @ map (\<lambda>w. (w, True)) wires"
    "map (\<lambda>w. bind_err (Decode w) gn_DecodeChunk) wires =
      map (\<lambda>index. Inr (index, chunk_of m content (unat index))) (take 4 [0])"
    using chunk_request_served [OF held batch enc dec radio, of 5] by blast
  then have a: "ReadBytes no_faults fs (content_file (m_ID m)) = Inr content"
    "rt_sent (serveChunks example_env 5 packet ?r) = map (\<lambda>w. (w, True)) wires"
    "map (\<lambda>w. bind_err (Decode w) gn_DecodeChunk) wires = [Inr (0, chunk_of m content 0)]"
    using r by simp_all
  have "content = [7]" using a(1) w by (auto simp: written_def)
  then have "chunk_of m content 0 = [7]" using geo(1) by (simp add: chunk_of_def gslice_def len)
  moreover have "m_ChunkCount m = 1" using one by (simp add: word_unat_eq_iff)
  ultimately show ?thesis using a(2,3) wr(1) r(1)
    by (intro exI [of _ ?r] exI [of _ packet] exI [of _ wires] exI [of _ m] conjI) simp_all
qed

end
