(* ===== verification/Runtime_Packets.thy ===== *)
theory Runtime_Packets
  imports Runtime_Storage Runtime_Serving
begin

text \<open>
  What a node transmits: \<open>sends\<close> says that a handler only adds packets of this node to the sequence given to
  the radio, each a packet its own decoder accepts. The encoders whose errors the code drops never fail here.
\<close>

section \<open>Packets of a node\<close>

definition own_packet :: "NodeID \<Rightarrow> byte list \<Rightarrow> bool" where
  "own_packet me wire \<longleftrightarrow> (case Decode wire of Inl _ \<Rightarrow> False | Inr p \<Rightarrow> np_Source p = me)"

definition sends :: "NodeID \<Rightarrow> Runtime \<Rightarrow> Runtime \<Rightarrow> bool" where
  "sends me r r' \<longleftrightarrow> (\<exists>new. rt_sent r' = rt_sent r @ new \<and> (\<forall>(wire, ok) \<in> set new. own_packet me wire))"

lemma sends_same: "rt_sent r' = rt_sent r \<Longrightarrow> sends me r r'"
  by (simp add: sends_def)

lemma sends_refl [simp]: "sends me r r"
  by (simp add: sends_same)

lemma sends_trans [trans]: "sends me r s \<Longrightarrow> sends me s t \<Longrightarrow> sends me r t"
  unfolding sends_def by (elim exE conjE) (metis (no_types, lifting) UnE append_assoc set_append)

lemma sends_before: "rt_sent s = rt_sent r \<Longrightarrow> sends me s t = sends me r t"
  by (simp add: sends_def)

lemma sends_after: "rt_sent t = rt_sent s \<Longrightarrow> sends me r t = sends me r s"
  by (simp add: sends_def)

lemma Encode_own: "Encode (gn_packet t me d x body) = Inr wire \<Longrightarrow> own_packet me wire"
  by (simp add: own_packet_def Encode_Inr_iff)

lemma encoded_own:
  "EncodeIDRequest k me d t pid = Inr wire \<Longrightarrow> own_packet me wire"
  "EncodeSignatureRequest me d t pid = Inr wire \<Longrightarrow> own_packet me wire"
  "EncodeSignature me d t sig = Inr wire \<Longrightarrow> own_packet me wire"
  "EncodeChunkRequest me d t req = Inr wire \<Longrightarrow> own_packet me wire"
  "gn_EncodeChunk me d t index data = Inr wire \<Longrightarrow> own_packet me wire"
  "EncodeSummaryRequest me d t g p = Inr wire \<Longrightarrow> own_packet me wire"
  "EncodeSummary me d t s = Inr wire \<Longrightarrow> own_packet me wire"
  "EncodeLeaf me d t l = Inr wire \<Longrightarrow> own_packet me wire"
  by (auto simp: EncodeIDRequest_def EncodeSignatureRequest_def EncodeSignature_def EncodeChunkRequest_def gn_EncodeChunk_def
      EncodeSummaryRequest_def EncodeSummary_def EncodeLeaf_def intro: Encode_own split: if_splits)

lemma manifest_own: "gn_EncodeManifest me d t m = Inr wire \<Longrightarrow> own_packet me wire"
  by (cases "EncodeManifest m"; cases "DecodePacket (projr (EncodeManifest m))")
     (auto simp: gn_EncodeManifest_def Let_def intro: Encode_own)

lemma wire_or_nil_own:
  "own_packet me (wire_or_nil (EncodeIDRequest k me d t pid))"
  "own_packet me (wire_or_nil (EncodeSignatureRequest me d t pid))"
  "bits (cr_Bitmap req) \<le> MaxChunkBatch \<Longrightarrow> own_packet me (wire_or_nil (EncodeChunkRequest me d t req))"
  "own_packet me (wire_or_nil (EncodeSummary me d t (BuildSummary h ids [])))"
proof -
  show i: "own_packet me (wire_or_nil (EncodeIDRequest k me d t pid))" for k
    using EncodeIDRequest_total [of k me d t pid] encoded_own(1) [of k me d t pid] by (auto simp: wire_or_nil_def)
  then show "own_packet me (wire_or_nil (EncodeSignatureRequest me d t pid))" by (simp add: EncodeSignatureRequest_def)
  show "own_packet me (wire_or_nil (EncodeChunkRequest me d t req))" if "bits (cr_Bitmap req) \<le> MaxChunkBatch"
    using EncodeChunkRequest_total [OF that, of me d t] encoded_own(4) [of me d t req] by (auto simp: wire_or_nil_def)
  obtain b where "EncodeSummary me d t (BuildSummary h ids []) = Inr b"
    by (rule EncodeSummary_total [of "BuildSummary h ids []" me d t]) (simp, simp_all add: BuildSummary_def)
  then show "own_packet me (wire_or_nil (EncodeSummary me d t (BuildSummary h ids [])))"
    using encoded_own(7) by (simp add: wire_or_nil_def)
qed

section \<open>The handlers\<close>

lemma rt_sent_simps [simp]:
  "rt_sent (with_controller f r) = rt_sent r" "rt_sent (with_metrics g r) = rt_sent r" "rt_sent (set_disk fs r) = rt_sent r"
  "rt_sent (put_acq a r) = rt_sent r" "rt_sent (removeOrder pid r) = rt_sent r" "rt_sent (delete_acq pid r) = rt_sent r"
  "rt_sent (forget pid r) = rt_sent r" "rt_sent (markSourceInspected pid source r) = rt_sent r"
  "rt_sent (dropReconciliation peer r) = rt_sent r" "rt_sent (snd (refreshInventory e r)) = rt_sent r"
  by (simp_all add: with_controller_def with_metrics_def set_disk_def put_acq_def removeOrder_def Let_def delete_acq_def
      forget_def clearInspected_def markSourceInspected_marked dropReconciliation_def refreshInventory_def split: sum.split)

lemma draw_sent: "draw n r = (v, r') \<Longrightarrow> rt_sent r' = rt_sent r"
  by (auto simp: draw_def Let_def split: prod.splits)

lemma time_Now_sent: "time_Now r = (t, r') \<Longrightarrow> rt_sent r' = rt_sent r"
  by (auto simp: time_Now_def)

lemma fail_sent [simp]: "rt_sent (fail now a r) = rt_sent r"
  by (auto simp: fail_def Let_def dest: draw_sent split: prod.splits)

lemma committed_sent [simp]: "rt_sent (committed e pid r) = rt_sent r"
  by (simp add: committed_def)

lemma send_sent: "send now wire r = (ok, r') \<Longrightarrow> rt_sent r' = rt_sent r @ [(wire, ok)]"
  by (auto simp: send_def Let_def with_controller_def split: if_splits)

lemma send_sends: "own_packet me wire \<Longrightarrow> send now wire r = (ok, r') \<Longrightarrow> sends me r r'"
  unfolding sends_def by (rule exI [of _ "[(wire, ok)]"]) (simp add: send_sent)

lemma queueReconciliation_sent [simp]: "rt_sent (queueReconciliation p g x now r) = rt_sent r"
  by (auto simp: queueReconciliation_def split: prod.splits dest: draw_sent)

lemma queue_all_sent [simp]: "rt_sent (queue_all p g xs now r) = rt_sent r"
  unfolding queue_all_def by (induction xs arbitrary: r) simp_all

lemma track_peer_sent [simp]: "rt_sent (track_peer p g r) = rt_sent r"
  by (simp add: track_peer_def Let_def)

lemma addCandidate_sent: "addCandidate pid source r = (x, r') \<Longrightarrow> rt_sent r' = rt_sent r"
  by (auto simp: addCandidate_def Let_def split: option.splits if_splits)

lemma schedule_candidate_sent:
  "(\<And>s. rt_sent (snd (first s)) = rt_sent s) \<Longrightarrow> rt_sent (schedule_candidate pid source first r) = rt_sent r"
  by (auto simp: schedule_candidate_def case_prod_unfold Let_def addCandidate_sent [OF prod.collapse [symmetric]] split: option.split)

lemma leaf_id_sent [simp]: "rt_sent (leaf_id e now source pid r) = rt_sent r"
proof -
  have "rt_sent (snd (let (v, r) = draw n s in (now + v, r))) = rt_sent s" for n s
    by (simp add: draw_def Let_def case_prod_unfold)
  then show ?thesis by (simp add: leaf_id_def Let_def schedule_candidate_sent)
qed

lemma fold_sent: "(\<And>x r. rt_sent (f x r) = rt_sent r) \<Longrightarrow> rt_sent (fold f xs r) = rt_sent r"
  by (induction xs arbitrary: r) simp_all

lemma commit_new_sent [simp]: "rt_sent (commit_new e now a s r) = rt_sent r"
  by (simp add: commit_new_def split: prod.split sum.split)

lemma chunk_stored_sent [simp]: "rt_sent (chunk_stored e now a s r) = rt_sent r"
  by (simp add: chunk_stored_def split: prod.split sum.split)

lemma accept_inspected_sent [simp]: "rt_sent (accept_inspected e now a m r) = rt_sent r"
  by (simp add: accept_inspected_def Let_def split: prod.split sum.split)

lemma acceptChunk_sent [simp]: "rt_sent (acceptChunk e now packet r) = rt_sent r"
proof (cases "active e 1 packet r")
  case (Some a)
  then show ?thesis by (cases rule: acceptChunk_cases [OF Some, of now]) simp_all
qed (simp add: acceptChunk_def)

lemma silent_handlers [simp]:
  "rt_sent (handleRootSummary e now packet r) = rt_sent r" "rt_sent (acceptSummary e now packet r) = rt_sent r"
  "rt_sent (acceptLeaf e now packet r) = rt_sent r" "rt_sent (acceptManifest e now packet r) = rt_sent r"
  "rt_sent (acceptSignature e now packet r) = rt_sent r" "rt_sent (observe_packet e now rx packet r) = rt_sent r"
  by (simp_all add: handleRootSummary_def acceptSummary_def acceptLeaf_def acceptManifest_def acceptSignature_def
      observe_packet_def Let_def fold_sent split: sum.split option.split)

lemma serve_stored_sends:
  assumes "\<And>m wire. encode m = Inr wire \<Longrightarrow> own_packet me wire"
  shows "sends me r (serve_stored e now encode packet r)"
proof -
  have "sends me r (snd (send now wire (with_metrics g r)))" if "encode m = Inr wire" for m wire g
    using send_sends [OF assms [OF that], of now "with_metrics g r"] sends_before [of "with_metrics g r" r me]
    by (cases "send now wire (with_metrics g r)") simp
  then show ?thesis by (auto simp: serve_stored_def split: sum.split)
qed

lemma serve_bits_sends: "sends (node_id e) r (serve_bits e now packet req bs remaining r)"
proof (induction bs arbitrary: remaining r)
  case (Cons b bs)
  have "sends (node_id e) r (serve_bits e now packet req bs n (with_metrics g r'))"
    "sends (node_id e) r (serve_bits e now packet req bs n r')"
    if "gn_EncodeChunk (node_id e) d t i data = Inr wire" "send now wire r = (ok, r')" for d t i data wire ok r' n g
    using send_sends [OF encoded_own(5) [OF that(1)] that(2)] Cons.IH sends_trans
      sends_before [of "with_metrics g r'" r' "node_id e"] by (metis rt_sent_simps(2))+
  then show ?case using Cons.IH by (auto simp: Let_def split: sum.split prod.split)
qed simp

lemma serveSummary_sends: "sends (node_id e) r (serveSummary e now packet r)"
proof -
  have "sends (node_id e) r (case send now wire (with_metrics g r) of
      (ok, s) \<Rightarrow> if ok then with_metrics h s else s)" if "own_packet (node_id e) wire" for wire g h
    using send_sends [OF that, of now "with_metrics g r"] by (auto simp: sends_def split: prod.split)
  then show ?thesis using encoded_own(7,8)
    by (auto simp: serveSummary_def Let_def split: sum.split if_split)
qed

lemma handleIncoming_sends: "sends (node_id e) r (handleIncoming e now rx r)"
proof (cases "Decode (rx_Payload rx)")
  case (Inr packet)
  let ?r = "observe_packet e now rx packet r"
  have "sends (node_id e) ?r (serveManifest e now packet ?r)" "sends (node_id e) ?r (serveSignature e now packet ?r)"
    unfolding serveManifest_def serveSignature_def by (rule serve_stored_sends, erule manifest_own encoded_own(3))+
  moreover have "sends (node_id e) ?r (serveChunks e now packet ?r)"
    using serve_bits_sends by (simp add: serveChunks_def split: sum.split)
  ultimately have "sends (node_id e) ?r (handleAddressed e now packet ?r)"
    using serveSummary_sends by (simp add: handleAddressed_def Let_def sends_same)
  then show ?thesis using Inr sends_before [of ?r r "node_id e"]
    by (simp add: handleIncoming_def Let_def sends_same)
qed (simp add: handleIncoming_def)

lemma expire_sent [simp]:
  "rt_sent (expire_acquisition now pid r) = rt_sent r" "rt_sent (expire_reconcile now r) = rt_sent r"
  "rt_sent (log_metrics e now r) = rt_sent r"
  by (auto simp: expire_acquisition_def expire_reconcile_def log_metrics_def Let_def split: option.split prod.split dest: draw_sent)

lemma request_sends:
  assumes "own_packet me wire"
  shows "sends me r (request e now a wire kind count r)"
proof (cases "send now wire r")
  case (Pair ok r1)
  note s = send_sends [OF assms Pair]
  obtain t r2 where t: "time_Now (with_metrics count r1) = (t, r2)" by fastforce
  have "rt_sent r2 = rt_sent r1" using time_Now_sent [OF t] by simp
  then have "sends me r (put_acq a' r2)" "sends me r (fail now a r1)" for a'
    using s sends_after [of "put_acq a' r2" r1 me r] sends_after [of "fail now a r1" r1 me r] by simp_all
  then show ?thesis using Pair t by (cases ok) (simp_all add: request_def)
qed

lemma advertise_sends: "sends (node_id e) r (advertise e now r)"
proof (cases "refreshInventory e r")
  case (Pair x r1)
  have r1: "rt_sent r1 = rt_sent r" using rt_sent_simps(10) [of e r] Pair by simp
  have "sends (node_id e) r1 (snd (send now wire r1))" if "own_packet (node_id e) wire" for wire
    using send_sends [OF that] by (cases "send now wire r1") simp
  then show ?thesis using Pair r1 wire_or_nil_own(4) [of "node_id e" Broadcast 0 "hash e" "rt_completeIDs r1"]
    by (cases x) (auto simp: advertise_def Let_def case_prod_unfold sends_def)
qed

lemma initiateReconcile_sends: "initiateReconcile e now r = (b, r') \<Longrightarrow> sends (node_id e) r r'"
  by (auto simp: initiateReconcile_def Let_def sends_def split: if_splits list.splits sum.splits prod.splits bool.splits
      dest!: send_sent draw_sent time_Now_sent encoded_own(6))

lemma nextWork_sent: "nextWork now r = (x, r') \<Longrightarrow> rt_sent r' = rt_sent r"
  by (auto simp: nextWork_def Let_def split: if_splits option.splits)

lemma initiate_sends:
  assumes "acquisition_data (e_crypto e) a"
  shows "sends (node_id e) r (initiate e now a r)"
proof -
  let ?r = "r\<lparr>rt_tx := rt_tx r + 1\<rparr>" and ?a = "prepared a (rt_tx r + 1)"
  have req: "sends (node_id e) r (request e now b wire kind count (r\<lparr>rt_tx := t, rt_controller := c\<rparr>))"
    "sends (node_id e) r (request e now b wire kind count (r\<lparr>rt_tx := t\<rparr>))"
    if "own_packet (node_id e) wire" for b wire kind count t c
    using request_sends [OF that, of "r\<lparr>rt_tx := t, rt_controller := c\<rparr>" e now b kind count]
      request_sends [OF that, of "r\<lparr>rt_tx := t\<rparr>" e now b kind count] by (simp_all add: sends_def)
  show ?thesis
  proof (cases "aq_sources a = []")
    case True
    then show ?thesis by (simp add: initiate_def sends_same)
  next
    case False
    show ?thesis
    proof (cases "aq_assembly a")
      case None
      then show ?thesis using False req(2) wire_or_nil_own(1,2) by (simp add: initiate_def Let_def)
    next
      case (Some s)
      obtain base bitmap indexes where b: "MissingBatch (Received s) (aq_cursor a) = (base, bitmap, indexes)" by (rule prod_cases3)
      have "assembly_inv s" using assms Some by (simp add: acquisition_data_def verified_def)
      then have short: "length (Received s) \<le> 65535" by (auto simp: assembly_inv_def geometry_def Received_def)
      have "bits (chosen_bitmap base (take k indexes)) \<le> MaxChunkBatch" for k
        by (rule chosen_offsets [OF b short, of k]) simp
      then have "own_packet (node_id e) (wire_or_nil (EncodeChunkRequest (node_id e) d t
          \<lparr>cr_ID = i, cr_Base = base, cr_Bitmap = chosen_bitmap base (take k indexes)\<rparr>))" for d t i k
        by (intro wire_or_nil_own(3)) simp
      then show ?thesis using False Some b req(1) by (simp add: initiate_def Let_def sends_same split: prod.split)
    qed
  qed
qed

lemma initiate_something_sends:
  assumes "runtime_inv (e_crypto e) r"
  shows "sends (node_id e) r (initiate_something e now r)"
proof -
  obtain may k where can: "CanInitiate now (rt_controller r) = (may, k)" by fastforce
  let ?r = "r\<lparr>rt_controller := k\<rparr>"
  have inv: "runtime_inv (e_crypto e) ?r" using assms by simp
  obtain done1 r1 where r1: "(if rt_preferReconcile ?r then initiateReconcile e now ?r else (False, ?r)) = (done1, r1)" by fastforce
  have s1: "sends (node_id e) r r1"
    using r1 initiateReconcile_sends [of e now ?r] sends_before [of ?r r] by (auto simp: sends_same split: if_splits)
  have inv1: "runtime_inv (e_crypto e) r1"
    using r1 inv initiateReconcile_inv [OF inv, of e now] by (auto split: if_splits)
  obtain x r2 where w: "nextWork now r1 = (x, r2)" by fastforce
  have s2: "sends (node_id e) r r2" using s1 sends_after [OF nextWork_sent [OF w]] by simp
  have work: "sends (node_id e) r (initiate e now a r2)" if "x = Some a" for a
    using nextWork_Some(1) [OF w [unfolded that] inv1] inv_acq(2) [OF inv1] initiate_sends sends_trans [OF s2]
    by (fastforce simp: acquisition_ok_def)
  obtain done2 r3 where r3: "initiateReconcile e now r2 = (done2, r3)" by fastforce
  have s3: "sends (node_id e) r r3" using sends_trans [OF s2 initiateReconcile_sends [OF r3]] .
  have adv: "sends (node_id e) r (advertise e now ?r)" using advertise_sends [of e ?r now] by (simp add: sends_def)
  have flag: "sends (node_id e) r (s\<lparr>rt_preferReconcile := b\<rparr>) = sends (node_id e) r s" for s b by (simp add: sends_def)
  show ?thesis using can r1 w work r3 s1 s2 s3 adv
    by (cases x) (auto simp: initiate_something_def Let_def flag sends_same split: if_splits)
qed

lemma onTick_sends:
  assumes "runtime_inv (e_crypto e) r"
  shows "sends (node_id e) r (onTick e now r)"
proof -
  let ?r = "fold (expire_acquisition now) (e_iter e 2 (map fst (rt_acquisitions r))) r"
  let ?s = "log_metrics e now (expire_reconcile now ?r)"
  have "runtime_inv (e_crypto e) ?r" using assms by (intro fold_inv expire_acquisition_inv)
  then have "runtime_inv (e_crypto e) ?s"
    using expire_reconcile_inv by (simp add: tables_eq_inv [OF log_metrics_tables])
  from initiate_something_sends [OF this] show ?thesis
    using sends_before [of ?s r "node_id e"] by (simp add: onTick_def Let_def fold_sent)
qed

section \<open>Every reachable state\<close>

lemma run_event_sends: "runtime_inv (e_crypto e) r \<Longrightarrow> sends (node_id e) r (run_event e ev r)"
  using onTick_sends handleIncoming_sends handleIncoming_inv
  by (cases ev) (simp_all add: sends_same, meson sends_trans)

lemma resume_partial_sent [simp]: "rt_sent (resume_partial e pid r) = rt_sent r"
  by (simp add: resume_partial_def Let_def case_prod_unfold addCandidate_sent [OF prod.collapse [symmetric]] split: sum.split option.split)

lemma NewRuntime_sent: "NewRuntime e k now fs radio clock = Inr r \<Longrightarrow> rt_sent r = []"
proof (erule NewRuntime_form)
  fix r0 partial wanted ctl t i
  assume r0: "refreshInventory e (fresh_runtime k fs radio clock) = (Inr (), r0)"
    and r: "r = (fold (\<lambda>pid r. snd (addCandidate pid 0 r)) wanted (fold (resume_partial e) partial r0))
       \<lparr>rt_controller := ctl, rt_nextAdvertise := t, rt_nextLog := i\<rparr>"
  have "rt_sent r = rt_sent r0"
    unfolding r by (simp add: fold_sent addCandidate_sent [OF prod.collapse [symmetric]])
  also have "\<dots> = []"
    using rt_sent_simps(10) [of e "fresh_runtime k fs radio clock"] unfolding r0 by (simp add: fresh_runtime_def Intn_def)
  finally show "rt_sent r = []" .
qed

lemma reachable_sent: "reachable c cfg r \<Longrightarrow> \<forall>(wire, ok) \<in> set (rt_sent r). own_packet (nc_ID cfg) wire"
proof (induction rule: reachable.induct)
  case (start io iter ctl now fs radio clock r)
  then show ?case by (simp add: NewRuntime_sent)
next
  case (step r io iter ev)
  let ?e = "\<lparr>e_crypto = c, e_cfg = default_config cfg, e_io = io, e_iter = iter\<rparr>"
  have "node_id ?e = nc_ID cfg" by (simp add: default_config_def)
  then show ?case
    using run_event_sends [of ?e r ev] reachable_inv [OF step.hyps] step.IH by (auto simp: sends_def)
qed

text \<open>
  C14: Everything a node transmits is a well-formed packet of its own: in every state it can reach, each byte
  string it gave to the radio, whether the modem took it or not, is at most 200 bytes long and decodes to a
  packet whose source is the configured identity, never zero or the broadcast address. In particular none of the
  encoders whose errors the code drops (\<open>wire, _ := EncodeChunkRequest(...)\<close>) fails in a state that occurs.
\<close>

theorem node_transmits_own_packets:
  assumes "reachable c cfg r"
  shows "\<forall>(wire, ok) \<in> set (rt_sent r). length wire \<le> 200 \<and>
    (\<exists>p. Decode wire = Inr p \<and> np_Source p = nc_ID cfg \<and> np_Source p \<noteq> 0 \<and> np_Source p \<noteq> Broadcast)"
proof (rule ballI, rule case_prodI2)
  fix s wire ok
  assume "s \<in> set (rt_sent r)" "s = (wire, ok)"
  then have "own_packet (nc_ID cfg) wire" using reachable_sent [OF assms] by fastforce
  then obtain p where p: "Decode wire = Inr p" "np_Source p = nc_ID cfg" by (auto simp: own_packet_def split: sum.splits)
  then have "Encode p = Inr wire" by (simp add: Encode_Inr_iff)
  then have "length wire \<le> 200" by (auto simp: Encode_def split: if_splits)
  moreover have "nc_ID cfg \<noteq> 0 \<and> nc_ID cfg \<noteq> Broadcast"
    using assms by (induction rule: reachable.induct) (auto simp: default_config_def elim: NewRuntime_form)
  ultimately show "length wire \<le> 200 \<and> (\<exists>p. Decode wire = Inr p \<and> np_Source p = nc_ID cfg \<and> np_Source p \<noteq> 0 \<and>
      np_Source p \<noteq> Broadcast)" using p by auto
qed

lemma summary_request_answered:
  assumes "DecodeSummaryRequest p = Inr (InventoryGeneration (hash e) (rt_completeIDs r), [])" "rt_completeIDs r = []"
  shows "rt_sent (serveSummary e now p r) \<noteq> rt_sent r"
proof -
  have b: "FilterPrefix [] [] = []" "BuildLeaf (hash e) [] [] = \<lparr>l_Generation = InventoryGeneration (hash e) [], l_Prefix = [], l_IDs = []\<rparr>"
    by (simp_all add: FilterPrefix_def sortedIDs_def BuildLeaf_def)
  obtain wire where w: "EncodeLeaf (node_id e) (np_Source p) (np_Transaction p) (BuildLeaf (hash e) [] []) = Inr wire"
    by (rule EncodeLeaf_total [of "BuildLeaf (hash e) [] []"]) (simp_all add: b(2))
  obtain ok r' where s: "send now wire (with_metrics (\<lambda>m. m\<lparr>LeavesSent := LeavesSent m + 1,
      LeafIDsSent := LeafIDsSent m + of_nat (length (FilterPrefix [] []))\<rparr>) r) = (ok, r')" by fastforce
  then have "rt_sent r' = rt_sent r @ [(wire, ok)]" by (simp add: send_sent)
  then show ?thesis using s by (simp add: serveSummary_def assms w Let_def b(1))
qed

theorem node_transmits_own_packets_witness:
  "\<exists>r wire ok p. reachable toy_crypto example_config r \<and> (wire, ok) \<in> set (rt_sent r) \<and> length wire \<le> 200 \<and>
     Decode wire = Inr p \<and> np_Source p = 7"
proof -
  obtain r0 where r0: "reachable toy_crypto example_config r0" "rt_acquisitions r0 = []" "rt_completeIDs r0 = []" "rt_sent r0 = []"
    using example_start_idle by blast
  let ?g = "InventoryGeneration (hash example_env) []"
  obtain wire where wire: "EncodeSummaryRequest 5 7 1 ?g [] = Inr wire"
    by (simp add: EncodeSummaryRequest_def encodePrefix_def Encode_def)
  then obtain p where p: "Decode wire = Inr p" "np_Source p = 5" "np_Destination p = 7" "np_Type p = gnSummaryRequest"
      "DecodeSummaryRequest p = Inr (?g, [])"
    by (auto simp: EncodeSummaryRequest_def encodePrefix_def Encode_Inr_iff DecodeSummaryRequest_def decodePrefix_def
        decodePrefixWithTail_def Let_def nth_append get_put_le)
  let ?rx = "\<lparr>rx_RSSI = 0, rx_SNR = 0, rx_Payload = wire\<rparr>"
  let ?r1 = "handleIncoming example_env 2 ?rx r0"
  let ?o = "observe_packet example_env 2 ?rx p r0"
  have o: "rt_sent ?o = []" "rt_completeIDs ?o = []" using r0 by (simp_all add: observe_packet_def Let_def with_controller_def)
  have "?r1 = serveSummary example_env 2 p ?o"
    using p by (simp add: handleIncoming_def Let_def handleAddressed_def Broadcast_def)
  then have "rt_sent ?r1 \<noteq> []" using summary_request_answered [of p example_env ?o 2] p(5) o by simp
  moreover have inv: "runtime_inv toy_crypto ?r1"
    using handleIncoming_inv [of example_env r0 2 ?rx] reachable_inv [OF r0(1)] by simp
  ultimately have "rt_sent (onTick example_env 3 ?r1) \<noteq> []"
    using onTick_sends [of example_env ?r1 3] by (auto simp: sends_def)
  moreover have r: "reachable toy_crypto example_config (onTick example_env 3 ?r1)"
    using reachable.step [OF r0(1), of no_faults "\<lambda>_ ks. ks" "PacketIn ?rx 2 3"] by (simp add: example_env_def)
  ultimately obtain w ok where w: "(w, ok) \<in> set (rt_sent (onTick example_env 3 ?r1))"
    by (metis list.set_intros(1) neq_Nil_conv surj_pair)
  have "length w \<le> 200 \<and> (\<exists>p. Decode w = Inr p \<and> np_Source p = nc_ID example_config \<and> np_Source p \<noteq> 0 \<and> np_Source p \<noteq> Broadcast)"
    using node_transmits_own_packets [OF r] w by blast
  then show ?thesis using r w by (auto simp: example_config_def)
qed

end
