(* ===== verification/Broadcaster.thy ===== *)
theory Broadcaster
  imports Store_Safety
begin

text \<open>
  \<open>cmd/ghost-broadcast/main.go\<close>: the receiving end of a direct transfer. It collects the chunks of announced
  publications in sessions and commits them to its store. An iteration of its loop is \<open>handle_packet\<close> on the
  packet \<open>link.Receive\<close> returned; an error of the link ends the program. Sessions are a map from identifiers to
  assemblies, the pointers of the code. \<open>b_sent\<close> records the packets given to \<open>link.Send\<close>, whose errors are
  only printed, each with the disk at that moment, for the theorems. The texts of errors, which come from the operating
  system as well, are the argument \<open>errText\<close>.
\<close>

record Broadcaster =
  b_disk :: disk
  b_sessions :: "ID \<Rightarrow> Assembly option"
  b_sent :: "(byte list \<times> disk) list"

definition link_transmit :: "byte list \<Rightarrow> Broadcaster \<Rightarrow> Broadcaster" where
  "link_transmit wire b = b\<lparr>b_sent := b_sent b @ [(wire, b_disk b)]\<rparr>"

definition sendReceipt :: "Assembly \<Rightarrow> Broadcaster \<Rightarrow> Broadcaster" where
  "sendReceipt a = link_transmit (wire_or_nil
     (EncodeReceipt (m_ID (a_Manifest a)) (m_ChunkCount (a_Manifest a)) (Received a)))"

definition sendSimple :: "byte \<Rightarrow> ID \<Rightarrow> Broadcaster \<Rightarrow> Broadcaster" where
  "sendSimple kind pid = link_transmit (wire_or_nil (EncodeSimple kind pid))"

definition sendError :: "ID \<Rightarrow> byte list \<Rightarrow> Broadcaster \<Rightarrow> Broadcaster" where
  "sendError pid message = link_transmit (wire_or_nil (EncodeError pid message))"

definition commit_session ::
  "crypto \<Rightarrow> io \<Rightarrow> (go_error \<Rightarrow> byte list) \<Rightarrow> Assembly \<Rightarrow> bool \<Rightarrow> Broadcaster \<Rightarrow> Broadcaster" where
  "commit_session c io errText a notify b =
     (let pid = m_ID (a_Manifest a) in
      case Commit c io a (b_disk b) of
        (Inl e, fs) \<Rightarrow>
          if e = HashMismatch
          then (case Restart c io (a_Manifest a) fs of
                  (Inl restartErr, fs) \<Rightarrow> sendError pid (errText restartErr) (b\<lparr>b_disk := fs\<rparr>)
                | (Inr restarted, fs) \<Rightarrow> b\<lparr>b_disk := fs, b_sessions := (b_sessions b)(pid \<mapsto> restarted)\<rparr>)
          else sendError pid (errText e) (b\<lparr>b_disk := fs\<rparr>)
      | (Inr path, fs) \<Rightarrow>
          let b = b\<lparr>b_disk := fs, b_sessions := (b_sessions b)(pid := None)\<rparr>
          in if notify then sendSimple TypeComplete pid b else b)"

definition on_manifest :: "crypto \<Rightarrow> io \<Rightarrow> (go_error \<Rightarrow> byte list) \<Rightarrow> Packet \<Rightarrow> Broadcaster \<Rightarrow> Broadcaster" where
  "on_manifest c io errText packet b =
     (case DecodeManifest packet of
        Inl _ \<Rightarrow> sendError (packet_ID packet) (str ''invalid manifest'') b
      | Inr manifest \<Rightarrow>
        if Complete c io (b_disk b) (m_ID manifest) then sendSimple TypeComplete (m_ID manifest) b
        else case Begin c io manifest (b_disk b) of
            (Inl e, fs) \<Rightarrow> sendError (packet_ID packet) (errText e) (b\<lparr>b_disk := fs\<rparr>)
          | (Inr assembly, fs) \<Rightarrow>
            let b = b\<lparr>b_disk := fs, b_sessions := (b_sessions b)(m_ID manifest \<mapsto> assembly)\<rparr>
            in if assembly_Complete assembly then commit_session c io errText assembly True b else sendReceipt assembly b)"

definition on_chunk :: "crypto \<Rightarrow> io \<Rightarrow> (go_error \<Rightarrow> byte list) \<Rightarrow> Packet \<Rightarrow> Broadcaster \<Rightarrow> Broadcaster" where
  "on_chunk c io errText packet b =
     (case b_sessions b (packet_ID packet) of
        None \<Rightarrow> sendError (packet_ID packet) (str ''manifest required'') b
      | Some assembly \<Rightarrow>
        (case DecodeChunk packet of
           Inl _ \<Rightarrow> sendError (packet_ID packet) (str ''invalid chunk'') b
         | Inr (index, data) \<Rightarrow>
           (case Store_Add io assembly index data (b_disk b) of
              (r, assembly, fs) \<Rightarrow>
              let b = b\<lparr>b_disk := fs, b_sessions := (b_sessions b)(packet_ID packet \<mapsto> assembly)\<rparr> in
              case r of
                Inl _ \<Rightarrow> sendError (packet_ID packet) (str ''invalid chunk'') b
              | Inr _ \<Rightarrow> if assembly_Complete assembly then commit_session c io errText assembly False b else b)))"

definition on_query :: "crypto \<Rightarrow> io \<Rightarrow> Packet \<Rightarrow> Broadcaster \<Rightarrow> Broadcaster" where
  "on_query c io packet b =
     (if Complete c io (b_disk b) (packet_ID packet) then sendSimple TypeComplete (packet_ID packet) b
      else case b_sessions b (packet_ID packet) of
          None \<Rightarrow> sendError (packet_ID packet) (str ''unknown publication'') b
        | Some assembly \<Rightarrow> sendReceipt assembly b)"

definition handle_packet :: "crypto \<Rightarrow> io \<Rightarrow> (go_error \<Rightarrow> byte list) \<Rightarrow> Packet \<Rightarrow> Broadcaster \<Rightarrow> Broadcaster" where
  "handle_packet c io errText packet b =
     (let t = packet_Type packet in
      if t = TypeManifest then on_manifest c io errText packet b
      else if t = TypeChunk then on_chunk c io errText packet b
      else if t = TypeQuery then on_query c io packet b
      else b)"

text \<open>The program on the packets it receives, each with the failures of its file-system calls.\<close>

fun broadcast_run :: "crypto \<Rightarrow> (go_error \<Rightarrow> byte list) \<Rightarrow> (io \<times> Packet) list \<Rightarrow> Broadcaster \<Rightarrow> Broadcaster" where
  "broadcast_run c errText [] b = b"
| "broadcast_run c errText ((io, packet) # packets) b = broadcast_run c errText packets (handle_packet c io errText packet b)"

definition broadcast_start :: "disk \<Rightarrow> Broadcaster" where
  "broadcast_start fs = \<lparr>b_disk = fs, b_sessions = (\<lambda>_. None), b_sent = []\<rparr>"

section \<open>What the broadcaster announces\<close>

text \<open>
  The store of a completed publication: it passes the test of the code, or its files are those a commit of
  verified content wrote. (A stored manifest whose filename is not UTF-8 may read back altered.)
\<close>

definition stored :: "crypto \<Rightarrow> disk \<Rightarrow> ID \<Rightarrow> bool" where
  "stored c fs pid \<longleftrightarrow> (\<exists>io. Complete c io fs pid) \<or>
     (\<exists>m content. m_ID m = pid \<and> manifest_ok m \<and> written c fs m content \<and>
        length content = unat (m_Length m) \<and> sha256 c content = m_SHA256 m)"

definition truthful :: "crypto \<Rightarrow> byte list \<times> disk \<Rightarrow> bool" where
  "truthful c s \<longleftrightarrow> (\<forall>p. DecodePacket (fst s) = Inr p \<longrightarrow> packet_Type p = TypeComplete \<longrightarrow> stored c (snd s) (packet_ID p))"

definition session_ok :: "ID \<Rightarrow> Assembly \<Rightarrow> bool" where
  "session_ok pid a \<longleftrightarrow> assembly_inv a \<and> manifest_ok (a_Manifest a) \<and> m_ID (a_Manifest a) = pid \<and>
     m_Version (a_Manifest a) = 1 \<and> m_Signature (a_Manifest a) = None"

definition broadcaster_ok :: "crypto \<Rightarrow> Broadcaster \<Rightarrow> bool" where
  "broadcaster_ok c b \<longleftrightarrow> (\<forall>pid a. b_sessions b pid = Some a \<longrightarrow> session_ok pid a) \<and> list_all (truthful c) (b_sent b)"

lemma broadcaster_okI:
  assumes "broadcaster_ok c b" "\<And>pid a. b_sessions b' pid = Some a \<Longrightarrow> b_sessions b pid = Some a \<or> session_ok pid a"
    "b_sent b' = b_sent b"
  shows "broadcaster_ok c b'"
  using assms unfolding broadcaster_ok_def by (metis (full_types))

lemma link_transmit_ok:
  "broadcaster_ok c b \<Longrightarrow> truthful c (wire, b_disk b) \<Longrightarrow> broadcaster_ok c (link_transmit wire b)"
  by (simp add: broadcaster_ok_def link_transmit_def)

lemma encoded_type: "EncodePacket \<lparr>packet_Type = t, packet_ID = i, packet_Body = body\<rparr> = Inr w \<Longrightarrow> DecodePacket w = Inr p \<Longrightarrow>
    packet_Type p = t \<and> packet_ID p = i"
  using DecodePacket_EncodePacket by fastforce

lemma truthful_encoded:
  assumes "\<And>w. x = Inr w \<Longrightarrow> \<exists>body. EncodePacket \<lparr>packet_Type = t, packet_ID = i, packet_Body = body\<rparr> = Inr w"
    and "t \<noteq> TypeComplete \<or> stored c fs i"
  shows "truthful c (wire_or_nil x, fs)"
proof (cases x)
  case (Inr w)
  then obtain body where "EncodePacket \<lparr>packet_Type = t, packet_ID = i, packet_Body = body\<rparr> = Inr w" using assms(1) by blast
  then show ?thesis using encoded_type [of t i body w] assms(2) Inr by (auto simp: truthful_def wire_or_nil_def)
qed (simp add: truthful_def wire_or_nil_def DecodePacket_def)

lemma answers_ok [simp]:
  assumes "broadcaster_ok c b"
  shows "broadcaster_ok c (sendReceipt a b)" "broadcaster_ok c (sendError pid message b)"
    "stored c (b_disk b) pid \<Longrightarrow> broadcaster_ok c (sendSimple TypeComplete pid b)"
proof -
  show "broadcaster_ok c (sendReceipt a b)" unfolding sendReceipt_def
    by (intro link_transmit_ok assms truthful_encoded [where t = TypeReceipt and i = "m_ID (a_Manifest a)"])
       (auto simp: EncodeReceipt_def Let_def split: if_splits)
  show "broadcaster_ok c (sendError pid message b)" unfolding sendError_def
    by (intro link_transmit_ok assms truthful_encoded [where t = TypeError and i = pid])
       (auto simp: EncodeError_def Let_def split: if_splits)
  show "stored c (b_disk b) pid \<Longrightarrow> broadcaster_ok c (sendSimple TypeComplete pid b)" unfolding sendSimple_def
    by (intro link_transmit_ok assms truthful_encoded [where t = TypeComplete and i = pid]) (auto simp: EncodeSimple_def)
qed

lemma Complete_stored: "Complete c io fs pid \<Longrightarrow> stored c fs pid"
  by (auto simp: stored_def)

lemmas complete_ok [simp] = answers_ok(3) [simplified]

section \<open>Every handler keeps it\<close>

lemma committed_stored:
  assumes "session_ok pid a" "Content (sha256 c) a = Inr content" "written c fs (a_Manifest a) content"
  shows "stored c fs pid"
proof -
  have "sha256 c content = m_SHA256 (a_Manifest a)"
    using assms(2) by (auto simp: Content_def Let_def split: if_splits)
  moreover have "length content = unat (m_Length (a_Manifest a))"
    using Content_length [OF _ assms(2)] assms(1) by (simp add: session_ok_def)
  ultimately show ?thesis using assms(1,3) by (auto simp: stored_def session_ok_def)
qed

lemma Begin_session:
  assumes "Begin c io m fs = (Inr a, fs')" "manifest_ok m" "m_Version m = 1" "m_Signature m = None"
  shows "session_ok (m_ID m) a"
  using Begin_Inr [OF assms(1)] assms(2-4) by (simp add: session_ok_def manifest_ok_def mirrors_def)

lemma Store_Add_session:
  assumes "session_ok pid a" "Store_Add io a index data fs = (r, a', fs')"
  shows "session_ok pid a'"
proof -
  have inv: "assembly_inv a" using assms(1) by (simp add: session_ok_def)
  have "assembly_inv a' \<and> a_Manifest a' = a_Manifest a"
    using inv assms(2)
  proof (cases rule: Store_Add_cases)
    case 3
    from 3(5) show ?thesis
    proof
      assume "r = Inr () \<and> a' = a\<lparr>chunks := (chunks a)[unat index := data], received := (received a)[unat index := True]\<rparr>"
      then have "Add a index data = Inr a'" using Store_Add_Inr assms(2) by blast
      then show ?thesis using Add_inv [OF inv] Add_Manifest by blast
    qed (use inv in simp)
  qed (use inv in simp_all)
  then show ?thesis using assms(1) by (simp add: session_ok_def)
qed

lemma commit_session_ok:
  assumes "broadcaster_ok c b" "session_ok (m_ID (a_Manifest a)) a"
  shows "broadcaster_ok c (commit_session c io errText a notify b)"
proof -
  let ?pid = "m_ID (a_Manifest a)"
  obtain r fs where k: "Commit c io a (b_disk b) = (r, fs)" by fastforce
  have disk: "broadcaster_ok c (b\<lparr>b_disk := fs'\<rparr>)" for fs' using assms(1) by (auto intro: broadcaster_okI)
  show ?thesis
  proof (cases r)
    case (Inl e)
    obtain r2 fs2 where r2: "Restart c io (a_Manifest a) fs = (r2, fs2)" by fastforce
    have "session_ok ?pid a2" if "r2 = Inr a2" for a2
    proof -
      have "Restart c io (a_Manifest a) fs = (Inr a2, fs2)" using r2 that by simp
      then obtain fs1 where "Begin c io (a_Manifest a) fs1 = (Inr a2, fs2)" unfolding Restart_def and_then_Inr_iff by blast
      then show ?thesis using Begin_session assms(2) by (simp add: session_ok_def)
    qed
    then have "broadcaster_ok c (b\<lparr>b_disk := fs2, b_sessions := (b_sessions b)(?pid \<mapsto> a2)\<rparr>)" if "r2 = Inr a2" for a2
      using that by (intro broadcaster_okI [OF assms(1)]) (auto split: if_splits)
    then show ?thesis using k Inl r2 disk by (auto simp: commit_session_def Let_def split: sum.split)
  next
    case (Inr path)
    have "stored c fs ?pid" using k unfolding Inr
      by (cases rule: Commit_cases) (auto intro: committed_stored [OF assms(2)])
    moreover have "broadcaster_ok c (b\<lparr>b_disk := fs, b_sessions := (b_sessions b)(?pid := None)\<rparr>)"
      using assms(1) by (intro broadcaster_okI [OF assms(1)]) (auto split: if_splits)
    ultimately show ?thesis using k Inr by (simp add: commit_session_def Let_def)
  qed
qed

lemma DecodeManifest_fields:
  "DecodePacket wire = Inr p \<Longrightarrow> DecodeManifest p = Inr m \<Longrightarrow>
     manifest_ok m \<and> m_Version m = 1 \<and> m_Signature m = None \<and> m_ID m = packet_ID p"
  using accepted_packet_manifest_ok by (auto simp: DecodeManifest_iff manifest_of_def)

lemma handle_packet_ok:
  assumes "broadcaster_ok c b" "DecodePacket wire = Inr p"
  shows "broadcaster_ok c (handle_packet c io errText p b)"
proof -
  have disk: "broadcaster_ok c (b\<lparr>b_disk := fs\<rparr>)" for fs using assms(1) by (auto intro: broadcaster_okI)
  have put: "broadcaster_ok c (b\<lparr>b_disk := fs, b_sessions := (b_sessions b)(pid \<mapsto> a)\<rparr>)" if "session_ok pid a" for fs pid a
    using that by (intro broadcaster_okI [OF assms(1)]) (auto split: if_splits)
  have "broadcaster_ok c (on_manifest c io errText p b)"
  proof (cases "DecodeManifest p")
    case (Inl e)
    then show ?thesis using assms(1) by (simp add: on_manifest_def)
  next
    case (Inr m)
    note f = DecodeManifest_fields [OF assms(2) Inr]
    obtain r fs where r: "Begin c io m (b_disk b) = (r, fs)" by fastforce
    have "stored c (b_disk b) (m_ID m)" if "Complete c io (b_disk b) (m_ID m)" using that by (auto simp: stored_def)
    moreover have s: "session_ok (m_ID m) a" if "r = Inr a" for a using Begin_session r that f by blast
    moreover have "broadcaster_ok c (commit_session c io errText a True (b\<lparr>b_disk := fs, b_sessions := (b_sessions b)(m_ID m \<mapsto> a)\<rparr>))"
      if "r = Inr a" for a
      using commit_session_ok [OF put [OF s [OF that]]] s [OF that] by (simp add: session_ok_def)
    ultimately show ?thesis using Inr r assms(1) disk put by (auto simp: on_manifest_def Let_def split: sum.split)
  qed
  moreover have "broadcaster_ok c (on_query c io p b)"
    using assms(1) Complete_stored by (auto simp: on_query_def split: option.split)
  moreover have "broadcaster_ok c (on_chunk c io errText p b)"
  proof (cases "b_sessions b (packet_ID p)")
    case None
    then show ?thesis using assms(1) by (simp add: on_chunk_def)
  next
    case (Some a)
    have a: "session_ok (packet_ID p) a" using assms(1) Some by (simp add: broadcaster_ok_def)
    have s: "session_ok (packet_ID p) a'" if "Store_Add io a index data fs = (r, a', fs')" for io index data fs r a' fs'
      using a that Store_Add_session by blast
    have k: "broadcaster_ok c (commit_session c io errText a' False (b\<lparr>b_disk := fs, b_sessions := (b_sessions b)(packet_ID p \<mapsto> a')\<rparr>))"
      if "session_ok (packet_ID p) a'" for a' fs
      using commit_session_ok [OF put [OF that]] that by (simp add: session_ok_def)
    show ?thesis using Some assms(1) put s k
      by (auto simp: on_chunk_def Let_def split: sum.split prod.split)
  qed
  ultimately show ?thesis using assms(1) by (simp add: handle_packet_def Let_def)
qed

lemma broadcast_run_ok:
  "broadcaster_ok c b \<Longrightarrow> \<forall>(io, p) \<in> set packets. \<exists>wire. DecodePacket wire = Inr p \<Longrightarrow>
   broadcaster_ok c (broadcast_run c errText packets b)"
  by (induction c errText packets b rule: broadcast_run.induct) (auto intro: handle_packet_ok)

section \<open>A transfer on a working disk\<close>

text \<open>
  The state of a transfer: the broadcaster has a session for \<open>m\<close> that agrees with the disk and holds some of the
  chunks of \<open>content\<close>, and the place of the object is free.
\<close>

definition receiving :: "crypto \<Rightarrow> Manifest \<Rightarrow> byte list \<Rightarrow> Broadcaster \<Rightarrow> bool list \<Rightarrow> bool" where
  "receiving c m content b flags \<longleftrightarrow> (\<exists>a. b_sessions b (m_ID m) = Some a \<and> a_Manifest a = m \<and> mirrors c (b_disk b) a \<and>
     holds a content \<and> received a = flags) \<and> place_ok (b_disk b) (m_ID m)"

text \<open>What is asked of the manifest, its content and the store for a transfer to succeed.\<close>

definition transferable :: "crypto \<Rightarrow> Manifest \<Rightarrow> byte list \<Rightarrow> bool" where
  "transferable c m content \<longleftrightarrow> manifest_ok m \<and> m_Version m = 1 \<and> m_Signature m = None \<and> safe_name (m_Filename m) \<and>
     utf8_valid (m_Filename m) \<and> length content = unat (m_Length m) \<and> sha256 c content = m_SHA256 m"

definition free_place :: "crypto \<Rightarrow> disk \<Rightarrow> ID \<Rightarrow> bool" where
  "free_place c fs pid \<longleftrightarrow> place_ok fs pid \<and> \<not> Complete c no_faults fs pid \<and> (\<forall>q. in_partial pid q \<longrightarrow> lookup fs q = None)"

definition completed :: "crypto \<Rightarrow> Manifest \<Rightarrow> byte list \<Rightarrow> Broadcaster \<Rightarrow> bool" where
  "completed c m content b \<longleftrightarrow> Complete c no_faults (b_disk b) (m_ID m) \<and>
     LoadManifest c no_faults (b_disk b) (m_ID m) = Inr m \<and>
     ReadBytes no_faults (b_disk b) (content_file (m_ID m)) = Inr content"

lemma commit_session_total:
  assumes "transferable c m content" "a_Manifest a = m" "holds a content" "assembly_Complete a" "place_ok (b_disk b) (m_ID m)"
  obtains fs where "completed c m content (b\<lparr>b_disk := fs\<rparr>)"
    "commit_session c no_faults errText a notify b = (let b = b\<lparr>b_disk := fs, b_sessions := (b_sessions b)(m_ID m := None)\<rparr>
       in if notify then sendSimple TypeComplete (m_ID m) b else b)"
proof -
  have t: "manifest_ok m" "sha256 c content = m_SHA256 m" "length content = unat (m_Length m)" "utf8_valid (m_Filename m)"
    "VerifyManifestSignature c m = Inr ()" "stored_version m"
    using assms(1) by (simp_all add: transferable_def VerifyManifestSignature_def stored_version_def)
  have content: "Content (sha256 c) a = Inr content" using Content_holds [OF assms(3,4)] t(2) assms(2) by simp
  obtain fs where k: "Commit c no_faults a (b_disk b) = (Inr (content_file (m_ID m)), fs)"
    using Commit_total [OF content] t(5) assms(2,5) by auto
  then have w: "written c fs m content" using assms(2) content by (cases rule: Commit_cases) simp_all
  have "completed c m content (b\<lparr>b_disk := fs\<rparr>)"
    using written_Complete [OF w t(1,6,4,5,3,2)] w by (auto simp: completed_def written_def)
  moreover have "commit_session c no_faults errText a notify b =
      (let b = b\<lparr>b_disk := fs, b_sessions := (b_sessions b)(m_ID m := None)\<rparr>
       in if notify then sendSimple TypeComplete (m_ID m) b else b)"
    using k assms(2) by (simp add: commit_session_def Let_def)
  ultimately show thesis by (rule that)
qed

lemma manifest_accepted:
  assumes "transferable c m content" "DecodeManifest p = Inr m" "packet_Type p = TypeManifest" "free_place c (b_disk b) (m_ID m)"
  obtains (session) b' where "handle_packet c no_faults errText p b = sendReceipt (NewAssembly m) b'"
      "receiving c m content b' (replicate (unat (m_ChunkCount m)) False)" "m_ChunkCount m \<noteq> 0" "b_sent b' = b_sent b"
  | (empty) b' where "handle_packet c no_faults errText p b = sendSimple TypeComplete (m_ID m) b'" "completed c m content b'"
      "m_ChunkCount m = 0" "b_sent b' = b_sent b"
proof -
  have t: "geometry m" "safe_name (m_Filename m)" "length content = unat (m_Length m)"
    using assms(1) by (simp_all add: transferable_def manifest_ok_def)
  have f: "place_ok (b_disk b) (m_ID m)" "\<not> Complete c no_faults (b_disk b) (m_ID m)"
    "\<And>q. in_partial (m_ID m) q \<Longrightarrow> lookup (b_disk b) q = None" using assms(4) by (auto simp: free_place_def)
  obtain fs where beg: "Begin c no_faults m (b_disk b) = (Inr (NewAssembly m), fs)" "mirrors c fs (NewAssembly m)"
    and frame: "\<And>q. \<not> in_partial (m_ID m) q \<Longrightarrow> q \<noteq> [str ''partial''] \<Longrightarrow> lookup fs q = lookup (b_disk b) q"
    using Begin_total [OF f(1) t(2,1) f(3)] by blast
  let ?b = "b\<lparr>b_disk := fs, b_sessions := (b_sessions b)(m_ID m \<mapsto> NewAssembly m)\<rparr>"
  have "lookup fs [str ''partial''] = Some Dir" using beg(2) by (simp add: mirrors_def dirs_ok_def prefix_chunks_dir)
  moreover have "lookup fs q = lookup (b_disk b) q" if "in_object (m_ID m) q \<or> q = [str ''objects'']" for q
    using that in_object_not_partial in_partial_not_objects
    by (intro frame) (auto simp: in_object_def in_partial_def path_defs)
  moreover have "in_object (m_ID m) (objectDir (m_ID m))" by (simp add: in_object_def)
  ultimately have place: "place_ok fs (m_ID m)" using f(1) by (auto simp: place_ok_def)
  have h: "holds (NewAssembly m) content" using holds_NewAssembly t by blast
  have run: "handle_packet c no_faults errText p b =
      (if assembly_Complete (NewAssembly m) then commit_session c no_faults errText (NewAssembly m) True ?b
       else sendReceipt (NewAssembly m) ?b)"
    using assms(2,3) f(2) beg(1) by (simp add: handle_packet_def on_manifest_def)
  have complete: "assembly_Complete (NewAssembly m) \<longleftrightarrow> m_ChunkCount m = 0"
    by (simp add: assembly_Complete_iff NewAssembly_def list_all_iff unat_eq_zero)
  show thesis
  proof (cases "m_ChunkCount m = 0")
    case False
    have "received (NewAssembly m) = replicate (unat (m_ChunkCount m)) False" by (simp add: NewAssembly_def)
    then have "receiving c m content ?b (replicate (unat (m_ChunkCount m)) False)"
      using beg(2) h place by (simp add: receiving_def)
    then show thesis using session [of ?b] run complete False by simp
  next
    case True
    obtain fs2 where "completed c m content (?b\<lparr>b_disk := fs2\<rparr>)"
      "commit_session c no_faults errText (NewAssembly m) True ?b =
         (let b = ?b\<lparr>b_disk := fs2, b_sessions := (b_sessions ?b)(m_ID m := None)\<rparr> in if True then sendSimple TypeComplete (m_ID m) b else b)"
      by (rule commit_session_total [OF assms(1) _ h, of ?b errText True]) (use complete True place in simp_all)
    then show thesis using empty [of "?b\<lparr>b_disk := fs2, b_sessions := (b_sessions ?b)(m_ID m := None)\<rparr>"] run complete True
      by (simp add: completed_def)
  qed
qed

lemma chunk_accepted:
  assumes "transferable c m content" "receiving c m content b flags" "i < length flags"
    and "packet_Type p = TypeChunk" "packet_ID p = m_ID m" "DecodeChunk p = Inr (of_nat i, chunk_of m content i)"
  shows "b_sent (handle_packet c no_faults errText p b) = b_sent b \<and>
    (if list_all id (flags[i := True]) then completed c m content (handle_packet c no_faults errText p b)
     else receiving c m content (handle_packet c no_faults errText p b) (flags[i := True]))"
proof -
  obtain a where a: "b_sessions b (m_ID m) = Some a" "a_Manifest a = m" "mirrors c (b_disk b) a" "holds a content" "received a = flags"
    and place: "place_ok (b_disk b) (m_ID m)" using assms(2) by (auto simp: receiving_def)
  have inv: "assembly_inv a" using a(4) by (simp add: holds_def)
  then have i: "i < length (chunks a)" using assms(3) a(5) by (simp add: assembly_inv_def)
  obtain a' fs where s: "Store_Add no_faults a (of_nat i) (chunk_of m content i) (b_disk b) = (Inr (), a', fs)"
    "holds a' content" "mirrors c fs a'" "a_Manifest a' = m"
    and frame: "\<And>q. \<not> in_partial (m_ID m) q \<Longrightarrow> lookup fs q = lookup (b_disk b) q"
    using Store_Add_total [OF a(3,4) i] a(2) by metis
  have fits: "unat (of_nat i :: 16 word) = i" using i inv count_fits [of i m] a(2) by (simp add: assembly_inv_def)
  have "if received a ! i then a' = a else received a' = (received a)[i := True]"
    using Store_Add_Inr [OF s(1)] Add_iff [OF inv] fits by (auto split: if_splits)
  moreover have "(received a)[i := True] = received a" if "received a ! i" using that list_update_id [of "received a" i] by simp
  ultimately have flags: "received a' = flags[i := True]" using a(5) by (auto split: if_splits)
  have "\<not> in_partial (m_ID m) q" if "q \<in> {[str ''objects''], objectDir (m_ID m), [str ''partial''], content_file (m_ID m),
      manifest_file (objectDir (m_ID m)), complete_file (m_ID m)}" for q
    using that by (auto simp: in_partial_def path_defs)
  then have place': "place_ok fs (m_ID m)" using place frame by (simp add: place_ok_def)
  let ?b = "b\<lparr>b_disk := fs, b_sessions := (b_sessions b)(m_ID m \<mapsto> a')\<rparr>"
  have run: "handle_packet c no_faults errText p b =
      (if assembly_Complete a' then commit_session c no_faults errText a' False ?b else ?b)"
    using assms(4-6) a(1) s(1) by (simp add: handle_packet_def on_chunk_def)
  show ?thesis
  proof (cases "list_all id (flags[i := True])")
    case True
    then have done': "assembly_Complete a'" using flags by (simp add: assembly_Complete_iff)
    obtain fs2 where "completed c m content (?b\<lparr>b_disk := fs2\<rparr>)" "commit_session c no_faults errText a' False ?b =
         (let b = ?b\<lparr>b_disk := fs2, b_sessions := (b_sessions ?b)(m_ID m := None)\<rparr> in if False then sendSimple TypeComplete (m_ID m) b else b)"
      by (rule commit_session_total [OF assms(1) s(4,2) done', of ?b errText False]) (use place' in simp_all)
    then show ?thesis using run done' True by (simp add: completed_def)
  next
    case False
    then have "\<not> assembly_Complete a'" using flags by (simp add: assembly_Complete_iff)
    then show ?thesis using run s flags place' False by (simp add: receiving_def)
  qed
qed

lemma query_answered:
  "completed c m content b \<Longrightarrow> packet_Type p = TypeQuery \<Longrightarrow> packet_ID p = m_ID m \<Longrightarrow>
   handle_packet c no_faults errText p b = sendSimple TypeComplete (m_ID m) b"
  by (simp add: handle_packet_def on_query_def completed_def)

end
