(* ===== verification/Modem_Client.thy ===== *)
theory Modem_Client
  imports Stream_Decoder Go_Strings "HOL-Library.Stream"
begin

text \<open>
  \<open>internal/modem/client.go\<close>: the client of the USB modem. It writes requests, reads whatever bytes the serial
  line gives, and keeps the frames that answer no request of its own in \<open>pending\<close>. The two mutexes make each
  exported operation one step, so an operation is a function on the client.

  The serial library is not part of the repository: a port is the stream of what its calls will return
  (reads, writes, read timeouts) and the clock the stream of what \<open>time.Now\<close> will return, so a theorem about
  every port and clock is one about every behaviour. \<open>po_written\<close> and \<open>po_got\<close> record the bytes the port took
  and delivered, \<open>po_timeout\<close> the read timeout last set. A loop that may not end is a partial function
  whose value \<open>None\<close> means that it runs forever.

  Lemmas: an operation only advances the client (\<open>advances\<close>): the decoder has read what the port delivered and
  every frame it found is in \<open>pending\<close>, in order; the request loop ends when the clock passes its deadline.
\<close>

section \<open>The port and the clock\<close>

record Port =
  po_reads :: "(go_error + byte list) stream"
  po_writes :: "(go_error + nat) stream"
  po_settable :: "bool stream"
  po_clock :: "instant stream"
  po_timeout :: duration
  po_written :: "byte list"
  po_got :: "byte list"

record Client =
  cl_port :: Port
  cl_seq :: "16 word"
  cl_decoder :: StreamDecoder
  cl_pending :: "Frame list"

definition startupTimeout :: duration where [simp]: "startupTimeout = 4 * Second"
definition requestRetryInterval :: duration where [simp]: "requestRetryInterval = 400 * Millisecond"
definition NoTimeout :: duration where [simp]: "NoTimeout = -1"

abbreviation with_port :: "(Port \<Rightarrow> Port) \<Rightarrow> Client \<Rightarrow> Client" where
  "with_port f c \<equiv> c\<lparr>cl_port := f (cl_port c)\<rparr>"

definition clock_Now :: "Client \<Rightarrow> instant \<times> Client" where
  "clock_Now c = (shd (po_clock (cl_port c)), with_port (\<lambda>p. p\<lparr>po_clock := stl (po_clock p)\<rparr>) c)"

definition SetReadTimeout :: "duration \<Rightarrow> Client \<Rightarrow> (go_error + unit) \<times> Client" where
  "SetReadTimeout t c =
     (if shd (po_settable (cl_port c))
      then (Inr (), with_port (\<lambda>p. p\<lparr>po_settable := stl (po_settable p), po_timeout := t\<rparr>) c)
      else (Inl IOError, with_port (\<lambda>p. p\<lparr>po_settable := stl (po_settable p)\<rparr>) c))"

text \<open>
  A read into a buffer of 256 bytes; \<open>io.EOF\<close> is not an error to the caller, so the stream holds it as the bytes
  read. A write accepts at most the bytes it is given, as \<open>io.Writer\<close> demands.
\<close>

definition port_Read :: "Client \<Rightarrow> (go_error + byte list) \<times> Client" where
  "port_Read c =
     (case shd (po_reads (cl_port c)) of
        Inl e \<Rightarrow> (Inl e, with_port (\<lambda>p. p\<lparr>po_reads := stl (po_reads p)\<rparr>) c)
      | Inr b \<Rightarrow> (Inr (take 256 b), with_port (\<lambda>p. p\<lparr>po_reads := stl (po_reads p), po_got := po_got p @ take 256 b\<rparr>) c))"

definition port_Write :: "byte list \<Rightarrow> Client \<Rightarrow> (go_error + nat) \<times> Client" where
  "port_Write b c =
     (case shd (po_writes (cl_port c)) of
        Inl e \<Rightarrow> (Inl e, with_port (\<lambda>p. p\<lparr>po_writes := stl (po_writes p)\<rparr>) c)
      | Inr n \<Rightarrow> (Inr (min n (length b)),
          with_port (\<lambda>p. p\<lparr>po_writes := stl (po_writes p), po_written := po_written p @ take n b\<rparr>) c))"

section \<open>Reading and writing\<close>

function writeAll :: "byte list \<Rightarrow> Client \<Rightarrow> (go_error + unit) \<times> Client" where
  "writeAll b c =
     (if b = [] then (Inr (), c)
      else case port_Write b c of
          (Inl e, c) \<Rightarrow> (Inl IOError, c)
        | (Inr n, c) \<Rightarrow> if n = 0 then (Inl (Failure ''short write''), c) else writeAll (drop n b) c)"
  by pat_completeness auto
termination by (relation "measure (\<lambda>(b, _). length b)") auto

declare writeAll.simps [simp del]

text \<open>A deadline is \<open>None\<close> where the code's is the zero instant.\<close>

definition readAvailable :: "instant option \<Rightarrow> Client \<Rightarrow> (go_error + Frame list) \<times> Client" where
  "readAvailable deadline c =
     (let (timeout, c) = (case deadline of
            None \<Rightarrow> (NoTimeout, c)
          | Some d \<Rightarrow> let (t, c) = clock_Now c in (d - t, c))
      in if deadline \<noteq> None \<and> timeout \<le> 0 then (Inl ModemTimeout, c)
         else case SetReadTimeout timeout c of
             (Inl e, c) \<Rightarrow> (Inl e, c)
           | (Inr _, c) \<Rightarrow>
             (case port_Read c of
                (Inl e, c) \<Rightarrow> (Inl IOError, c)
              | (Inr b, c) \<Rightarrow>
                (case Push (cl_decoder c) b of (d, frames, _) \<Rightarrow> (Inr frames, c\<lparr>cl_decoder := d\<rparr>))))"

text \<open>The loop of \<open>ReadFrame\<close>.\<close>

partial_function (option) read_loop :: "instant option \<Rightarrow> Client \<Rightarrow> ((go_error + Frame) \<times> Client) option" where
  "read_loop deadline c =
     (case readAvailable deadline c of
        (Inl e, c) \<Rightarrow> Some (Inl e, c)
      | (Inr (frame # frames), c) \<Rightarrow> Some (Inr frame, c\<lparr>cl_pending := cl_pending c @ frames\<rparr>)
      | (Inr [], c) \<Rightarrow>
        (case deadline of
           None \<Rightarrow> read_loop deadline c
         | Some d \<Rightarrow>
           (let (t, c) = clock_Now c
            in if \<not> t < d then Some (Inl ModemTimeout, c) else read_loop deadline c)))"

definition ReadFrame :: "duration \<Rightarrow> Client \<Rightarrow> ((go_error + Frame) \<times> Client) option" where
  "ReadFrame timeout c =
     (case cl_pending c of
        frame # frames \<Rightarrow> Some (Inr frame, c\<lparr>cl_pending := frames\<rparr>)
      | [] \<Rightarrow>
        let (deadline, c) =
          (if timeout \<ge> 0 then let (t, c) = clock_Now c in (Some (t + timeout), c) else (None, c))
        in read_loop deadline c)"

text \<open>\<open>ReadFrames\<close>, its handler a function on a state of the caller.\<close>

partial_function (option) ReadFrames ::
  "(Frame \<Rightarrow> 's \<Rightarrow> (go_error + unit) \<times> 's) \<Rightarrow> 's \<Rightarrow> Client \<Rightarrow> (go_error \<times> 's \<times> Client) option" where
  "ReadFrames handle s c =
     (case ReadFrame NoTimeout c of
        None \<Rightarrow> None
      | Some (Inl e, c) \<Rightarrow> Some (e, s, c)
      | Some (Inr frame, c) \<Rightarrow>
        (case handle frame s of
           (Inl e, s) \<Rightarrow> Some (e, s, c)
         | (Inr _, s) \<Rightarrow> ReadFrames handle s c))"

section \<open>Requests\<close>

definition client_Send :: "byte \<Rightarrow> byte list \<Rightarrow> Client \<Rightarrow> (go_error + 16 word) \<times> Client" where
  "client_Send t payload c =
     (let c = c\<lparr>cl_seq := cl_seq c + 1\<rparr>; seq = cl_seq c in
      case EncodeFrame \<lparr>frame_type = t, frame_seq = seq, frame_payload = payload\<rparr> of
        Inl e \<Rightarrow> (Inl e, c)
      | Inr encoded \<Rightarrow>
        (case writeAll encoded c of
           (Inl e, c) \<Rightarrow> (Inl e, c)
         | (Inr _, c) \<Rightarrow> (Inr seq, c)))"

text \<open>The first frame that passes the test, and the list without it.\<close>

fun take_first :: "(Frame \<Rightarrow> bool) \<Rightarrow> Frame list \<Rightarrow> (Frame \<times> Frame list) option" where
  "take_first P [] = None"
| "take_first P (f # fs) =
     (if P f then Some (f, fs)
      else case take_first P fs of None \<Rightarrow> None | Some (g, rest) \<Rightarrow> Some (g, f # rest))"

definition answers_request :: "16 word \<Rightarrow> (Frame \<Rightarrow> bool) \<Rightarrow> Frame \<Rightarrow> bool" where
  "answers_request seq accept frame \<longleftrightarrow> frame_seq frame = seq \<and> accept frame"

text \<open>The part of the loop of \<open>requestWithRetry\<close> after a read without an answer: send again when it is time.\<close>

definition retry ::
  "Frame \<Rightarrow> instant \<Rightarrow> duration \<Rightarrow> instant \<Rightarrow> Client \<Rightarrow> (go_error + instant) \<times> Client" where
  "retry request deadline retryInterval nextRetry c =
     (let (t, c) = clock_Now c in
      if t < nextRetry then (Inr nextRetry, c)
      else let (t, c) = clock_Now c in
        if \<not> t < deadline then (Inr nextRetry, c)
        else case EncodeFrame request of
            Inl e \<Rightarrow> (Inl e, c)
          | Inr encoded \<Rightarrow>
            (case writeAll encoded c of
               (Inl e, c) \<Rightarrow> (Inl e, c)
             | (Inr _, c) \<Rightarrow> let (t, c) = clock_Now c in (Inr (t + retryInterval), c)))"

text \<open>One iteration of the loop of \<open>requestWithRetry\<close>: an error, the answer, or the next instant to send again.\<close>

definition loop_step ::
  "Frame \<Rightarrow> (Frame \<Rightarrow> bool) \<Rightarrow> instant \<Rightarrow> duration \<Rightarrow> instant \<Rightarrow> Client \<Rightarrow> (go_error + Frame + instant) \<times> Client" where
  "loop_step request accept deadline interval nextRetry c =
     (let (t, c) = clock_Now c in
      if \<not> t < deadline then (Inl ModemTimeout, c)
      else case take_first (answers_request (frame_seq request) accept) (cl_pending c) of
          Some (frame, rest) \<Rightarrow> (Inr (Inl frame), c\<lparr>cl_pending := rest\<rparr>)
        | None \<Rightarrow>
          (case readAvailable (Some (if deadline < nextRetry then deadline else nextRetry)) c of
             (Inl e, c) \<Rightarrow> (Inl e, c)
           | (Inr frames, c) \<Rightarrow>
             (case take_first (answers_request (frame_seq request) accept) frames of
                Some (frame, rest) \<Rightarrow> (Inr (Inl frame), c\<lparr>cl_pending := cl_pending c @ rest\<rparr>)
              | None \<Rightarrow>
                (case retry request deadline interval nextRetry (c\<lparr>cl_pending := cl_pending c @ frames\<rparr>) of
                   (Inl e, c) \<Rightarrow> (Inl e, c)
                 | (Inr nextRetry, c) \<Rightarrow> (Inr (Inr nextRetry), c)))))"

partial_function (option) request_loop ::
  "Frame \<Rightarrow> (Frame \<Rightarrow> bool) \<Rightarrow> instant \<Rightarrow> duration \<Rightarrow> instant \<Rightarrow> Client \<Rightarrow> ((go_error + Frame) \<times> Client) option" where
  "request_loop request accept deadline interval nextRetry c =
     (case loop_step request accept deadline interval nextRetry c of
        (Inl e, c) \<Rightarrow> Some (Inl e, c)
      | (Inr (Inl frame), c) \<Rightarrow> Some (Inr frame, c)
      | (Inr (Inr nextRetry), c) \<Rightarrow> request_loop request accept deadline interval nextRetry c)"

definition requestWithRetry ::
  "byte \<Rightarrow> byte list \<Rightarrow> duration \<Rightarrow> duration \<Rightarrow> (Frame \<Rightarrow> bool) \<Rightarrow> Client \<Rightarrow> ((go_error + Frame) \<times> Client) option" where
  "requestWithRetry t payload timeout retryInterval accept c =
     (if timeout \<le> 0 \<or> retryInterval \<le> 0
      then Some (Inl (Failure ''timeout and retry interval must be positive''), c)
      else case client_Send t payload c of
          (Inl e, c) \<Rightarrow> Some (Inl e, c)
        | (Inr seq, c) \<Rightarrow>
          (let (t1, c) = clock_Now c; (t2, c) = clock_Now c in
           case request_loop \<lparr>frame_type = t, frame_seq = seq, frame_payload = payload\<rparr> accept
               (t1 + timeout) retryInterval (t2 + retryInterval) c of
             None \<Rightarrow> None
           | Some (r, c) \<Rightarrow> Some (r, snd (SetReadTimeout NoTimeout c))))"

definition Request ::
  "byte \<Rightarrow> byte list \<Rightarrow> duration \<Rightarrow> (Frame \<Rightarrow> bool) \<Rightarrow> Client \<Rightarrow> ((go_error + Frame) \<times> Client) option" where
  "Request t payload timeout accept = requestWithRetry t payload timeout timeout accept"

text \<open>The answers \<open>Open\<close>, \<open>Info\<close> and \<open>SetConfig\<close> wait for, and what the last two make of them.\<close>

definition status_or_error :: "Frame \<Rightarrow> bool" where
  "status_or_error f \<longleftrightarrow> frame_type f = MsgStatus \<or> frame_type f = MsgError"

definition status_text :: "Frame \<Rightarrow> go_error + byte list" where
  "status_text frame =
     (if frame_type frame = MsgError
      then bind_err (DecodeResult (frame_payload frame)) (\<lambda>result. Inl (ModemFailed (result_Code result) (result_Message result)))
      else Inr (frame_payload frame))"

definition Info :: "duration \<Rightarrow> Client \<Rightarrow> ((go_error + byte list) \<times> Client) option" where
  "Info timeout c =
     map_option (\<lambda>(r, c). (bind_err r status_text, c)) (Request MsgInfoRequest [] timeout status_or_error c)"

definition SetConfig :: "RadioConfig \<Rightarrow> duration \<Rightarrow> Client \<Rightarrow> ((go_error + byte list) \<times> Client) option" where
  "SetConfig config timeout c =
     map_option (\<lambda>(r, c). (bind_err r status_text, c)) (Request MsgSetConfig (EncodeConfig config) timeout status_or_error c)"

text \<open>\<open>Open\<close> on the result of opening the device: the port is closed again when the modem does not answer.\<close>

definition Open :: "go_error + Port \<Rightarrow> (go_error + Client) option" where
  "Open opened =
     (case opened of
        Inl e \<Rightarrow> Some (Inl e)
      | Inr port \<Rightarrow>
        (case requestWithRetry MsgInfoRequest [] startupTimeout requestRetryInterval status_or_error
             \<lparr>cl_port = port, cl_seq = 0, cl_decoder = empty_decoder, cl_pending = []\<rparr> of
           None \<Rightarrow> None
         | Some (Inl e, _) \<Rightarrow> Some (Inl e)
         | Some (Inr _, c) \<Rightarrow> Some (Inr c)))"

text \<open>\<open>MessageType.String\<close>, what the tools print of a frame.\<close>

definition MessageType_String :: "byte \<Rightarrow> byte list" where
  "MessageType_String t =
     (if t = MsgInfoRequest then str ''INFO_REQUEST''
      else if t = MsgTXRequest then str ''TX_REQUEST''
      else if t = MsgSetConfig then str ''SET_CONFIG''
      else if t = MsgSetOLED then str ''SET_OLED''
      else if t = MsgRXPacket then str ''RX_PACKET''
      else if t = MsgTXResult then str ''TX_RESULT''
      else if t = MsgStatus then str ''STATUS''
      else if t = MsgError then str ''ERROR''
      else str ''TYPE_0x'' @ hex_EncodeToString [t])"

section \<open>What the primitive steps change\<close>

lemma clock_Now_simps [simp]:
  "fst (clock_Now c) = shd (po_clock (cl_port c))"
  "po_clock (cl_port (snd (clock_Now c))) = stl (po_clock (cl_port c))"
  "po_written (cl_port (snd (clock_Now c))) = po_written (cl_port c)" "po_got (cl_port (snd (clock_Now c))) = po_got (cl_port c)"
  "cl_decoder (snd (clock_Now c)) = cl_decoder c" "cl_pending (snd (clock_Now c)) = cl_pending c" "cl_seq (snd (clock_Now c)) = cl_seq c"
  by (simp_all add: clock_Now_def)

lemma clock_Now_eq: "clock_Now c = (t, c') \<longleftrightarrow> t = shd (po_clock (cl_port c)) \<and> c' = snd (clock_Now c)"
  by (auto simp: clock_Now_def)

lemma SetReadTimeout_simps [simp]:
  "po_clock (cl_port (snd (SetReadTimeout t c))) = po_clock (cl_port c)"
  "po_written (cl_port (snd (SetReadTimeout t c))) = po_written (cl_port c)" "po_got (cl_port (snd (SetReadTimeout t c))) = po_got (cl_port c)"
  "cl_decoder (snd (SetReadTimeout t c)) = cl_decoder c" "cl_pending (snd (SetReadTimeout t c)) = cl_pending c"
  "cl_seq (snd (SetReadTimeout t c)) = cl_seq c"
  by (simp_all add: SetReadTimeout_def)

lemma writeAll_form:
  "writeAll b c = (r, c') \<Longrightarrow> \<exists>ws w. c' = with_port (\<lambda>p. p\<lparr>po_writes := ws, po_written := po_written p @ w\<rparr>) c \<and>
     (\<exists>rest. b = w @ rest \<and> (r = Inr () \<longrightarrow> rest = []))"
proof (induction b c arbitrary: r c' rule: writeAll.induct)
  case (1 b c)
  show ?case
  proof (cases "b = []")
    case True
    then show ?thesis using "1.prems" by (intro exI [of _ "po_writes (cl_port c)"] exI [of _ "[]"]) (simp add: writeAll.simps)
  next
    case False
    obtain x c1 where w: "port_Write b c = (x, c1)" by fastforce
    show ?thesis
    proof (cases x)
      case (Inl e)
      then show ?thesis using "1.prems" False w
        by (intro exI [of _ "stl (po_writes (cl_port c))"] exI [of _ "[]"])
           (auto simp: writeAll.simps port_Write_def split: sum.splits)
    next
      case (Inr n)
      then obtain k where c1: "n = min k (length b)"
        "c1 = with_port (\<lambda>p. p\<lparr>po_writes := stl (po_writes p), po_written := po_written p @ take k b\<rparr>) c"
        using w by (auto simp: port_Write_def split: sum.splits)
      show ?thesis
      proof (cases "n = 0")
        case True
        then have "k = 0" using c1(1) False by (simp add: min_def split: if_splits)
        then show ?thesis using "1.prems" False w Inr c1
          by (intro exI [of _ "stl (po_writes (cl_port c))"] exI [of _ "[]"]) (auto simp: writeAll.simps)
      next
        case pos: False
        then have "writeAll (drop n b) c1 = (r, c')" using "1.prems" False w Inr by (subst (asm) writeAll.simps) simp
        from "1.IH" [OF False w [symmetric] Inr pos this] obtain ws w' rest where
          c': "c' = with_port (\<lambda>p. p\<lparr>po_writes := ws, po_written := po_written p @ w'\<rparr>) c1"
          and r: "drop n b = w' @ rest" "r = Inr () \<longrightarrow> rest = []" by blast
        have "b = take n b @ w' @ rest" using r(1) by (metis append_take_drop_id)
        then have "b = (take k b @ w') @ rest" using c1(1) by (metis append_assoc min.commute take_all_iff take_take min_def linorder_linear)
        moreover have "c' = with_port (\<lambda>p. p\<lparr>po_writes := ws, po_written := po_written p @ take k b @ w'\<rparr>) c"
          using c' c1(2) by simp
        ultimately show ?thesis using r(2) by blast
      qed
    qed
  qed
qed

text \<open>From \<open>c\<close> to \<open>c'\<close> the port delivered bytes in which the decoder found the frames \<open>fs\<close>.\<close>

definition came_in :: "Client \<Rightarrow> Client \<Rightarrow> Frame list \<Rightarrow> bool" where
  "came_in c c' fs \<longleftrightarrow> (\<exists>b es. po_got (cl_port c') = po_got (cl_port c) @ b \<and>
     Push (cl_decoder c) b = (cl_decoder c', fs, es))"

lemma came_in_nothing: "po_got (cl_port c') = po_got (cl_port c) \<Longrightarrow> cl_decoder c' = cl_decoder c \<Longrightarrow> came_in c c' []"
  by (simp add: came_in_def Push_def)

lemma came_in_trans: "came_in c c1 fs \<Longrightarrow> came_in c1 c2 gs \<Longrightarrow> came_in c c2 (fs @ gs)"
  by (fastforce simp: came_in_def Push_append)

lemma came_in_cong:
  "po_got (cl_port c1) = po_got (cl_port c) \<Longrightarrow> cl_decoder c1 = cl_decoder c \<Longrightarrow>
   po_got (cl_port c2) = po_got (cl_port c') \<Longrightarrow> cl_decoder c2 = cl_decoder c' \<Longrightarrow> came_in c1 c2 fs = came_in c c' fs"
  by (simp add: came_in_def)

lemma readAvailable_form:
  assumes "readAvailable deadline c = (r, c')"
  shows "\<exists>k. po_clock (cl_port c') = sdrop k (po_clock (cl_port c))" "po_written (cl_port c') = po_written (cl_port c)"
    "cl_pending c' = cl_pending c" "cl_seq c' = cl_seq c" "came_in c c' (case r of Inl _ \<Rightarrow> [] | Inr fs \<Rightarrow> fs)"
proof -
  define c1 where "c1 = (case deadline of None \<Rightarrow> c | Some d \<Rightarrow> snd (clock_Now c))"
  define t where "t = (case deadline of None \<Rightarrow> NoTimeout | Some d \<Rightarrow> d - shd (po_clock (cl_port c)))"
  have c1: "po_clock (cl_port c1) = sdrop (if deadline = None then 0 else 1) (po_clock (cl_port c))"
    "po_written (cl_port c1) = po_written (cl_port c)" "cl_pending c1 = cl_pending c" "cl_seq c1 = cl_seq c"
    "po_got (cl_port c1) = po_got (cl_port c)" "cl_decoder c1 = cl_decoder c"
    by (simp_all add: c1_def split: option.split)
  obtain x c2 where c2: "SetReadTimeout t c1 = (x, c2)" by fastforce
  note s = SetReadTimeout_simps [of t c1, unfolded c2 snd_conv c1]
  have ra: "readAvailable deadline c = (if deadline \<noteq> None \<and> t \<le> 0 then (Inl ModemTimeout, c1) else
      case x of Inl e \<Rightarrow> (Inl e, c2) | Inr _ \<Rightarrow> (case port_Read c2 of
          (Inl e, c) \<Rightarrow> (Inl IOError, c)
        | (Inr b, c) \<Rightarrow> (case Push (cl_decoder c) b of (d, frames, _) \<Rightarrow> (Inr frames, c\<lparr>cl_decoder := d\<rparr>))))"
    using c2 by (cases deadline) (auto simp: readAvailable_def t_def c1_def Let_def clock_Now_def split: prod.splits)
  show "\<exists>k. po_clock (cl_port c') = sdrop k (po_clock (cl_port c))" "po_written (cl_port c') = po_written (cl_port c)"
    "cl_pending c' = cl_pending c" "cl_seq c' = cl_seq c" "came_in c c' (case r of Inl _ \<Rightarrow> [] | Inr fs \<Rightarrow> fs)"
    using assms[unfolded ra] c1 s 
    by (auto simp: port_Read_def came_in_def Push_def intro: exI [of _ "Suc 0"] exI[of _ 0] split: if_splits sum.splits prod.splits)
qed

text \<open>Time does not run backwards, and it passes every instant.\<close>

definition clock_ok :: "instant stream \<Rightarrow> bool" where
  "clock_ok s \<longleftrightarrow> (\<forall>i j. i \<le> j \<longrightarrow> s !! i \<le> s !! j)"

definition time_passes :: "instant stream \<Rightarrow> bool" where
  "time_passes s \<longleftrightarrow> (\<forall>t. \<exists>n. \<forall>m \<ge> n. t \<le> s !! m)"

lemma clock_ok_sdrop [simp]: "clock_ok s \<Longrightarrow> clock_ok (sdrop k s)"
  by (simp add: clock_ok_def sdrop_snth)

lemma clock_ok_stl [simp]: "clock_ok s \<Longrightarrow> clock_ok (stl s)"
  using clock_ok_sdrop [of s 1] by simp

lemma time_passes_sdrop [simp]: "time_passes s \<Longrightarrow> time_passes (sdrop k s)"
  unfolding time_passes_def sdrop_snth by (meson trans_le_add2)

lemma time_passes_stl [simp]: "time_passes s \<Longrightarrow> time_passes (stl s)"
  using time_passes_sdrop [of s 1] by simp

lemma retry_form:
  assumes "retry request deadline interval nextRetry c = (r, c')"
  shows "\<exists>k. po_clock (cl_port c') = sdrop (Suc k) (po_clock (cl_port c))" "cl_pending c' = cl_pending c"
    "cl_seq c' = cl_seq c" "came_in c c' []" "\<exists>w. po_written (cl_port c') = po_written (cl_port c) @ w"
    "clock_ok (po_clock (cl_port c)) \<Longrightarrow> deadline \<le> nextRetry \<Longrightarrow>
       r = Inr nextRetry \<and> po_written (cl_port c') = po_written (cl_port c)"
proof -
  let ?cl = "\<lambda>i. po_clock (cl_port c') = sdrop (Suc i) (po_clock (cl_port c))"
  have f: "(?cl 0 \<or> ?cl 1 \<or> ?cl 2) \<and> cl_pending c' = cl_pending c \<and> cl_seq c' = cl_seq c \<and>
      po_got (cl_port c') = po_got (cl_port c) \<and> cl_decoder c' = cl_decoder c \<and>
      (\<exists>w. po_written (cl_port c') = po_written (cl_port c) @ w)"
    using assms by (auto simp: retry_def Let_def clock_Now_def numeral_2_eq_2 dest!: writeAll_form split: if_splits sum.splits prod.splits)
  then show "\<exists>k. po_clock (cl_port c') = sdrop (Suc k) (po_clock (cl_port c))" by blast
  show "cl_pending c' = cl_pending c" "cl_seq c' = cl_seq c" "came_in c c' []"
    "\<exists>w. po_written (cl_port c') = po_written (cl_port c) @ w"
    using f by (auto intro: came_in_nothing)
  assume "clock_ok (po_clock (cl_port c))" "deadline \<le> nextRetry"
  then have "shd (po_clock (cl_port c)) < nextRetry \<or> \<not> shd (stl (po_clock (cl_port c))) < deadline"
    using spec [OF spec [of "\<lambda>i. \<forall>j. i \<le> j \<longrightarrow> po_clock (cl_port c) !! i \<le> po_clock (cl_port c) !! j" 0], of 1]
    by (auto simp: clock_ok_def)
  then show "r = Inr nextRetry \<and> po_written (cl_port c') = po_written (cl_port c)"
    using assms by (auto simp: retry_def Let_def clock_Now_def split: if_splits)
qed

lemma take_first_Some:
  "take_first P fs = Some (f, rest) \<Longrightarrow> P f \<and> (\<exists>us vs. fs = us @ f # vs \<and> rest = us @ vs \<and> (\<forall>g \<in> set us. \<not> P g))"
proof (induction fs arbitrary: rest)
  case (Cons a fs)
  show ?case
  proof (cases "P a")
    case True
    then have "P f \<and> a # fs = [] @ f # fs \<and> rest = [] @ fs \<and> (\<forall>g \<in> set []. \<not> P g)" using Cons.prems by auto
    then show ?thesis by blast
  next
    case False
    then obtain r where r: "take_first P fs = Some (f, r)" "rest = a # r" using Cons.prems by (auto split: option.splits)
    then obtain us vs where "P f" "fs = us @ f # vs" "r = us @ vs" "\<forall>g \<in> set us. \<not> P g" using Cons.IH by blast
    then have "P f \<and> a # fs = (a # us) @ f # vs \<and> rest = (a # us) @ vs \<and> (\<forall>g \<in> set (a # us). \<not> P g)"
      using r False by auto
    then show ?thesis by blast
  qed
qed simp

lemma take_first_None: "take_first P fs = None \<longleftrightarrow> (\<forall>f \<in> set fs. \<not> P f)"
  by (induction fs) (auto split: option.split)

text \<open>What a step does to the client: \<open>r\<close> is its outcome.\<close>

definition keeps_frames :: "(Frame \<Rightarrow> bool) \<Rightarrow> Client \<Rightarrow> Frame option \<Rightarrow> Client \<Rightarrow> bool" where
  "keeps_frames P c r c' \<longleftrightarrow> (\<exists>fs. came_in c c' fs \<and>
     (case r of
        None \<Rightarrow> cl_pending c' = cl_pending c @ fs
      | Some f \<Rightarrow> P f \<and> (\<exists>us vs. cl_pending c @ fs = us @ f # vs \<and> cl_pending c' = us @ vs \<and> (\<forall>g \<in> set us. \<not> P g))))"

lemma keeps_framesI:
  assumes "came_in c c' fs" "P f" "cl_pending c @ fs = us @ f # vs" "cl_pending c' = us @ vs" "\<forall>g \<in> set us. \<not> P g"
  shows "keeps_frames P c (Some f) c'"
  unfolding keeps_frames_def option.case using assms by blast

definition outcome :: "go_error + Frame + instant \<Rightarrow> Frame option" where
  "outcome r = (case r of Inr (Inl f) \<Rightarrow> Some f | _ \<Rightarrow> None)"

lemma loop_step_form:
  assumes "loop_step request accept deadline interval nextRetry c = (r, c')"
  shows "keeps_frames (answers_request (frame_seq request) accept) c (outcome r) c'"
    "\<exists>k. po_clock (cl_port c') = sdrop (Suc k) (po_clock (cl_port c))" "cl_seq c' = cl_seq c"
    "\<exists>n. r = Inr (Inr n) \<Longrightarrow> shd (po_clock (cl_port c)) < deadline \<and>
       (\<forall>g \<in> set (cl_pending c'). \<not> answers_request (frame_seq request) accept g)"
    "\<exists>w. po_written (cl_port c') = po_written (cl_port c) @ w"
    "clock_ok (po_clock (cl_port c)) \<Longrightarrow> deadline \<le> nextRetry \<Longrightarrow>
       po_written (cl_port c') = po_written (cl_port c) \<and> (\<forall>n. r = Inr (Inr n) \<longrightarrow> n = nextRetry)"
proof -
  let ?P = "answers_request (frame_seq request) accept"
  let ?c1 = "snd (clock_Now c)"
  let ?Q = "keeps_frames ?P c (outcome r) c' \<and> (\<exists>k. po_clock (cl_port c') = sdrop (Suc k) (po_clock (cl_port c))) \<and>
    cl_seq c' = cl_seq c \<and> ((\<exists>n. r = Inr (Inr n)) \<longrightarrow> shd (po_clock (cl_port c)) < deadline \<and> (\<forall>g \<in> set (cl_pending c'). \<not> ?P g)) \<and>
    (\<exists>w. po_written (cl_port c') = po_written (cl_port c) @ w) \<and>
    (clock_ok (po_clock (cl_port c)) \<longrightarrow> deadline \<le> nextRetry \<longrightarrow>
       po_written (cl_port c') = po_written (cl_port c) \<and> (\<forall>n. r = Inr (Inr n) \<longrightarrow> n = nextRetry))"
  have n0: "came_in c ?c1 []" by (simp add: came_in_nothing)
  have one: "\<exists>k. stl (po_clock (cl_port c)) = sdrop (Suc k) (po_clock (cl_port c))" by (rule exI [of _ 0]) simp
  have "?Q"
  proof (cases "shd (po_clock (cl_port c)) < deadline")
    case False
    then have "r = Inl ModemTimeout" "c' = ?c1" using assms by (auto simp: loop_step_def Let_def clock_Now_def)
    then show ?thesis using n0 one by (auto simp: keeps_frames_def outcome_def)
  next
    case True
    show ?thesis
    proof (cases "take_first ?P (cl_pending c)")
      case (Some fr)
      obtain f rest where fr: "take_first ?P (cl_pending c) = Some (f, rest)" using Some by (cases fr) simp
      then have rc: "r = Inr (Inl f)" "c' = ?c1\<lparr>cl_pending := rest\<rparr>" using assms True by (auto simp: loop_step_def Let_def clock_Now_def)
      have i: "came_in c c' []" unfolding rc by (simp add: came_in_nothing)
      from take_first_Some [OF fr] obtain us vs where uv: "?P f" "cl_pending c = us @ f # vs" "rest = us @ vs" "\<forall>g \<in> set us. \<not> ?P g"
        by blast
      have "keeps_frames ?P c (Some f) c'" by (rule keeps_framesI [OF i, of ?P f us vs]) (use uv rc in simp_all)
      then show ?thesis using rc one by (auto simp: outcome_def)
    next
      case None
      let ?d = "Some (if deadline < nextRetry then deadline else nextRetry)"
      obtain x c2 where ra: "readAvailable ?d ?c1 = (x, c2)" by fastforce
      note f2 = readAvailable_form [OF ra]
      obtain k where k: "po_clock (cl_port c2) = sdrop (Suc k) (po_clock (cl_port c))" using f2(1) by auto
      have i2: "came_in c c2 (case x of Inl _ \<Rightarrow> [] | Inr fs \<Rightarrow> fs)" using came_in_trans [OF n0 f2(5)] by simp
      show ?thesis
      proof (cases x)
        case (Inl e)
        then have "r = Inl e" "c' = c2" using assms True None ra by (auto simp: loop_step_def Let_def clock_Now_def)
        then show ?thesis using Inl f2 i2 k by (auto simp: keeps_frames_def outcome_def)
      next
        case (Inr frames)
        show ?thesis
        proof (cases "take_first ?P frames")
          case (Some fr)
          obtain f rest where fr: "take_first ?P frames = Some (f, rest)" using Some by (cases fr) simp
          then have rc: "r = Inr (Inl f)" "c' = c2\<lparr>cl_pending := cl_pending c2 @ rest\<rparr>"
            using assms True None ra Inr by (auto simp: loop_step_def Let_def clock_Now_def)
          have i: "came_in c c' frames" using i2 Inr unfolding rc by (simp add: came_in_def)
          from take_first_Some [OF fr] obtain us vs where uv: "?P f" "frames = us @ f # vs" "rest = us @ vs" "\<forall>g \<in> set us. \<not> ?P g" by blast
          have "keeps_frames ?P c (Some f) c'"
            by (rule keeps_framesI [OF i, of ?P f "cl_pending c @ us" vs]) (use uv rc f2 None in \<open>auto simp: take_first_None\<close>)
          then have "keeps_frames ?P c (outcome r) c'" using rc(1) by (simp add: outcome_def)
          then show ?thesis using rc f2 k by auto
        next
          case no: None
          let ?c3 = "c2\<lparr>cl_pending := cl_pending c2 @ frames\<rparr>"
          obtain y c4 where re: "retry request deadline interval nextRetry ?c3 = (y, c4)" by fastforce
          note f4 = retry_form [OF re]
          have r: "r = (case y of Inl e \<Rightarrow> Inl e | Inr n \<Rightarrow> Inr (Inr n))" "c' = c4"
            using assms True None ra Inr no re by (auto simp: loop_step_def Let_def clock_Now_def split: sum.splits)
          have "came_in c ?c3 frames" using i2 Inr by (simp add: came_in_def)
          from came_in_trans [OF this f4(4)] have "came_in c c4 frames" by simp
          then have "keeps_frames ?P c (outcome r) c'" using r f4(2) f2(3)
            by (auto simp: keeps_frames_def outcome_def split: sum.split)
          moreover have "\<exists>k. po_clock (cl_port c4) = sdrop (Suc k) (po_clock (cl_port c))"
            using f4(1) k by (auto simp: sdrop_add [symmetric] simp del: sdrop.simps)
          moreover have "\<forall>g \<in> set (cl_pending c'). \<not> ?P g" using r f4(2) f2(3) None no by (auto simp: take_first_None)
          moreover have "clock_ok (po_clock (cl_port c)) \<Longrightarrow> clock_ok (po_clock (cl_port ?c3))" using k by simp
          ultimately show ?thesis using r True f4(3,5,6) f2 by (auto split: sum.splits)
        qed
      qed
    qed
  qed
  then show "keeps_frames ?P c (outcome r) c'" "\<exists>k. po_clock (cl_port c') = sdrop (Suc k) (po_clock (cl_port c))"
    "cl_seq c' = cl_seq c" "\<exists>w. po_written (cl_port c') = po_written (cl_port c) @ w"
    "\<exists>n. r = Inr (Inr n) \<Longrightarrow> shd (po_clock (cl_port c)) < deadline \<and> (\<forall>g \<in> set (cl_pending c'). \<not> ?P g)"
    "clock_ok (po_clock (cl_port c)) \<Longrightarrow> deadline \<le> nextRetry \<Longrightarrow>
       po_written (cl_port c') = po_written (cl_port c) \<and> (\<forall>n. r = Inr (Inr n) \<longrightarrow> n = nextRetry)"
    by blast+
qed

lemma keeps_frames_trans:
  assumes "keeps_frames P c None c1" "keeps_frames P c1 r c2"
  shows "keeps_frames P c r c2"
proof -
  obtain fs where 1: "came_in c c1 fs" "cl_pending c1 = cl_pending c @ fs" using assms(1) by (auto simp: keeps_frames_def)
  obtain gs where 2: "came_in c1 c2 gs" "case r of None \<Rightarrow> cl_pending c2 = cl_pending c1 @ gs
      | Some f \<Rightarrow> P f \<and> (\<exists>us vs. cl_pending c1 @ gs = us @ f # vs \<and> cl_pending c2 = us @ vs \<and> (\<forall>g \<in> set us. \<not> P g))"
    using assms(2) unfolding keeps_frames_def by blast
  show ?thesis unfolding keeps_frames_def
    using came_in_trans [OF 1(1) 2(1)] 1(2) 2(2) by (intro exI [of _ "fs @ gs"]) (simp split: option.splits)
qed

section \<open>The request loop\<close>

text \<open>What the loop did when it returned \<open>rc\<close>.\<close>

definition exchanged :: "Frame \<Rightarrow> (Frame \<Rightarrow> bool) \<Rightarrow> instant \<Rightarrow> instant \<Rightarrow> Client \<Rightarrow> (go_error + Frame) \<times> Client \<Rightarrow> bool" where
  "exchanged request accept deadline nextRetry c rc \<longleftrightarrow>
     keeps_frames (answers_request (frame_seq request) accept) c (case fst rc of Inl _ \<Rightarrow> None | Inr f \<Rightarrow> Some f) (snd rc) \<and>
     cl_seq (snd rc) = cl_seq c \<and> (\<exists>w. po_written (cl_port (snd rc)) = po_written (cl_port c) @ w) \<and>
     (clock_ok (po_clock (cl_port c)) \<longrightarrow> deadline \<le> nextRetry \<longrightarrow> po_written (cl_port (snd rc)) = po_written (cl_port c))"

lemma request_loop_exchanged:
  "request_loop request accept deadline interval nextRetry c = Some rc \<Longrightarrow> exchanged request accept deadline nextRetry c rc"
proof (erule request_loop.raw_induct [rotated])
  fix loop request accept deadline interval nextRetry c rc
  assume IH: "\<And>request accept deadline interval nextRetry c rc. loop request accept deadline interval nextRetry c = Some rc \<Longrightarrow>
      exchanged request accept deadline nextRetry c rc"
    and step: "(case loop_step request accept deadline interval nextRetry c of
        (Inl e, c) \<Rightarrow> Some (Inl e, c) | (Inr (Inl frame), c) \<Rightarrow> Some (Inr frame, c)
      | (Inr (Inr nextRetry), c) \<Rightarrow> loop request accept deadline interval nextRetry c) = Some rc"
  obtain x c1 where s: "loop_step request accept deadline interval nextRetry c = (x, c1)" by fastforce
  note f = loop_step_form [OF s]
  show "exchanged request accept deadline nextRetry c rc"
  proof (cases "\<exists>n. x = Inr (Inr n)")
    case False
    then show ?thesis using step s f by (cases x) (auto simp: outcome_def exchanged_def split: sum.splits)
  next
    case True
    then obtain n where n: "x = Inr (Inr n)" ..
    then have "loop request accept deadline interval n c1 = Some rc" using step s by simp
    from IH [OF this] have e: "exchanged request accept deadline n c1 rc" .
    moreover have "keeps_frames (answers_request (frame_seq request) accept) c None c1" using f(1) n by (simp add: outcome_def)
    ultimately have "keeps_frames (answers_request (frame_seq request) accept) c (case fst rc of Inl _ \<Rightarrow> None | Inr f \<Rightarrow> Some f) (snd rc)"
      unfolding exchanged_def using keeps_frames_trans by blast
    moreover obtain k where "po_clock (cl_port c1) = sdrop (Suc k) (po_clock (cl_port c))" using f(2) by blast
    then have "clock_ok (po_clock (cl_port c)) \<Longrightarrow> clock_ok (po_clock (cl_port c1))" by (simp del: sdrop.simps)
    ultimately show ?thesis using e f(3,5,6) n by (auto simp: exchanged_def)
  qed
qed

lemma request_loop_returns:
  "\<forall>m \<ge> n. deadline \<le> po_clock (cl_port c) !! m \<Longrightarrow> \<exists>r c'. request_loop request accept deadline interval nextRetry c = Some (r, c')"
proof (induction n arbitrary: c nextRetry rule: less_induct)
  case (less n)
  obtain x c1 where s: "loop_step request accept deadline interval nextRetry c = (x, c1)" by fastforce
  note f = loop_step_form [OF s]
  show ?case
  proof (cases "\<exists>n. x = Inr (Inr n)")
    case False
    then show ?thesis using s by (subst request_loop.simps) (auto split: sum.split)
  next
    case True
    then obtain i where i: "x = Inr (Inr i)" ..
    have "n \<noteq> 0" using f(4) [OF True] spec [OF less.prems, of 0] by (intro notI) simp
    moreover obtain k where k: "po_clock (cl_port c1) = sdrop (Suc k) (po_clock (cl_port c))" using f(2) by blast
    ultimately have "n - Suc k < n" "\<forall>m \<ge> n - Suc k. deadline \<le> po_clock (cl_port c1) !! m"
      using less.prems by (simp_all add: sdrop_snth del: sdrop.simps snth.simps)
    from less.IH [OF this, of i] show ?thesis using s i by (subst request_loop.simps) simp
  qed
qed

section \<open>Reading one frame\<close>

text \<open>A read hands out the oldest frame there is and keeps the others.\<close>

definition frame_read :: "Client \<Rightarrow> (go_error + Frame) \<times> Client \<Rightarrow> bool" where
  "frame_read c rc \<longleftrightarrow> (\<exists>fs. came_in c (snd rc) fs \<and>
     (case fst rc of Inl _ \<Rightarrow> cl_pending (snd rc) = cl_pending c @ fs | Inr f \<Rightarrow> cl_pending c @ fs = f # cl_pending (snd rc))) \<and>
     cl_seq (snd rc) = cl_seq c \<and> po_written (cl_port (snd rc)) = po_written (cl_port c) \<and>
     (\<exists>k. po_clock (cl_port (snd rc)) = sdrop k (po_clock (cl_port c)))"

lemma read_loop_form:
  "read_loop deadline c = Some rc \<Longrightarrow> cl_pending c = [] \<Longrightarrow> frame_read c rc"
proof (erule read_loop.raw_induct [rotated, THEN mp])
  fix loop deadline c rc
  assume IH: "\<And>deadline c rc. loop deadline c = Some rc \<Longrightarrow> cl_pending c = [] \<longrightarrow> frame_read c rc"
    and step: "(case readAvailable deadline c of
        (Inl e, c) \<Rightarrow> Some (Inl e, c)
      | (Inr [], c) \<Rightarrow> (case deadline of None \<Rightarrow> loop deadline c
         | Some d \<Rightarrow> (let (t, c) = clock_Now c in if \<not> t < d then Some (Inl ModemTimeout, c) else loop deadline c))
      | (Inr (frame # frames), c) \<Rightarrow> Some (Inr frame, c\<lparr>cl_pending := cl_pending c @ frames\<rparr>)) = Some rc"
  show "cl_pending c = [] \<longrightarrow> frame_read c rc"
  proof
    assume empty: "cl_pending c = []"
    obtain x c1 where s: "readAvailable deadline c = (x, c1)" by fastforce
    note f = readAvailable_form [OF s]
    have next_round: "frame_read c rc" if "x = Inr []" "loop deadline c2 = Some rc"
      "c2 = c1 \<or> c2 = snd (clock_Now c1)" for c2
    proof -
      have "po_got (cl_port c2) = po_got (cl_port c1)" "cl_decoder c2 = cl_decoder c1" "cl_pending c2 = []"
        "cl_seq c2 = cl_seq c" "po_written (cl_port c2) = po_written (cl_port c)"
        "\<exists>k. po_clock (cl_port c2) = sdrop k (po_clock (cl_port c1))"
        using that(3) f empty by (auto intro: exI [of _ 0] exI [of _ 1])
      moreover from this(3) have r: "frame_read c2 rc" using IH [OF that(2)] by simp
      moreover have "came_in c c2 []" using f(5) that(1) calculation(1,2) by (simp add: came_in_def)
      ultimately show ?thesis using f(1) empty unfolding frame_read_def
        by (fastforce dest: came_in_trans simp: sdrop_add split: sum.splits)
    qed
    show "frame_read c rc"
    proof (cases "x = Inr []")
      case True
      have "came_in c (snd (clock_Now c1)) []" using f(5) True by (simp add: came_in_def)
      moreover have "\<exists>k. stl (po_clock (cl_port c1)) = sdrop k (po_clock (cl_port c))"
        using f(1) by (metis sdrop_simps(2) sdrop.simps(2) sdrop_stl)
      ultimately have "frame_read c (Inl ModemTimeout, snd (clock_Now c1))"
        using f by (simp add: frame_read_def)
      then show ?thesis using True step s next_round by (auto simp: Let_def clock_Now_eq split: option.splits prod.splits if_splits
            intro: next_round)
    next
      case False
      then show ?thesis using step s f empty
        by (auto simp: frame_read_def came_in_def split: sum.splits list.splits)
    qed
  qed
qed

lemma frame_read_later:
  assumes "frame_read (snd (clock_Now c)) rc"
  shows "frame_read c rc"
proof -
  have "\<exists>k. po_clock (cl_port (snd rc)) = sdrop (Suc k) (po_clock (cl_port c))" using assms by (auto simp: frame_read_def)
  then have "\<exists>k. po_clock (cl_port (snd rc)) = sdrop k (po_clock (cl_port c))" by (elim exE) (rule exI)
  moreover have "came_in (snd (clock_Now c)) (snd rc) fs = came_in c (snd rc) fs" for fs by (rule came_in_cong) simp_all
  ultimately show ?thesis using assms unfolding frame_read_def clock_Now_simps by simp
qed

lemma ReadFrame_form: "ReadFrame timeout c = Some rc \<Longrightarrow> frame_read c rc"
proof (cases "cl_pending c")
  case (Cons f fs)
  then show "ReadFrame timeout c = Some rc \<Longrightarrow> ?thesis"
    by (auto simp: ReadFrame_def frame_read_def came_in_def Push_def intro: exI [of _ 0])
next
  case Nil
  assume r: "ReadFrame timeout c = Some rc"
  show ?thesis
  proof (cases "timeout \<ge> 0")
    case True
    then have "read_loop (Some (shd (po_clock (cl_port c)) + timeout)) (snd (clock_Now c)) = Some rc"
      using r Nil by (auto simp: ReadFrame_def clock_Now_def)
    from read_loop_form [OF this] show ?thesis using Nil by (simp add: frame_read_later)
  next
    case False
    then show ?thesis using r Nil read_loop_form by (simp add: ReadFrame_def)
  qed
qed

lemma read_loop_returns:
  "\<forall>m \<ge> n. d \<le> po_clock (cl_port c) !! m \<Longrightarrow> \<exists>rc. read_loop (Some d) c = Some rc"
proof (induction n arbitrary: c rule: less_induct)
  case (less n)
  obtain x c1 where s: "readAvailable (Some d) c = (x, c1)" by fastforce
  obtain k where k: "po_clock (cl_port c1) = sdrop k (po_clock (cl_port c))" using readAvailable_form(1) [OF s] by blast
  show ?case
  proof (cases "x = Inr [] \<and> shd (po_clock (cl_port c1)) < d")
    case False
    then show ?thesis using s
      by (subst read_loop.simps) (auto simp: Let_def clock_Now_eq split: sum.split list.split prod.split)
  next
    case True
    let ?c2 = "snd (clock_Now c1)"
    have "shd (po_clock (cl_port c1)) = po_clock (cl_port c) !! k" by (simp add: k sdrop_simps(1))
    then have "k < n" using True spec [OF less.prems, of k] by (cases "k < n") auto
    moreover have c2: "po_clock (cl_port ?c2) = sdrop (Suc k) (po_clock (cl_port c))" by (simp add: k)
    ultimately have "n - Suc k < n" "\<forall>m \<ge> n - Suc k. d \<le> po_clock (cl_port ?c2) !! m"
      using less.prems unfolding c2 by (simp_all add: sdrop_snth del: sdrop.simps snth.simps)
    from less.IH [OF this] obtain rc where "read_loop (Some d) ?c2 = Some rc" by blast
    then show ?thesis using s True by (subst read_loop.simps) (auto simp: Let_def clock_Now_def)
  qed
qed

lemma client_Send_form:
  assumes "client_Send t payload c = (r, c')"
  shows "cl_seq c' = cl_seq c + 1" "po_clock (cl_port c') = po_clock (cl_port c)" "cl_pending c' = cl_pending c"
    "cl_decoder c' = cl_decoder c" "po_got (cl_port c') = po_got (cl_port c)"
    "\<exists>w. po_written (cl_port c') = po_written (cl_port c) @ w \<and>
       (w = [] \<or> (\<exists>rest. EncodeFrame \<lparr>frame_type = t, frame_seq = cl_seq c + 1, frame_payload = payload\<rparr> = Inr (w @ rest)))"
    "r = Inr seq \<Longrightarrow> seq = cl_seq c + 1 \<and> (\<exists>w. po_written (cl_port c') = po_written (cl_port c) @ w \<and>
       EncodeFrame \<lparr>frame_type = t, frame_seq = cl_seq c + 1, frame_payload = payload\<rparr> = Inr w)"
  using assms by (auto simp: client_Send_def Let_def dest!: writeAll_form split: sum.splits prod.splits)

lemma requestWithRetry_cases:
  assumes "requestWithRetry t payload timeout interval accept c = Some (r, c')"
  obtains (refused) e where "r = Inl e" "c' = c" "timeout \<le> 0 \<or> interval \<le> 0"
  | (unsent) e where "client_Send t payload c = (Inl e, c')" "r = Inl e"
  | (sent) c1 c2 where "client_Send t payload c = (Inr (cl_seq c + 1), c1)" "0 < timeout" "0 < interval"
      "request_loop \<lparr>frame_type = t, frame_seq = cl_seq c + 1, frame_payload = payload\<rparr> accept
         (shd (po_clock (cl_port c)) + timeout) interval (shd (stl (po_clock (cl_port c))) + interval)
         (snd (clock_Now (snd (clock_Now c1)))) = Some (r, c2)"
      "c' = snd (SetReadTimeout NoTimeout c2)"
proof (cases "timeout \<le> 0 \<or> interval \<le> 0")
  case True
  then show thesis using assms refused by (auto simp: requestWithRetry_def)
next
  case False
  obtain x c1 where s: "client_Send t payload c = (x, c1)" by fastforce
  show thesis
  proof (cases x)
    case (Inl e)
    then show thesis using assms False s unsent by (auto simp: requestWithRetry_def)
  next
    case (Inr seq)
    then have seq: "seq = cl_seq c + 1" "po_clock (cl_port c1) = po_clock (cl_port c)" using client_Send_form [OF s] by auto
    show thesis using assms False s Inr seq
      by (auto simp: requestWithRetry_def Let_def case_prod_unfold split: option.splits intro!: sent)
  qed
qed

section \<open>Examples\<close>

text \<open>A client whose modem answers its first request with the status \<open>ok\<close> in the first read.\<close>

definition counting :: "int \<Rightarrow> instant stream" where
  "counting t = siterate (\<lambda>t. t + 1) t"

definition example_client :: Client where
  "example_client = \<lparr>cl_port = \<lparr>po_reads = Inr [6, 71, 67, 1, 131, 1, 2, 2, 7, 111, 107, 10, 111, 247, 84, 0] ## sconst (Inr []),
     po_writes = sconst (Inr 1000), po_settable = sconst True, po_clock = counting 0, po_timeout = NoTimeout,
     po_written = [], po_got = []\<rparr>, cl_seq = 0, cl_decoder = empty_decoder, cl_pending = []\<rparr>"

definition ok_frame :: Frame where
  "ok_frame = \<lparr>frame_type = MsgStatus, frame_seq = 1, frame_payload = [111, 107]\<rparr>"

lemma counting_simps [simp]: "shd (counting t) = t" "stl (counting t) = counting (t + 1)"
  by (simp_all add: counting_def)

lemma snth_counting [simp]: "counting t !! n = t + int n"
  by (induction n arbitrary: t) simp_all

lemma counting_clock: "time_passes (counting t)" "clock_ok (counting t)"
proof -
  have "s \<le> t + int m" if "nat (s - t) \<le> m" for s m using that by linarith
  then show "time_passes (counting t)" unfolding time_passes_def snth_counting by blast
  show "clock_ok (counting t)" by (simp add: clock_ok_def)
qed

lemma request_record: "EncodeFrame \<lparr>frame_type = MsgInfoRequest, frame_seq = 1, frame_payload = []\<rparr> =
    Inr [6, 71, 67, 1, 1, 1, 1, 1, 5, 9, 230, 25, 125, 0]"
  by code_simp

lemmas evaluate_request = requestWithRetry_def client_Send_def Let_def request_record [simplified] writeAll.simps
  port_Write_def clock_Now_def request_loop.simps loop_step_def readAvailable_def SetReadTimeout_def port_Read_def

lemma example_exchange:
  "\<exists>c'. Request MsgInfoRequest [] 1000 status_or_error example_client = Some (Inr ok_frame, c')"
proof -
  have "EncodeFrame ok_frame = Inr [6, 71, 67, 1, 131, 1, 2, 2, 7, 111, 107, 10, 111, 247, 84, 0]" by code_simp
  note came = Push_EncodeFrame [OF this]
  show ?thesis
    by (simp add: Request_def example_client_def evaluate_request came)
       (simp add: answers_request_def ok_frame_def status_or_error_def)
qed

lemma request_keeps_frames:
  assumes "requestWithRetry t payload timeout interval accept c = Some (r, c')"
  shows "keeps_frames (answers_request (cl_seq c + 1) accept) c (case r of Inl _ \<Rightarrow> None | Inr f \<Rightarrow> Some f) c'"
  using assms
proof (cases rule: requestWithRetry_cases)
  case (sent c1 c2)
  let ?c = "snd (clock_Now (snd (clock_Now c1)))"
  have "keeps_frames (answers_request (cl_seq c + 1) accept) ?c (case r of Inl _ \<Rightarrow> None | Inr f \<Rightarrow> Some f) c2"
    using request_loop_exchanged [OF sent(4)] by (simp add: exchanged_def)
  moreover have "cl_pending ?c = cl_pending c" "cl_pending c' = cl_pending c2" using client_Send_form(3) [OF sent(1)] sent(5) by simp_all
  moreover have "came_in ?c c2 fs = came_in c c' fs" for fs
    using client_Send_form(4,5) [OF sent(1)] sent(5) by (intro came_in_cong) simp_all
  ultimately show ?thesis by (simp only: keeps_frames_def)
qed (use client_Send_form in \<open>auto simp: keeps_frames_def came_in_def Push_def\<close>)

lemma request_sent_once:
  assumes "clock_ok (po_clock (cl_port c))" and "Request t payload timeout accept c = Some (r, c')"
  shows "\<exists>w. po_written (cl_port c') = po_written (cl_port c) @ w \<and>
    (w = [] \<or> (\<exists>rest. EncodeFrame \<lparr>frame_type = t, frame_seq = cl_seq c + 1, frame_payload = payload\<rparr> = Inr (w @ rest))) \<and>
    (\<forall>f. r = Inr f \<longrightarrow> frame_seq f = cl_seq c + 1 \<and> accept f \<and>
       EncodeFrame \<lparr>frame_type = t, frame_seq = cl_seq c + 1, frame_payload = payload\<rparr> = Inr w)"
  using assms(2) unfolding Request_def
proof (cases rule: requestWithRetry_cases)
  case (sent c1 c2)
  let ?c = "snd (clock_Now (snd (clock_Now c1)))"
  note f = client_Send_form [OF sent(1)]
  have "clock_ok (po_clock (cl_port ?c))" using assms(1) f(2) by simp
  moreover have "shd (po_clock (cl_port c)) \<le> shd (stl (po_clock (cl_port c)))"
    using assms(1) unfolding clock_ok_def by (metis One_nat_def le0 snth.simps)
  ultimately have "po_written (cl_port c2) = po_written (cl_port c1)"
    and "keeps_frames (answers_request (cl_seq c + 1) accept) ?c (case r of Inl _ \<Rightarrow> None | Inr f \<Rightarrow> Some f) c2"
    using request_loop_exchanged [OF sent(4)] by (simp_all add: exchanged_def)
  moreover obtain w where "po_written (cl_port c1) = po_written (cl_port c) @ w"
    "EncodeFrame \<lparr>frame_type = t, frame_seq = cl_seq c + 1, frame_payload = payload\<rparr> = Inr w" using f(7) by blast
  ultimately show ?thesis using sent(5) by (intro exI [of _ w]) (auto simp: keeps_frames_def answers_request_def)
next
  case (unsent e)
  then show ?thesis using client_Send_form(6) [OF unsent(1)] by auto
qed simp

section \<open>Properties\<close>

text \<open>
  C20: A request ends: whatever the port returns to the calls, as long as time passes, a request comes back with
  an answer or an error, retries included, and so does a read with a timeout.
\<close>

theorem request_returns:
  assumes "time_passes (po_clock (cl_port c))"
  shows "(\<exists>r c'. requestWithRetry t payload timeout interval accept c = Some (r, c')) \<and>
    (0 \<le> wait \<longrightarrow> (\<exists>r c'. ReadFrame wait c = Some (r, c')))"
proof (intro conjI impI)
  have passes: "\<exists>n. \<forall>m \<ge> n. d \<le> sdrop k (po_clock (cl_port c)) !! m" for d k
    using time_passes_sdrop [OF assms, of k] by (simp add: time_passes_def del: sdrop.simps)
  obtain x c1 where s: "client_Send t payload c = (x, c1)" by fastforce
  let ?c = "snd (clock_Now (snd (clock_Now c1)))"
  have "po_clock (cl_port ?c) = sdrop 2 (po_clock (cl_port c))"
    using client_Send_form(2) [OF s] by (simp add: numeral_2_eq_2)
  then have "\<exists>r c'. request_loop request accept deadline interval nextRetry ?c = Some (r, c')" for request deadline nextRetry
    using passes [of deadline 2] request_loop_returns by (metis (no_types, lifting))
  then show "\<exists>r c'. requestWithRetry t payload timeout interval accept c = Some (r, c')"
    using s by (auto simp: requestWithRetry_def Let_def case_prod_unfold split: sum.split option.split) (metis option.distinct(1))+
  assume "0 \<le> wait"
  moreover obtain n where "\<forall>m \<ge> n. shd (po_clock (cl_port c)) + wait \<le> sdrop 1 (po_clock (cl_port c)) !! m"
    using passes [of _ 1] by blast
  ultimately show "\<exists>r c'. ReadFrame wait c = Some (r, c')"
    using read_loop_returns [of n "shd (po_clock (cl_port c)) + wait" "snd (clock_Now c)"]
    by (cases "cl_pending c") (auto simp: ReadFrame_def Let_def case_prod_unfold)
qed

theorem request_returns_witness:
  "\<exists>r c'. requestWithRetry MsgInfoRequest [] (4 * Second) (400 * Millisecond) status_or_error example_client = Some (r, c')"
  using request_returns [of example_client MsgInfoRequest "[]" "4 * Second" "400 * Millisecond" status_or_error] counting_clock
  by (simp add: example_client_def)

text \<open>
  A command is sent once: with a clock that does not run backwards, a request that does not ask for retries
  writes at most the bytes of one encoded frame, all of them when it returns an answer, and the answer it
  returns carries the sequence number of that frame and passes the caller's test. (A packet transmitted twice
  is what the code avoids here.)
\<close>

theorem request_sends_once:
  assumes "clock_ok (po_clock (cl_port c))" and "Request t payload timeout accept c = Some (r, c')"
  shows "\<exists>w. po_written (cl_port c') = po_written (cl_port c) @ w \<and>
    (w = [] \<or> (\<exists>rest. EncodeFrame \<lparr>frame_type = t, frame_seq = cl_seq c + 1, frame_payload = payload\<rparr> = Inr (w @ rest))) \<and>
    (\<forall>f. r = Inr f \<longrightarrow> frame_seq f = cl_seq c + 1 \<and> accept f \<and>
       EncodeFrame \<lparr>frame_type = t, frame_seq = cl_seq c + 1, frame_payload = payload\<rparr> = Inr w)"
  by (rule request_sent_once [OF assms])

theorem request_sends_once_witness:
  "\<exists>c'. Request MsgInfoRequest [] 1000 status_or_error example_client = Some (Inr ok_frame, c') \<and>
     po_written (cl_port c') = [6, 71, 67, 1, 1, 1, 1, 1, 5, 9, 230, 25, 125, 0] \<and> frame_seq ok_frame = 1"
proof -
  obtain c' where r: "Request MsgInfoRequest [] 1000 status_or_error example_client = Some (Inr ok_frame, c')"
    using example_exchange by blast
  have "clock_ok (po_clock (cl_port example_client))" using counting_clock by (simp add: example_client_def)
  from request_sends_once [OF this r] r show ?thesis using request_record by (auto simp: example_client_def)
qed

text \<open>
  C13: No frame is lost, invented or reordered by a request: the port delivered some bytes, the decoder found some
  frames in them, and these, appended to the frames already waiting, are the frames waiting afterwards,
  except the answer, which is the first of them that is one. A read without a request takes the first
  waiting frame and keeps the rest in order.
\<close>

theorem frames_conserved:
  "(requestWithRetry t payload timeout interval accept c = Some (r, c') \<longrightarrow>
     (\<exists>b fs errs. po_got (cl_port c') = po_got (cl_port c) @ b \<and> Push (cl_decoder c) b = (cl_decoder c', fs, errs) \<and>
       (case r of Inl _ \<Rightarrow> cl_pending c' = cl_pending c @ fs
        | Inr f \<Rightarrow> \<exists>us vs. cl_pending c @ fs = us @ f # vs \<and> cl_pending c' = us @ vs \<and> accept f \<and>
            frame_seq f = cl_seq c + 1 \<and> (\<forall>g \<in> set us. \<not> (frame_seq g = cl_seq c + 1 \<and> accept g))))) \<and>
   (ReadFrame wait c = Some (q, c'') \<longrightarrow>
     (\<exists>b fs errs. po_got (cl_port c'') = po_got (cl_port c) @ b \<and> Push (cl_decoder c) b = (cl_decoder c'', fs, errs) \<and>
       (case q of Inl _ \<Rightarrow> cl_pending c'' = cl_pending c @ fs | Inr f \<Rightarrow> cl_pending c @ fs = f # cl_pending c'')))"
proof (intro conjI impI)
  assume "requestWithRetry t payload timeout interval accept c = Some (r, c')"
  then have "keeps_frames (answers_request (cl_seq c + 1) accept) c (case r of Inl _ \<Rightarrow> None | Inr f \<Rightarrow> Some f) c'"
    by (rule request_keeps_frames)
  then show "\<exists>b fs errs. po_got (cl_port c') = po_got (cl_port c) @ b \<and> Push (cl_decoder c) b = (cl_decoder c', fs, errs) \<and>
      (case r of Inl _ \<Rightarrow> cl_pending c' = cl_pending c @ fs
       | Inr f \<Rightarrow> \<exists>us vs. cl_pending c @ fs = us @ f # vs \<and> cl_pending c' = us @ vs \<and> accept f \<and>
           frame_seq f = cl_seq c + 1 \<and> (\<forall>g \<in> set us. \<not> (frame_seq g = cl_seq c + 1 \<and> accept g)))"
    unfolding keeps_frames_def came_in_def answers_request_def by (cases r; simp; blast)
next
  assume "ReadFrame wait c = Some (q, c'')"
  then show "\<exists>b fs errs. po_got (cl_port c'') = po_got (cl_port c) @ b \<and> Push (cl_decoder c) b = (cl_decoder c'', fs, errs) \<and>
      (case q of Inl _ \<Rightarrow> cl_pending c'' = cl_pending c @ fs | Inr f \<Rightarrow> cl_pending c @ fs = f # cl_pending c'')"
    using ReadFrame_form [of wait c "(q, c'')"] unfolding frame_read_def came_in_def by (cases q; simp del: sdrop.simps; blast)
qed

theorem frames_conserved_witness:
  "\<exists>c' b fs errs. Request MsgInfoRequest [] 1000 status_or_error example_client = Some (Inr ok_frame, c') \<and>
     Push empty_decoder b = (cl_decoder c', fs, errs) \<and> ok_frame \<in> set fs"
proof -
  obtain c' where r: "Request MsgInfoRequest [] 1000 status_or_error example_client = Some (Inr ok_frame, c')"
    using example_exchange by blast
  have "cl_pending example_client = []" "cl_decoder example_client = empty_decoder" by (simp_all add: example_client_def)
  with frames_conserved [of MsgInfoRequest "[]" 1000 1000 status_or_error example_client "Inr ok_frame" c'] r
  show ?thesis unfolding Request_def by fastforce
qed

text \<open>
  A window in which \<open>requestWithRetry\<close> gives up early: when the instant to send again passes between the test at
  the end of an iteration and the read of the next one, \<open>readAvailable\<close> finds its deadline expired and its
  \<open>ErrTimeout\<close> ends the request, although most of the time it was given is left and nothing was sent again.
  Here a modem that boots silently makes \<open>Open\<close> fail after 0.4 of its 4 seconds.
\<close>

theorem retry_window_missed:
  "\<exists>c'. requestWithRetry MsgInfoRequest [] startupTimeout requestRetryInterval status_or_error
       (example_client\<lparr>cl_port := (cl_port example_client)\<lparr>po_reads := sconst (Inr []),
          po_clock := 0 ## 0 ## 0 ## 0 ## 399999999 ## 399999999 ## counting 400000000\<rparr>\<rparr>) = Some (Inl ModemTimeout, c') \<and>
     shd (po_clock (cl_port c')) = 400000001 \<and> po_written (cl_port c') = [6, 71, 67, 1, 1, 1, 1, 1, 5, 9, 230, 25, 125, 0]"
  by (simp add: example_client_def evaluate_request retry_def Push_def empty_decoder_def)

end
