(* ===== verification/Modem_Link.thy ===== *)
theory Modem_Link
  imports Modem_Client Pub_Protocol
begin

text \<open>
  \<open>internal/node/radio.go\<close> and \<open>internal/publication/link.go\<close>: a packet radio made of the modem client. Sending is
  one transmit request; receiving reads frames until one is a packet the caller can use. The two receive loops
  differ in what they make of a frame (\<open>classify\<close>) and in the error at the deadline, so one function with these
  as arguments models both, and the locale \<open>receiver\<close> states what they share of a frame.
\<close>

section \<open>Sending\<close>

definition tx_or_error :: "Frame \<Rightarrow> bool" where
  "tx_or_error f \<longleftrightarrow> frame_type f = MsgTXResult \<or> frame_type f = MsgError"

definition tx_result :: "Frame \<Rightarrow> go_error + unit" where
  "tx_result frame = bind_err (DecodeResult (frame_payload frame)) (\<lambda>result.
     if frame_type frame = MsgError \<or> result_Code result \<noteq> 0
     then Inl (ModemFailed (result_Code result) (result_Message result)) else Inr ())"

definition radio_Send :: "byte list \<Rightarrow> duration \<Rightarrow> Client \<Rightarrow> ((go_error + unit) \<times> Client) option" where
  "radio_Send packet timeout c =
     map_option (\<lambda>(r, c). (bind_err r tx_result, c)) (Request MsgTXRequest packet timeout tx_or_error c)"

definition link_Send :: "byte list \<Rightarrow> duration \<Rightarrow> Client \<Rightarrow> ((go_error + unit) \<times> Client) option" where
  "link_Send = radio_Send"

section \<open>Receiving\<close>

text \<open>
  The loop both share. \<open>classify\<close> is \<open>None\<close> where the code continues; \<open>timeout\<close> is the caller's, used when there is
  no deadline.
\<close>

partial_function (option) receive_loop ::
  "(Frame \<Rightarrow> (go_error + 'a) option) \<Rightarrow> go_error \<Rightarrow> duration \<Rightarrow> instant option \<Rightarrow> Client \<Rightarrow> ((go_error + 'a) \<times> Client) option" where
  "receive_loop classify late timeout deadline c =
     (let (in_time, c) = (case deadline of None \<Rightarrow> (True, c) | Some d \<Rightarrow> let (t, c) = clock_Now c in (t < d, c)) in
      if \<not> in_time then Some (Inl late, c)
      else let (remaining, c) = (case deadline of None \<Rightarrow> (timeout, c) | Some d \<Rightarrow> let (t, c) = clock_Now c in (d - t, c)) in
        case ReadFrame remaining c of
          None \<Rightarrow> None
        | Some (Inl e, c) \<Rightarrow> Some (Inl e, c)
        | Some (Inr frame, c) \<Rightarrow>
          (case classify frame of
             None \<Rightarrow> receive_loop classify late timeout deadline c
           | Some r \<Rightarrow> Some (r, c)))"

definition radio_classify :: "Frame \<Rightarrow> (go_error + RXPacket) option" where
  "radio_classify frame =
     (if frame_type frame \<noteq> MsgRXPacket
      then (if frame_type frame = MsgError
            then (case DecodeResult (frame_payload frame) of
                    Inl _ \<Rightarrow> None
                  | Inr result \<Rightarrow> Some (Inl (ModemFailed (result_Code result) (result_Message result))))
            else None)
      else case DecodeRXPacket (frame_payload frame) of Inl _ \<Rightarrow> None | Inr rx \<Rightarrow> Some (Inr rx))"

definition radio_Receive :: "duration \<Rightarrow> Client \<Rightarrow> ((go_error + RXPacket) \<times> Client) option" where
  "radio_Receive timeout c =
     (let (t, c) = clock_Now c in receive_loop radio_classify ModemTimeout timeout (Some (t + timeout)) c)"

definition link_classify :: "Frame \<Rightarrow> (go_error + Packet) option" where
  "link_classify frame =
     (if frame_type frame = MsgError
      then (case DecodeResult (frame_payload frame) of
              Inl _ \<Rightarrow> None
            | Inr result \<Rightarrow> Some (Inl (ModemFailed (result_Code result) (result_Message result))))
      else if frame_type frame \<noteq> MsgRXPacket then None
      else case DecodeRXPacket (frame_payload frame) of
          Inl _ \<Rightarrow> None
        | Inr rx \<Rightarrow>
          (case DecodePacket (rx_Payload rx) of
             Inl e \<Rightarrow> if e = PubMalformed then None else Some (Inl e)
           | Inr packet \<Rightarrow> Some (Inr packet)))"

definition link_Receive :: "duration \<Rightarrow> Client \<Rightarrow> ((go_error + Packet) \<times> Client) option" where
  "link_Receive timeout c =
     (let (deadline, c) = (if timeout \<ge> 0 then let (t, c) = clock_Now c in (Some (t + timeout), c) else (None, c))
      in receive_loop link_classify (Failure ''timed out waiting for publication packet'') timeout deadline c)"

section \<open>What a receive loop does to the client\<close>

text \<open>
  The frames it skipped are gone, the others wait; \<open>r\<close> is what it made of the last frame it took, or the error of
  a read or of the deadline.
\<close>

definition took :: "(Frame \<Rightarrow> (go_error + 'a) option) \<Rightarrow> Client \<Rightarrow> (go_error + 'a) \<times> Client \<Rightarrow> bool" where
  "took classify c rc \<longleftrightarrow> (\<exists>fs us. came_in c (snd rc) fs \<and> (\<forall>g \<in> set us. classify g = None) \<and>
     ((\<exists>e. fst rc = Inl e \<and> cl_pending c @ fs = us @ cl_pending (snd rc)) \<or>
      (\<exists>f. classify f = Some (fst rc) \<and> cl_pending c @ fs = us @ f # cl_pending (snd rc)))) \<and>
     cl_seq (snd rc) = cl_seq c \<and> po_written (cl_port (snd rc)) = po_written (cl_port c)"

lemma took_same:
  assumes "po_got (cl_port c1) = po_got (cl_port c)" "cl_decoder c1 = cl_decoder c" "cl_pending c1 = cl_pending c"
    "cl_seq c1 = cl_seq c" "po_written (cl_port c1) = po_written (cl_port c)"
  shows "took classify c1 rc = took classify c rc"
proof -
  have "came_in c1 (snd rc) fs = came_in c (snd rc) fs" for fs using assms by (intro came_in_cong) simp_all
  then show ?thesis using assms by (simp add: took_def)
qed

lemma took_skip:
  assumes "classify f = None" "frame_read c (Inr f, c1)" "took classify c1 rc"
  shows "took classify c rc"
proof -
  obtain gs where g: "came_in c c1 gs" "cl_pending c @ gs = f # cl_pending c1" "cl_seq c1 = cl_seq c"
    "po_written (cl_port c1) = po_written (cl_port c)"
    using assms(2) by (auto simp: frame_read_def)
  obtain fs us where f: "came_in c1 (snd rc) fs" "\<forall>g \<in> set us. classify g = None"
    "(\<exists>e. fst rc = Inl e \<and> cl_pending c1 @ fs = us @ cl_pending (snd rc)) \<or>
      (\<exists>f. classify f = Some (fst rc) \<and> cl_pending c1 @ fs = us @ f # cl_pending (snd rc))"
    using assms(3) unfolding took_def by blast
  have eq: "cl_pending c @ gs @ fs = f # cl_pending c1 @ fs" using g(2) by simp
  have "came_in c (snd rc) (gs @ fs)" using came_in_trans [OF g(1) f(1)] .
  moreover have "\<forall>g \<in> set (f # us). classify g = None" using f(2) assms(1) by simp
  moreover have "(\<exists>e. fst rc = Inl e \<and> cl_pending c @ gs @ fs = (f # us) @ cl_pending (snd rc)) \<or>
      (\<exists>h. classify h = Some (fst rc) \<and> cl_pending c @ gs @ fs = (f # us) @ h # cl_pending (snd rc))"
    using f(3) unfolding eq by auto
  ultimately have "\<exists>fs us. came_in c (snd rc) fs \<and> (\<forall>g \<in> set us. classify g = None) \<and>
     ((\<exists>e. fst rc = Inl e \<and> cl_pending c @ fs = us @ cl_pending (snd rc)) \<or>
      (\<exists>f. classify f = Some (fst rc) \<and> cl_pending c @ fs = us @ f # cl_pending (snd rc)))" by blast
  then show ?thesis using assms(3) g(3,4) by (simp add: took_def)
qed

lemma receive_loop_took:
  "receive_loop classify late timeout deadline c = Some rc \<Longrightarrow> took classify c rc"
proof (erule receive_loop.raw_induct [rotated])
  fix loop classify late timeout deadline c rc
  assume IH: "\<And>classify late timeout deadline c rc. loop classify late timeout deadline c = Some rc \<Longrightarrow> took classify c rc"
    and step: "(let (in_time, c) = (case deadline of None \<Rightarrow> (True, c) | Some d \<Rightarrow> let (t, c) = clock_Now c in (t < d, c)) in
      if \<not> in_time then Some (Inl late, c)
      else let (remaining, c) = (case deadline of None \<Rightarrow> (timeout, c) | Some d \<Rightarrow> let (t, c) = clock_Now c in (d - t, c)) in
        case ReadFrame remaining c of
          None \<Rightarrow> None
        | Some (Inl e, c) \<Rightarrow> Some (Inl e, c)
        | Some (Inr frame, c) \<Rightarrow>
          (case classify frame of
             None \<Rightarrow> loop classify late timeout deadline c
           | Some r \<Rightarrow> Some (r, c))) = Some (rc :: (go_error + 'a) \<times> Client)"
  let ?c1 = "if deadline = None then c else snd (clock_Now c)"
  let ?c2 = "if deadline = None then c else snd (clock_Now ?c1)"
  have same: "took classify ?c1 rc = took classify c rc" "took classify ?c2 rc = took classify c rc"
    by (rule took_same; simp)+
  consider (late) "rc = (Inl late, ?c1)"
    | (read) remaining x c3 where "ReadFrame remaining ?c2 = Some (x, c3)"
        "rc = (case x of Inl e \<Rightarrow> Inl e | Inr f \<Rightarrow> the (classify f), c3) \<and> (\<forall>f. x = Inr f \<longrightarrow> classify f \<noteq> None) \<or>
         (\<exists>f. x = Inr f \<and> classify f = None \<and> loop classify late timeout deadline c3 = Some rc)"
    using step by (cases deadline) (auto simp: Let_def clock_Now_eq case_prod_unfold split: if_splits option.splits sum.splits)
  then show "took classify c rc"
  proof cases
    case late
    then show ?thesis by (auto simp: took_def came_in_def Push_def)
  next
    case (read remaining x c3)
    have r: "frame_read ?c2 (x, c3)" using read(1) by (rule ReadFrame_form)
    from read(2) have "took classify ?c2 rc"
    proof
      assume "\<exists>f. x = Inr f \<and> classify f = None \<and> loop classify late timeout deadline c3 = Some rc"
      then obtain f where "x = Inr f" "classify f = None" "took classify c3 rc" using IH by blast
      then show ?thesis using took_skip r by blast
    next
      assume "rc = (case x of Inl e \<Rightarrow> Inl e | Inr f \<Rightarrow> the (classify f), c3) \<and> (\<forall>f. x = Inr f \<longrightarrow> classify f \<noteq> None)"
      then show ?thesis using r unfolding took_def frame_read_def
        by (cases x) (force intro: exI [of _ "[]"])+
    qed
    then show ?thesis using same(2) by blast
  qed
qed

section \<open>What the two loops deliver\<close>

text \<open>
  \<open>first_packet payload c x c'\<close>: between \<open>c\<close> and \<open>c'\<close> the modem delivered some bytes; of the frames waiting and
  found in them one carries the packet \<open>x\<close>, those before it are no packets, those after it wait in \<open>c'\<close>.
\<close>

definition first_packet :: "(byte list \<Rightarrow> go_error + 'a) \<Rightarrow> Client \<Rightarrow> 'a \<Rightarrow> Client \<Rightarrow> bool" where
  "first_packet payload c x c' \<longleftrightarrow>
     (\<exists>b fs errs us f. po_got (cl_port c') = po_got (cl_port c) @ b \<and> Push (cl_decoder c) b = (cl_decoder c', fs, errs) \<and>
       cl_pending c @ fs = us @ f # cl_pending c' \<and> frame_type f = MsgRXPacket \<and> payload (frame_payload f) = Inr x \<and>
       (\<forall>g \<in> set us. frame_type g = MsgRXPacket \<longrightarrow> (\<exists>e. payload (frame_payload g) = Inl e)))"

text \<open>A receiver: \<open>payload\<close> decodes what it delivers, and only an error frame of the modem makes it fail.\<close>

locale receiver =
  fixes classify :: "Frame \<Rightarrow> (go_error + 'a) option" and payload :: "byte list \<Rightarrow> go_error + 'a"
  assumes delivers: "classify f = Some (Inr x) \<longleftrightarrow> frame_type f = MsgRXPacket \<and> payload (frame_payload f) = Inr x"
    and fails: "classify f = Some (Inl e) \<Longrightarrow> frame_type f = MsgError"
begin

lemma loop_delivers:
  assumes "receive_loop classify late timeout deadline c = Some (Inr x, c')"
  shows "first_packet payload c x c'"
proof -
  obtain fs us f where t: "came_in c c' fs" "\<forall>g \<in> set us. classify g = None" "classify f = Some (Inr x)"
      "cl_pending c @ fs = us @ f # cl_pending c'"
    using receive_loop_took [OF assms] by (auto simp: took_def)
  have "\<exists>e. payload (frame_payload g) = Inl e" if "g \<in> set us" "frame_type g = MsgRXPacket" for g
    using t(2) that delivers [of g] by (cases "payload (frame_payload g)") auto
  moreover have "frame_type f = MsgRXPacket \<and> payload (frame_payload f) = Inr x" using t(3) delivers by blast
  ultimately show ?thesis using t(1,4) unfolding came_in_def first_packet_def by blast
qed

end

text \<open>The packet inside a frame, for the link.\<close>

definition link_payload :: "byte list \<Rightarrow> go_error + Packet" where
  "link_payload b = bind_err (DecodeRXPacket b) (\<lambda>rx. DecodePacket (rx_Payload rx))"

interpretation radio: receiver radio_classify DecodeRXPacket
  by unfold_locales (auto simp: radio_classify_def split: if_splits sum.splits)

lemma DecodePacket_malformed: "DecodePacket b = Inl e \<Longrightarrow> e = PubMalformed"
  by (simp add: DecodePacket_def split: if_splits)

interpretation link: receiver link_classify link_payload
  by unfold_locales (auto simp: link_classify_def link_payload_def DecodePacket_malformed split: if_splits sum.splits)

lemma receive_loop_returns:
  assumes "\<forall>m \<ge> n. d \<le> po_clock (cl_port c) !! m" "\<forall>i. po_clock (cl_port c) !! i < d \<longrightarrow> po_clock (cl_port c) !! Suc i \<le> d"
    "time_passes (po_clock (cl_port c))"
  shows "\<exists>rc. receive_loop classify late timeout (Some d) c = Some rc"
  using assms
proof (induction n arbitrary: c rule: less_induct)
  case (less n)
  let ?s = "po_clock (cl_port c)" and ?c2 = "snd (clock_Now (snd (clock_Now c)))"
  show ?case
  proof (cases "shd ?s < d")
    case False
    then show ?thesis by (subst receive_loop.simps) (simp add: Let_def clock_Now_def)
  next
    case True
    then have "0 \<le> d - shd (stl ?s)" using spec [OF less.prems(2), of 0] by simp
    moreover have "time_passes (po_clock (cl_port ?c2))" using less.prems(3) by simp
    ultimately obtain x c3 where r: "ReadFrame (d - shd (stl ?s)) ?c2 = Some (x, c3)" using request_returns by blast
    then obtain k where "po_clock (cl_port c3) = sdrop k (stl (stl ?s))" using ReadFrame_form by (fastforce simp: frame_read_def)
    then have k: "po_clock (cl_port c3) = sdrop (Suc (Suc k)) ?s" by simp
    have n: "n \<noteq> 0" using True spec [OF less.prems(1), of 0] by (intro notI) simp
    have "\<exists>rc. receive_loop classify late timeout (Some d) c3 = Some rc"
    proof (rule less.IH)
      show "n - Suc (Suc k) < n" using n by simp
      show "\<forall>m \<ge> n - Suc (Suc k). d \<le> po_clock (cl_port c3) !! m" "time_passes (po_clock (cl_port c3))"
        using less.prems(1,3) unfolding k by (simp_all add: sdrop_snth del: sdrop.simps snth.simps)
      show "\<forall>i. po_clock (cl_port c3) !! i < d \<longrightarrow> po_clock (cl_port c3) !! Suc i \<le> d"
        using less.prems(2) unfolding k by (simp add: sdrop_snth del: sdrop.simps snth.simps)
    qed
    then show ?thesis using True r
      by (subst receive_loop.simps) (auto simp: Let_def clock_Now_def split: sum.split option.split)
  qed
qed

section \<open>Properties\<close>

text \<open>
  C25: A receive gives the first usable packet: when \<open>Receive\<close> returns a packet, the modem delivered a frame with
  exactly this packet, every frame that came before it was no usable packet, and every frame after it
  still waits, in order, for the next call. This holds of the radio of the node and of the link of the
  publication tools, which also checks the publication packet inside.
\<close>

theorem receive_delivers_first_packet:
  "(radio_Receive timeout c = Some (Inr rx, c') \<longrightarrow> first_packet DecodeRXPacket c rx c') \<and>
   (link_Receive timeout c = Some (Inr p, c') \<longrightarrow> first_packet link_payload c p c')"
proof (intro conjI impI)
  let ?c = "snd (clock_Now c)"
  assume "radio_Receive timeout c = Some (Inr rx, c')"
  then have "receive_loop radio_classify ModemTimeout timeout (Some (shd (po_clock (cl_port c)) + timeout)) ?c = Some (Inr rx, c')"
    by (simp add: radio_Receive_def Let_def clock_Now_def)
  from radio.loop_delivers [OF this] show "first_packet DecodeRXPacket c rx c'" by (simp add: first_packet_def)
next
  let ?c = "if timeout \<ge> 0 then snd (clock_Now c) else c"
  assume "link_Receive timeout c = Some (Inr p, c')"
  then have "\<exists>late deadline. receive_loop link_classify late timeout deadline ?c = Some (Inr p, c')"
    by (auto simp: link_Receive_def Let_def clock_Now_def split: if_splits)
  then obtain late deadline where "receive_loop link_classify late timeout deadline ?c = Some (Inr p, c')" by blast
  from link.loop_delivers [OF this] show "first_packet link_payload c p c'" by (simp add: first_packet_def split: if_splits)
qed

text \<open>A waiting packet frame behind a status frame, and what the two loops make of it.\<close>

definition waiting_client :: Client where
  "waiting_client = example_client\<lparr>cl_pending := [ok_frame,
     \<lparr>frame_type = MsgRXPacket, frame_seq = 0, frame_payload = replicate 8 0 @ [0x47, 0x50, 1, 3] @ replicate 16 0\<rparr>]\<rparr>"

lemma waiting_client_receives:
  "\<exists>rx c'. radio_Receive 10 waiting_client = Some (Inr rx, c') \<and> rx_Payload rx = [0x47, 0x50, 1, 3] @ replicate 16 0"
  by (simp add: radio_Receive_def waiting_client_def example_client_def Let_def clock_Now_def receive_loop.simps ReadFrame_def
      ok_frame_def radio_classify_def DecodeRXPacket_def)

theorem receive_delivers_first_packet_witness:
  "\<exists>rx c'. radio_Receive 10 waiting_client = Some (Inr rx, c') \<and> first_packet DecodeRXPacket waiting_client rx c' \<and>
     rx_Payload rx = [0x47, 0x50, 1, 3] @ replicate 16 0"
proof -
  obtain rx c' where r: "radio_Receive 10 waiting_client = Some (Inr rx, c')" "rx_Payload rx = [0x47, 0x50, 1, 3] @ replicate 16 0"
    using waiting_client_receives by blast
  with conjunct1 [OF receive_delivers_first_packet, of 10 waiting_client rx c'] show ?thesis by blast
qed

text \<open>What \<open>Send\<close> makes of the answer.\<close>

lemma tx_result_cases:
  assumes "tx_or_error f"
  shows "tx_result f = Inr () \<longleftrightarrow>
      frame_type f = MsgTXResult \<and> (\<exists>result. DecodeResult (frame_payload f) = Inr result \<and> result_Code result = 0)"
    "DecodeResult (frame_payload f) = Inr result \<Longrightarrow> frame_type f = MsgError \<or> result_Code result \<noteq> 0 \<Longrightarrow>
      tx_result f = Inl (ModemFailed (result_Code result) (result_Message result))"
  using assms by (auto simp: tx_result_def tx_or_error_def)

text \<open>
  C26: A transmission is confirmed: \<open>Send\<close> writes the one record of this packet at most, perhaps a part of it when it
  fails. Either it fails without an answer, every frame that arrived still waiting; or the whole record was written
  and the first frame, among those waiting and those the port delivered meanwhile, that answers this very
  request was taken out, the others staying in order. Success is reported exactly when that frame is a transmit
  result with code zero; when it is an error, or a result with another code, this code and its text are the error.
\<close>

theorem send_confirmed:
  assumes "clock_ok (po_clock (cl_port c))" and "radio_Send packet timeout c = Some (r, c')"
  shows "\<exists>w b fs errs. po_written (cl_port c') = po_written (cl_port c) @ w \<and>
    po_got (cl_port c') = po_got (cl_port c) @ b \<and> Push (cl_decoder c) b = (cl_decoder c', fs, errs) \<and>
    (w = [] \<or> (\<exists>rest. EncodeFrame \<lparr>frame_type = MsgTXRequest, frame_seq = cl_seq c + 1, frame_payload = packet\<rparr> = Inr (w @ rest))) \<and>
    ((\<exists>e. r = Inl e) \<and> cl_pending c' = cl_pending c @ fs \<or>
     EncodeFrame \<lparr>frame_type = MsgTXRequest, frame_seq = cl_seq c + 1, frame_payload = packet\<rparr> = Inr w \<and>
     (\<exists>us f vs. cl_pending c @ fs = us @ f # vs \<and> cl_pending c' = us @ vs \<and>
        frame_seq f = cl_seq c + 1 \<and> tx_or_error f \<and> (\<forall>g \<in> set us. \<not> (frame_seq g = cl_seq c + 1 \<and> tx_or_error g)) \<and>
        (r = Inr () \<longleftrightarrow> frame_type f = MsgTXResult \<and>
           (\<exists>result. DecodeResult (frame_payload f) = Inr result \<and> result_Code result = 0)) \<and>
        (\<forall>result. DecodeResult (frame_payload f) = Inr result \<and> (frame_type f = MsgError \<or> result_Code result \<noteq> 0) \<longrightarrow>
           r = Inl (ModemFailed (result_Code result) (result_Message result)))))"
proof -
  let ?P = "answers_request (cl_seq c + 1) tx_or_error"
  obtain q where q: "Request MsgTXRequest packet timeout tx_or_error c = Some (q, c')" "r = bind_err q tx_result"
    using assms(2) by (auto simp: radio_Send_def)
  obtain w where w: "po_written (cl_port c') = po_written (cl_port c) @ w"
    "w = [] \<or> (\<exists>rest. EncodeFrame \<lparr>frame_type = MsgTXRequest, frame_seq = cl_seq c + 1, frame_payload = packet\<rparr> = Inr (w @ rest))"
    "\<And>f. q = Inr f \<Longrightarrow> EncodeFrame \<lparr>frame_type = MsgTXRequest, frame_seq = cl_seq c + 1, frame_payload = packet\<rparr> = Inr w"
    using request_sent_once [OF assms(1) q(1)] by blast
  obtain fs where came: "came_in c c' fs" and k: "case q of Inl _ \<Rightarrow> cl_pending c' = cl_pending c @ fs
      | Inr f \<Rightarrow> ?P f \<and> (\<exists>us vs. cl_pending c @ fs = us @ f # vs \<and> cl_pending c' = us @ vs \<and> (\<forall>g \<in> set us. \<not> ?P g))"
    using request_keeps_frames [OF q(1) [unfolded Request_def]] by (cases q) (auto simp: keeps_frames_def)
  obtain b errs where got: "po_got (cl_port c') = po_got (cl_port c) @ b" "Push (cl_decoder c) b = (cl_decoder c', fs, errs)"
    using came by (auto simp: came_in_def)
  show ?thesis
  proof (cases q)
    case (Inl e)
    then have "(\<exists>e. r = Inl e) \<and> cl_pending c' = cl_pending c @ fs" using k q(2) by simp
    then show ?thesis using w(1,2) got by blast
  next
    case (Inr f)
    then obtain us vs where f: "?P f" "cl_pending c @ fs = us @ f # vs" "cl_pending c' = us @ vs" "\<forall>g \<in> set us. \<not> ?P g"
      using k by auto
    have tx: "frame_seq f = cl_seq c + 1" "tx_or_error f" using f(1) by (auto simp: answers_request_def)
    have r: "r = tx_result f" using q(2) Inr by simp
    note t = tx_result_cases [OF tx(2)]
    have us: "\<forall>g \<in> set us. \<not> (frame_seq g = cl_seq c + 1 \<and> tx_or_error g)" using f(4) by (simp add: answers_request_def)
    have enc: "EncodeFrame \<lparr>frame_type = MsgTXRequest, frame_seq = cl_seq c + 1, frame_payload = packet\<rparr> = Inr w" using w(3) Inr .
    have "\<exists>us f vs. cl_pending c @ fs = us @ f # vs \<and> cl_pending c' = us @ vs \<and>
        frame_seq f = cl_seq c + 1 \<and> tx_or_error f \<and> (\<forall>g \<in> set us. \<not> (frame_seq g = cl_seq c + 1 \<and> tx_or_error g)) \<and>
        (r = Inr () \<longleftrightarrow> frame_type f = MsgTXResult \<and>
           (\<exists>result. DecodeResult (frame_payload f) = Inr result \<and> result_Code result = 0)) \<and>
        (\<forall>result. DecodeResult (frame_payload f) = Inr result \<and> (frame_type f = MsgError \<or> result_Code result \<noteq> 0) \<longrightarrow>
           r = Inl (ModemFailed (result_Code result) (result_Message result)))"
      unfolding r by (rule exI [of _ us], rule exI [of _ f], rule exI [of _ vs]) (use f(2,3) tx us t in blast)
    then show ?thesis using w(1,2) got enc by blast
  qed
qed

text \<open>The example client, its modem confirming the transmission.\<close>

definition confirming_client :: Client where
  "confirming_client = example_client\<lparr>cl_pending := [\<lparr>frame_type = MsgTXResult, frame_seq = 1, frame_payload = [0, 0]\<rparr>]\<rparr>"

lemma tx_record: "EncodeFrame \<lparr>frame_type = MsgTXRequest, frame_seq = 1, frame_payload = [7]\<rparr> = Inr [6, 71, 67, 1, 2, 1, 2, 1, 6, 7, 245, 195, 145, 178, 0]"
  by code_simp

lemma confirming_client_sends: "\<exists>c'. radio_Send [7] 10 confirming_client = Some (Inr (), c')"
  by (simp add: radio_Send_def Request_def confirming_client_def example_client_def evaluate_request tx_record [simplified]
      answers_request_def tx_or_error_def tx_result_def DecodeResult_def gslice_def)

theorem send_confirmed_witness:
  "\<exists>c' fs errs. radio_Send [7] 10 confirming_client = Some (Inr (), c') \<and>
     po_written (cl_port c') = [6, 71, 67, 1, 2, 1, 2, 1, 6, 7, 245, 195, 145, 178, 0] \<and>
     Push empty_decoder (po_got (cl_port c')) = (cl_decoder c', fs, errs) \<and> cl_pending c' = fs"
proof -
  let ?f = "\<lparr>frame_type = MsgTXResult, frame_seq = 1, frame_payload = [0, 0]\<rparr>"
  obtain c' where r: "radio_Send [7] 10 confirming_client = Some (Inr (), c')" using confirming_client_sends by blast
  have "clock_ok (po_clock (cl_port confirming_client))" using counting_clock by (simp add: confirming_client_def example_client_def)
  note t = send_confirmed [OF this r]
  have c: "cl_seq confirming_client = 0" "cl_pending confirming_client = [?f]" "po_got (cl_port confirming_client) = []"
    "po_written (cl_port confirming_client) = []" "cl_decoder confirming_client = empty_decoder"
    by (simp_all add: confirming_client_def example_client_def)
  obtain w b fs errs us f vs where x: "po_written (cl_port c') = w" "po_got (cl_port c') = b"
      "Push empty_decoder b = (cl_decoder c', fs, errs)" "[6, 71, 67, 1, 2, 1, 2, 1, 6, 7, 245, 195, 145, 178, 0] = w"
      "?f # fs = us @ f # vs" "cl_pending c' = us @ vs" "\<forall>g \<in> set us. \<not> (frame_seq g = 1 \<and> tx_or_error g)"
    using t tx_record unfolding c by auto
  have "us = []" using x(5,7) by (cases us) (auto simp: tx_or_error_def)
  then show ?thesis using r x by auto
qed

text \<open>
  A receive with a timeout ends, as long as time passes and no two successive readings of the clock lie on either
  side of the deadline.
\<close>

theorem receive_returns:
  assumes "time_passes (po_clock (cl_port c))"
    and "\<And>i. po_clock (cl_port c) !! Suc i < shd (po_clock (cl_port c)) + timeout \<Longrightarrow>
      po_clock (cl_port c) !! Suc (Suc i) \<le> shd (po_clock (cl_port c)) + timeout"
  shows "\<exists>rc. radio_Receive timeout c = Some rc"
proof -
  let ?d = "shd (po_clock (cl_port c)) + timeout" and ?c = "snd (clock_Now c)"
  have t: "time_passes (po_clock (cl_port ?c))" using assms(1) by simp
  then obtain n where "\<forall>m \<ge> n. ?d \<le> po_clock (cl_port ?c) !! m" unfolding time_passes_def by blast
  from receive_loop_returns [OF this _ t] assms(2) show ?thesis by (simp add: radio_Receive_def Let_def clock_Now_def)
qed

text \<open>
  Without the second condition it need not: when the deadline passes between the test of the loop and the
  computation of the remaining time, the remaining time is negative, \<open>ReadFrame\<close> takes it for no timeout, and the
  receive, and with it the main loop of the node, stands still until the modem delivers a frame.
\<close>

definition silent :: "Client \<Rightarrow> bool" where
  "silent c \<longleftrightarrow> po_reads (cl_port c) = sconst (Inr []) \<and> po_settable (cl_port c) = sconst True"

lemma read_loop_silent:
  "read_loop deadline c = Some rc \<Longrightarrow> \<not> (deadline = None \<and> silent c)"
proof (erule read_loop.raw_induct [rotated])
  fix loop deadline c rc
  assume IH: "\<And>deadline c rc. loop deadline c = Some rc \<Longrightarrow> \<not> (deadline = None \<and> silent c)"
    and step: "(case readAvailable deadline c of
        (Inl e, c) \<Rightarrow> Some (Inl e, c)
      | (Inr [], c) \<Rightarrow> (case deadline of None \<Rightarrow> loop deadline c
         | Some d \<Rightarrow> (let (t, c) = clock_Now c in if \<not> t < d then Some (Inl ModemTimeout, c) else loop deadline c))
      | (Inr (frame # frames), c) \<Rightarrow> Some (Inr frame, c\<lparr>cl_pending := cl_pending c @ frames\<rparr>)) = Some rc"
  show "\<not> (deadline = None \<and> silent c)"
  proof
    assume a: "deadline = None \<and> silent c"
    then obtain c1 where "readAvailable deadline c = (Inr [], c1)" "silent c1"
      by (auto simp: readAvailable_def SetReadTimeout_def port_Read_def silent_def Push_def)
    then show False using step IH [of None c1 rc] a by simp
  qed
qed

theorem receive_may_not_return:
  "radio_Receive 10 (example_client\<lparr>cl_port := (cl_port example_client)\<lparr>po_reads := sconst (Inr []),
     po_clock := 0 ## 9 ## counting 11\<rparr>\<rparr>) = None"
proof -
  have "read_loop None c = None" if "silent c" for c
    using read_loop_silent [of None c] that by (cases "read_loop None c") auto
  then show ?thesis
    by (simp add: radio_Receive_def example_client_def Let_def clock_Now_def receive_loop.simps ReadFrame_def silent_def)
qed

end
