(* ===== verification/Publisher.thy ===== *)
theory Publisher
  imports Broadcaster Modem_Link
begin

text \<open>
  \<open>cmd/ghost-publish/main.go\<close>: the sending end of a direct transfer. It announces a publication, asks what the
  broadcaster has, sends the missing chunks and asks again, for a bounded number of rounds. The link is an
  argument, a record of its operations on a world \<open>'w\<close>: with \<open>modem_link\<close> the world is the modem client of
  \<open>Modem_Link\<close>, with the two links of this theory it is the broadcaster of \<open>Broadcaster\<close> behind a channel, so the
  theorems hold of both programs together. What is printed is left out.
\<close>

record 'w link_ops =
  op_Send :: "byte list \<Rightarrow> 'w \<Rightarrow> ((go_error + unit) \<times> 'w) option"
  op_Receive :: "duration \<Rightarrow> 'w \<Rightarrow> ((go_error + Packet) \<times> 'w) option"
  op_Now :: "'w \<Rightarrow> instant \<times> 'w"

section \<open>The program\<close>

text \<open>The loop of \<open>waitForState\<close>.\<close>

partial_function (option) wait_loop ::
  "'w link_ops \<Rightarrow> ID \<Rightarrow> instant \<Rightarrow> 'w \<Rightarrow> ((go_error + Packet) \<times> 'w) option" where
  "wait_loop L pid deadline w =
     (let (t, w) = op_Now L w in
      if \<not> t < deadline then Some (Inl (Failure ''timed out waiting for broadcaster''), w)
      else let (t, w) = op_Now L w in
        case op_Receive L (deadline - t) w of
          None \<Rightarrow> None
        | Some (Inl e, w) \<Rightarrow> Some (Inl e, w)
        | Some (Inr packet, w) \<Rightarrow>
          if packet_ID packet \<noteq> pid then wait_loop L pid deadline w
          else if packet_Type packet = TypeReceipt \<or> packet_Type packet = TypeComplete then Some (Inr packet, w)
          else if packet_Type packet = TypeError then Some (Inl (Failure ''broadcaster''), w)
          else wait_loop L pid deadline w)"

definition waitForState :: "'w link_ops \<Rightarrow> ID \<Rightarrow> duration \<Rightarrow> 'w \<Rightarrow> ((go_error + Packet) \<times> 'w) option" where
  "waitForState L pid timeout w = (let (t, w) = op_Now L w in wait_loop L pid (t + timeout) w)"

text \<open>What \<open>run\<close> makes of an answer: try the next round, done, the state of the broadcaster, or give up.\<close>

datatype answer = NoAnswer | Finished | State "bool list" | BadState

definition read_answer :: "nat \<Rightarrow> go_error + Packet \<Rightarrow> answer" where
  "read_answer count r =
     (case r of
        Inl _ \<Rightarrow> NoAnswer
      | Inr packet \<Rightarrow>
        if packet_Type packet = TypeComplete then Finished
        else case DecodeReceipt packet of
            Inl _ \<Rightarrow> BadState
          | Inr state \<Rightarrow> if length state \<noteq> count then BadState else State state)"

text \<open>The loop over the chunks, from chunk \<open>i\<close> on.\<close>

fun send_missing ::
  "'w link_ops \<Rightarrow> ID \<Rightarrow> byte list \<Rightarrow> nat \<Rightarrow> bool list \<Rightarrow> 'w \<Rightarrow> ((go_error + unit) \<times> 'w) option" where
  "send_missing L pid content i [] w = Some (Inr (), w)"
| "send_missing L pid content i (have' # flags) w =
     (if have' then send_missing L pid content (Suc i) flags w
      else let start = i * ChunkDataSize;
               chunk = wire_or_nil (EncodeChunk pid (of_nat i)
                 (gslice content start (min (start + ChunkDataSize) (length content))))
        in case op_Send L chunk w of
             None \<Rightarrow> None
           | Some (Inl e, w) \<Rightarrow> Some (Inl e, w)
           | Some (Inr _, w) \<Rightarrow> send_missing L pid content (Suc i) flags w)"

text \<open>The rounds that are left; \<open>announce\<close> is the encoded manifest.\<close>

fun publish_rounds ::
  "'w link_ops \<Rightarrow> ID \<Rightarrow> byte list \<Rightarrow> nat \<Rightarrow> byte list \<Rightarrow> duration \<Rightarrow> nat \<Rightarrow> 'w \<Rightarrow> ((go_error + unit) \<times> 'w) option" where
  "publish_rounds L pid content count announce timeout 0 w = Some (Inl (Failure ''transfer did not complete''), w)"
| "publish_rounds L pid content count announce timeout (Suc n) w =
     (case op_Send L announce w of
        None \<Rightarrow> None
      | Some (Inl e, w) \<Rightarrow> Some (Inl e, w)
      | Some (Inr _, w) \<Rightarrow>
        (case waitForState L pid timeout w of
           None \<Rightarrow> None
         | Some (r, w) \<Rightarrow>
           (case read_answer count r of
              NoAnswer \<Rightarrow> publish_rounds L pid content count announce timeout n w
            | Finished \<Rightarrow> Some (Inr (), w)
            | BadState \<Rightarrow> Some (Inl (Failure ''invalid receipt state from broadcaster''), w)
            | State state \<Rightarrow>
              (case send_missing L pid content 0 state w of
                 None \<Rightarrow> None
               | Some (Inl e, w) \<Rightarrow> Some (Inl e, w)
               | Some (Inr _, w) \<Rightarrow>
                 (case op_Send L (wire_or_nil (EncodeSimple TypeQuery pid)) w of
                    None \<Rightarrow> None
                  | Some (Inl e, w) \<Rightarrow> Some (Inl e, w)
                  | Some (Inr _, w) \<Rightarrow>
                    (case waitForState L pid timeout w of
                       None \<Rightarrow> None
                     | Some (r, w) \<Rightarrow>
                       (case read_answer count r of
                          Finished \<Rightarrow> Some (Inr (), w)
                        | BadState \<Rightarrow> Some (Inl (Failure ''invalid receipt state from broadcaster''), w)
                        | _ \<Rightarrow> publish_rounds L pid content count announce timeout n w)))))))"

definition announced_manifest :: "crypto \<Rightarrow> byte list \<Rightarrow> byte list \<Rightarrow> Manifest" where
  "announced_manifest c path content = (file_manifest c path content)\<lparr>m_Version := 0\<rparr>"

text \<open>\<open>run\<close> after the command line is read, on the result of reading the file.\<close>

definition publish_run ::
  "crypto \<Rightarrow> 'w link_ops \<Rightarrow> byte list \<Rightarrow> go_error + byte list \<Rightarrow> int \<Rightarrow> duration \<Rightarrow> 'w \<Rightarrow> ((go_error + unit) \<times> 'w) option" where
  "publish_run c L path file retries timeout w =
     (if retries < 1 \<or> timeout \<le> 0 then Some (Inl (Failure ''--retries and --response-timeout must be positive''), w)
      else case file of
          Inl e \<Rightarrow> Some (Inl e, w)
        | Inr content \<Rightarrow>
          if length content > MaxChunks * ChunkDataSize then Some (Inl (Failure ''file exceeds maximum size''), w)
          else let manifest = announced_manifest c path content in
            case EncodeManifest manifest of
              Inl e \<Rightarrow> Some (Inl e, w)
            | Inr announce \<Rightarrow>
              publish_rounds L (m_ID manifest) content (unat (m_ChunkCount manifest)) announce timeout (nat retries) w)"

section \<open>Links\<close>

text \<open>The link of the program: the modem client of \<open>internal/publication/link.go\<close>.\<close>

definition modem_link :: "Client link_ops" where
  "modem_link = \<lparr>op_Send = \<lambda>packet. link_Send packet (10 * Second), op_Receive = link_Receive, op_Now = clock_Now\<rparr>"

text \<open>
  A hostile channel to a broadcaster: while the publisher sends or listens, the broadcaster handles any packets,
  the publisher's or others', lost, repeated and reordered as the tape says, with any failures of its disk; a
  listener hears nothing or any packet the broadcaster has ever sent; time is what the tape says.
\<close>

record happening =
  h_packets :: "(io \<times> byte list) list"
  h_result :: "go_error + nat"
  h_time :: instant

record air =
  air_broadcaster :: Broadcaster
  air_tape :: "happening stream"

definition decodable :: "(io \<times> byte list) list \<Rightarrow> (io \<times> Packet) list" where
  "decodable xs = concat (map (\<lambda>(io, wire). case DecodePacket wire of Inl _ \<Rightarrow> [] | Inr p \<Rightarrow> [(io, p)]) xs)"

definition happen :: "crypto \<Rightarrow> (go_error \<Rightarrow> byte list) \<Rightarrow> air \<Rightarrow> air" where
  "happen c errText w = \<lparr>air_broadcaster = broadcast_run c errText (decodable (h_packets (shd (air_tape w)))) (air_broadcaster w),
     air_tape = stl (air_tape w)\<rparr>"

definition hostile_link :: "crypto \<Rightarrow> (go_error \<Rightarrow> byte list) \<Rightarrow> air link_ops" where
  "hostile_link c errText =
     \<lparr>op_Send = \<lambda>packet w. Some (case h_result (shd (air_tape w)) of Inl e \<Rightarrow> Inl e | Inr _ \<Rightarrow> Inr (), happen c errText w),
      op_Receive = \<lambda>t w. let sent = b_sent (air_broadcaster (happen c errText w)) in
        Some (case h_result (shd (air_tape w)) of
                Inl e \<Rightarrow> Inl e
              | Inr n \<Rightarrow> if n < length sent then DecodePacket (fst (sent ! n)) else Inl ModemTimeout, happen c errText w),
      op_Now = \<lambda>w. (h_time (shd (air_tape w)), happen c errText w)\<rparr>"

text \<open>A perfect channel: the broadcaster handles each packet when it is sent, its answers wait in order.\<close>

definition perfect_link :: "crypto \<Rightarrow> (go_error \<Rightarrow> byte list) \<Rightarrow> (Broadcaster \<times> Packet list) link_ops" where
  "perfect_link c errText =
     \<lparr>op_Send = \<lambda>wire (b, waiting). case DecodePacket wire of
          Inl _ \<Rightarrow> Some (Inr (), b, waiting)
        | Inr p \<Rightarrow> (let b' = handle_packet c no_faults errText p b
                   in Some (Inr (), b', waiting @ map snd (decodable (map (\<lambda>s. (no_faults, fst s)) (drop (length (b_sent b)) (b_sent b')))))),
      op_Receive = \<lambda>t (b, waiting). case waiting of
          [] \<Rightarrow> Some (Inl ModemTimeout, b, [])
        | p # rest \<Rightarrow> Some (Inr p, b, rest),
      op_Now = \<lambda>w. (0, w)\<rparr>"

section \<open>What success means\<close>

text \<open>
  A link on which one can say what was heard: \<open>heard w p\<close> in the world \<open>w\<close>, kept by every operation, as is the
  invariant \<open>I\<close> of the world; what \<open>Receive\<close> returns was heard.
\<close>

locale hearing_link =
  fixes L :: "'w link_ops" and I :: "'w \<Rightarrow> bool" and heard :: "'w \<Rightarrow> Packet \<Rightarrow> bool"
  assumes hears: "I w \<Longrightarrow> op_Receive L t w = Some (r, w') \<Longrightarrow> I w' \<and> (\<forall>p. r = Inr p \<longrightarrow> heard w' p)"
    and sends: "I w \<Longrightarrow> op_Send L x w = Some (q, w') \<Longrightarrow> I w'"
    and clock: "I w \<Longrightarrow> I (snd (op_Now L w))"
begin

lemma wait_loop_heard:
  "wait_loop L' pid deadline w = Some rw \<Longrightarrow> L' = L \<and> I w \<longrightarrow>
     I (snd rw) \<and> (\<forall>p. fst rw = Inr p \<longrightarrow> heard (snd rw) p \<and> packet_ID p = pid)"
proof (erule wait_loop.raw_induct [rotated])
  fix loop :: "'w link_ops \<Rightarrow> ID \<Rightarrow> instant \<Rightarrow> 'w \<Rightarrow> ((go_error + Packet) \<times> 'w) option"
  fix L' pid deadline w rw
  assume IH: "\<And>L' pid deadline w rw. loop L' pid deadline w = Some rw \<Longrightarrow> L' = L \<and> I w \<longrightarrow>
      I (snd rw) \<and> (\<forall>p. fst rw = Inr p \<longrightarrow> heard (snd rw) p \<and> packet_ID p = pid)"
    and step: "(let (t, w) = op_Now L' w in
      if \<not> t < deadline then Some (Inl (Failure ''timed out waiting for broadcaster''), w)
      else let (t, w) = op_Now L' w in
        case op_Receive L' (deadline - t) w of
          None \<Rightarrow> None
        | Some (Inl e, w) \<Rightarrow> Some (Inl e, w)
        | Some (Inr packet, w) \<Rightarrow>
          if packet_ID packet \<noteq> pid then loop L' pid deadline w
          else if packet_Type packet = TypeReceipt \<or> packet_Type packet = TypeComplete then Some (Inr packet, w)
          else if packet_Type packet = TypeError then Some (Inl (Failure ''broadcaster''), w)
          else loop L' pid deadline w) = Some rw"
  show "L' = L \<and> I w \<longrightarrow> I (snd rw) \<and> (\<forall>p. fst rw = Inr p \<longrightarrow> heard (snd rw) p \<and> packet_ID p = pid)"
  proof
    assume a: "L' = L \<and> I w"
    obtain t w1 where w1: "op_Now L w = (t, w1)" by fastforce
    obtain t' w2 where w2: "op_Now L w1 = (t', w2)" by fastforce
    have inv: "I w1" "I w2" using clock a w1 w2 by (metis snd_conv)+
    show "I (snd rw) \<and> (\<forall>p. fst rw = Inr p \<longrightarrow> heard (snd rw) p \<and> packet_ID p = pid)"
    proof (cases "t < deadline")
      case False
      then show ?thesis using step a w1 inv by auto
    next
      case True
      then obtain r w3 where r: "op_Receive L (deadline - t') w2 = Some (r, w3)"
        using step a w1 w2 by (auto split: option.splits)
      have w3: "I w3 \<and> (\<forall>p. r = Inr p \<longrightarrow> heard w3 p)" using hears [OF inv(2) r] .
      then show ?thesis using step a w1 w2 r True IH [of L pid deadline w3 rw]
        by (auto split: sum.splits if_splits)
    qed
  qed
qed

lemma wait_heard:
  assumes "waitForState L pid timeout w = Some (r, w')" "I w"
  shows "I w'" "\<And>p. r = Inr p \<Longrightarrow> heard w' p \<and> packet_ID p = pid"
  using wait_loop_heard [of L pid _ _ "(r, w')"] assms clock [OF assms(2)]
  by (auto simp: waitForState_def split: prod.splits)

lemma send_missing_inv:
  "send_missing L pid content i flags w = Some (r, w') \<Longrightarrow> I w \<Longrightarrow> I w'"
proof (induction flags arbitrary: i w)
  case (Cons have' flags)
  then show ?case using sends by (auto simp: Let_def split: if_splits option.splits sum.splits)
qed simp

lemma rounds_heard:
  "publish_rounds L pid content count announce timeout n w = Some (Inr (), w') \<Longrightarrow> I w \<Longrightarrow>
     I w' \<and> (\<exists>p. heard w' p \<and> packet_Type p = TypeComplete \<and> packet_ID p = pid)"
proof (induction n arbitrary: w)
  case (Suc n)
  have fin: "packet_Type p = TypeComplete" if "read_answer count (Inr p) = Finished" for p
    using that by (auto simp: read_answer_def split: if_splits sum.splits)
  have ans: "\<exists>p. r = Inr p" if "read_answer count r = Finished" for r
    using that by (cases r) (auto simp: read_answer_def)
  obtain w1 where w1: "op_Send L announce w = Some (Inr (), w1)" using Suc.prems(1) by (auto split: option.splits sum.splits)
  obtain r w2 where w2: "waitForState L pid timeout w1 = Some (r, w2)" using Suc.prems(1) w1 by (auto split: option.splits)
  have I1: "I w1" using sends Suc.prems(2) w1 by blast
  note h2 = wait_heard [OF w2 I1]
  show ?case
  proof (cases "read_answer count r")
    case NoAnswer
    then show ?thesis using Suc.IH [of w2] Suc.prems(1) w1 w2 h2(1) by simp
  next
    case Finished
    then show ?thesis using Suc.prems(1) w1 w2 h2 fin ans by fastforce
  next
    case BadState
    then show ?thesis using Suc.prems(1) w1 w2 by simp
  next
    case (State state)
    obtain w3 where w3: "send_missing L pid content 0 state w2 = Some (Inr (), w3)"
      using Suc.prems(1) w1 w2 State by (auto split: option.splits sum.splits)
    obtain w4 where w4: "op_Send L (wire_or_nil (EncodeSimple TypeQuery pid)) w3 = Some (Inr (), w4)"
      using Suc.prems(1) w1 w2 w3 State by (auto split: option.splits sum.splits)
    obtain r' w5 where w5: "waitForState L pid timeout w4 = Some (r', w5)"
      using Suc.prems(1) w1 w2 w3 w4 State by (auto split: option.splits)
    have I4: "I w4" using sends w4 send_missing_inv [OF w3] h2(1) by blast
    note h5 = wait_heard [OF w5 I4]
    show ?thesis using Suc.prems(1) w1 w2 w3 w4 w5 State h5 fin ans Suc.IH [of w5]
      by (cases "read_answer count r'") fastforce+
  qed
qed simp

lemma publish_heard:
  assumes "publish_run c L path (Inr content) retries timeout w = Some (Inr (), w')" "I w"
  shows "I w' \<and> (\<exists>p. heard w' p \<and> packet_Type p = TypeComplete \<and>
    packet_ID p = copy_array (take 16 (array_bytes (sha256 c content))))"
proof -
  let ?m = "announced_manifest c path content"
  have "\<exists>announce. publish_rounds L (m_ID ?m) content (unat (m_ChunkCount ?m)) announce timeout (nat retries) w = Some (Inr (), w')"
    using assms(1) by (auto simp: publish_run_def Let_def split: if_splits sum.splits)
  moreover have "m_ID ?m = copy_array (take 16 (array_bytes (sha256 c content)))"
    by (simp add: announced_manifest_def file_manifest_def)
  ultimately show ?thesis using rounds_heard [OF _ assms(2)] by metis
qed

end

text \<open>The hostile channel: what is heard the broadcaster sent.\<close>

lemma decodable_packets: "\<forall>(io, p) \<in> set (decodable xs). \<exists>wire. DecodePacket wire = Inr p"
  by (auto simp: decodable_def split: sum.splits)

lemma happen_ok: "broadcaster_ok c (air_broadcaster w) \<Longrightarrow> broadcaster_ok c (air_broadcaster (happen c errText w))"
  using broadcast_run_ok decodable_packets by (simp add: happen_def)

definition air_heard :: "air \<Rightarrow> Packet \<Rightarrow> bool" where
  "air_heard w p \<longleftrightarrow> (\<exists>s \<in> set (b_sent (air_broadcaster w)). DecodePacket (fst s) = Inr p)"

interpretation hostile: hearing_link "hostile_link c errText" "\<lambda>w. broadcaster_ok c (air_broadcaster w)" air_heard
  for c errText
  by unfold_locales
     (auto simp: hostile_link_def air_heard_def happen_ok Let_def dest: nth_mem split: sum.splits if_splits)

text \<open>The modem: what is heard was in a frame the modem delivered since the port was opened.\<close>

definition delivered :: "Client \<Rightarrow> Frame list" where
  "delivered c = fst (snd (Push empty_decoder (po_got (cl_port c))))"

definition client_history :: "Client \<Rightarrow> bool" where
  "client_history c \<longleftrightarrow> fst (Push empty_decoder (po_got (cl_port c))) = cl_decoder c \<and> set (cl_pending c) \<subseteq> set (delivered c)"

definition modem_heard :: "Client \<Rightarrow> Packet \<Rightarrow> bool" where
  "modem_heard c p \<longleftrightarrow> (\<exists>f \<in> set (delivered c). frame_type f = MsgRXPacket \<and> link_payload (frame_payload f) = Inr p)"

lemma history_step:
  assumes "client_history c" "came_in c c' fs" "set (cl_pending c') \<subseteq> set (cl_pending c) \<union> set fs"
  shows "client_history c'" "delivered c' = delivered c @ fs"
proof -
  obtain b es where b: "po_got (cl_port c') = po_got (cl_port c) @ b" "Push (cl_decoder c) b = (cl_decoder c', fs, es)"
    using assms(2) by (auto simp: came_in_def)
  obtain d gs es' where p: "Push empty_decoder (po_got (cl_port c)) = (d, gs, es')" by (rule prod_cases3)
  then have "Push empty_decoder (po_got (cl_port c')) = (cl_decoder c', gs @ fs, es' @ es)"
    using b assms(1) by (simp add: Push_append client_history_def)
  then show "client_history c'" "delivered c' = delivered c @ fs"
    using assms(1,3) p by (auto simp: client_history_def delivered_def)
qed

lemma clock_history: "client_history c \<Longrightarrow> client_history (snd (clock_Now c))"
  by (simp add: client_history_def delivered_def)

lemma middle_member: "xs = us @ x # vs \<Longrightarrow> set (us @ vs) \<subseteq> set xs \<and> x \<in> set xs"
  by auto

lemma send_history:
  assumes "client_history c" "link_Send packet timeout c = Some (r, c')"
  shows "client_history c'"
proof -
  obtain q where q: "requestWithRetry MsgTXRequest packet timeout timeout tx_or_error c = Some (q, c')"
    using assms(2) by (auto simp: link_Send_def radio_Send_def Request_def)
  obtain fs where f: "came_in c c' fs" "case q of Inl _ \<Rightarrow> cl_pending c' = cl_pending c @ fs
      | Inr f \<Rightarrow> \<exists>us vs. cl_pending c @ fs = us @ f # vs \<and> cl_pending c' = us @ vs"
    using request_keeps_frames [OF q] unfolding keeps_frames_def by (cases q; simp; blast)
  have "set (cl_pending c') \<subseteq> set (cl_pending c @ fs)"
  proof (cases q)
    case (Inr f)
    then obtain us vs where uv: "cl_pending c @ fs = us @ f # vs" "cl_pending c' = us @ vs" using f(2) by auto
    show ?thesis unfolding uv by auto
  qed (use f(2) in simp)
  then show ?thesis using history_step(1) [OF assms(1) f(1)] by simp
qed

lemma receive_history:
  assumes "client_history c" "link_Receive timeout c = Some (r, c')"
  shows "client_history c' \<and> (\<forall>p. r = Inr p \<longrightarrow> modem_heard c' p)"
proof -
  let ?c = "if timeout \<ge> 0 then snd (clock_Now c) else c"
  obtain late deadline where "receive_loop link_classify late timeout deadline ?c = Some (r, c')"
    using assms(2) by (auto simp: link_Receive_def Let_def clock_Now_def split: if_splits)
  then have t: "took link_classify ?c (r, c')" by (rule receive_loop_took)
  have h: "client_history ?c" using assms(1) clock_history by simp
  from t obtain fs us where f: "came_in ?c c' fs" "(\<exists>e. r = Inl e \<and> cl_pending ?c @ fs = us @ cl_pending c') \<or>
      (\<exists>f. link_classify f = Some r \<and> cl_pending ?c @ fs = us @ f # cl_pending c')"
    unfolding took_def fst_conv snd_conv by blast
  from f(2) have "set (cl_pending c') \<subseteq> set (cl_pending ?c @ fs)" by (elim disjE exE conjE) (metis set_append set_subset_Cons subset_trans sup_ge2)+
  then have s: "client_history c'" "delivered c' = delivered ?c @ fs" using history_step [OF h f(1)] by simp_all
  have "modem_heard c' p" if "r = Inr p" for p
  proof -
    obtain f where "link_classify f = Some (Inr p)" "f \<in> set (cl_pending ?c @ fs)"
      using f(2) \<open>r = Inr p\<close> middle_member by (metis Inl_Inr_False)
    then have "f \<in> set (delivered c')" using s h by (auto simp: client_history_def)
    moreover have "frame_type f = MsgRXPacket \<and> link_payload (frame_payload f) = Inr p"
      using link.delivers \<open>link_classify f = Some (Inr p)\<close> by blast
    ultimately show ?thesis unfolding modem_heard_def by blast
  qed
  with s show ?thesis by blast
qed

interpretation modem: hearing_link modem_link client_history modem_heard
  by unfold_locales (simp_all add: modem_link_def receive_history clock_history, rule send_history)

section \<open>A transfer over a perfect channel\<close>

lemma perfect_heard:
  assumes "EncodePacket q = Inr wire"
  shows "map snd (decodable [(no_faults, wire)]) = [q]"
  using DecodePacket_EncodePacket [OF assms] by (simp add: decodable_def)

lemma perfect_Send:
  assumes "DecodePacket wire = Inr p" "handle_packet c no_faults errText p b = b'" "b_sent b' = b_sent b @ map (\<lambda>q. (enc q, fs q)) qs"
    "\<forall>q \<in> set qs. EncodePacket q = Inr (enc q)"
  shows "op_Send (perfect_link c errText) wire (b, waiting) = Some (Inr (), b', waiting @ qs)"
proof -
  have "map snd (decodable (map (\<lambda>s. (no_faults, fst s)) (map (\<lambda>q. (enc q, fs q)) qs))) = qs"
    using assms(4) by (induction qs) (auto simp: decodable_def dest: DecodePacket_EncodePacket)
  then show ?thesis using assms(1-3) by (simp add: perfect_link_def)
qed

lemma perfect_wait:
  assumes "packet_ID q = pid" "packet_Type q = TypeReceipt \<or> packet_Type q = TypeComplete" "0 < timeout"
  shows "waitForState (perfect_link c errText) pid timeout (b, [q]) = Some (Inr q, b, [])"
  using assms by (subst waitForState_def) (auto simp: perfect_link_def wait_loop.simps)

lemma send_missing_perfect:
  assumes "transferable c m content" "receiving c m content b (replicate i True @ replicate k False)" "0 < k"
    "m_ChunkSize m = 178" "unat (m_ChunkCount m) = i + k"
  shows "\<exists>b'. send_missing (perfect_link c errText) (m_ID m) content i (replicate k False) (b, []) = Some (Inr (), b', []) \<and>
    completed c m content b'"
  using assms(2,3,5)
proof (induction k arbitrary: i b)
  case (Suc k)
  let ?chunk = "chunk_of m content i" and ?flags = "replicate (Suc i) True @ replicate k False"
  have size: "unat (m_ChunkSize m) = 178" using assms(4) by simp
  have g: "gslice content (i * ChunkDataSize) (min (i * ChunkDataSize + ChunkDataSize) (length content)) = ?chunk"
    unfolding chunk_of_def size by (simp add: add.commute)
  have "length ?chunk \<le> 178" unfolding chunk_of_def size by simp
  then obtain wire where w: "EncodeChunk (m_ID m) (of_nat i) ?chunk = Inr wire"
    by (auto simp: EncodeChunk_def EncodePacket_def)
  then obtain p where p: "DecodePacket wire = Inr p" "packet_Type p = TypeChunk" "packet_ID p = m_ID m"
      "DecodeChunk p = Inr (of_nat i, ?chunk)"
    using \<open>length ?chunk \<le> 178\<close> by (auto simp: EncodeChunk_def DecodeChunk_def get_put_le dest!: DecodePacket_EncodePacket)
  let ?b = "handle_packet c no_faults errText p b"
  have upd: "(replicate i True @ replicate (Suc k) False)[i := True] = ?flags"
    by (simp add: list_update_append replicate_append_same)
  have h: "b_sent ?b = b_sent b \<and> (if list_all id ?flags then completed c m content ?b else receiving c m content ?b ?flags)"
    by (rule chunk_accepted [OF assms(1) Suc.prems(1) _ p(2-4), of errText, unfolded upd]) simp
  have s: "op_Send (perfect_link c errText) wire (b, []) = Some (Inr (), ?b, [])"
    using perfect_Send [OF p(1) refl, of c errText b "\<lambda>_. []" "\<lambda>_. []" "[]" "[]"] h by simp
  show ?case
  proof (cases k)
    case 0
    then show ?thesis using h s w g by (simp add: wire_or_nil_def list_all_iff)
  next
    case (Suc j)
    then have "receiving c m content ?b ?flags" using h by (simp add: list_all_iff)
    from Suc.IH [OF this] Suc Suc.prems(3) obtain b' where
      "send_missing (perfect_link c errText) (m_ID m) content (Suc i) (replicate k False) (?b, []) = Some (Inr (), b', [])"
      "completed c m content b'" by auto
    then show ?thesis using s w g by (auto simp: wire_or_nil_def)
  qed
qed simp

lemma announced_transferable:
  assumes "length content \<le> 253472" "length (Base path) \<le> 135" "Base path \<noteq> [46]" "utf8_valid (Base path)"
  shows "transferable c (file_manifest c path content) content"
    and "\<exists>wire p. EncodeManifest (announced_manifest c path content) = Inr wire \<and> DecodePacket wire = Inr p \<and>
      DecodeManifest p = Inr (file_manifest c path content)"
proof -
  let ?m = "file_manifest c path content"
  have n: "length content \<le> 1424 * 178" using assms(1) by simp
  note g = file_manifest_geometry [OF n, of c path]
  have f: "m_Filename ?m = Base path" "m_Version ?m = 1" "m_Signature ?m = None" "m_SHA256 ?m = sha256 c content"
    by (simp_all add: file_manifest_def)
  have ok: "manifest_ok ?m" using g(1,4) f(1) assms(2) by (simp add: manifest_ok_def)
  have safe: "safe_name (m_Filename ?m)"
    using Base_idem [of path] Base_safe [of path] assms(3) f(1) by (simp add: safe_name_def)
  show "transferable c ?m content" using ok safe f g(2) assms(4) by (simp add: transferable_def)
  let ?a = "announced_manifest c path content"
  have "manifest_ok ?a" "geometry ?a" using ok by (simp_all add: announced_manifest_def manifest_ok_def geometry_def)
  moreover have "?a\<lparr>m_Version := 1, m_Signature := None\<rparr> = ?m" by (simp add: announced_manifest_def file_manifest_def)
  ultimately show "\<exists>wire p. EncodeManifest ?a = Inr wire \<and> DecodePacket wire = Inr p \<and> DecodeManifest p = Inr ?m"
    using EncodeManifest_iff [of ?a] DecodeManifest_EncodeManifest [of ?a] by metis
qed

lemma perfect_transfer:
  assumes "transferable c m content" "m_ChunkSize m = 178" "free_place c (b_disk b) (m_ID m)" "0 < timeout"
    and "DecodePacket wire = Inr p" "DecodeManifest p = Inr m"
  shows "\<exists>b'. publish_rounds (perfect_link c errText) (m_ID m) content (unat (m_ChunkCount m)) wire timeout (Suc n) (b, []) =
      Some (Inr (), b', []) \<and> completed c m content b'"
proof -
  let ?L = "perfect_link c errText"
  have geo: "geometry m" using assms(1) by (simp add: transferable_def manifest_ok_def)
  have pt: "packet_Type p = TypeManifest" using assms(6) by (simp add: DecodeManifest_iff)
  have done': "EncodePacket \<lparr>packet_Type = TypeComplete, packet_ID = m_ID m, packet_Body = []\<rparr> = Inr (wire_or_nil (EncodeSimple TypeComplete (m_ID m)))"
    by (simp add: EncodeSimple_def EncodePacket_def wire_or_nil_def)
  let ?done = "\<lparr>packet_Type = TypeComplete, packet_ID = m_ID m, packet_Body = []\<rparr>"
  have fin: "read_answer k (Inr ?done) = Finished" for k by (simp add: read_answer_def)
  have reply: "op_Send ?L w (b1, []) = Some (Inr (), b2, [q])"
    if "DecodePacket w = Inr r" "handle_packet c no_faults errText r b1 = b2" "b_sent b2 = b_sent b1 @ [(enc, fs)]" "EncodePacket q = Inr enc"
    for w r b1 b2 enc fs q
    using perfect_Send [OF that(1,2), of "\<lambda>_. enc" "\<lambda>_. fs" "[q]" "[]"] that(3,4) by simp
  show ?thesis
  proof (cases rule: manifest_accepted [OF assms(1,6) pt assms(3), of errText, case_names session empty])
    case (empty b1)
    have "op_Send ?L wire (b, []) = Some (Inr (), sendSimple TypeComplete (m_ID m) b1, [?done])"
      by (rule reply [OF assms(5) empty(1) _ done']) (simp add: sendSimple_def link_transmit_def empty(4))
    moreover have "completed c m content (sendSimple TypeComplete (m_ID m) b1)"
      using empty(2) by (simp add: completed_def sendSimple_def link_transmit_def)
    ultimately show ?thesis using perfect_wait [of ?done "m_ID m" timeout c errText] assms(4) fin by simp
  next
    case (session b1)
    let ?k = "unat (m_ChunkCount m)"
    have flags: "Received (NewAssembly m) = replicate ?k False" by (simp add: Received_def NewAssembly_def)
    have "?k \<le> MaxChunks" using geo by (simp add: geometry_def)
    then obtain rw where rw: "EncodeReceipt (m_ID m) (m_ChunkCount m) (replicate ?k False) = Inr rw"
      using EncodeReceipt_total [of "m_ChunkCount m" "replicate ?k False"] by auto
    obtain q where q: "DecodePacket rw = Inr q" "packet_ID q = m_ID m" "DecodeReceipt q = Inr (replicate ?k False)"
      by (rule DecodeReceipt_EncodeReceipt [OF rw])
    have qt: "packet_Type q = TypeReceipt" using q(3) by (auto simp: DecodeReceipt_def Let_def split: if_splits)
    let ?b2 = "sendReceipt (NewAssembly m) b1"
    have 1: "op_Send ?L wire (b, []) = Some (Inr (), ?b2, [q])"
      by (rule reply [OF assms(5) session(1) _ EncodePacket_DecodePacket [OF q(1)]])
         (simp add: sendReceipt_def link_transmit_def session(4) flags rw wire_or_nil_def)
    have "receiving c m content ?b2 (replicate 0 True @ replicate ?k False)"
      using session(2) by (simp add: receiving_def sendReceipt_def link_transmit_def)
    moreover have "0 < ?k" using session(3) by (simp add: unat_gt_0)
    ultimately obtain b3 where 3: "send_missing ?L (m_ID m) content 0 (replicate ?k False) (?b2, []) = Some (Inr (), b3, [])"
      "completed c m content b3" using send_missing_perfect [OF assms(1) _ _ assms(2), of ?b2 0 ?k errText] by auto
    let ?query = "\<lparr>packet_Type = TypeQuery, packet_ID = m_ID m, packet_Body = []\<rparr>"
    have "EncodePacket ?query = Inr (wire_or_nil (EncodeSimple TypeQuery (m_ID m)))"
      by (simp add: EncodeSimple_def EncodePacket_def wire_or_nil_def)
    then have "DecodePacket (wire_or_nil (EncodeSimple TypeQuery (m_ID m))) = Inr ?query" by (rule DecodePacket_EncodePacket)
    then have 4: "op_Send ?L (wire_or_nil (EncodeSimple TypeQuery (m_ID m))) (b3, []) =
        Some (Inr (), sendSimple TypeComplete (m_ID m) b3, [?done])"
      by (rule reply [OF _ query_answered [OF 3(2)] _ done']) (simp_all add: sendSimple_def link_transmit_def)
    have "completed c m content (sendSimple TypeComplete (m_ID m) b3)"
      using 3(2) by (simp add: completed_def sendSimple_def link_transmit_def)
    then show ?thesis
      using 1 3 4 q qt assms(4) fin perfect_wait [of q "m_ID m" timeout c errText ?b2] perfect_wait [of ?done "m_ID m" timeout c errText]
      by (simp add: read_answer_def)
  qed
qed

section \<open>Properties\<close>

text \<open>
  C7: A transfer works: over a channel that loses nothing and a disk that works, publishing a file of at most
  253472 bytes with a short UTF-8 name to a broadcaster that does not have it succeeds in its first round, and the
  broadcaster then holds the publication complete, with the manifest of the file and exactly its content. Both
  programs run here, \<open>ghost-publish\<close> against \<open>ghost-broadcast\<close>.
\<close>

theorem transfer_succeeds:
  assumes "length content \<le> 253472" and "length (Base path) \<le> 135" and "Base path \<noteq> [46]" and "utf8_valid (Base path)"
    and "1 \<le> retries" and "0 < timeout"
    and "free_place c fs (copy_array (take 16 (array_bytes (sha256 c content))))"
  shows "\<exists>b. publish_run c (perfect_link c errText) path (Inr content) retries timeout (broadcast_start fs, []) = Some (Inr (), b, []) \<and>
    Complete c no_faults (b_disk b) (copy_array (take 16 (array_bytes (sha256 c content)))) \<and>
    LoadManifest c no_faults (b_disk b) (copy_array (take 16 (array_bytes (sha256 c content)))) = Inr (file_manifest c path content) \<and>
    ReadBytes no_faults (b_disk b) (content_file (copy_array (take 16 (array_bytes (sha256 c content))))) = Inr content"
proof -
  let ?m = "file_manifest c path content" and ?a = "announced_manifest c path content"
  have same: "m_ID ?m = copy_array (take 16 (array_bytes (sha256 c content)))" "m_ID ?a = m_ID ?m" "m_ChunkCount ?a = m_ChunkCount ?m"
    "m_ChunkSize ?m = 178" by (simp_all add: announced_manifest_def file_manifest_def)
  obtain wire p where w: "EncodeManifest ?a = Inr wire" "DecodePacket wire = Inr p" "DecodeManifest p = Inr ?m"
    using announced_transferable(2) [OF assms(1-4)] by blast
  obtain n where n: "nat retries = Suc n" using assms(5) by (cases "nat retries") auto
  have place: "free_place c (b_disk (broadcast_start fs)) (m_ID ?m)" using assms(7) same(1) by (simp add: broadcast_start_def)
  obtain b where b: "publish_rounds (perfect_link c errText) (m_ID ?m) content (unat (m_ChunkCount ?m)) wire timeout (Suc n)
      (broadcast_start fs, []) = Some (Inr (), b, [])" "completed c ?m content b"
    using perfect_transfer [OF announced_transferable(1) [OF assms(1-4)] same(4) place assms(6) w(2,3)] by blast
  have "publish_run c (perfect_link c errText) path (Inr content) retries timeout (broadcast_start fs, []) = Some (Inr (), b, [])"
    using assms(1,5,6) w(1) n b(1) same(2,3) by (simp add: publish_run_def del: publish_rounds.simps)
  then show ?thesis using b(2) same(1) by (auto simp: completed_def)
qed

lemma empty_free_place: "free_place c [] pid"
  by (simp add: free_place_def empty_place_ok empty_not_Complete lookup_def)

theorem transfer_succeeds_witness:
  "\<exists>b. publish_run toy_crypto (perfect_link toy_crypto (\<lambda>_. [])) (str ''a'') (Inr (replicate 300 5)) 8 (5 * Second)
     (broadcast_start [], []) = Some (Inr (), b, [])"
proof -
  have base: "Base (str ''a'') = str ''a''" by (simp add: Base_def str_def)
  have "utf8_valid (str ''a'')" by (rule utf8_valid_ascii) (simp add: str_def)
  then have u: "utf8_valid (Base (str ''a''))" by (simp add: base)
  have "Base (str ''a'') \<noteq> [46]" "length (Base (str ''a'')) \<le> 135" unfolding base by (simp_all add: str_def)
  from transfer_succeeds [OF _ this(2,1) u _ _ empty_free_place, of "replicate 300 5" 8 "5 * Second" toy_crypto "\<lambda>_. []"]
  show ?thesis by auto
qed

text \<open>
  C6: Success is real: whatever packets the broadcaster gets from anyone, in whatever order, lost or repeated, and
  whatever fails on its disk, when \<open>ghost-publish\<close> reports success there was a moment at which the broadcaster
  sent the confirmation and had the publication in its store: it passed the completeness test, or the files of
  the object were those of content whose hash is the one in its manifest, under the identifier of the file.
\<close>

theorem success_means_stored:
  assumes "publish_run c (hostile_link c errText) path (Inr content) retries timeout
      \<lparr>air_broadcaster = broadcast_start fs, air_tape = tape\<rparr> = Some (Inr (), w)"
  shows "\<exists>(wire, fs') \<in> set (b_sent (air_broadcaster w)). stored c fs' (copy_array (take 16 (array_bytes (sha256 c content))))"
proof -
  have "broadcaster_ok c (broadcast_start fs)" by (simp add: broadcaster_ok_def broadcast_start_def)
  then have "broadcaster_ok c (air_broadcaster w) \<and> (\<exists>p. air_heard w p \<and> packet_Type p = TypeComplete \<and>
      packet_ID p = copy_array (take 16 (array_bytes (sha256 c content))))"
    using hostile.publish_heard [OF assms] by simp
  then obtain s p where s: "s \<in> set (b_sent (air_broadcaster w))" "DecodePacket (fst s) = Inr p" "packet_Type p = TypeComplete"
      "packet_ID p = copy_array (take 16 (array_bytes (sha256 c content)))" "truthful c s"
    by (auto simp: air_heard_def broadcaster_ok_def list_all_iff)
  then have "stored c (snd s) (copy_array (take 16 (array_bytes (sha256 c content))))" by (simp add: truthful_def)
  then show ?thesis using s(1) by (cases s) auto
qed

lemma hostile_example:
  "\<exists>tape w. publish_run toy_crypto (hostile_link toy_crypto (\<lambda>_. [])) (str ''a'') (Inr []) 1 1
     \<lparr>air_broadcaster = broadcast_start [], air_tape = tape\<rparr> = Some (Inr (), w)"
proof -
  let ?m = "file_manifest toy_crypto (str ''a'') []"
  have base: "Base (str ''a'') = str ''a''" by (simp add: Base_def str_def)
  have "utf8_valid (str ''a'')" by (rule utf8_valid_ascii) (simp add: str_def)
  then have u: "utf8_valid (Base (str ''a''))" by (simp add: base)
  have name: "Base (str ''a'') \<noteq> [46]" "length (Base (str ''a'')) \<le> 135" unfolding base by (simp_all add: str_def)
  note t = announced_transferable [OF _ name(2,1) u, of "[]" toy_crypto, simplified]
  obtain wire p where w: "EncodeManifest (announced_manifest toy_crypto (str ''a'') []) = Inr wire" "DecodePacket wire = Inr p"
      "DecodeManifest p = Inr ?m" using t(2) by blast
  have pt: "packet_Type p = TypeManifest" using w(3) by (simp add: DecodeManifest_iff)
  have count: "m_ChunkCount ?m = 0" by (simp add: file_manifest_def)
  have place: "free_place toy_crypto (b_disk (broadcast_start [])) (m_ID ?m)" by (simp add: empty_free_place broadcast_start_def)
  obtain b where b: "handle_packet toy_crypto no_faults (\<lambda>_. []) p (broadcast_start []) = sendSimple TypeComplete (m_ID ?m) b"
      "b_sent b = b_sent (broadcast_start [])"
  proof (cases rule: manifest_accepted [OF t(1) w(3) pt place, of "\<lambda>_. []", case_names session empty])
    case (session b')
    then show thesis using count by simp
  next
    case (empty b')
    then show thesis using that by simp
  qed
  then have sent: "b_sent b = []" by (simp add: broadcast_start_def)
  have done': "DecodePacket (wire_or_nil (EncodeSimple 5 pid)) = Inr \<lparr>packet_Type = 5, packet_ID = pid, packet_Body = []\<rparr>" for pid
    by (rule DecodePacket_EncodePacket) (simp add: EncodeSimple_def EncodePacket_def wire_or_nil_def)
  let ?quiet = "\<lparr>h_packets = [], h_result = Inr 0, h_time = 0\<rparr>"
  let ?tape = "\<lparr>h_packets = [(no_faults, wire)], h_result = Inr 0, h_time = 0\<rparr> ## sconst ?quiet"
  have same: "m_ID (announced_manifest toy_crypto (str ''a'') []) = m_ID ?m" by (simp add: announced_manifest_def)
  show ?thesis
    using w b(1) sent done' by (intro exI [of _ ?tape])
      (simp add: publish_run_def hostile_link_def happen_def decodable_def waitForState_def wait_loop.simps Let_def same
         sendSimple_def link_transmit_def read_answer_def)
qed

theorem success_means_stored_witness:
  "\<exists>tape w wire fs'. publish_run toy_crypto (hostile_link toy_crypto (\<lambda>_. [])) (str ''a'') (Inr []) 1 1
     \<lparr>air_broadcaster = broadcast_start [], air_tape = tape\<rparr> = Some (Inr (), w) \<and>
     (wire, fs') \<in> set (b_sent (air_broadcaster w)) \<and> stored toy_crypto fs' (copy_array (take 16 (array_bytes (sha256 toy_crypto []))))"
proof -
  obtain tape w where r: "publish_run toy_crypto (hostile_link toy_crypto (\<lambda>_. [])) (str ''a'') (Inr []) 1 1
     \<lparr>air_broadcaster = broadcast_start [], air_tape = tape\<rparr> = Some (Inr (), w)" using hostile_example by blast
  from success_means_stored [OF r] r show ?thesis by blast
qed

end
