(* ===== verification/Go_Text.thy ===== *)
theory Go_Text
  imports Complex_Main Go_Strings "HOL-Library.Sublist"
begin

text \<open>
  The parts of \<open>strings\<close>, \<open>strconv\<close> and \<open>fmt\<close> the catalog, the configuration and the commands use: trimming, letter
  case, \<open>ParseUint\<close>, and the decimal rendering of integers and of \<open>float32\<close> values, which are their IEEE-754 bit
  patterns.

  Lemmas: a number renders to digits from which it is read back, and two floats with the same rendering differ by
  at most one unit of its last digit.
\<close>

section \<open>White space\<close>

text \<open>The UTF-8 sequences of the runes \<open>unicode.IsSpace\<close> accepts.\<close>

definition space_rune :: "byte list \<Rightarrow> bool" where
  "space_rune s \<longleftrightarrow>
     (case s of
        [a] \<Rightarrow> 9 \<le> a \<and> a \<le> 13 \<or> a = 32
      | [a, b] \<Rightarrow> a = 0xC2 \<and> (b = 0x85 \<or> b = 0xA0)
      | [a, b, c] \<Rightarrow> a = 0xE1 \<and> b = 0x9A \<and> c = 0x80 \<or>
          a = 0xE2 \<and> b = 0x80 \<and> (0x80 \<le> c \<and> c \<le> 0x8A \<or> c = 0xA8 \<or> c = 0xA9 \<or> c = 0xAF) \<or>
          a = 0xE2 \<and> b = 0x81 \<and> c = 0x9F \<or> a = 0xE3 \<and> b = 0x80 \<and> c = 0x80
      | _ \<Rightarrow> False)"

lemma space_rune_Nil [simp]: "\<not> space_rune []"
  by (simp add: space_rune_def)

lemma space_rune_shorter [termination_simp]:
  "space_rune (take n s) \<Longrightarrow> 0 < n \<Longrightarrow> length s - n < length s"
  "space_rune (rev (take n s)) \<Longrightarrow> 0 < n \<Longrightarrow> length s - n < length s"
  by (cases s; simp)+

function TrimLeftSpace :: "byte list \<Rightarrow> byte list" where
  "TrimLeftSpace s =
     (if space_rune (take 1 s) then TrimLeftSpace (drop 1 s)
      else if space_rune (take 2 s) then TrimLeftSpace (drop 2 s)
      else if space_rune (take 3 s) then TrimLeftSpace (drop 3 s)
      else s)"
  by pat_completeness auto
termination by (relation "measure length") (simp_all only: in_measure length_drop space_rune_shorter, simp_all add: wf_measure)

text \<open>From the end, on the reversed string.\<close>

function TrimRightSpace :: "byte list \<Rightarrow> byte list" where
  "TrimRightSpace r =
     (if space_rune (rev (take 1 r)) then TrimRightSpace (drop 1 r)
      else if space_rune (rev (take 2 r)) then TrimRightSpace (drop 2 r)
      else if space_rune (rev (take 3 r)) then TrimRightSpace (drop 3 r)
      else r)"
  by pat_completeness auto
termination by (relation "measure length") (simp_all only: in_measure length_drop space_rune_shorter, simp_all add: wf_measure)

declare TrimLeftSpace.simps [simp del] TrimRightSpace.simps [simp del]

definition TrimSpace :: "byte list \<Rightarrow> byte list" where
  "TrimSpace s = rev (TrimRightSpace (rev (TrimLeftSpace s)))"

section \<open>Letter case\<close>

text \<open>
  \<open>strings.ToLower\<close> and \<open>ToUpper\<close>. The runes outside ASCII whose other case is an ASCII letter are written out; the
  others keep their bytes here, while Go may change them to other bytes that are not ASCII either. The
  modelled code compares the results with ASCII strings only, so this makes no difference there.
\<close>

fun ToLower :: "byte list \<Rightarrow> byte list" where
  "ToLower [] = []"
| "ToLower (a # s) =
     (if a = 0xE2 \<and> take 2 s = [0x84, 0xAA] then 0x6B # ToLower (drop 2 s)
      else if a = 0xC4 \<and> take 1 s = [0xB0] then 0x69 # ToLower (drop 1 s)
      else if 65 \<le> a \<and> a \<le> 90 then (a + 32) # ToLower s
      else a # ToLower s)"

fun ToUpper :: "byte list \<Rightarrow> byte list" where
  "ToUpper [] = []"
| "ToUpper (a # s) =
     (if a = 0xC4 \<and> take 1 s = [0xB1] then 0x49 # ToUpper (drop 1 s)
      else if a = 0xC5 \<and> take 1 s = [0xBF] then 0x53 # ToUpper (drop 1 s)
      else if 97 \<le> a \<and> a \<le> 122 then (a - 32) # ToUpper s
      else a # ToUpper s)"

section \<open>strconv.ParseUint\<close>

definition lower_bit :: "byte \<Rightarrow> byte" where "lower_bit b = b OR 0x20"

definition digit_value :: "byte \<Rightarrow> nat option" where
  "digit_value b =
     (if 48 \<le> b \<and> b \<le> 57 then Some (unat b - 48)
      else if 97 \<le> lower_bit b \<and> lower_bit b \<le> 122 then Some (unat (lower_bit b) - 87) else None)"

text \<open>The digits in a base; with \<open>unders\<close> underscores are skipped.\<close>

fun read_digits :: "nat \<Rightarrow> bool \<Rightarrow> byte list \<Rightarrow> nat \<Rightarrow> nat option" where
  "read_digits base unders [] n = Some n"
| "read_digits base unders (b # s) n =
     (if b = 95 \<and> unders then read_digits base unders s n
      else case digit_value b of
          None \<Rightarrow> None
        | Some d \<Rightarrow> if d < base then read_digits base unders s (n * base + d) else None)"

text \<open>\<open>underscoreOK\<close>: the scan after the base prefix; \<open>last\<close> is the class of the character before.\<close>

datatype seen = SeenStart | SeenDigit | SeenUnderscore | SeenOther

fun underscores_ok :: "bool \<Rightarrow> seen \<Rightarrow> byte list \<Rightarrow> bool" where
  "underscores_ok hex prev [] \<longleftrightarrow> prev \<noteq> SeenUnderscore"
| "underscores_ok hex prev (b # s) \<longleftrightarrow>
     (if 48 \<le> b \<and> b \<le> 57 \<or> hex \<and> 97 \<le> lower_bit b \<and> lower_bit b \<le> 102 then underscores_ok hex SeenDigit s
      else if b = 95 then prev = SeenDigit \<and> underscores_ok hex SeenUnderscore s
      else prev \<noteq> SeenUnderscore \<and> underscores_ok hex SeenOther s)"

definition base_prefix :: "byte list \<Rightarrow> nat option" where
  "base_prefix s =
     (case s of
        a # b # _ \<Rightarrow>
          if a \<noteq> 48 then None
          else if lower_bit b = 0x62 then Some 2 else if lower_bit b = 0x6F then Some 8
          else if lower_bit b = 0x78 then Some 16 else None
      | _ \<Rightarrow> None)"

definition underscoreOK :: "byte list \<Rightarrow> bool" where
  "underscoreOK s =
     (case base_prefix s of
        None \<Rightarrow> underscores_ok False SeenStart s
      | Some base \<Rightarrow> underscores_ok (base = 16) SeenDigit (drop 2 s))"

definition ParseUint :: "byte list \<Rightarrow> nat \<Rightarrow> nat \<Rightarrow> go_error + nat" where
  "ParseUint s base bits =
     (let (b, digits) =
        (if base \<noteq> 0 then (base, s)
         else if take 1 s = [48] then
           (case base_prefix s of
              Some b \<Rightarrow> if length s \<ge> 3 then (b, drop 2 s) else (8, drop 1 s)
            | None \<Rightarrow> (8, drop 1 s))
         else (10, s))
      in if s = [] then Inl (Failure ''invalid syntax'')
         else case read_digits b (base = 0) digits 0 of
             None \<Rightarrow> Inl (Failure ''invalid syntax'')
           | Some n \<Rightarrow>
             if n \<ge> 2 ^ bits then Inl (Failure ''value out of range'')
             else if base = 0 \<and> 95 \<in> set digits \<and> \<not> underscoreOK s then Inl (Failure ''invalid syntax'')
             else Inr n)"

text \<open>\<open>strconv.ParseInt\<close> in base 10.\<close>

definition ParseInt10 :: "byte list \<Rightarrow> nat \<Rightarrow> go_error + int" where
  "ParseInt10 s bits =
     (let neg = take 1 s = [45]; digits = (if neg \<or> take 1 s = [43] then drop 1 s else s)
      in case ParseUint digits 10 64 of
           Inl e \<Rightarrow> Inl e
         | Inr n \<Rightarrow>
           if \<not> neg \<and> n \<ge> 2 ^ (bits - 1) \<or> neg \<and> n > 2 ^ (bits - 1) then Inl (Failure ''value out of range'')
           else Inr (if neg then - int n else int n))"

section \<open>Rendering integers\<close>

definition format_int :: "int \<Rightarrow> byte list" where
  "format_int i = (if i < 0 then 45 # Itoa (nat (- i)) else Itoa (nat i))"

definition hex_upper :: "nat \<Rightarrow> byte" where
  "hex_upper n = (if n < 10 then of_nat (48 + n) else of_nat (55 + n))"

text \<open>\<open>%02X\<close> of a byte.\<close>

definition format_02X :: "byte \<Rightarrow> byte list" where
  "format_02X b = [hex_upper (unat b div 16), hex_upper (unat b mod 16)]"

section \<open>Rendering floats\<close>

definition f32_negative :: "32 word \<Rightarrow> bool" where "f32_negative w \<longleftrightarrow> unat w \<ge> 2 ^ 31"
definition f32_exponent :: "32 word \<Rightarrow> nat" where "f32_exponent w = unat w div 2 ^ 23 mod 256"
definition f32_fraction :: "32 word \<Rightarrow> nat" where "f32_fraction w = unat w mod 2 ^ 23"

definition f32_NaN :: "32 word \<Rightarrow> bool" where "f32_NaN w \<longleftrightarrow> f32_exponent w = 255 \<and> f32_fraction w \<noteq> 0"
definition f32_Inf :: "32 word \<Rightarrow> bool" where "f32_Inf w \<longleftrightarrow> f32_exponent w = 255 \<and> f32_fraction w = 0"

text \<open>\<open>x <= 0\<close>: false on a NaN.\<close>

definition f32_not_positive :: "32 word \<Rightarrow> bool" where
  "f32_not_positive w \<longleftrightarrow> \<not> f32_NaN w \<and> (f32_negative w \<or> unat w = 0)"

text \<open>The magnitude of a finite float is \<open>f32_units\<close> times \<open>2 ^ -150\<close>.\<close>

definition f32_units :: "32 word \<Rightarrow> int" where
  "f32_units w = (if f32_exponent w = 0 then 2 * int (f32_fraction w)
     else (2 ^ 23 + int (f32_fraction w)) * 2 ^ f32_exponent w)"

text \<open>Division rounded to the nearest, halves to even.\<close>

definition round_even :: "int \<Rightarrow> int \<Rightarrow> int" where
  "round_even n d =
     (let q = n div d; r = n mod d
      in if 2 * r < d \<or> 2 * r = d \<and> even q then q else q + 1)"

definition fixed_digits :: "nat \<Rightarrow> nat \<Rightarrow> byte list" where
  "fixed_digits prec n =
     (let low = Itoa (n mod 10 ^ prec)
      in Itoa (n div 10 ^ prec) @ [46] @ replicate (prec - length low) 48 @ low)"

text \<open>\<open>%.<prec>f\<close>, for a positive \<open>prec\<close>.\<close>

definition format_fixed :: "nat \<Rightarrow> 32 word \<Rightarrow> byte list" where
  "format_fixed prec w =
     (if f32_NaN w then str ''NaN''
      else if f32_Inf w then (if f32_negative w then str ''-Inf'' else str ''+Inf'')
      else (if f32_negative w then [45] else []) @ fixed_digits prec (nat (round_even (f32_units w * 10 ^ prec) (2 ^ 150))))"

text \<open>\<open>float32(x)\<close> of a \<open>float64\<close>: round to the nearest, halves to even.\<close>

fun bit_length :: "nat \<Rightarrow> nat" where
  "bit_length n = (if n = 0 then 0 else Suc (bit_length (n div 2)))"

declare bit_length.simps [simp del]

definition to_float32 :: "64 word \<Rightarrow> 32 word" where
  "to_float32 x =
     (let sign = (if unat x \<ge> 2 ^ 63 then 2 ^ 31 else 0); e = unat x div 2 ^ 52 mod 2048; f = unat x mod 2 ^ 52
      in if e = 2047 then (if f = 0 then of_nat (sign + 255 * 2 ^ 23) else of_nat (sign + 511 * 2 ^ 22 + f div 2 ^ 29 mod 2 ^ 22))
         else let m = (if e = 0 then f else 2 ^ 52 + f); k = max e 1;
                  \<comment> \<open>the value is \<open>m * 2 ^ (k - 1075)\<close>, the unit of its last place \<open>2 ^ (q - 149)\<close>\<close>
                  q = nat (max 0 (int (bit_length m) + int k - 1075 - 24 + 149));
                  n = nat (round_even (int m * 2 ^ k) (2 ^ (q + 926)))
              in of_nat (sign + min (255 * 2 ^ 23) (q * 2 ^ 23 + n)))"

section \<open>The \<open>flag\<close> package\<close>

text \<open>
  What a flag set makes of the arguments: the value of each option, the values given to the options with a type of
  their own in the order they were given, and the arguments left. Reading them is an argument of the models, from
  the name of the flag set. A command that is not used as it should be fails.
\<close>

record flags =
  fl_string :: "string \<Rightarrow> byte list"
  fl_bool :: "string \<Rightarrow> bool"
  fl_int :: "string \<Rightarrow> int"
  fl_set :: "(string \<times> byte list) list"
  fl_Args :: "byte list list"

type_synonym parser = "string \<Rightarrow> byte list list \<Rightarrow> go_error + flags"

definition usage :: "string \<Rightarrow> go_error + 'a" where "usage s = Inl (Failure s)"

section \<open>What the renderings determine\<close>

definition is_digit :: "byte \<Rightarrow> bool" where "is_digit b \<longleftrightarrow> 48 \<le> b \<and> b \<le> 57"

lemma is_digit_of_nat: "n < 10 \<Longrightarrow> is_digit (of_nat (48 + n))"
  unfolding is_digit_def word_le_nat_alt by (simp add: unat_byte_of_nat del: of_nat_add)

lemma Itoa_digits: "list_all is_digit (Itoa n)"
proof (induction n rule: Itoa.induct)
  case (1 n)
  then show ?case using is_digit_of_nat [of n] is_digit_of_nat [of "n mod 10"]
    by (cases "n < 10") (simp_all add: Itoa.simps [of n])
qed

lemma Itoa_not_Nil [simp]: "Itoa n \<noteq> []"
  by (simp add: Itoa.simps [of n])

lemma digit_value_of_nat: "n < 10 \<Longrightarrow> digit_value (of_nat (48 + n)) = Some n"
  using is_digit_of_nat [of n] by (simp add: digit_value_def is_digit_def unat_byte_of_nat del: of_nat_add)

lemma read_digits_append:
  "read_digits base u (s @ t) n = (case read_digits base u s n of None \<Rightarrow> None | Some m \<Rightarrow> read_digits base u t m)"
  by (induction base u s n rule: read_digits.induct) (auto split: option.splits)

lemma read_digits_Itoa: "read_digits 10 False (Itoa n) 0 = Some n"
proof (induction n rule: Itoa.induct)
  case (1 n)
  then show ?case using digit_value_of_nat [of n] digit_value_of_nat [of "n mod 10"]
    by (cases "n < 10") (simp_all add: Itoa.simps [of n] read_digits_append del: of_nat_add)
qed

lemma ParseUint_Itoa [simp]: "n < 2 ^ bits \<Longrightarrow> ParseUint (Itoa n) 10 bits = Inr n"
  by (simp add: ParseUint_def read_digits_Itoa)

text \<open>\<open>%08x\<close> of a 32-bit number, and back.\<close>

definition format_08x :: "32 word \<Rightarrow> byte list" where
  "format_08x w = hex_EncodeToString (rev (put_le 4 w))"

lemma is_lower_hex_value: "n < 16 \<Longrightarrow> digit_value (hex_digit n) = Some n"
proof -
  assume "n < 16"
  then have "n \<in> set [0..<16]" by simp
  moreover have "list_all (\<lambda>n. digit_value (hex_digit n) = Some n) [0..<16]" by code_simp
  ultimately show ?thesis unfolding list_all_iff by blast
qed

lemma read_digits_hex:
  "read_digits 16 False (hex_EncodeToString bs) n = Some (foldl (\<lambda>n b. n * 256 + unat b) n bs)"
proof (induction bs arbitrary: n)
  case (Cons b bs)
  have "unat b div 16 < 16" using unat_byte_less [of b] by simp
  moreover have "(n * 16 + unat b div 16) * 16 + unat b mod 16 = n * 256 + unat b" by simp
  ultimately show ?case using Cons.IH by (simp add: is_lower_hex_value add.commute mult.commute)
qed simp

lemma be_put_le: "foldl (\<lambda>n b. n * 256 + unat b) 0 (rev (put_le 4 (w :: 32 word))) = unat w"
proof -
  have fits: "unat w < 2 ^ 32" using unsigned_less [of w] by simp
  then have byte: "unat (ucast (drop_bit k w) :: byte) = unat w div 2 ^ k mod 256" for k
    by (simp add: unsigned_ucast_eq unsigned_drop_bit_eq take_bit_eq_mod flip: drop_bit_eq_div)
  have four: "put_le 4 w = map (\<lambda>k. ucast (drop_bit k w)) [0, 8, 16, 24]"
    by (simp add: put_le_def upt_rec)
  have step: "unat w div 2 ^ (k + 8) * 256 + unat w div 2 ^ k mod 256 = unat w div 2 ^ k" for k
    by (simp add: power_add div_mult2_eq)
  have "foldl (\<lambda>n b. n * 256 + unat b) 0 (rev (put_le 4 w)) =
      ((unat w div 2 ^ 24 mod 256 * 256 + unat w div 2 ^ 16 mod 256) * 256 + unat w div 2 ^ 8 mod 256) * 256 + unat w div 2 ^ 0 mod 256"
    unfolding four by (simp only: list.map rev.simps append.simps foldl_Cons foldl_Nil byte mult_0 add_0)
  also have "unat w div 2 ^ 24 mod 256 = unat w div 2 ^ 24" using fits by simp
  also have "unat w div 2 ^ 24 * 256 + unat w div 2 ^ 16 mod 256 = unat w div 2 ^ 16" using step [of 16] by (simp del: div_mult_mod_eq)
  also have "unat w div 2 ^ 16 * 256 + unat w div 2 ^ 8 mod 256 = unat w div 2 ^ 8" using step [of 8] by (simp del: div_mult_mod_eq)
  also have "unat w div 2 ^ 8 * 256 + unat w div 2 ^ 0 mod 256 = unat w" using step [of 0] by simp
  finally show ?thesis .
qed

lemma ParseUint_format_08x: "ParseUint (format_08x w) 16 32 = Inr (unat w)"
proof -
  have "unat w < 2 ^ 32" using unsigned_less [of w] by simp
  moreover have "format_08x w \<noteq> []" by (simp add: format_08x_def flip: length_greater_0_conv)
  ultimately show ?thesis
    by (simp add: ParseUint_def format_08x_def read_digits_hex be_put_le)
qed

text \<open>The decimal rendering of a number is its value and a fixed number of decimals.\<close>

lemma no_dot: "46 \<notin> set (Itoa n)"
  using Itoa_digits [of n] by (auto simp: list_all_iff is_digit_def)

lemma of_digits_zeros: "of_digits (replicate k 48 @ s) = of_digits s"
  by (induction k) (simp_all add: of_digits_def)

lemma split_at_dot: "a @ 46 # b = c @ 46 # d \<Longrightarrow> 46 \<notin> set a \<Longrightarrow> 46 \<notin> set c \<Longrightarrow> a = c \<and> b = (d :: byte list)"
proof (induction a arbitrary: c)
  case Nil
  then show ?case by (cases c) auto
next
  case (Cons x a)
  then show ?case by (cases c) auto
qed

lemma fixed_digits_inject:
  assumes "fixed_digits prec m = fixed_digits prec n"
  shows "m = n"
proof -
  let ?low = "\<lambda>n. replicate (prec - length (Itoa (n mod 10 ^ prec))) 48 @ Itoa (n mod 10 ^ prec)"
  have "Itoa (m div 10 ^ prec) @ 46 # ?low m = Itoa (n div 10 ^ prec) @ 46 # ?low n"
    using assms by (simp add: fixed_digits_def Let_def)
  then have s: "Itoa (m div 10 ^ prec) = Itoa (n div 10 ^ prec)" "?low m = ?low n"
    using split_at_dot no_dot by blast+
  have "of_digits (?low k) = k mod 10 ^ prec" for k by (simp add: of_digits_zeros of_digits_Itoa)
  then have "m mod 10 ^ prec = n mod 10 ^ prec" using s(2) by metis
  then show ?thesis using s(1) by (metis Itoa_inject div_mult_mod_eq)
qed

lemma fixed_digits_number: "fixed_digits prec n \<noteq> []" "hd (fixed_digits prec n) \<noteq> 45"
proof -
  have "is_digit (hd (Itoa m))" for m using Itoa_digits [of m] by (cases "Itoa m") auto
  from this [of "n div 10 ^ prec"] show "hd (fixed_digits prec n) \<noteq> 45" by (auto simp: fixed_digits_def Let_def is_digit_def)
qed (simp add: fixed_digits_def Let_def)

lemma round_even_near: "0 < d \<Longrightarrow> 2 * \<bar>round_even n d * d - n\<bar> \<le> d"
proof -
  assume d: "0 < d"
  have e: "d * (n div d) = n - n mod d" by (simp add: minus_mod_eq_mult_div)
  moreover have "0 \<le> n mod d" "n mod d < d" using d by simp_all
  ultimately show ?thesis by (auto simp: round_even_def Let_def algebra_simps e)
qed

lemma round_even_eq: "round_even m d = round_even n d \<Longrightarrow> 0 < d \<Longrightarrow> \<bar>m - n\<bar> \<le> d"
proof -
  assume "round_even m d = round_even n d" "0 < d"
  then have "2 * \<bar>round_even n d * d - m\<bar> \<le> d" "2 * \<bar>round_even n d * d - n\<bar> \<le> d"
    using round_even_near [of d m] round_even_near [of d n] by simp_all
  moreover have "\<bar>m - n\<bar> \<le> \<bar>round_even n d * d - n\<bar> + \<bar>round_even n d * d - m\<bar>"
    using abs_triangle_ineq4 [of "round_even n d * d - n" "round_even n d * d - m"] by simp
  moreover have "c \<le> e" if "2 * a \<le> e" "2 * b \<le> e" "c \<le> b + a" for a b c e :: int using that by linarith
  ultimately show ?thesis by blast
qed

definition f32_finite :: "32 word \<Rightarrow> bool" where "f32_finite w \<longleftrightarrow> f32_exponent w \<noteq> 255"

text \<open>The value of a finite float.\<close>

definition f32_value :: "32 word \<Rightarrow> real" where
  "f32_value w = (if f32_negative w then - 1 else 1) * of_int (f32_units w) / 2 ^ 150"

lemma f32_units_nonneg [simp]: "0 \<le> f32_units w"
  by (simp add: f32_units_def)

lemma round_even_nonneg: "0 \<le> n \<Longrightarrow> 0 < d \<Longrightarrow> 0 \<le> round_even n d"
  by (simp add: round_even_def Let_def pos_imp_zdiv_nonneg_iff)

lemma format_fixed_close:
  assumes "format_fixed prec v = format_fixed prec w" "f32_finite v" "f32_finite w"
  shows "\<bar>f32_value v - f32_value w\<bar> \<le> 1 / 10 ^ prec"
proof -
  let ?r = "\<lambda>w. round_even (f32_units w * 10 ^ prec) (2 ^ 150)"
  have nonneg: "0 \<le> ?r x" for x by (rule round_even_nonneg) simp_all
  have plain: "format_fixed prec x = (if f32_negative x then [45] else []) @ fixed_digits prec (nat (?r x))" if "f32_finite x" for x
    using that by (simp add: format_fixed_def f32_NaN_def f32_Inf_def f32_finite_def)
  have "f32_negative v = f32_negative w"
    using assms(1) fixed_digits_number(2) [of prec "nat (?r v)"] fixed_digits_number(2) [of prec "nat (?r w)"]
    unfolding plain [OF assms(2)] plain [OF assms(3)] by (auto split: if_splits dest: arg_cong [where f = hd])
  moreover from this have "fixed_digits prec (nat (?r v)) = fixed_digits prec (nat (?r w))" using assms plain by simp
  then have "nat (?r v) = nat (?r w)" by (rule fixed_digits_inject)
  then have "?r v = ?r w" using nonneg by (simp only: eq_nat_nat_iff)
  then have "\<bar>f32_units v * 10 ^ prec - f32_units w * 10 ^ prec\<bar> \<le> 2 ^ 150"
    by (intro round_even_eq) simp_all
  then have "\<bar>f32_units v - f32_units w\<bar> * 10 ^ prec \<le> 2 ^ 150"
    by (simp add: abs_mult flip: left_diff_distrib)
  then have "real_of_int (\<bar>f32_units v - f32_units w\<bar> * 10 ^ prec) \<le> of_int (2 ^ 150)" by (simp only: of_int_le_iff)
  then have "\<bar>real_of_int (f32_units v) - of_int (f32_units w)\<bar> / 2 ^ 150 \<le> 1 / 10 ^ prec"
    by (simp add: divide_le_eq le_divide_eq)
  ultimately show ?thesis by (auto simp: f32_value_def simp flip: diff_divide_distrib)
qed

section \<open>Trimming what is visible\<close>

definition visible :: "byte \<Rightarrow> bool" where "visible b \<longleftrightarrow> 33 \<le> b \<and> b \<le> 126"

lemma no_space_rune: "visible a \<Longrightarrow> \<not> space_rune (a # s)"
  by (auto simp: space_rune_def visible_def word_le_nat_alt split: list.split)

definition blank :: "byte list \<Rightarrow> bool" where "blank ws \<longleftrightarrow> list_all (\<lambda>b. space_rune [b]) ws"

lemma visible_last:
  assumes "visible b"
  shows "\<not> space_rune (s @ [b])"
proof -
  have "unat b \<le> 126" "33 \<le> unat b" using assms by (simp_all add: visible_def word_le_nat_alt)
  then have "b \<noteq> 0x85 \<and> b \<noteq> 0xA0 \<and> b \<noteq> 0x80 \<and> b \<noteq> 0xA8 \<and> b \<noteq> 0xA9 \<and> b \<noteq> 0xAF \<and> b \<noteq> 0x9F \<and> \<not> 0x80 \<le> b \<and> \<not> b \<le> 13 \<and> b \<noteq> 32"
    by (auto simp: word_le_nat_alt)
  then show ?thesis by (auto simp: space_rune_def split: list.split)
qed

lemma TrimSpace_ends:
  assumes "s \<noteq> []" "visible (hd s)" "visible (last s)" "blank ws" "blank ws'"
  shows "TrimSpace (ws @ s @ ws') = s"
proof -
  obtain a s' where s: "s = a # s'" "visible a" using assms(1,2) by (cases s) auto
  obtain p b where p: "s = p @ [b]" "visible b" using assms(1,3) by (metis append_butlast_last_id)
  have l: "TrimLeftSpace (s @ t) = s @ t" for t
    using s no_space_rune by (subst TrimLeftSpace.simps) (simp add: numeral_2_eq_2 numeral_3_eq_3)
  have "TrimLeftSpace (ws @ s @ t) = s @ t" for t
    using assms(4) by (induction ws) (simp_all add: blank_def l TrimLeftSpace.simps [of "_ # _"])
  moreover have r: "TrimRightSpace (rev s) = rev s"
    using p visible_last visible_last [of b "[]"] by (subst TrimRightSpace.simps) (simp add: numeral_2_eq_2 numeral_3_eq_3)
  have "TrimRightSpace (us @ rev s) = rev s" if "blank us" for us
    using that by (induction us) (simp_all add: blank_def r TrimRightSpace.simps [of "_ # _"])
  then have "TrimRightSpace (rev (s @ ws')) = rev s" using assms(5) by (simp add: blank_def)
  ultimately show ?thesis by (simp add: TrimSpace_def)
qed

lemma TrimSpace_visible:
  "list_all visible s \<Longrightarrow> s \<noteq> [] \<Longrightarrow> blank ws \<Longrightarrow> blank ws' \<Longrightarrow> TrimSpace (ws @ s @ ws') = s"
  by (rule TrimSpace_ends) (auto simp: list_all_iff)

section \<open>Hexadecimal strings in capitals\<close>

fun ascii_upper :: "byte list \<Rightarrow> byte list" where
  "ascii_upper [] = []"
| "ascii_upper (a # s) = (if 97 \<le> a \<and> a \<le> 122 then a - 32 else a) # ascii_upper s"

lemma is_lower_hex_alt: "is_lower_hex b \<longleftrightarrow> 48 \<le> b \<and> b \<le> 57 \<or> 97 \<le> b \<and> b \<le> 102"
  by (simp add: is_lower_hex_def word_le_nat_alt)

definition case_facts :: "byte \<Rightarrow> bool" where
  "case_facts a \<longleftrightarrow> a \<noteq> 0xE2 \<and> a \<noteq> 0xC4 \<and> \<not> (65 \<le> a \<and> a \<le> 90) \<and>
     (if 97 \<le> a \<and> a \<le> 122 then a - 32 \<noteq> 0xE2 \<and> a - 32 \<noteq> 0xC4 \<and> 65 \<le> a - 32 \<and> a - 32 \<le> 90 else True)"

lemma hex_case_facts: "is_lower_hex a \<Longrightarrow> case_facts a"
proof -
  assume "is_lower_hex a"
  then have "unat a \<in> set ([48..<58] @ [97..<103])" unfolding set_append set_upt Un_iff atLeastLessThan_iff is_lower_hex_def by arith
  moreover have "list_all (\<lambda>n. case_facts (of_nat n)) ([48..<58] @ [97..<103])" by code_simp
  ultimately have "case_facts (of_nat (unat a))" unfolding list_all_iff by blast
  then show ?thesis by simp
qed

lemma ToLower_hex: "list_all is_lower_hex s \<Longrightarrow> ToLower s = s \<and> ToLower (ascii_upper s) = s"
proof (induction s)
  case (Cons a s)
  then show ?case using hex_case_facts [of a] by (auto simp: case_facts_def split: if_splits)
qed simp

lemma hex_visible: "list_all is_lower_hex s \<Longrightarrow> list_all visible s \<and> list_all visible (ascii_upper s)"
proof (induction s)
  case (Cons a s)
  have "97 \<le> a \<and> a \<le> 122 \<Longrightarrow> 65 \<le> a - 32 \<and> a - 32 \<le> 90" using Cons.prems hex_case_facts [of a] by (auto simp: case_facts_def)
  then show ?case using Cons by (auto simp: visible_def is_lower_hex_def word_le_nat_alt)
qed simp

end
