(* ===== verification/Catalog.thy ===== *)
theory Catalog
  imports Store_Safety Go_Text Policy "HOL-Library.AList" "HOL-Library.Multiset"
begin

text \<open>
  \<open>internal/publication/catalog.go\<close>: the list of the publications a store knows, holds in part or holds complete, and
  the search for one of them by the beginning of its identifier. The map \<open>byID\<close> is an association list; the order
  in which Go iterates over it, which also decides the order of entries with equal identifiers in a sort that
  is not stable, is the argument \<open>order\<close>, of which the theorems ask only that it is a permutation.

  Lemmas: what every entry of the list says of the store (\<open>entry_true\<close>), kept by the three loops; a partial
  publication that opens is noted by the second loop whatever the others open (\<open>note_partial_notes\<close>); looking at
  the catalog changes nothing outside the directories of partial publications.
\<close>

record CatalogEntry =
  ce_Manifest :: Manifest
  ce_State :: "byte list"
  ce_Wanted :: bool

type_synonym entries = "(ID \<times> CatalogEntry) list"

definition entry_ID :: "CatalogEntry \<Rightarrow> ID" where "entry_ID e = m_ID (ce_Manifest e)"

text \<open>The body of the three loops: an identifier whose manifest cannot be read is passed over.\<close>

definition note_entry :: "io \<Rightarrow> disk \<Rightarrow> byte list \<Rightarrow> ID \<Rightarrow> go_error + Manifest \<Rightarrow> entries \<Rightarrow> entries" where
  "note_entry io fs state pid r byID =
     (case r of
        Inl _ \<Rightarrow> byID
      | Inr m \<Rightarrow> AList.update pid \<lparr>ce_Manifest = m, ce_State = state, ce_Wanted = Wanted io fs pid\<rparr> byID)"

fun note_known :: "crypto \<Rightarrow> io \<Rightarrow> disk \<Rightarrow> ID list \<Rightarrow> entries \<Rightarrow> entries" where
  "note_known c io fs [] byID = byID"
| "note_known c io fs (pid # ids) byID = note_known c io fs ids (note_entry io fs (str ''known'') pid (LoadKnown c io fs pid) byID)"

text \<open>\<open>LoadPartial\<close> opens the partial publication, which may create its directory of chunks.\<close>

fun note_partial :: "crypto \<Rightarrow> io \<Rightarrow> ID list \<Rightarrow> entries \<Rightarrow> disk \<Rightarrow> entries \<times> disk" where
  "note_partial c io [] byID fs = (byID, fs)"
| "note_partial c io (pid # ids) byID fs =
     (case LoadPartial c io pid fs of
        (r, fs) \<Rightarrow> note_partial c io ids
          (note_entry io fs (str ''partial'') pid (case r of Inl e \<Rightarrow> Inl e | Inr a \<Rightarrow> Inr (a_Manifest a)) byID) fs)"

fun note_complete :: "crypto \<Rightarrow> io \<Rightarrow> disk \<Rightarrow> ID list \<Rightarrow> entries \<Rightarrow> entries" where
  "note_complete c io fs [] byID = byID"
| "note_complete c io fs (pid # ids) byID = note_complete c io fs ids (note_entry io fs (str ''complete'') pid (LoadManifest c io fs pid) byID)"

definition Catalog :: "crypto \<Rightarrow> io \<Rightarrow> (CatalogEntry list \<Rightarrow> CatalogEntry list) \<Rightarrow> CatalogEntry list call" where
  "Catalog c io order fs =
     (case KnownIDs c io fs of
        Inl e \<Rightarrow> (Inl e, fs)
      | Inr known \<Rightarrow>
        (case PartialIDs io fs of
           Inl e \<Rightarrow> (Inl e, fs)
         | Inr partial \<Rightarrow>
           (case note_partial c io partial (note_known c io fs known []) fs of
              (byID, fs) \<Rightarrow>
              (case IDs c io fs of
                 Inl e \<Rightarrow> (Inl e, fs)
               | Inr full \<Rightarrow>
                 (Inr (sort_key (\<lambda>e. ID_String (entry_ID e)) (order (map snd (note_complete c io fs full byID)))), fs)))))"

definition Resolve :: "crypto \<Rightarrow> io \<Rightarrow> (CatalogEntry list \<Rightarrow> CatalogEntry list) \<Rightarrow> byte list \<Rightarrow> ID call" where
  "Resolve c io order given fs =
     (let start = ToLower (TrimSpace given) in
      if length start < 4 \<or> length start > 32
      then (Inl (Failure ''publication ID prefix must contain 4-32 hex characters''), fs)
      else and_then (Catalog c io order) (\<lambda>entries fs.
        (case map entry_ID (filter (\<lambda>e. prefix start (ID_String (entry_ID e))) entries) of
           [] \<Rightarrow> Inl (Failure ''publication ID not found'')
         | [pid] \<Rightarrow> Inr pid
         | _ \<Rightarrow> Inl (Failure ''publication ID prefix is ambiguous''), fs)) fs)"

section \<open>What the entries say\<close>

definition permutes :: "(CatalogEntry list \<Rightarrow> CatalogEntry list) \<Rightarrow> bool" where
  "permutes order \<longleftrightarrow> (\<forall>xs. mset (order xs) = mset xs)"

lemma permutes_set [simp]: "permutes order \<Longrightarrow> set (order xs) = set xs"
  by (metis permutes_def mset_eq_setD)

text \<open>
  What an entry says of the store: a complete publication passes the test of the store, and its manifest is the
  one stored with it; a partial or known one has the manifest of its place.
\<close>

definition entry_true :: "crypto \<Rightarrow> io \<Rightarrow> disk \<Rightarrow> ID \<Rightarrow> CatalogEntry \<Rightarrow> bool" where
  "entry_true c io fs pid e \<longleftrightarrow>
     (ce_Wanted e = Wanted io fs pid) \<and>
     (ce_State e = str ''complete'' \<and> Complete c io fs pid \<and> LoadManifest c io fs pid = Inr (ce_Manifest e) \<or>
      ce_State e = str ''partial'' \<and> readManifest c io fs (manifest_file (partialDir pid)) = Inr (ce_Manifest e) \<or>
      ce_State e = str ''known'' \<and> HasKnown c io fs pid \<and> LoadKnown c io fs pid = Inr (ce_Manifest e))"

text \<open>The identifiers of a directory.\<close>

lemma list_ids_iff:
  assumes "ReadDir io fs dir = Inr es" "list_ids io fs dir keep = Inr ids"
  shows "pid \<in> set ids \<longleftrightarrow> keep pid \<and> (\<exists>name. (name, True) \<in> set es \<and> ParseID name = Inr pid)"
proof -
  let ?f = "\<lambda>(name, isDir). if \<not> isDir then []
      else case ParseID name of Inl _ \<Rightarrow> [] | Inr pid \<Rightarrow> if keep pid then [pid] else []"
  have f: "pid \<in> set (?f (name, d)) \<longleftrightarrow> d \<and> keep pid \<and> ParseID name = Inr pid" for name d
    by (auto split: sum.splits)
  have "ids = sort (concat (map ?f es))" using assms by (simp add: list_ids_def)
  then have "pid \<in> set ids \<longleftrightarrow> (\<exists>x \<in> set es. pid \<in> set (?f x))" by (simp only: set_sort set_concat set_map) blast
  also have "\<dots> \<longleftrightarrow> (\<exists>(name, d) \<in> set es. pid \<in> set (?f (name, d)))" by (intro bex_cong refl) (simp only: split_beta prod.collapse)
  also have "\<dots> \<longleftrightarrow> (\<exists>(name, d) \<in> set es. d \<and> keep pid \<and> ParseID name = Inr pid)" unfolding f ..
  finally show ?thesis by auto
qed

lemma list_ids_keep:
  assumes "list_ids io fs dir keep = Inr ids" "pid \<in> set ids"
  shows "keep pid"
proof (cases "ReadDir io fs dir")
  case (Inr es)
  then show ?thesis using list_ids_iff [OF Inr assms(1)] assms(2) by simp
qed (use assms in \<open>auto simp: list_ids_def split: go_error.splits\<close>)

lemma list_ids_all:
  assumes "list_ids io fs dir keep = Inr ids" "lookup fs dir = Some Dir" "lookup fs (dir @ [ID_String pid]) = Some Dir" "keep pid"
  shows "pid \<in> set ids"
proof (cases "ReadDir io fs dir")
  case (Inr es)
  have "(ID_String pid, True) \<in> set es" using ReadDir_names [OF Inr] assms(3) by blast
  then show ?thesis using list_ids_iff [OF Inr assms(1)] assms(4) ParseID_ID_String by blast
next
  case (Inl e)
  then show ?thesis using assms(1,2) by (auto simp: list_ids_def ReadDir_def is_dir_def split: go_error.splits if_splits)
qed

text \<open>The loops: what they note is true, nothing noted is lost, and the identifiers stay distinct.\<close>

definition noted :: "(ID \<Rightarrow> CatalogEntry \<Rightarrow> bool) \<Rightarrow> entries \<Rightarrow> bool" where
  "noted T byID \<longleftrightarrow> distinct (map fst byID) \<and> (\<forall>(pid, e) \<in> set byID. T pid e)"

lemma noted_note_entry:
  assumes "noted T byID" "\<And>m. r = Inr m \<Longrightarrow> T pid \<lparr>ce_Manifest = m, ce_State = state, ce_Wanted = Wanted io fs pid\<rparr>"
  shows "noted T (note_entry io fs state pid r byID)" "fst ` set byID \<subseteq> fst ` set (note_entry io fs state pid r byID)"
proof -
  show "noted T (note_entry io fs state pid r byID)"
  proof (cases r)
    case (Inr m)
    let ?b = "AList.update pid \<lparr>ce_Manifest = m, ce_State = state, ce_Wanted = Wanted io fs pid\<rparr> byID"
    have d: "distinct (map fst ?b)" using assms(1) by (simp add: noted_def distinct_update)
    have "T q e" if "(q, e) \<in> set ?b" for q e
    proof -
      have "map_of ?b q = Some e" using d that by simp
      then show ?thesis using assms Inr by (auto simp: update_conv' noted_def split: if_splits dest: map_of_SomeD)
    qed
    with d show ?thesis using Inr by (auto simp: note_entry_def noted_def)
  qed (use assms(1) in \<open>simp add: note_entry_def\<close>)
  show "fst ` set byID \<subseteq> fst ` set (note_entry io fs state pid r byID)"
    by (cases r) (simp_all only: note_entry_def sum.case dom_update Un_upper2 order_refl)
qed

definition ids_match :: "crypto \<Rightarrow> io \<Rightarrow> disk \<Rightarrow> bool" where
  "ids_match c io fs \<longleftrightarrow> (\<forall>pid m. LoadManifest c io fs pid = Inr m \<or>
     readManifest c io fs (manifest_file (partialDir pid)) = Inr m \<longrightarrow> m_ID m = pid)"

text \<open>What looking at the catalog leaves alone: everything but the missing directories of chunks, which it may add.\<close>

definition same_files :: "disk \<Rightarrow> disk \<Rightarrow> bool" where
  "same_files fs fs' \<longleftrightarrow> (\<forall>q. lookup fs' q = lookup fs q \<or>
     lookup fs q = None \<and> lookup fs' q = Some Dir \<and> (\<exists>pid. prefix q (chunks_dir pid)))"

lemma same_files_refl: "same_files fs fs"
  by (simp add: same_files_def)

lemma same_files_trans: "same_files fs fs1 \<Longrightarrow> same_files fs1 fs2 \<Longrightarrow> same_files fs fs2"
  unfolding same_files_def by metis

lemma same_files_other: "same_files fs fs' \<Longrightarrow> (\<And>pid. \<not> prefix q (chunks_dir pid)) \<Longrightarrow> lookup fs' q = lookup fs q"
  unfolding same_files_def by metis

lemma same_files_kept: "same_files fs fs' \<Longrightarrow> lookup fs q = Some n \<Longrightarrow> lookup fs' q = Some n"
  unfolding same_files_def by (metis option.distinct(1))

lemma manifest_not_ID: "str ''manifest.json'' \<noteq> ID_String pid"
  by (rule notI, drule arg_cong [where f = length]) simp

lemma not_in_chunks_dir [simp]:
  "\<not> prefix (manifest_file d) (chunks_dir pid)" "\<not> prefix (want_file pid') (chunks_dir pid)"
  "\<not> prefix (content_file pid') (chunks_dir pid)" "\<not> prefix (complete_file pid') (chunks_dir pid)"
  "\<not> prefix (objectDir pid') (chunks_dir pid)" "\<not> prefix (knownDir pid') (chunks_dir pid)"
  "\<not> prefix [str ''objects''] (chunks_dir pid)" "\<not> prefix [str ''known''] (chunks_dir pid)"
  by (auto simp: chunks_dir_def path_defs prefix_Cons manifest_not_ID)

lemma same_files_reads:
  assumes "same_files fs fs'"
  shows "readManifest c io fs' (manifest_file d) = readManifest c io fs (manifest_file d)" "Wanted io fs' pid = Wanted io fs pid"
    "Complete c io fs' pid = Complete c io fs pid" "LoadManifest c io fs' pid = LoadManifest c io fs pid"
    "LoadKnown c io fs' pid = LoadKnown c io fs pid" "HasKnown c io fs' pid = HasKnown c io fs pid"
proof -
  have same: "lookup fs' q = lookup fs q" if "\<And>pid. \<not> prefix q (chunks_dir pid)" for q
    using assms that by (rule same_files_other)
  show m: "readManifest c io fs' (manifest_file d) = readManifest c io fs (manifest_file d)" for d
    by (intro readManifest_cong same) simp
  show "Wanted io fs' pid = Wanted io fs pid" by (simp add: Wanted_def Stat_def same)
  show "LoadManifest c io fs' pid = LoadManifest c io fs pid" "LoadKnown c io fs' pid = LoadKnown c io fs pid"
    "HasKnown c io fs' pid = HasKnown c io fs pid" by (simp_all add: LoadManifest_def LoadKnown_def HasKnown_def m)
  show "Complete c io fs' pid = Complete c io fs pid"
  proof (rule Complete_cong)
    fix q assume "in_object pid q"
    then have "\<not> prefix q (chunks_dir pid')" for pid' by (auto simp: in_object_def chunks_dir_def path_defs prefix_Cons)
    then show "lookup fs' q = lookup fs q" using same by simp
  qed
qed

lemma same_files_true: "same_files fs fs' \<Longrightarrow> entry_true c io fs' pid e = entry_true c io fs pid e"
  by (simp add: entry_true_def same_files_reads)

lemma same_files_ids_match: "same_files fs fs' \<Longrightarrow> ids_match c io fs' = ids_match c io fs"
  by (simp add: ids_match_def same_files_reads)

lemma LoadPartial_same_files:
  assumes "LoadPartial c io pid fs = (r, fs')" "ids_match c io fs"
  shows "same_files fs fs'" "\<And>a. r = Inr a \<Longrightarrow> readManifest c io fs (manifest_file (partialDir pid)) = Inr (a_Manifest a)"
proof -
  have "same_files fs fs' \<and> (\<forall>a. r = Inr a \<longrightarrow> readManifest c io fs (manifest_file (partialDir pid)) = Inr (a_Manifest a))"
  proof (cases "readManifest c io fs (manifest_file (partialDir pid))")
    case (Inl e)
    then show ?thesis using assms(1) same_files_refl by (auto simp: LoadPartial_def)
  next
    case (Inr m)
    then have b: "Begin c io m fs = (r, fs')" using assms(1) by (simp add: LoadPartial_def)
    have mid: "m_ID m = pid" using assms(2) Inr by (auto simp: ids_match_def)
    have "lookup fs' q = lookup fs q \<or> lookup fs q = None \<and> lookup fs' q = Some Dir \<and> (\<exists>pid. prefix q (chunks_dir pid))" for q
    proof -
      obtain r1 fs1 where fs1: "MkdirAll io (chunks_dir (m_ID m)) fs = (r1, fs1)" by fastforce
      obtain mode v where v: "\<not> read_fails io (manifest_file (partialDir pid))"
          "lookup fs (manifest_file (partialDir pid)) = Some (File mode (ManifestDoc v))" using Inr by (auto simp: readManifest_iff)
      then have "ReadFile io fs1 (manifest_file (partialDir (m_ID m))) = Inr (ManifestDoc v)"
        using MkdirAll_File [OF fs1 v(2)] mid by simp
      then have "\<exists>r2. open_manifest c io m fs1 = (r2, fs1)" by (simp add: open_manifest_def del: ReadFile_Inr_iff)
      then have "fs' = fs \<or> fs' = fs1" using b fs1
        by (auto simp: Begin_alt and_then_def split: if_splits sum.splits prod.splits)
      then show ?thesis using MkdirAll_lookup [OF fs1, of q] by blast
    qed
    then have "same_files fs fs'" by (simp add: same_files_def)
    moreover have "a_Manifest a = m" if "r = Inr a" for a
    proof -
      have "geometry m" using readManifest_Inr [OF Inr] by (simp add: manifest_ok_def)
      then show ?thesis using Begin_Inr b that by blast
    qed
    ultimately show ?thesis using Inr by auto
  qed
  then show "same_files fs fs'" "\<And>a. r = Inr a \<Longrightarrow> readManifest c io fs (manifest_file (partialDir pid)) = Inr (a_Manifest a)"
    by auto
qed

text \<open>Missing chunk directories, once added, do not make it harder to open a partial publication.\<close>

definition more_dirs :: "disk \<Rightarrow> disk \<Rightarrow> bool" where
  "more_dirs fs gs \<longleftrightarrow> (\<forall>q. lookup gs q = lookup fs q \<or> lookup fs q = None \<and> lookup gs q = Some Dir)"

lemma same_files_more_dirs: "same_files fs gs \<Longrightarrow> more_dirs fs gs"
  unfolding same_files_def more_dirs_def by blast

lemma make_dirs_more_dirs:
  "make_dirs io p cs fs = (Inr (), fs') \<Longrightarrow> more_dirs fs gs \<Longrightarrow> \<exists>gs'. make_dirs io p cs gs = (Inr (), gs')"
proof (induction cs arbitrary: p fs gs)
  case (Cons d cs)
  have q: "lookup gs (p @ [d]) = lookup fs (p @ [d]) \<or> lookup fs (p @ [d]) = None \<and> lookup gs (p @ [d]) = Some Dir"
    using Cons.prems(2) unfolding more_dirs_def by blast
  show ?case
  proof (cases "lookup fs (p @ [d])")
    case (Some n)
    then have "n = Dir" "make_dirs io (p @ [d]) cs fs = (Inr (), fs')" using Cons.prems(1) by (auto split: node.splits)
    then show ?thesis using Cons.IH [OF _ Cons.prems(2)] q Some by auto
  next
    case None
    let ?fs = "put (p @ [d]) Dir fs" and ?gs = "if lookup gs (p @ [d]) = None then put (p @ [d]) Dir gs else gs"
    have run: "\<not> mkdir_fails io (p @ [d])" "make_dirs io (p @ [d]) cs ?fs = (Inr (), fs')"
      using Cons.prems(1) None by (auto split: if_splits)
    have "more_dirs ?fs ?gs" using Cons.prems(2) q None unfolding more_dirs_def by (auto simp: disk_simps)
    then show ?thesis using Cons.IH [OF run(2), of ?gs] run(1) q None by (auto split: if_splits)
  qed
qed simp

lemma load_chunks_cong:
  "(\<And>pid i. lookup gs (chunk_file pid i) = lookup fs (chunk_file pid i)) \<Longrightarrow> load_chunks io gs is a = load_chunks io fs is a"
proof (induction "is" arbitrary: a)
  case (Cons i "is")
  have "ReadBytes io gs (chunk_file (m_ID (a_Manifest a)) i) = ReadBytes io fs (chunk_file (m_ID (a_Manifest a)) i)"
    by (rule read_cong(2)) (rule Cons.prems)
  moreover have "load_chunks io gs is = load_chunks io fs is" using Cons by blast
  ultimately show ?case by (cases "ReadBytes io fs (chunk_file (m_ID (a_Manifest a)) i)") (simp_all del: ReadBytes_Inr_iff)
qed simp

lemma LoadPartial_later:
  assumes "LoadPartial c io pid fs = (Inr a, fs')" "same_files fs gs" "ids_match c io fs"
  shows "\<exists>gs'. LoadPartial c io pid gs = (Inr a, gs')"
proof -
  obtain m where m: "readManifest c io fs (manifest_file (partialDir pid)) = Inr m" "Begin c io m fs = (Inr a, fs')"
    using assms(1) by (auto simp: LoadPartial_def split: sum.splits)
  have mid: "m_ID m = pid" using assms(3) m(1) by (auto simp: ids_match_def)
  obtain fs1 where b: "safe_name (m_Filename m)" "MkdirAll io (chunks_dir pid) fs = (Inr (), fs1)" "open_manifest c io m fs1 = (Inr (), fs')"
    "load_chunks io fs' [0..<unat (m_ChunkCount m)] (NewAssembly m) = Inr a"
    using m(2) mid unfolding Begin_alt by (auto split: if_splits)
  obtain gs1 where g: "MkdirAll io (chunks_dir pid) gs = (Inr (), gs1)"
    using make_dirs_more_dirs [OF b(2) [unfolded MkdirAll_def] same_files_more_dirs [OF assms(2)]] by (auto simp: MkdirAll_def)
  have same: "lookup gs1 q = lookup fs1 q" if "\<And>pid. \<not> prefix q (chunks_dir pid)" for q
    using same_files_other [OF assms(2) that] MkdirAll_other [OF g] MkdirAll_other [OF b(2)] that by simp
  obtain mode v where v: "\<not> read_fails io (manifest_file (partialDir pid))"
      "lookup fs1 (manifest_file (partialDir pid)) = Some (File mode (ManifestDoc v))"
    using m(1) MkdirAll_File [OF b(2)] by (auto simp: readManifest_iff)
  then have "ReadFile io fs1 (manifest_file (partialDir pid)) = Inr (ManifestDoc v)"
    "ReadFile io gs1 (manifest_file (partialDir pid)) = Inr (ManifestDoc v)" using same by simp_all
  then have om: "fs' = fs1" "open_manifest c io m gs1 = (Inr (), gs1)"
    using b(3) by (simp_all add: open_manifest_def mid del: ReadFile_Inr_iff split: if_splits)
  have "load_chunks io gs1 [0..<unat (m_ChunkCount m)] (NewAssembly m) = Inr a"
    using b(4) om(1) load_chunks_cong [of gs1 fs1] same by simp
  then have "Begin c io m gs = (Inr a, gs1)" using b(1) g om(2) mid by (simp add: Begin_alt and_then_def)
  then show ?thesis using m(1) same_files_reads(1) [OF assms(2)] by (simp add: LoadPartial_def)
qed

section \<open>The loops\<close>

lemma map_of_note_entry:
  "map_of (note_entry io fs state pid r byID) =
     (case r of Inl _ \<Rightarrow> map_of byID | Inr m \<Rightarrow> (map_of byID)(pid \<mapsto> \<lparr>ce_Manifest = m, ce_State = state, ce_Wanted = Wanted io fs pid\<rparr>))"
  by (simp add: note_entry_def update_conv' split: sum.split)

lemma entry_trueI:
  "HasKnown c io fs pid \<Longrightarrow> LoadKnown c io fs pid = Inr m \<Longrightarrow>
     entry_true c io fs pid \<lparr>ce_Manifest = m, ce_State = str ''known'', ce_Wanted = Wanted io fs pid\<rparr>"
  "readManifest c io fs (manifest_file (partialDir pid)) = Inr m \<Longrightarrow>
     entry_true c io fs pid \<lparr>ce_Manifest = m, ce_State = str ''partial'', ce_Wanted = Wanted io fs pid\<rparr>"
  "Complete c io fs pid \<Longrightarrow> LoadManifest c io fs pid = Inr m \<Longrightarrow>
     entry_true c io fs pid \<lparr>ce_Manifest = m, ce_State = str ''complete'', ce_Wanted = Wanted io fs pid\<rparr>"
  by (simp_all add: entry_true_def)

lemma note_known_noted:
  assumes "noted (entry_true c io fs) byID" "\<forall>pid \<in> set ids. HasKnown c io fs pid"
  shows "noted (entry_true c io fs) (note_known c io fs ids byID) \<and>
    fst ` set byID \<union> set ids \<subseteq> fst ` set (note_known c io fs ids byID)"
  using assms
proof (induction ids arbitrary: byID)
  case (Cons pid ids)
  let ?b = "note_entry io fs (str ''known'') pid (LoadKnown c io fs pid) byID"
  obtain m where m: "LoadKnown c io fs pid = Inr m" using Cons.prems(2) by (auto simp: HasKnown_def split: sum.splits)
  have "noted (entry_true c io fs) ?b" "fst ` set byID \<subseteq> fst ` set ?b"
    using noted_note_entry [OF Cons.prems(1), of "LoadKnown c io fs pid" pid "str ''known''" io fs] Cons.prems(2) entry_trueI
    by simp_all
  moreover have "pid \<in> fst ` set ?b" by (simp add: m note_entry_def dom_update)
  ultimately show ?case using Cons.IH [of ?b] Cons.prems(2) unfolding note_known.simps list.set by blast
qed simp

lemma note_partial_noted:
  assumes "noted (entry_true c io fs0) byID" "same_files fs0 fs" "ids_match c io fs0" "note_partial c io ids byID fs = (byID', fs')"
  shows "noted (entry_true c io fs0) byID' \<and> fst ` set byID \<subseteq> fst ` set byID' \<and> same_files fs0 fs'"
  using assms
proof (induction ids arbitrary: byID fs)
  case (Cons pid ids)
  obtain r fs1 where r: "LoadPartial c io pid fs = (r, fs1)" by fastforce
  let ?r = "case r of Inl e \<Rightarrow> Inl e | Inr a \<Rightarrow> Inr (a_Manifest a)"
  let ?b = "note_entry io fs1 (str ''partial'') pid ?r byID"
  have "ids_match c io fs" using Cons.prems(2,3) same_files_ids_match by blast
  note p = LoadPartial_same_files [OF r this]
  have same: "same_files fs0 fs1" using same_files_trans [OF Cons.prems(2) p(1)] .
  have "readManifest c io fs0 (manifest_file (partialDir pid)) = Inr m" if "?r = Inr m" for m
    using p(2) that same_files_reads(1) [OF Cons.prems(2)] by (cases r) auto
  then have "noted (entry_true c io fs0) ?b" "fst ` set byID \<subseteq> fst ` set ?b"
    using noted_note_entry [OF Cons.prems(1), of ?r pid "str ''partial''" io fs1]
      entry_trueI(2) [of c io fs0 pid] by (simp_all add: same_files_reads(2) [OF same])
  then show ?case using Cons.IH [OF _ same Cons.prems(3), of ?b] Cons.prems(4) r by auto
qed simp

text \<open>A partial publication that can be opened is noted as one, whatever else the loop opens before or after it.\<close>

lemma note_partial_notes:
  assumes "same_files fs0 fs" "ids_match c io fs0" "note_partial c io ids byID fs = (byID', fs')"
    and "LoadPartial c io pid fs0 = (Inr a, gs)"
    and "pid \<in> set ids \<or> map_of byID pid = Some \<lparr>ce_Manifest = a_Manifest a, ce_State = str ''partial'', ce_Wanted = Wanted io fs0 pid\<rparr>"
  shows "map_of byID' pid = Some \<lparr>ce_Manifest = a_Manifest a, ce_State = str ''partial'', ce_Wanted = Wanted io fs0 pid\<rparr>"
  using assms(1,3,5)
proof (induction ids arbitrary: byID fs)
  case (Cons p ids)
  let ?e = "\<lparr>ce_Manifest = a_Manifest a, ce_State = str ''partial'', ce_Wanted = Wanted io fs0 pid\<rparr>"
  obtain r fs1 where r: "LoadPartial c io p fs = (r, fs1)" by fastforce
  let ?b = "note_entry io fs1 (str ''partial'') p (case r of Inl e \<Rightarrow> Inl e | Inr a \<Rightarrow> Inr (a_Manifest a)) byID"
  have "ids_match c io fs" using Cons.prems(1) assms(2) same_files_ids_match by blast
  then have same: "same_files fs0 fs1" using same_files_trans [OF Cons.prems(1)] LoadPartial_same_files(1) [OF r] by blast
  have "map_of ?b pid = Some ?e" if "p = pid"
  proof -
    obtain gs' where "LoadPartial c io pid fs = (Inr a, gs')" using LoadPartial_later [OF assms(4) Cons.prems(1) assms(2)] by blast
    then have "r = Inr a" using r that by simp
    then show ?thesis using that same_files_reads(2) [OF same] by (simp add: map_of_note_entry)
  qed
  moreover have "map_of ?b pid = map_of byID pid" if "p \<noteq> pid"
    using that by (simp add: map_of_note_entry split: sum.split)
  ultimately have "pid \<in> set ids \<or> map_of ?b pid = Some ?e" using Cons.prems(3) by (cases "p = pid") auto
  then show ?case using Cons.IH [OF same, of ?b] Cons.prems(2) r by simp
qed simp

lemma note_complete_noted:
  assumes "noted (entry_true c io fs) byID" "\<forall>pid \<in> set ids. Complete c io fs pid"
  shows "noted (entry_true c io fs) (note_complete c io fs ids byID) \<and>
    fst ` set byID \<subseteq> fst ` set (note_complete c io fs ids byID)"
  using assms
proof (induction ids arbitrary: byID)
  case (Cons pid ids)
  let ?b = "note_entry io fs (str ''complete'') pid (LoadManifest c io fs pid) byID"
  have "noted (entry_true c io fs) ?b" "fst ` set byID \<subseteq> fst ` set ?b"
    using noted_note_entry [OF Cons.prems(1), of "LoadManifest c io fs pid" pid "str ''complete''" io fs] Cons.prems(2) entry_trueI
    by simp_all
  then show ?case using Cons.IH [of ?b] Cons.prems(2) by auto
qed simp

lemma note_complete_state:
  "map_of (note_complete c io fs ids byID) pid =
     (if pid \<in> set ids then (case LoadManifest c io fs pid of
          Inl _ \<Rightarrow> map_of byID pid
        | Inr m \<Rightarrow> Some \<lparr>ce_Manifest = m, ce_State = str ''complete'', ce_Wanted = Wanted io fs pid\<rparr>)
      else map_of byID pid)"
  by (induction ids arbitrary: byID) (auto simp: map_of_note_entry split: sum.split)

lemma entry_true_ID: "entry_true c io fs pid e \<Longrightarrow> ids_match c io fs \<Longrightarrow> entry_ID e = pid"
  by (auto simp: entry_true_def entry_ID_def ids_match_def HasKnown_def)

lemma noted_IDs:
  assumes "noted (entry_true c io fs) byID" "ids_match c io fs"
  shows "map entry_ID (map snd byID) = map fst byID"
  using assms entry_true_ID by (fastforce simp: noted_def)

lemma Catalog_noted:
  assumes "Catalog c io order fs = (Inr out, fs')" "ids_match c io fs"
  obtains byID where "out = sort_key (\<lambda>e. ID_String (entry_ID e)) (order (map snd byID))" "noted (entry_true c io fs) byID"
    "same_files fs fs'"
    "\<And>pid. lookup fs [str ''objects''] = Some Dir \<Longrightarrow> lookup fs (objectDir pid) = Some Dir \<Longrightarrow> Complete c io fs pid \<Longrightarrow>
       \<exists>e. (pid, e) \<in> set byID \<and> ce_State e = str ''complete''"
    "\<And>pid. lookup fs [str ''known''] = Some Dir \<Longrightarrow> lookup fs (knownDir pid) = Some Dir \<Longrightarrow> HasKnown c io fs pid \<Longrightarrow>
       pid \<in> fst ` set byID"
    "\<And>pid a gs. lookup fs [str ''partial''] = Some Dir \<Longrightarrow> lookup fs (partialDir pid) = Some Dir \<Longrightarrow>
       LoadPartial c io pid fs = (Inr a, gs) \<Longrightarrow> \<not> Complete c io fs pid \<Longrightarrow>
       (pid, \<lparr>ce_Manifest = a_Manifest a, ce_State = str ''partial'', ce_Wanted = Wanted io fs pid\<rparr>) \<in> set byID"
proof -
  obtain known partial byID full where k: "KnownIDs c io fs = Inr known" "PartialIDs io fs = Inr partial"
      "note_partial c io partial (note_known c io fs known []) fs = (byID, fs')" "IDs c io fs' = Inr full"
      "out = sort_key (\<lambda>e. ID_String (entry_ID e)) (order (map snd (note_complete c io fs' full byID)))"
    using assms(1) by (auto simp: Catalog_def split: sum.splits prod.splits)
  let ?b = "note_complete c io fs' full byID"
  have "\<forall>pid \<in> set known. HasKnown c io fs pid" using k(1) list_ids_keep by (fastforce simp: KnownIDs_def)
  then have b0: "noted (entry_true c io fs) (note_known c io fs known []) \<and> set known \<subseteq> fst ` set (note_known c io fs known [])"
    using note_known_noted [of c io fs "[]" known] by (simp add: noted_def)
  have b1: "noted (entry_true c io fs) byID" "set known \<subseteq> fst ` set byID" and same: "same_files fs fs'"
    using note_partial_noted [OF _ same_files_refl assms(2) k(3)] b0 by auto
  have full: "\<forall>pid \<in> set full. Complete c io fs' pid" using k(4) list_ids_keep by (fastforce simp: IDs_def)
  have T: "entry_true c io fs' = entry_true c io fs" using same_files_true [OF same] by blast
  have b2: "noted (entry_true c io fs) ?b" "set known \<subseteq> fst ` set ?b"
    using note_complete_noted [of c io fs' byID full] b1 full T by auto
  show thesis
  proof (rule that [OF k(5) b2(1) same])
    fix pid assume p: "lookup fs [str ''objects''] = Some Dir" "lookup fs (objectDir pid) = Some Dir" "Complete c io fs pid"
    have "lookup fs' q = lookup fs q" if "q = [str ''objects''] \<or> q = objectDir pid" for q
      using that by (intro same_files_other [OF same]) auto
    then have "lookup fs' [str ''objects''] = Some Dir" "lookup fs' ([str ''objects''] @ [ID_String pid]) = Some Dir" "Complete c io fs' pid"
      using p same_files_reads(3) [OF same] by (auto simp: objectDir_def)
    then have "pid \<in> set full" using k(4) list_ids_all unfolding IDs_def by blast
    moreover obtain m where "LoadManifest c io fs' pid = Inr m" using \<open>Complete c io fs' pid\<close> by (auto simp: Complete_iff)
    ultimately have "map_of ?b pid = Some \<lparr>ce_Manifest = m, ce_State = str ''complete'', ce_Wanted = Wanted io fs' pid\<rparr>"
      by (simp add: note_complete_state)
    then show "\<exists>e. (pid, e) \<in> set ?b \<and> ce_State e = str ''complete''" by (auto dest: map_of_SomeD)
  next
    fix pid assume "lookup fs [str ''known''] = Some Dir" "lookup fs (knownDir pid) = Some Dir" "HasKnown c io fs pid"
    then have "pid \<in> set known" using k(1) list_ids_all [of io fs "[str ''known'']"] by (simp add: KnownIDs_def knownDir_def)
    then show "pid \<in> fst ` set ?b" using b2(2) by blast
  next
    fix pid a gs
    assume p: "lookup fs [str ''partial''] = Some Dir" "lookup fs (partialDir pid) = Some Dir"
      "LoadPartial c io pid fs = (Inr a, gs)" "\<not> Complete c io fs pid"
    obtain m where "readManifest c io fs (manifest_file (partialDir pid)) = Inr m"
      using p(3) by (auto simp: LoadPartial_def split: sum.splits)
    then have "HasPartial io fs pid" by (auto simp: HasPartial_def readManifest_iff Stat_def)
    then have "pid \<in> set partial" using k(2) list_ids_all [of io fs "[str ''partial'']"] p(1,2) by (simp add: PartialIDs_def partialDir_def)
    then have "map_of byID pid = Some \<lparr>ce_Manifest = a_Manifest a, ce_State = str ''partial'', ce_Wanted = Wanted io fs pid\<rparr>"
      using note_partial_notes [OF same_files_refl assms(2) k(3) p(3)] by blast
    moreover have "pid \<notin> set full" using full p(4) same_files_reads(3) [OF same] by auto
    ultimately show "(pid, \<lparr>ce_Manifest = a_Manifest a, ce_State = str ''partial'', ce_Wanted = Wanted io fs pid\<rparr>) \<in> set ?b"
      using map_of_SomeD [of ?b pid] by (simp add: note_complete_state)
  qed
qed

section \<open>Searching\<close>

text \<open>An identifier may be typed in capitals and with white space around it.\<close>

lemma resolve_argument:
  assumes "list_all is_lower_hex s" "s \<noteq> []" "blank ws" "blank ws'" "shown = s \<or> shown = ascii_upper s"
  shows "ToLower (TrimSpace (ws @ shown @ ws')) = s"
proof -
  have "ascii_upper s \<noteq> []" using assms(2) by (cases s) auto
  then have "TrimSpace (ws @ shown @ ws') = shown"
    using assms hex_visible [OF assms(1)] TrimSpace_visible [of shown ws ws'] by auto
  then show ?thesis using ToLower_hex [OF assms(1)] assms(5) by auto
qed

lemma Resolve_Inr:
  "Resolve c io order given fs = (Inr pid, fs') \<longleftrightarrow>
     4 \<le> length (ToLower (TrimSpace given)) \<and> length (ToLower (TrimSpace given)) \<le> 32 \<and>
     (\<exists>out. Catalog c io order fs = (Inr out, fs') \<and>
       map entry_ID (filter (\<lambda>e. prefix (ToLower (TrimSpace given)) (ID_String (entry_ID e))) out) = [pid])"
proof -
  have one: "(case xs of [] \<Rightarrow> Inl e | [pid] \<Rightarrow> Inr pid | _ \<Rightarrow> Inl e') = Inr pid \<longleftrightarrow> xs = [pid]" for xs :: "ID list" and e e' :: go_error
    by (auto split: list.split)
  show ?thesis by (auto simp: Resolve_def Let_def one)
qed

lemma Catalog_exact:
  assumes "Catalog c io order fs = (Inr out, fs')" "permutes order" "ids_match c io fs"
  shows "sorted_wrt (\<lambda>a b. ID_String (entry_ID a) < ID_String (entry_ID b)) out" "same_files fs fs'"
    "\<And>e. e \<in> set out \<Longrightarrow> entry_true c io fs (entry_ID e) e"
    "\<And>pid. lookup fs [str ''objects''] = Some Dir \<Longrightarrow> lookup fs (objectDir pid) = Some Dir \<Longrightarrow> Complete c io fs pid \<Longrightarrow>
       \<exists>e \<in> set out. entry_ID e = pid \<and> ce_State e = str ''complete''"
    "\<And>pid. lookup fs [str ''known''] = Some Dir \<Longrightarrow> lookup fs (knownDir pid) = Some Dir \<Longrightarrow> HasKnown c io fs pid \<Longrightarrow>
       \<exists>e \<in> set out. entry_ID e = pid"
    "\<And>pid a gs. lookup fs [str ''partial''] = Some Dir \<Longrightarrow> lookup fs (partialDir pid) = Some Dir \<Longrightarrow>
       LoadPartial c io pid fs = (Inr a, gs) \<Longrightarrow> \<not> Complete c io fs pid \<Longrightarrow>
       \<lparr>ce_Manifest = a_Manifest a, ce_State = str ''partial'', ce_Wanted = Wanted io fs pid\<rparr> \<in> set out"
proof -
  obtain byID where b: "out = sort_key (\<lambda>e. ID_String (entry_ID e)) (order (map snd byID))" "noted (entry_true c io fs) byID"
      "same_files fs fs'"
      "\<And>pid. lookup fs [str ''objects''] = Some Dir \<Longrightarrow> lookup fs (objectDir pid) = Some Dir \<Longrightarrow> Complete c io fs pid \<Longrightarrow>
         \<exists>e. (pid, e) \<in> set byID \<and> ce_State e = str ''complete''"
      "\<And>pid. lookup fs [str ''known''] = Some Dir \<Longrightarrow> lookup fs (knownDir pid) = Some Dir \<Longrightarrow> HasKnown c io fs pid \<Longrightarrow>
         pid \<in> fst ` set byID"
      "\<And>pid a gs. lookup fs [str ''partial''] = Some Dir \<Longrightarrow> lookup fs (partialDir pid) = Some Dir \<Longrightarrow>
         LoadPartial c io pid fs = (Inr a, gs) \<Longrightarrow> \<not> Complete c io fs pid \<Longrightarrow>
         (pid, \<lparr>ce_Manifest = a_Manifest a, ce_State = str ''partial'', ce_Wanted = Wanted io fs pid\<rparr>) \<in> set byID"
    by (rule Catalog_noted [OF assms(1,3)], rule that) (assumption | blast)+
  show "same_files fs fs'" by fact
  have set: "set out = snd ` set byID" using b(1) assms(2) by simp
  have T: "entry_true c io fs pid e" "entry_ID e = pid" if "(pid, e) \<in> set byID" for pid e
    using b(2) that entry_true_ID assms(3) unfolding noted_def by blast+
  show "entry_true c io fs (entry_ID e) e" if "e \<in> set out" for e using that set T by force
  show "\<exists>e \<in> set out. entry_ID e = pid \<and> ce_State e = str ''complete''"
    if "lookup fs [str ''objects''] = Some Dir" "lookup fs (objectDir pid) = Some Dir" "Complete c io fs pid" for pid
    using b(4) [OF that] set T by force
  show "\<exists>e \<in> set out. entry_ID e = pid"
    if "lookup fs [str ''known''] = Some Dir" "lookup fs (knownDir pid) = Some Dir" "HasKnown c io fs pid" for pid
    using b(5) [OF that] set T by force
  show "\<lparr>ce_Manifest = a_Manifest a, ce_State = str ''partial'', ce_Wanted = Wanted io fs pid\<rparr> \<in> set out"
    if "lookup fs [str ''partial''] = Some Dir" "lookup fs (partialDir pid) = Some Dir" "LoadPartial c io pid fs = (Inr a, gs)"
      "\<not> Complete c io fs pid" for pid a gs
    using b(6) [OF that] unfolding set by force
  have "mset (map entry_ID out) = mset (map fst byID)"
    using assms(2) unfolding b(1) mset_map mset_sort permutes_def noted_IDs [OF b(2) assms(3), symmetric] by simp
  then have "distinct (map entry_ID out)" using b(2) by (metis mset_eq_imp_distinct_iff noted_def)
  then have "distinct (map (\<lambda>e. ID_String (entry_ID e)) out)" by (auto simp: distinct_map inj_on_def)
  moreover have "sorted (map (\<lambda>e. ID_String (entry_ID e)) out)" using b(1) by simp
  ultimately have "sorted_wrt (<) (map (\<lambda>e. ID_String (entry_ID e)) out)" using strict_sorted_iff by blast
  then show "sorted_wrt (\<lambda>a b. ID_String (entry_ID a) < ID_String (entry_ID b)) out"
    by (simp add: sorted_wrt_map)
qed

lemma entry_true_known:
  assumes "entry_true c io fs pid e" "\<not> HasPartial io fs pid" "\<not> Complete c io fs pid"
  shows "ce_State e = str ''known''"
proof -
  have "readManifest c io fs (manifest_file (partialDir pid)) \<noteq> Inr m" for m
    using assms(2) by (auto simp: HasPartial_def readManifest_iff Stat_def)
  then show ?thesis using assms(1,3) by (simp add: entry_true_def)
qed

lemma filter_one: "distinct xs \<Longrightarrow> x \<in> set xs \<Longrightarrow> filter (\<lambda>y. y = x) xs = [x]"
  by (induction xs) (auto simp: filter_empty_conv)

lemma Resolve_finds:
  assumes "Catalog c io order fs = (Inr out, fs')" "permutes order" "ids_match c io fs" "e \<in> set out"
    and "blank ws" "blank ws'" "shown = ID_String (entry_ID e) \<or> shown = ascii_upper (ID_String (entry_ID e))"
  shows "Resolve c io order (ws @ shown @ ws') fs = (Inr (entry_ID e), fs')"
proof -
  note x = Catalog_exact [OF assms(1-3)]
  have hex: "list_all is_lower_hex (ID_String (entry_ID e))" by (simp add: ID_String_def hex_lower)
  have "ID_String (entry_ID e) \<noteq> []" by (simp flip: length_greater_0_conv)
  then have start: "ToLower (TrimSpace (ws @ shown @ ws')) = ID_String (entry_ID e)" using resolve_argument hex assms(5-7) by blast
  have "prefix (ID_String (entry_ID e)) (ID_String (entry_ID f)) \<longleftrightarrow> entry_ID f = entry_ID e" for f
    by (metis ID_String_inject length_ID_String not_equal_is_parallel parallelD1 prefix_order.refl)
  moreover have "map entry_ID (filter (\<lambda>f. entry_ID f = entry_ID e) out) = [entry_ID e]"
  proof -
    have "distinct (map (\<lambda>e. ID_String (entry_ID e)) out)" using x(1) strict_sorted_iff [of "map (\<lambda>e. ID_String (entry_ID e)) out"]
      by (simp add: sorted_wrt_map)
    then have "distinct (map entry_ID out)" by (auto simp: distinct_map inj_on_def)
    then have "filter (\<lambda>i. i = entry_ID e) (map entry_ID out) = [entry_ID e]"
      using assms(4) by (intro filter_one) simp_all
    then show ?thesis by (simp add: filter_map comp_def)
  qed
  ultimately show ?thesis unfolding Resolve_Inr start using assms(1) by simp
qed

lemma Resolve_only:
  assumes "Catalog c io order fs = (Inr out, fs')" "fst (Resolve c io order given fs) = Inr pid"
  shows "pid \<in> entry_ID ` set out \<and> (\<forall>e \<in> set out. prefix (ToLower (TrimSpace given)) (ID_String (entry_ID e)) \<longleftrightarrow> entry_ID e = pid)"
proof -
  let ?P = "\<lambda>e. prefix (ToLower (TrimSpace given)) (ID_String (entry_ID e))"
  have "Resolve c io order given fs = (Inr pid, snd (Resolve c io order given fs))" using assms(2) by (simp add: prod_eq_iff)
  then have one: "map entry_ID (filter ?P out) = [pid]" unfolding Resolve_Inr using assms(1) by auto
  have set: "entry_ID ` {e \<in> set out. ?P e} = {pid}" using arg_cong [OF one, of set] by simp
  then obtain f where f: "f \<in> set out" "?P f" "entry_ID f = pid" by blast
  have "?P e \<longleftrightarrow> entry_ID e = pid" if "e \<in> set out" for e
  proof
    assume "?P e"
    then show "entry_ID e = pid" using set that by blast
  qed (use f in simp)
  then show ?thesis using f by blast
qed

section \<open>Properties\<close>

text \<open>
  C16: The catalog is the store: on a store whose manifests are filed under their own identifiers, and with the
  order of Go's maps left open, it lists every publication at most once, in the order of identifiers. Each entry
  says the truth: a complete one passed the test of its content and its manifest is the stored one, a partial or
  known one has the manifest of its place. Nothing is left out: every complete publication is listed as
  complete; every partial publication that can be opened and is not complete is listed as partial, with the
  manifest it was opened with and whether it is wanted; every known one is listed, as known when it is neither. An
  identifier of the list resolves to its publication, in capitals or not, with white space around it; whatever
  is resolved is the only listed publication that begins as asked. Nothing but missing chunk directories is changed.
\<close>

theorem catalog_is_the_store:
  assumes "permutes order" and "ids_match c io fs" and "Catalog c io order fs = (Inr out, fs')"
  shows "sorted_wrt (\<lambda>a b. ID_String (entry_ID a) < ID_String (entry_ID b)) out \<and> same_files fs fs' \<and>
    (\<forall>e \<in> set out. entry_true c io fs (entry_ID e) e \<and>
      (\<forall>ws ws' shown. blank ws \<and> blank ws' \<and> (shown = ID_String (entry_ID e) \<or> shown = ascii_upper (ID_String (entry_ID e))) \<longrightarrow>
         Resolve c io order (ws @ shown @ ws') fs = (Inr (entry_ID e), fs'))) \<and>
    (\<forall>pid. lookup fs [str ''objects''] = Some Dir \<and> lookup fs (objectDir pid) = Some Dir \<and> Complete c io fs pid \<longrightarrow>
       (\<exists>e \<in> set out. entry_ID e = pid \<and> ce_State e = str ''complete'')) \<and>
    (\<forall>pid a gs. lookup fs [str ''partial''] = Some Dir \<and> lookup fs (partialDir pid) = Some Dir \<and>
       LoadPartial c io pid fs = (Inr a, gs) \<and> \<not> Complete c io fs pid \<longrightarrow>
       m_ID (a_Manifest a) = pid \<and>
       \<lparr>ce_Manifest = a_Manifest a, ce_State = str ''partial'', ce_Wanted = Wanted io fs pid\<rparr> \<in> set out) \<and>
    (\<forall>pid. lookup fs [str ''known''] = Some Dir \<and> lookup fs (knownDir pid) = Some Dir \<and> HasKnown c io fs pid \<longrightarrow>
       (\<exists>e \<in> set out. entry_ID e = pid \<and> (\<not> HasPartial io fs pid \<and> \<not> Complete c io fs pid \<longrightarrow> ce_State e = str ''known''))) \<and>
    (\<forall>given pid. fst (Resolve c io order given fs) = Inr pid \<longrightarrow> pid \<in> entry_ID ` set out \<and>
       (\<forall>e \<in> set out. prefix (ToLower (TrimSpace given)) (ID_String (entry_ID e)) \<longleftrightarrow> entry_ID e = pid))"
proof (intro conjI ballI allI impI)
  note x = Catalog_exact [OF assms(3,1,2)]
  show "sorted_wrt (\<lambda>a b. ID_String (entry_ID a) < ID_String (entry_ID b)) out" "same_files fs fs'" by fact+
  fix e assume e: "e \<in> set out"
  show "entry_true c io fs (entry_ID e) e" using x(3) e .
  fix ws ws' shown
  assume "blank ws \<and> blank ws' \<and> (shown = ID_String (entry_ID e) \<or> shown = ascii_upper (ID_String (entry_ID e)))"
  then show "Resolve c io order (ws @ shown @ ws') fs = (Inr (entry_ID e), fs')" using Resolve_finds [OF assms(3,1,2) e] by blast
next
  note x = Catalog_exact [OF assms(3,1,2)]
  fix pid
  show "\<exists>e \<in> set out. entry_ID e = pid \<and> ce_State e = str ''complete''"
    if "lookup fs [str ''objects''] = Some Dir \<and> lookup fs (objectDir pid) = Some Dir \<and> Complete c io fs pid" using x(4) that by blast
  show "\<exists>e \<in> set out. entry_ID e = pid \<and> (\<not> HasPartial io fs pid \<and> \<not> Complete c io fs pid \<longrightarrow> ce_State e = str ''known'')"
    if "lookup fs [str ''known''] = Some Dir \<and> lookup fs (knownDir pid) = Some Dir \<and> HasKnown c io fs pid"
    using x(5) [of pid] that x(3) entry_true_known by blast
  fix a gs
  assume p: "lookup fs [str ''partial''] = Some Dir \<and> lookup fs (partialDir pid) = Some Dir \<and>
    LoadPartial c io pid fs = (Inr a, gs) \<and> \<not> Complete c io fs pid"
  then show "\<lparr>ce_Manifest = a_Manifest a, ce_State = str ''partial'', ce_Wanted = Wanted io fs pid\<rparr> \<in> set out" using x(6) by blast
  show "m_ID (a_Manifest a) = pid" using p LoadPartial_same_files(2) assms(2) unfolding ids_match_def by blast
next
  fix given pid assume r: "fst (Resolve c io order given fs) = Inr pid"
  show "pid \<in> entry_ID ` set out" using Resolve_only [OF assms(3) r] by blast
  fix e assume "e \<in> set out"
  then show "prefix (ToLower (TrimSpace given)) (ID_String (entry_ID e)) \<longleftrightarrow> entry_ID e = pid"
    using Resolve_only [OF assms(3) r] by blast
qed

text \<open>A disk with one known publication.\<close>

definition known_disk :: "Manifest \<Rightarrow> disk" where
  "known_disk m = [([str ''known''], Dir), (knownDir (m_ID m), Dir),
     (manifest_file (knownDir (m_ID m)), File 384 (encoded_manifest toy_crypto m))]"

lemma known_disk_lookup:
  "lookup (known_disk m) [str ''known''] = Some Dir" "lookup (known_disk m) (knownDir (m_ID m)) = Some Dir"
  "lookup (known_disk m) (manifest_file (knownDir (m_ID m))) = Some (File 384 (encoded_manifest toy_crypto m))"
  "lookup (known_disk m) [str ''partial''] = None" "lookup (known_disk m) [str ''objects''] = None"
  "lookup (known_disk m) (manifest_file (objectDir pid)) = None" "lookup (known_disk m) (manifest_file (partialDir pid)) = None"
  "lookup (known_disk m) (want_file pid) = None"
  by (simp_all add: known_disk_def lookup_def path_defs str_def)

lemma known_disk_Catalog:
  assumes "manifest_ok m" "stored_version m" "utf8_valid (m_Filename m)"
  shows "Catalog toy_crypto no_faults id (known_disk m) =
      (Inr [\<lparr>ce_Manifest = m, ce_State = str ''known'', ce_Wanted = False\<rparr>], known_disk m)"
    "ids_match toy_crypto no_faults (known_disk m)" "LoadKnown toy_crypto no_faults (known_disk m) (m_ID m) = Inr m"
proof -
  show load: "LoadKnown toy_crypto no_faults (known_disk m) (m_ID m) = Inr m"
    using readManifest_encoded [OF known_disk_lookup(3), of no_faults m] assms by (simp add: LoadKnown_def)
  show "ids_match toy_crypto no_faults (known_disk m)"
    by (simp add: ids_match_def LoadManifest_def readManifest_iff known_disk_lookup)
  have "filter (\<lambda>q. q \<noteq> [] \<and> butlast q = [str ''known'']) (map fst (known_disk m)) = [knownDir (m_ID m)]"
    by (simp add: known_disk_def path_defs str_def)
  then have "ReadDir no_faults (known_disk m) [str ''known''] = Inr [(ID_String (m_ID m), True)]"
    using known_disk_lookup(1,2) by (simp add: ReadDir_def is_dir_def) (simp add: knownDir_def)
  then have "KnownIDs toy_crypto no_faults (known_disk m) = Inr [m_ID m]"
    by (simp add: KnownIDs_def list_ids_def HasKnown_def load)
  moreover have "PartialIDs no_faults (known_disk m) = Inr []" "IDs toy_crypto no_faults (known_disk m) = Inr []"
    by (simp_all add: PartialIDs_def IDs_def list_ids_def ReadDir_def is_dir_def known_disk_lookup)
  ultimately show "Catalog toy_crypto no_faults id (known_disk m) =
      (Inr [\<lparr>ce_Manifest = m, ce_State = str ''known'', ce_Wanted = False\<rparr>], known_disk m)"
    by (simp add: Catalog_def note_entry_def load Wanted_def Stat_def known_disk_lookup)
qed

lemma example_stored: "manifest_ok example_manifest" "stored_version example_manifest" "utf8_valid (m_Filename example_manifest)"
  using example_manifest_ok utf8_valid_ascii [of "m_Filename example_manifest"] by (simp_all add: example_manifest_def stored_version_def)

text \<open>The same publication, now begun: a disk with its manifest among the known and the partial ones.\<close>

definition begun_disk :: "Manifest \<Rightarrow> disk" where
  "begun_disk m = known_disk m @ [([str ''partial''], Dir), (partialDir (m_ID m), Dir), (chunks_dir (m_ID m), Dir),
     (manifest_file (partialDir (m_ID m)), File 384 (encoded_manifest toy_crypto m))]"

lemma begun_disk_lookup:
  "lookup (begun_disk m) [str ''known''] = Some Dir" "lookup (begun_disk m) [str ''partial''] = Some Dir"
  "lookup (begun_disk m) (partialDir (m_ID m)) = Some Dir" "lookup (begun_disk m) (chunks_dir (m_ID m)) = Some Dir"
  "lookup (begun_disk m) (manifest_file (partialDir (m_ID m))) = Some (File 384 (encoded_manifest toy_crypto m))"
  "lookup (begun_disk m) [str ''objects''] = None" "lookup (begun_disk m) (complete_file pid) = None"
  "lookup (begun_disk m) (manifest_file (objectDir pid)) = None" "lookup (begun_disk m) (chunk_file pid i) = None"
  "lookup (begun_disk m) (manifest_file (partialDir pid)) = Some n \<Longrightarrow> pid = m_ID m"
  by (simp_all add: begun_disk_def known_disk_def lookup_def path_defs chunks_dir_def str_def split: if_splits)

lemma list_ids_runs: "lookup fs dir \<in> {None, Some Dir} \<Longrightarrow> \<exists>ids. list_ids no_faults fs dir keep = Inr ids"
  by (auto simp: list_ids_def ReadDir_def is_dir_def)

lemma begun_disk_Catalog:
  assumes "manifest_ok m" "stored_version m" "utf8_valid (m_Filename m)" "safe_name (m_Filename m)"
  shows "ids_match toy_crypto no_faults (begun_disk m)" "\<not> Complete toy_crypto no_faults (begun_disk m) pid"
    "LoadPartial toy_crypto no_faults (m_ID m) (begun_disk m) = (Inr (NewAssembly m), begun_disk m)"
    "\<exists>out fs'. Catalog toy_crypto no_faults id (begun_disk m) = (Inr out, fs')"
proof -
  have load: "readManifest toy_crypto no_faults (begun_disk m) (manifest_file (partialDir (m_ID m))) = Inr m"
    using readManifest_encoded [OF begun_disk_lookup(5), of no_faults m] assms by simp
  have "m_ID m' = pid" if "readManifest toy_crypto no_faults (begun_disk m) (manifest_file (partialDir pid)) = Inr m'" for pid m'
  proof -
    have "pid = m_ID m" using that begun_disk_lookup(10) by (auto simp: readManifest_iff)
    then show ?thesis using that load by simp
  qed
  then show match: "ids_match toy_crypto no_faults (begun_disk m)"
    by (auto simp: ids_match_def LoadManifest_def readManifest_iff begun_disk_lookup)
  show "\<not> Complete toy_crypto no_faults (begun_disk m) pid" by (simp add: Complete_def Stat_def begun_disk_lookup)
  have "MkdirAll no_faults (chunks_dir (m_ID m)) (begun_disk m) = (Inr (), begun_disk m)"
    using begun_disk_lookup(2-4) by (simp add: MkdirAll_def chunks_dir_def partialDir_def)
  moreover have "open_manifest toy_crypto no_faults m (begun_disk m) = (Inr (), begun_disk m)"
    using begun_disk_lookup(5) by (simp add: open_manifest_def ReadFile_def)
  moreover have "load_chunks no_faults (begun_disk m) [0..<unat (m_ChunkCount m)] (NewAssembly m) = Inr (NewAssembly m)"
    by (rule load_chunks_fresh) (simp add: begun_disk_lookup)
  ultimately show "LoadPartial toy_crypto no_faults (m_ID m) (begun_disk m) = (Inr (NewAssembly m), begun_disk m)"
    using load assms(4) by (simp add: LoadPartial_def Begin_alt and_then_def)
  obtain known partial where ids: "KnownIDs toy_crypto no_faults (begun_disk m) = Inr known" "PartialIDs no_faults (begun_disk m) = Inr partial"
    using list_ids_runs begun_disk_lookup(1,2) unfolding KnownIDs_def PartialIDs_def by (metis insertCI)
  obtain byID fs' where n: "note_partial toy_crypto no_faults partial (note_known toy_crypto no_faults (begun_disk m) known []) (begun_disk m) =
      (byID, fs')" by fastforce
  have "noted (entry_true toy_crypto no_faults (begun_disk m)) (note_known toy_crypto no_faults (begun_disk m) known [])"
    using note_known_noted [of toy_crypto no_faults "begun_disk m" "[]" known] ids(1) list_ids_keep by (fastforce simp: noted_def KnownIDs_def)
  then have "same_files (begun_disk m) fs'" using note_partial_noted [OF _ same_files_refl match n] by blast
  then have "lookup fs' [str ''objects''] = None" using same_files_other [of "begun_disk m" fs'] begun_disk_lookup(6) by simp
  then obtain full where "IDs toy_crypto no_faults fs' = Inr full" using list_ids_runs unfolding IDs_def by (metis insertCI)
  then show "\<exists>out fs'. Catalog toy_crypto no_faults id (begun_disk m) = (Inr out, fs')" using ids n by (simp add: Catalog_def)
qed

theorem catalog_is_the_store_witness:
  "\<exists>out fs' e. Catalog toy_crypto no_faults id (begun_disk example_manifest) = (Inr out, fs') \<and> e \<in> set out \<and>
     ce_Manifest e = example_manifest \<and> ce_State e = str ''partial'' \<and>
     fst (Resolve toy_crypto no_faults id ([32] @ ascii_upper (ID_String (m_ID example_manifest)) @ [10]) (begun_disk example_manifest)) =
       Inr (m_ID example_manifest)"
proof -
  let ?m = example_manifest
  let ?e = "\<lparr>ce_Manifest = ?m, ce_State = str ''partial'', ce_Wanted = Wanted no_faults (begun_disk ?m) (m_ID ?m)\<rparr>"
  have "safe_name (m_Filename ?m)" by (simp add: safe_name_def example_manifest_def Base_def)
  note k = begun_disk_Catalog [OF example_stored this]
  obtain out fs' where cat: "Catalog toy_crypto no_faults id (begun_disk ?m) = (Inr out, fs')" using k(4) by blast
  have id: "permutes id" by (simp add: permutes_def)
  note t = catalog_is_the_store [OF id k(1) cat]
  have "a_Manifest (NewAssembly ?m) = ?m" by (simp add: NewAssembly_def)
  then have e: "?e \<in> set out" using t begun_disk_lookup(2,3) k(2,3) by metis
  have "blank [32]" "blank [10]" by (simp_all add: blank_def space_rune_def)
  moreover have "entry_ID ?e = m_ID ?m" by (simp add: entry_ID_def)
  ultimately have "Resolve toy_crypto no_faults id ([32] @ ascii_upper (ID_String (m_ID ?m)) @ [10]) (begun_disk ?m) = (Inr (m_ID ?m), fs')"
    using t [THEN conjunct2, THEN conjunct2, THEN conjunct1, THEN bspec, OF e, THEN conjunct2, rule_format, of "[32]" "[10]"] by simp
  then show ?thesis using cat e by (intro exI [of _ out] exI [of _ fs'] exI [of _ ?e]) simp
qed

end
