(* ===== verification/Config.thy ===== *)
theory Config
  imports Go_Text Policy
begin

text \<open>
  \<open>internal/config/config.go\<close>: the configuration file of a node, the radio settings it asks for, and the check that
  the status a modem reports confirms them. The TOML decoder is not part of the repository: \<open>Decode\<close> takes its
  result. A nil pointer of an optional setting is \<open>None\<close>.

  Lemmas: the status line the modem firmware prints is read back field by field, so a status confirms exactly the
  settings with the same rendering; a size with a unit is that many units or an error, never a wrapped number.
\<close>

record ByteSize =
  bs_Value :: "64 word"
  bs_Set :: bool

record File =
  f_DataDir :: "byte list"
  f_ID :: "byte list"
  f_Device :: "byte list"
  f_FrequencyMHz :: "float32 option"
  f_SpreadingFactor :: "byte option"
  f_BandwidthKHz :: "float32 option"
  f_CodingRate :: "byte option"
  f_TXPowerDBm :: "byte option"
  f_Preamble :: "16 word option"
  f_SyncWord :: "byte option"
  f_AdvertiseInterval :: duration
  f_StartupBackoff :: duration
  f_MaxAutoSize :: ByteSize
  f_SignaturePolicy :: "byte list"

text \<open>The zero value of the type, the configuration of a node without a file.\<close>

definition zero_File :: File where
  "zero_File = \<lparr>f_DataDir = [], f_ID = [], f_Device = [], f_FrequencyMHz = None, f_SpreadingFactor = None, f_BandwidthKHz = None,
     f_CodingRate = None, f_TXPowerDBm = None, f_Preamble = None, f_SyncWord = None, f_AdvertiseInterval = 0, f_StartupBackoff = 0,
     f_MaxAutoSize = \<lparr>bs_Value = 0, bs_Set = False\<rparr>, f_SignaturePolicy = []\<rparr>"

section \<open>Sizes\<close>

definition multiplier :: "byte list \<Rightarrow> nat" where
  "multiplier unit =
     (if unit = str ''KIB'' then 1024 else if unit = str ''MIB'' then 1024 * 1024 else if unit = str ''GIB'' then 1024 * 1024 * 1024
      else if unit = str ''KB'' then 1000 else if unit = str ''MB'' then 1000000 else if unit = str ''GB'' then 1000000000 else 1)"

definition size_units :: "byte list list" where
  "size_units = [str ''KIB'', str ''MIB'', str ''GIB'', str ''KB'', str ''MB'', str ''GB'', str ''B'']"

definition ParseSize :: "byte list \<Rightarrow> go_error + 64 word" where
  "ParseSize value =
     (let upper = ToUpper (TrimSpace value);
          (unit, upper) =
            (case find (\<lambda>candidate. suffix candidate upper) size_units of
               None \<Rightarrow> ([], upper)
             | Some candidate \<Rightarrow> (candidate, TrimSpace (take (length upper - length candidate) upper)))
      in bind_err (ParseUint upper 10 64) (\<lambda>number.
           let m = multiplier unit
           in if number > (2 ^ 64 - 1) div m then Inl (Failure ''size overflows'') else Inr (of_nat (number * m))))"

definition ByteSize_UnmarshalText :: "byte list \<Rightarrow> go_error + ByteSize" where
  "ByteSize_UnmarshalText given = bind_err (ParseSize given) (\<lambda>value. Inr \<lparr>bs_Value = value, bs_Set = True\<rparr>)"

section \<open>The file\<close>

text \<open>\<open>Decode\<close> on what the TOML decoder returns: the values and the keys that were not used.\<close>

definition Config_Decode :: "go_error + File \<times> byte list list \<Rightarrow> go_error + File" where
  "Config_Decode decoded =
     bind_err decoded (\<lambda>(cfg, undecoded). if undecoded \<noteq> [] then Inl (Failure ''unknown configuration key'') else Inr cfg)"

definition bad_float :: "float32 \<Rightarrow> bool" where
  "bad_float x \<longleftrightarrow> f32_not_positive x \<or> f32_NaN x \<or> f32_Inf x"

definition Validate :: "File \<Rightarrow> go_error + unit" where
  "Validate c =
     (if f_DataDir c = [] then Inl (Failure ''node.data_dir is required'')
      else if f_Device c = [] then Inl (Failure ''radio.device is required'')
      else if (case f_FrequencyMHz c of None \<Rightarrow> False | Some x \<Rightarrow> bad_float x) then Inl (Failure ''radio.frequency_mhz must be positive'')
      else if (case f_BandwidthKHz c of None \<Rightarrow> False | Some x \<Rightarrow> bad_float x) then Inl (Failure ''radio.bandwidth_khz must be positive'')
      else if (case f_SpreadingFactor c of None \<Rightarrow> False | Some x \<Rightarrow> x < 5 \<or> x > 12) then Inl (Failure ''radio.spreading_factor must be 5-12'')
      else if (case f_CodingRate c of None \<Rightarrow> False | Some x \<Rightarrow> x < 5 \<or> x > 8) then Inl (Failure ''radio.coding_rate must be 5-8'')
      else if (case f_TXPowerDBm c of None \<Rightarrow> False | Some x \<Rightarrow> sint x < - 9 \<or> sint x > 22)
        then Inl (Failure ''radio.tx_power_dbm must be -9 through 22'')
      else if f_Preamble c = Some 0 then Inl (Failure ''radio.preamble must be positive'')
      else if f_AdvertiseInterval c < 0 \<or> f_StartupBackoff c < 0 then Inl (Failure ''discovery durations cannot be negative'')
      else bind_err (ParseSignaturePolicy (f_SignaturePolicy c)) (\<lambda>_. Inr ()))"

definition Config_Load :: "go_error + File \<times> byte list list \<Rightarrow> go_error + File" where
  "Config_Load decoded = bind_err (Config_Decode decoded) (\<lambda>cfg. bind_err (Validate cfg) (\<lambda>_. Inr cfg))"

definition RadioConfigured :: "File \<Rightarrow> bool" where
  "RadioConfigured c \<longleftrightarrow> f_FrequencyMHz c \<noteq> None \<or> f_SpreadingFactor c \<noteq> None \<or> f_BandwidthKHz c \<noteq> None \<or> f_CodingRate c \<noteq> None \<or>
     f_TXPowerDBm c \<noteq> None \<or> f_Preamble c \<noteq> None \<or> f_SyncWord c \<noteq> None"

definition or_default :: "'a \<Rightarrow> 'a option \<Rightarrow> 'a" where
  "or_default d x = (case x of None \<Rightarrow> d | Some y \<Rightarrow> y)"

definition File_RadioConfig :: "File \<Rightarrow> RadioConfig" where
  "File_RadioConfig c =
     \<lparr>FrequencyMHz = or_default (FrequencyMHz DefaultConfig) (f_FrequencyMHz c),
      BandwidthKHz = or_default (BandwidthKHz DefaultConfig) (f_BandwidthKHz c),
      SpreadingFactor = or_default (SpreadingFactor DefaultConfig) (f_SpreadingFactor c),
      CodingRate = or_default (CodingRate DefaultConfig) (f_CodingRate c),
      TXPowerDBm = or_default (TXPowerDBm DefaultConfig) (f_TXPowerDBm c),
      PreambleSymbols = or_default (PreambleSymbols DefaultConfig) (f_Preamble c),
      SyncWord = or_default (SyncWord DefaultConfig) (f_SyncWord c)\<rparr>"

section \<open>The status of the modem\<close>

text \<open>\<open>strings.FieldsFunc\<close>, for separators that are ASCII.\<close>

function FieldsFunc :: "(byte \<Rightarrow> bool) \<Rightarrow> byte list \<Rightarrow> byte list list" where
  "FieldsFunc sep s =
     (let s = dropWhile sep s
      in if s = [] then [] else takeWhile (\<lambda>b. \<not> sep b) s # FieldsFunc sep (dropWhile (\<lambda>b. \<not> sep b) s))"
  by pat_completeness auto
termination
proof (relation "measure (\<lambda>(_, s). length s)")
  fix sep :: "byte \<Rightarrow> bool" and s x
  assume x: "x = dropWhile sep s" "x \<noteq> []"
  then have "\<not> sep (hd x)" using hd_dropWhile by blast
  then have "length (dropWhile (\<lambda>b. \<not> sep b) x) < length x"
    using x(2) by (cases x) (auto simp: less_Suc_eq_le length_dropWhile_le)
  also have "length x \<le> length s" using x(1) by (simp add: length_dropWhile_le)
  finally show "((sep, dropWhile (\<lambda>b. \<not> sep b) x), sep, s) \<in> measure (\<lambda>(_, s). length s)" by simp
qed simp

declare FieldsFunc.simps [simp del]

definition status_sep :: "byte \<Rightarrow> bool" where "status_sep b \<longleftrightarrow> b = 32 \<or> b = 59"

text \<open>The map \<open>actual\<close>: the fields of the form key=value, the last one of a key.\<close>

definition read_field :: "byte list \<Rightarrow> (byte list \<Rightarrow> byte list option) \<Rightarrow> (byte list \<Rightarrow> byte list option)" where
  "read_field field actual =
     (let key = takeWhile (\<lambda>b. b \<noteq> 61) field
      in if key \<noteq> [] \<and> 61 \<in> set field then actual(key \<mapsto> drop (length key + 1) field) else actual)"

definition actual_fields :: "byte list \<Rightarrow> (byte list \<Rightarrow> byte list option)" where
  "actual_fields status = fold read_field (FieldsFunc status_sep status) Map.empty"

definition expected_fields :: "RadioConfig \<Rightarrow> (byte list \<times> byte list) list" where
  "expected_fields v =
     [(str ''frequency'', format_fixed 3 (FrequencyMHz v) @ str ''MHz''),
      (str ''sf'', Itoa (unat (SpreadingFactor v))),
      (str ''bw'', format_fixed 1 (BandwidthKHz v) @ str ''kHz''),
      (str ''cr'', str ''4/'' @ Itoa (unat (CodingRate v))),
      (str ''power'', format_int (sint (TXPowerDBm v)) @ str ''dBm''),
      (str ''preamble'', Itoa (unat (PreambleSymbols v))),
      (str ''sync'', str ''0x'' @ format_02X (SyncWord v))]"

text \<open>The loop over \<open>expected\<close> stops at the first difference; which one is named depends on the order of the map.\<close>

definition ConfirmRadioStatus :: "byte list \<Rightarrow> RadioConfig \<Rightarrow> go_error + unit" where
  "ConfirmRadioStatus status v =
     (if list_all (\<lambda>(key, want). or_default [] (actual_fields status key) = want) (expected_fields v) then Inr ()
      else Inl (Failure ''modem status did not confirm the settings''))"

section \<open>Writing a sample\<close>

text \<open>\<open>%q\<close> of \<open>fmt\<close> is the argument \<open>quote\<close>.\<close>

definition Sample :: "(byte list \<Rightarrow> byte list) \<Rightarrow> byte list \<Rightarrow> byte list \<Rightarrow> byte list" where
  "Sample quote dataDir device =
     (let line = (\<lambda>s. str s @ [10])
      in line ''[node]'' @ str ''data_dir = '' @ quote dataDir @ [10, 10] @ line ''[radio]'' @ str ''device = '' @ quote device @ [10] @
         line ''frequency_mhz = 915.0'' @ line ''spreading_factor = 7'' @ line ''bandwidth_khz = 125.0'' @ line ''coding_rate = 5'' @
         line ''tx_power_dbm = 5'' @ line ''preamble = 8'' @ line ''sync_word = 0x12'' @ [10] @
         line ''[discovery]'' @ str ''advertise_interval = '' @ [34] @ str ''10m'' @ [34, 10] @
         str ''startup_backoff = '' @ [34] @ str ''5s'' @ [34, 10, 10] @
         line ''[acquisition]'' @ str ''# max_auto_size = '' @ [34] @ str ''128KiB'' @ [34, 10] @
         str ''signature_policy = '' @ [34] @ str ''permissive'' @ [34, 10])"

text \<open>
  \<open>os.WriteFile\<close>: an existing file keeps its permissions; a write that fails may leave some of the bytes
  (\<open>WLate\<close>, of which \<open>kept\<close> says how many).
\<close>

definition WriteFile :: "io \<Rightarrow> nat \<Rightarrow> path \<Rightarrow> byte list \<Rightarrow> nat \<Rightarrow> unit call" where
  "WriteFile io kept p data mode fs =
     (let mode = (case lookup fs p of Some (File m _) \<Rightarrow> m | _ \<Rightarrow> mode) in
      if \<not> is_dir fs (butlast p) then (Inl NotExist, fs)
      else if write_result io p = WFail \<or> lookup fs p = Some Dir then (Inl IOError, fs)
      else if write_result io p = WLate then (Inl IOError, put p (File mode (Raw (take kept data))) fs)
      else (Inr (), put p (File mode (Raw data)) fs))"

definition WriteSample ::
  "io \<Rightarrow> nat \<Rightarrow> (byte list \<Rightarrow> byte list) \<Rightarrow> path \<Rightarrow> byte list \<Rightarrow> byte list \<Rightarrow> bool \<Rightarrow> unit call" where
  "WriteSample io kept quote p dataDir device replace fs =
     (if \<not> replace \<and> (case Stat io fs p of Inl _ \<Rightarrow> False | Inr _ \<Rightarrow> True) then (Inl (Failure ''config already exists''), fs)
      else WriteFile io kept p (Sample quote dataDir device) 416 fs)"

section \<open>Reading a status\<close>

lemma FieldsFunc_Nil [simp]: "FieldsFunc sep [] = []"
  by (simp add: FieldsFunc.simps)

lemma FieldsFunc_sep: "sep a \<Longrightarrow> FieldsFunc sep (a # s) = FieldsFunc sep s"
  by (simp add: FieldsFunc.simps [of sep "a # s"] FieldsFunc.simps [of sep s])

lemma FieldsFunc_word:
  assumes "list_all (\<lambda>b. \<not> sep b) f" "f \<noteq> []" "s = [] \<or> sep (hd s)"
  shows "FieldsFunc sep (f @ s) = f # FieldsFunc sep s"
proof -
  have d: "dropWhile sep (f @ s) = f @ s" using assms(1,2) by (cases f) auto
  have t: "takeWhile (\<lambda>b. \<not> sep b) (f @ s) = f" "dropWhile (\<lambda>b. \<not> sep b) (f @ s) = s"
    using assms(1,3) by (induction f; cases s; simp)+
  show ?thesis using assms(2) by (subst FieldsFunc.simps) (simp add: d t)
qed

lemma word_end:
  assumes "sep (hd t)" "t \<noteq> []"
  shows "takeWhile (\<lambda>b. \<not> sep b) (u @ t) = takeWhile (\<lambda>b. \<not> sep b) u"
    "dropWhile (\<lambda>b. \<not> sep b) (u @ t) = dropWhile (\<lambda>b. \<not> sep b) u @ t"
  using assms by (induction u; cases t; simp)+

lemma FieldsFunc_append:
  assumes "sep (hd t)" "t \<noteq> []"
  shows "FieldsFunc sep (s @ t) = FieldsFunc sep s @ FieldsFunc sep t"
proof (induction s rule: measure_induct_rule [of length])
  case (less s)
  have dw: "FieldsFunc sep u = (let u = dropWhile sep u
      in if u = [] then [] else takeWhile (\<lambda>b. \<not> sep b) u # FieldsFunc sep (dropWhile (\<lambda>b. \<not> sep b) u))" for u
    by (rule FieldsFunc.simps)
  show ?case
  proof (cases "dropWhile sep s")
    case Nil
    then have all: "\<forall>x \<in> set s. sep x" by (simp add: dropWhile_eq_Nil_conv)
    then have "dropWhile sep (s @ t) = dropWhile sep t" by (simp add: dropWhile_append)
    then show ?thesis using Nil by (simp add: dw [of "s @ t"] dw [of s] dw [of t])
  next
    case (Cons x d)
    let ?d = "x # d" and ?r = "dropWhile (\<lambda>b. \<not> sep b) (x # d)" and ?w = "takeWhile (\<lambda>b. \<not> sep b) (x # d)"
    have x: "\<not> sep x" using Cons by (metis hd_dropWhile list.distinct(1) list.sel(1))
    have "length ?d \<le> length s" using length_dropWhile_le [of sep s] Cons by simp
    moreover have "length ?r \<le> length d" using x by (simp add: length_dropWhile_le)
    ultimately have IH: "FieldsFunc sep (?r @ t) = FieldsFunc sep ?r @ FieldsFunc sep t" using less by simp
    have "\<not> (\<forall>x \<in> set s. sep x)" using Cons dropWhile_eq_Nil_conv [of sep s] by simp
    then have "dropWhile sep (s @ t) = ?d @ t" by (auto simp: dropWhile_append Cons)
    then have "FieldsFunc sep (s @ t) = takeWhile (\<lambda>b. \<not> sep b) (?d @ t) # FieldsFunc sep (dropWhile (\<lambda>b. \<not> sep b) (?d @ t))"
      by (simp only: dw [of "s @ t"] Let_def) simp
    then have "FieldsFunc sep (s @ t) = ?w # FieldsFunc sep (?r @ t)" by (simp only: word_end [of sep t ?d, OF assms])
    moreover have "FieldsFunc sep s = ?w # FieldsFunc sep ?r" using Cons by (simp only: dw [of s] Let_def) simp
    ultimately show ?thesis using IH by simp
  qed
qed

text \<open>
  The status line the firmware prints (\<open>sendStatus\<close> of \<open>firmware/heltec-modem/src/main.cpp\<close>); \<open>state\<close> is all it prints
  between the words radio and protocol, the state of the radio and that of the display.
\<close>

definition field :: "string \<Rightarrow> byte list \<Rightarrow> byte list" where
  "field key val = str key @ [61] @ val"

definition modem_status :: "byte list \<Rightarrow> RadioConfig \<Rightarrow> string \<Rightarrow> byte list" where
  "modem_status state v oled_mode =
     str ''firmware: OK; serial: OK; radio: '' @ state @ str ''; protocol: v1 READY; frequency='' @ format_fixed 3 (FrequencyMHz v) @
     str ''MHz sf='' @ Itoa (unat (SpreadingFactor v)) @ str '' bw='' @ format_fixed 1 (BandwidthKHz v) @ str ''kHz cr=4/'' @
     Itoa (unat (CodingRate v)) @ str '' power='' @ format_int (sint (TXPowerDBm v)) @ str ''dBm preamble='' @
     Itoa (unat (PreambleSymbols v)) @ str '' sync=0x'' @ format_02X (SyncWord v) @ str '' oled_mode='' @ str oled_mode"

definition word_chars :: "byte list \<Rightarrow> bool" where "word_chars s \<longleftrightarrow> list_all (\<lambda>b. \<not> status_sep b) s"

lemma word_chars_append [simp]: "word_chars (s @ t) \<longleftrightarrow> word_chars s \<and> word_chars t"
  by (simp add: word_chars_def)

lemma word_chars_Itoa [simp]: "word_chars (Itoa n)"
  using Itoa_digits [of n] by (auto simp: word_chars_def list_all_iff is_digit_def status_sep_def)

lemma word_chars_replicate [simp]: "word_chars (replicate k 48)"
  by (simp add: word_chars_def list_all_iff status_sep_def)

lemma word_chars_Cons: "word_chars (a # s) \<longleftrightarrow> \<not> status_sep a \<and> word_chars s"
  by (simp add: word_chars_def)

lemma word_chars_Nil: "word_chars []" by (simp add: word_chars_def)

lemma word_chars_hex: "n < 16 \<Longrightarrow> \<not> status_sep (hex_upper n)"
proof -
  assume "n < 16"
  then have "n \<in> set [0..<16]" by simp
  moreover have "list_all (\<lambda>n. \<not> status_sep (hex_upper n)) [0..<16]" by code_simp
  ultimately show ?thesis unfolding list_all_iff by blast
qed

lemma word_chars_rendered [simp]: "word_chars (format_fixed prec w)" "word_chars (format_int i)" "word_chars (format_02X b)"
proof -
  have "unat b div 16 < 16" using unat_byte_less [of b] by simp
  then show "word_chars (format_02X b)" by (simp add: format_02X_def word_chars_Cons word_chars_Nil word_chars_hex)
  show "word_chars (format_int i)" by (simp add: format_int_def word_chars_Cons status_sep_def)
  show "word_chars (format_fixed prec w)"
    by (simp add: format_fixed_def fixed_digits_def Let_def word_chars_Cons word_chars_Nil status_sep_def str_def)
qed

lemma read_field_field:
  "61 \<notin> set (str key) \<Longrightarrow> key \<noteq> [] \<Longrightarrow> read_field (field key val) m = m(str key \<mapsto> val)"
proof -
  assume k: "61 \<notin> set (str key)" "key \<noteq> []"
  have "takeWhile (\<lambda>b. b \<noteq> 61) (str key @ [61] @ val) = str key" using k(1) by (subst takeWhile_append2) auto
  moreover have "str key \<noteq> []" using k(2) by (simp add: str_def)
  ultimately show ?thesis by (simp add: read_field_def field_def Let_def)
qed

lemma field_words: "word_chars (str key) \<Longrightarrow> word_chars val \<Longrightarrow> word_chars (field key val)" "field key val \<noteq> []"
  by (simp_all add: field_def word_chars_Cons status_sep_def)

text \<open>The fields of words separated by single blanks.\<close>

fun spaced :: "byte list list \<Rightarrow> byte list" where
  "spaced [] = []"
| "spaced (w # ws) = 32 # w @ spaced ws"

lemma FieldsFunc_spaced: "list_all (\<lambda>w. word_chars w \<and> w \<noteq> []) ws \<Longrightarrow> FieldsFunc status_sep (spaced ws) = ws"
proof (induction ws)
  case (Cons w ws)
  have "spaced ws = [] \<or> status_sep (hd (spaced ws))" by (cases ws) (simp_all add: status_sep_def)
  then have "FieldsFunc status_sep (w @ spaced ws) = w # FieldsFunc status_sep (spaced ws)"
    using Cons.prems by (intro FieldsFunc_word) (simp_all add: word_chars_def)
  moreover have "status_sep 32" by (simp add: status_sep_def)
  ultimately show ?case using Cons by (simp add: FieldsFunc_sep)
qed simp

definition status_fields :: "RadioConfig \<Rightarrow> byte list list" where
  "status_fields v =
     [field ''frequency'' (format_fixed 3 (FrequencyMHz v) @ str ''MHz''), field ''sf'' (Itoa (unat (SpreadingFactor v))),
      field ''bw'' (format_fixed 1 (BandwidthKHz v) @ str ''kHz''), field ''cr'' (str ''4/'' @ Itoa (unat (CodingRate v))),
      field ''power'' (format_int (sint (TXPowerDBm v)) @ str ''dBm''), field ''preamble'' (Itoa (unat (PreambleSymbols v))),
      field ''sync'' (str ''0x'' @ format_02X (SyncWord v))]"

lemma str_append: "str (s @ t) = str s @ str t"
  by (simp add: str_def)

lemma modem_status_spaced:
  "modem_status state v oled =
     (str ''firmware: OK; serial: OK; radio: '' @ state @ str ''; protocol: v1 READY;'') @ spaced (status_fields v @ [field ''oled_mode'' (str oled)])"
  by (simp add: modem_status_def status_fields_def field_def str_def)

lemma word_chars_str: "list_all (\<lambda>c. c \<noteq> CHR '' '' \<and> c \<noteq> CHR '';'') s \<Longrightarrow> word_chars (str s)"
proof -
  have "\<not> status_sep (of_nat (of_char c))" if "c \<noteq> CHR '' ''" "c \<noteq> CHR '';''" for c :: char
    using that byte_of_char_inject [of c "CHR '' ''"] byte_of_char_inject [of c "CHR '';''"] by (simp add: status_sep_def)
  then show "list_all (\<lambda>c. c \<noteq> CHR '' '' \<and> c \<noteq> CHR '';'') s \<Longrightarrow> word_chars (str s)"
    by (induction s) (simp_all add: str_def word_chars_Cons word_chars_Nil)
qed

lemma status_fields_words: "list_all (\<lambda>w. word_chars w \<and> w \<noteq> []) (status_fields v)"
  by (simp add: status_fields_def field_words word_chars_str)

lemma no_equals: "CHR ''='' \<notin> set key \<Longrightarrow> 61 \<notin> set (str key)"
proof (induction key)
  case (Cons c key)
  have "(of_nat (of_char c) :: byte) \<noteq> of_nat (of_char (CHR ''=''))" using Cons.prems by (subst byte_of_char_inject) auto
  then have "(of_nat (of_char c) :: byte) \<noteq> 61" by simp
  then show ?case using Cons by (simp add: str_def)
qed (simp add: str_def)

lemma actual_fields_status:
  assumes "list_all (\<lambda>c. c \<noteq> CHR '' '' \<and> c \<noteq> CHR '';'') oled"
  shows "list_all (\<lambda>(key, val). actual_fields (modem_status state v oled) key = Some val) (expected_fields v)"
proof -
  let ?ws = "status_fields v @ [field ''oled_mode'' (str oled)]"
  let ?pre = "str ''firmware: OK; serial: OK; radio: '' @ state @ str ''; protocol: v1 READY;''"
  have ws: "list_all (\<lambda>w. word_chars w \<and> w \<noteq> []) ?ws"
    using status_fields_words [of v] field_words [of "''oled_mode''" "str oled"] word_chars_str [OF assms] by (simp add: word_chars_str)
  have "status_sep (hd (spaced ?ws))" "spaced ?ws \<noteq> []" by (simp_all add: status_fields_def status_sep_def)
  then have "FieldsFunc status_sep (modem_status state v oled) = FieldsFunc status_sep ?pre @ ?ws"
    unfolding modem_status_spaced using FieldsFunc_append [of status_sep "spaced ?ws" ?pre] FieldsFunc_spaced [OF ws] by simp
  then have "actual_fields (modem_status state v oled) = fold read_field ?ws (fold read_field (FieldsFunc status_sep ?pre) Map.empty)"
    by (simp add: actual_fields_def)
  then show ?thesis by (simp add: status_fields_def read_field_field no_equals expected_fields_def)
qed

section \<open>What a status confirms\<close>

lemma format_int_inject [simp]: "format_int i = format_int j \<longleftrightarrow> i = j"
proof -
  have "hd (Itoa n) \<noteq> 45" for n using Itoa_digits [of n] by (cases "Itoa n") (auto simp: is_digit_def)
  then have "Itoa n \<noteq> 45 # s" for n s by (metis list.sel(1))
  then show ?thesis by (auto simp: format_int_def) (metis)
qed

lemma hex_upper_inject: "m < 16 \<Longrightarrow> n < 16 \<Longrightarrow> hex_upper m = hex_upper n \<longleftrightarrow> m = n"
proof -
  assume "m < 16" "n < 16"
  then have "m \<in> set [0..<16]" "n \<in> set [0..<16]" by simp_all
  moreover have "list_all (\<lambda>m. list_all (\<lambda>n. hex_upper m = hex_upper n \<longleftrightarrow> m = n) [0..<16]) [0..<16]" by code_simp
  ultimately show ?thesis unfolding list_all_iff by blast
qed

lemma format_02X_inject [simp]: "format_02X a = format_02X b \<longleftrightarrow> a = b"
proof
  assume e: "format_02X a = format_02X b"
  have "unat a div 16 < 16" "unat b div 16 < 16" using unat_byte_less [of a] unat_byte_less [of b] by simp_all
  then have "unat a div 16 = unat b div 16" "unat a mod 16 = unat b mod 16"
    using e by (simp_all add: format_02X_def hex_upper_inject)
  then have "unat a = unat b" by (metis div_mult_mod_eq)
  then show "a = b" by (simp only: word_unat_eq_iff)
qed simp

lemma expected_fields_eq:
  "expected_fields v = expected_fields w \<longleftrightarrow>
     format_fixed 3 (FrequencyMHz v) = format_fixed 3 (FrequencyMHz w) \<and> format_fixed 1 (BandwidthKHz v) = format_fixed 1 (BandwidthKHz w) \<and>
     SpreadingFactor v = SpreadingFactor w \<and> CodingRate v = CodingRate w \<and> TXPowerDBm v = TXPowerDBm w \<and>
     PreambleSymbols v = PreambleSymbols w \<and> SyncWord v = SyncWord w"
  by (auto simp: expected_fields_def word_unat_eq_iff [symmetric] signed_word_eqI)

definition oled_name :: "string \<Rightarrow> bool" where
  "oled_name oled \<longleftrightarrow> list_all (\<lambda>c. c \<noteq> CHR '' '' \<and> c \<noteq> CHR '';'') oled"

lemma confirm_modem_status:
  assumes "oled_name oled"
  shows "ConfirmRadioStatus (modem_status state w oled) v = Inr () \<longleftrightarrow> expected_fields w = expected_fields v"
proof -
  have "list_all (\<lambda>(key, val). actual_fields (modem_status state w oled) key = Some val) (expected_fields w)"
    using actual_fields_status assms by (simp add: oled_name_def)
  then show ?thesis by (auto simp: ConfirmRadioStatus_def expected_fields_def or_default_def)
qed

text \<open>Settings a status confirms differ from those it was printed from at most by rounding.\<close>

definition settings_finite :: "RadioConfig \<Rightarrow> bool" where
  "settings_finite v \<longleftrightarrow> f32_finite (FrequencyMHz v) \<and> f32_finite (BandwidthKHz v)"

definition same_settings :: "RadioConfig \<Rightarrow> RadioConfig \<Rightarrow> bool" where
  "same_settings v w \<longleftrightarrow>
     \<bar>f32_value (FrequencyMHz v) - f32_value (FrequencyMHz w)\<bar> \<le> 1 / 1000 \<and>
     \<bar>f32_value (BandwidthKHz v) - f32_value (BandwidthKHz w)\<bar> \<le> 1 / 10 \<and> SpreadingFactor w = SpreadingFactor v \<and> CodingRate w = CodingRate v \<and>
     TXPowerDBm w = TXPowerDBm v \<and> PreambleSymbols w = PreambleSymbols v \<and> SyncWord w = SyncWord v"

lemma confirmed_close:
  assumes "ConfirmRadioStatus (modem_status state w oled) v = Inr ()" "oled_name oled" "settings_finite v" "settings_finite w"
  shows "same_settings v w"
proof -
  have e: "expected_fields w = expected_fields v" using assms(1,2) confirm_modem_status by blast
  then have f: "format_fixed 3 (FrequencyMHz v) = format_fixed 3 (FrequencyMHz w)" "format_fixed 1 (BandwidthKHz v) = format_fixed 1 (BandwidthKHz w)"
    unfolding expected_fields_eq by simp_all
  show ?thesis
    using e format_fixed_close [OF f(1)] format_fixed_close [OF f(2)] assms(3,4) unfolding expected_fields_eq
    by (simp add: settings_finite_def same_settings_def)
qed

section \<open>What a size means\<close>

text \<open>A number, blanks and a unit in capitals or not.\<close>

definition not_letter :: "byte \<Rightarrow> bool" where "not_letter b \<longleftrightarrow> b < 65"

lemma Itoa_last: "not_letter (last (Itoa n))" "visible (hd (Itoa n))" "visible (last (Itoa n))"
proof -
  have "is_digit (last (Itoa n))" "is_digit (hd (Itoa n))" using Itoa_digits [of n] by (simp_all add: list_all_iff)
  then show "not_letter (last (Itoa n))" "visible (hd (Itoa n))" "visible (last (Itoa n))"
    by (auto simp: is_digit_def not_letter_def visible_def word_le_nat_alt word_less_nat_alt)
qed

lemma blank_not_letter: "blank ws \<Longrightarrow> b \<in> set ws \<Longrightarrow> not_letter b"
  by (auto simp: blank_def list_all_iff space_rune_def not_letter_def word_le_nat_alt word_less_nat_alt)

lemma find_unit:
  assumes "u \<in> set size_units" "not_letter z"
  shows "find (\<lambda>candidate. suffix candidate (p @ z # u)) size_units = Some u"
proof -
  have z: "z \<noteq> 75" "z \<noteq> 73" "z \<noteq> 77" "z \<noteq> 71" using assms(2) by (auto simp: not_letter_def)
  have units: "size_units = [[75, 73, 66], [77, 73, 66], [71, 73, 66], [75, 66], [77, 66], [71, 66], [66]]"
    by (simp add: size_units_def str_def)
  have "u = [75, 73, 66] \<or> u = [77, 73, 66] \<or> u = [71, 73, 66] \<or> u = [75, 66] \<or> u = [77, 66] \<or> u = [71, 66] \<or> u = [66]"
    using assms(1) by (simp add: units)
  then show ?thesis unfolding units suffix_to_prefix by (elim disjE) (simp_all add: z)
qed

lemma ToUpper_plain: "list_all (\<lambda>b. b < 97) s \<Longrightarrow> ToUpper (s @ t) = s @ ToUpper t"
  by (induction s) (auto simp: word_less_nat_alt word_le_nat_alt)

lemma ParseSize_units:
  assumes "n < 2 ^ 64" "blank ws" "ToUpper u \<in> set size_units" "list_all visible u"
  shows "ParseSize (Itoa n @ ws @ u) =
    (if n * multiplier (ToUpper u) < 2 ^ 64 then Inr (of_nat (n * multiplier (ToUpper u))) else Inl (Failure ''size overflows''))"
proof -
  let ?u = "ToUpper u" and ?s = "Itoa n @ ws"
  have u: "u \<noteq> []" using assms(3) by (auto simp: size_units_def str_def)
  have "TrimSpace ([] @ (Itoa n @ ws @ u) @ []) = Itoa n @ ws @ u"
    using Itoa_last(2) [of n] assms(4) u by (intro TrimSpace_ends) (auto simp: blank_def list_all_iff)
  moreover have "list_all (\<lambda>b. b < 97) ?s"
    using Itoa_digits [of n] blank_not_letter [OF assms(2)]
    by (auto simp: list_all_iff is_digit_def not_letter_def word_le_nat_alt word_less_nat_alt) fastforce+
  ultimately have up: "ToUpper (TrimSpace (Itoa n @ ws @ u)) = ?s @ ?u" using ToUpper_plain [of ?s u] by simp
  have "not_letter (last ?s)" using Itoa_last(1) [of n] blank_not_letter [OF assms(2)] by (cases "ws = []") auto
  then have f: "find (\<lambda>candidate. suffix candidate (?s @ ?u)) size_units = Some ?u"
  proof -
    have "butlast ?s @ [last ?s] = ?s" by (rule append_butlast_last_id) simp
    then have "?s @ ?u = butlast ?s @ last ?s # ?u" by (metis append.assoc append_Cons append_Nil)
    then show ?thesis using find_unit [OF assms(3) \<open>not_letter (last ?s)\<close>, of "butlast ?s"] by (simp only:)
  qed
  have t: "TrimSpace ?s = Itoa n"
    using TrimSpace_ends [of "Itoa n" "[]" ws] Itoa_last(2,3) [of n] assms(2) by (simp add: blank_def)
  have "multiplier ?u > 0" by (simp add: multiplier_def)
  then have "n > (2 ^ 64 - 1) div multiplier ?u \<longleftrightarrow> \<not> n * multiplier ?u < 2 ^ 64"
    by (subst div_less_iff_less_mult) auto
  moreover have "take (length (?s @ ?u) - length ?u) (?s @ ?u) = ?s" by simp
  then have "ParseSize (Itoa n @ ws @ u) = bind_err (ParseUint (Itoa n) 10 64) (\<lambda>number.
      if number > (2 ^ 64 - 1) div multiplier ?u then Inl (Failure ''size overflows'') else Inr (of_nat (number * multiplier ?u)))"
    by (simp only: ParseSize_def Let_def up f option.case prod.case t)
  ultimately show ?thesis using assms(1) by simp
qed

lemma ParseSize_number:
  assumes "n < 2 ^ 64"
  shows "ParseSize (Itoa n) = Inr (of_nat n)"
proof -
  have "TrimSpace ([] @ Itoa n @ []) = Itoa n" using Itoa_last [of n] by (intro TrimSpace_ends) (simp_all add: blank_def)
  moreover have "list_all (\<lambda>b. b < 97) (Itoa n)"
    using Itoa_digits [of n] by (auto simp: list_all_iff is_digit_def word_le_nat_alt word_less_nat_alt)
  ultimately have up: "ToUpper (TrimSpace (Itoa n)) = Itoa n" using ToUpper_plain [of "Itoa n" "[]"] by simp
  have "last (Itoa n) \<noteq> 66" using Itoa_last(1) [of n] by (auto simp: not_letter_def)
  moreover have "last c = last (Itoa n)" if "c \<noteq> []" "suffix c (Itoa n)" for c using that by (auto simp: suffix_def)
  moreover have "\<forall>c \<in> set size_units. c \<noteq> [] \<and> last c = 66" by (simp add: size_units_def str_def)
  ultimately have "find (\<lambda>candidate. suffix candidate (Itoa n)) size_units = None" unfolding find_None_iff by metis
  then show ?thesis using assms by (simp add: ParseSize_def up multiplier_def str_def)
qed

section \<open>Properties\<close>

text \<open>
  C34: A size means what it says: a number, any white space and a unit, in capitals or not, is the number of bytes it
  stands for, or is refused when that does not fit 64 bits; no size wraps around to a smaller limit. A number
  alone counts bytes.
\<close>

theorem size_never_wraps:
  assumes "n < 2 ^ 64" and "blank ws" and "ToUpper u \<in> set size_units" and "list_all visible u"
  shows "ParseSize (Itoa n @ ws @ u) =
      (if n * multiplier (ToUpper u) < 2 ^ 64 then Inr (of_nat (n * multiplier (ToUpper u))) else Inl (Failure ''size overflows'')) \<and>
    (\<forall>size. ParseSize (Itoa n @ ws @ u) = Inr size \<longrightarrow> unat size = n * multiplier (ToUpper u)) \<and>
    ParseSize (Itoa n) = Inr (of_nat n)"
proof (intro conjI allI impI)
  show p: "ParseSize (Itoa n @ ws @ u) =
      (if n * multiplier (ToUpper u) < 2 ^ 64 then Inr (of_nat (n * multiplier (ToUpper u))) else Inl (Failure ''size overflows''))"
    by (rule ParseSize_units [OF assms])
  show "unat s = n * multiplier (ToUpper u)" if "ParseSize (Itoa n @ ws @ u) = Inr s" for s
  proof -
    have "n * multiplier (ToUpper u) < 2 ^ LENGTH(64)" using that unfolding p by (cases "n * multiplier (ToUpper u) < 2 ^ 64") simp_all
    moreover from this have "s = of_nat (n * multiplier (ToUpper u))" using that unfolding p by simp
    ultimately show ?thesis using unat_of_nat_fits by blast
  qed
  show "ParseSize (Itoa n) = Inr (of_nat n)" by (rule ParseSize_number [OF assms(1)])
qed

theorem size_never_wraps_witness:
  "ParseSize (Itoa 128 @ [32] @ str ''KiB'') = Inr 131072 \<and> ParseSize (Itoa 18446744073709551615 @ [] @ str ''kb'') = Inl (Failure ''size overflows'')"
proof -
  have u: "ToUpper (str ''KiB'') = str ''KIB''" "ToUpper (str ''kb'') = str ''KB''" by (simp_all add: str_def)
  have v: "list_all visible (str ''KiB'')" "list_all visible (str ''kb'')" by (simp_all add: visible_def str_def)
  have m: "multiplier (str ''KIB'') = 1024" "multiplier (str ''KB'') = 1000" by (simp_all add: multiplier_def)
  have s: "str ''KIB'' \<in> set size_units" "str ''KB'' \<in> set size_units" by (simp_all add: size_units_def)
  have b: "blank [32]" "blank []" by (simp_all add: blank_def space_rune_def)
  show ?thesis
    using size_never_wraps [of 128 "[32]" "str ''KiB''", unfolded u m] size_never_wraps [of 18446744073709551615 "[]" "str ''kb''", unfolded u m]
      b v s by simp
qed

end
