(* ===== verification/Node_Settings.thy ===== *)
theory Node_Settings
  imports Config Modem_Client Runtime
begin

text \<open>
  \<open>cmd/ghost-node/main.go\<close>: how \<open>ghost-node run\<close> finds its settings. The options of the command line, already read
  by the \<open>flag\<close> package, go before those of the configuration file; the radio settings are checked, sent to the
  modem and read back; the identity of the node is given, stored or drawn; the result is the configuration of
  \<open>NewRuntime\<close> in the theory \<open>Runtime\<close>. \<open>o_visited\<close> holds the names of the options that were given. The data
  directory is the root of the modelled disk.

  Lemmas: what the settings of a node that starts are and satisfy, whichever way they were given (\<open>as_asked\<close>).
\<close>

section \<open>Options\<close>

record byteSizeFlag =
  bf_value :: "64 word"
  bf_set :: bool

definition byteSizeFlag_String :: "byteSizeFlag \<Rightarrow> byte list" where
  "byteSizeFlag_String f = (if \<not> bf_set f then str ''unlimited'' else Itoa (unat (bf_value f)))"

definition byteSizeFlag_Set :: "byte list \<Rightarrow> byteSizeFlag \<Rightarrow> (go_error + unit) \<times> byteSizeFlag" where
  "byteSizeFlag_Set value f =
     (case ParseSize value of Inl e \<Rightarrow> (Inl e, f) | Inr n \<Rightarrow> (Inr (), \<lparr>bf_value = n, bf_set = True\<rparr>))"

record runOptions =
  o_configPath :: "byte list"
  o_device :: "byte list"
  o_dir :: "byte list"
  o_nodeID :: "byte list"
  o_signaturePolicy :: "byte list"
  o_interval :: duration
  o_startup :: duration
  o_maxAuto :: byteSizeFlag
  o_frequency :: "64 word"
  o_bandwidth :: "64 word"
  o_sf :: "64 word"
  o_cr :: "64 word"
  o_preamble :: "64 word"
  o_power :: int
  o_sync :: "byte list"
  o_visited :: "string set"

definition merge_options :: "runOptions \<Rightarrow> File \<Rightarrow> runOptions" where
  "merge_options o' cfg =
     (let given = (\<lambda>name. name \<in> o_visited o') in
      o'\<lparr>o_device := (if given ''device'' then o_device o' else f_Device cfg),
         o_dir := (if given ''data-dir'' then o_dir o' else f_DataDir cfg),
         o_nodeID := (if given ''node-id'' then o_nodeID o' else f_ID cfg),
         o_interval := (if given ''advertise-interval'' then o_interval o' else f_AdvertiseInterval cfg),
         o_startup := (if given ''startup-backoff'' then o_startup o' else f_StartupBackoff cfg),
         o_maxAuto := (if \<not> given ''max-auto-size'' \<and> bs_Set (f_MaxAutoSize cfg)
                       then \<lparr>bf_value = bs_Value (f_MaxAutoSize cfg), bf_set = True\<rparr> else o_maxAuto o'),
         o_signaturePolicy := (if given ''signature-policy'' then o_signaturePolicy o' else f_SignaturePolicy cfg)\<rparr>)"

text \<open>\<open>parseRun\<close> after the options are read, on what the TOML decoder makes of the configuration file.\<close>

definition parseRun :: "runOptions \<Rightarrow> go_error + File \<times> byte list list \<Rightarrow> go_error + runOptions \<times> File" where
  "parseRun o' decoded =
     bind_err (if o_configPath o' \<noteq> [] then Config_Decode decoded else Inr zero_File) (\<lambda>cfg.
       let m = merge_options o' cfg in
       if o_device m = [] \<or> o_dir m = [] then Inl (Failure ''radio device and data directory are required'')
       else if o_interval m < 0 \<or> ''advertise-interval'' \<in> o_visited m \<and> o_interval m = 0
       then Inl (Failure ''--advertise-interval must be positive'')
       else if o_startup m < 0 then Inl (Failure ''--startup-backoff cannot be negative'')
       else Inr (m, cfg))"

section \<open>Radio settings\<close>

text \<open>
  The settings of the file or the default ones, and whether any was asked for, with the options that were given
  in their place, one after the other.
\<close>

type_synonym settings = "RadioConfig \<times> bool"

definition override :: "bool \<Rightarrow> go_error + (RadioConfig \<Rightarrow> RadioConfig) \<Rightarrow> settings \<Rightarrow> go_error + settings" where
  "override given change s =
     (if given then bind_err change (\<lambda>f. Inr (f (fst s), True)) else Inr s)"

definition override_radio :: "runOptions \<Rightarrow> File \<Rightarrow> go_error + settings" where
  "override_radio o' cfg =
     (let given = (\<lambda>name. name \<in> o_visited o') in
      bind_err (override (given ''frequency'') (Inr (FrequencyMHz_update (\<lambda>_. to_float32 (o_frequency o'))))
                  (File_RadioConfig cfg, RadioConfigured cfg)) (\<lambda>s.
      bind_err (override (given ''bandwidth'') (Inr (BandwidthKHz_update (\<lambda>_. to_float32 (o_bandwidth o')))) s) (\<lambda>s.
      bind_err (override (given ''sf'')
                  (if o_sf o' > 255 then Inl (Failure ''sf out of range'') else Inr (SpreadingFactor_update (\<lambda>_. ucast (o_sf o')))) s) (\<lambda>s.
      bind_err (override (given ''cr'')
                  (if o_cr o' > 255 then Inl (Failure ''cr out of range'') else Inr (CodingRate_update (\<lambda>_. ucast (o_cr o')))) s) (\<lambda>s.
      bind_err (override (given ''power'')
                  (if o_power o' < - 128 \<or> o_power o' > 127 then Inl (Failure ''power out of range'')
                   else Inr (TXPowerDBm_update (\<lambda>_. word_of_int (o_power o')))) s) (\<lambda>s.
      bind_err (override (given ''preamble'')
                  (if o_preamble o' > 65535 then Inl (Failure ''preamble out of range'')
                   else Inr (PreambleSymbols_update (\<lambda>_. ucast (o_preamble o')))) s) (\<lambda>s.
      override (given ''sync'') (bind_err (ParseUint (o_sync o') 0 8) (\<lambda>value. Inr (SyncWord_update (\<lambda>_. of_nat value)))) s)))))))"

definition validateRadio :: "RadioConfig \<Rightarrow> go_error + unit" where
  "validateRadio v =
     (if f32_not_positive (FrequencyMHz v) \<or> f32_not_positive (BandwidthKHz v) \<or> f32_NaN (FrequencyMHz v) \<or> f32_Inf (FrequencyMHz v) \<or>
         f32_NaN (BandwidthKHz v) \<or> f32_Inf (BandwidthKHz v) then Inl (Failure ''frequency and bandwidth must be positive'')
      else if SpreadingFactor v < 5 \<or> SpreadingFactor v > 12 then Inl (Failure ''spreading factor must be 5-12'')
      else if CodingRate v < 5 \<or> CodingRate v > 8 then Inl (Failure ''coding rate must be 5-8'')
      else if sint (TXPowerDBm v) < - 9 \<or> sint (TXPowerDBm v) > 22 then Inl (Failure ''TX power must be -9 through 22'')
      else if PreambleSymbols v = 0 then Inl (Failure ''preamble must be positive'')
      else Inr ())"

text \<open>The interface \<open>modemConfigurator\<close>, on a world \<open>'w\<close>, and the modem client as one.\<close>

record 'w modemConfigurator =
  mc_Info :: "duration \<Rightarrow> 'w \<Rightarrow> ((go_error + byte list) \<times> 'w) option"
  mc_Configure :: "RadioConfig \<Rightarrow> duration \<Rightarrow> 'w \<Rightarrow> ((go_error + byte list) \<times> 'w) option"

definition modem_configurator :: "Client modemConfigurator" where
  "modem_configurator = \<lparr>mc_Info = Info, mc_Configure = SetConfig\<rparr>"

definition configureModem ::
  "'w modemConfigurator \<Rightarrow> RadioConfig \<Rightarrow> bool \<Rightarrow> 'w \<Rightarrow> ((go_error + byte list) \<times> 'w) option" where
  "configureModem device cfg configured w =
     (case mc_Info device (3 * Second) w of
        None \<Rightarrow> None
      | Some (Inl e, w) \<Rightarrow> Some (Inl e, w)
      | Some (Inr info, w) \<Rightarrow>
        if \<not> configured
        then Some (if sublist (str ''radio: ERROR'') info
                   then Inl (Failure ''modem reports radio initialization failure'') else Inr info, w)
        else (case mc_Configure device cfg (5 * Second) w of
           None \<Rightarrow> None
         | Some (Inl e, w) \<Rightarrow> Some (Inl e, w)
         | Some (Inr status, w) \<Rightarrow>
           (case ConfirmRadioStatus status cfg of
              Inl e \<Rightarrow> Some (Inl e, w)
            | Inr _ \<Rightarrow>
              (case mc_Info device (3 * Second) w of
                 None \<Rightarrow> None
               | Some (Inl e, w) \<Rightarrow> Some (Inl e, w)
               | Some (Inr readback, w) \<Rightarrow>
                 (case ConfirmRadioStatus readback cfg of
                    Inl e \<Rightarrow> Some (Inl e, w)
                  | Inr _ \<Rightarrow> Some (Inr readback, w))))))"

section \<open>What configuring does to the line\<close>

text \<open>
  The contract of the interface \<open>modemConfigurator\<close>: its two operations only move the world on. Then configuring,
  on whichever way it ends, only moves it on; for the modem client that means that every byte the line delivered
  went through the decoder, in order, and what was written before stays written.
\<close>

locale modem_device =
  fixes device :: "'w modemConfigurator"
    and later :: "'w \<Rightarrow> 'w \<Rightarrow> bool"
  assumes later_trans: "later w1 w2 \<Longrightarrow> later w2 w3 \<Longrightarrow> later w1 w3"
    and Info_later: "mc_Info device t w = Some (r, w') \<Longrightarrow> later w w'"
    and Configure_later: "mc_Configure device cfg t w = Some (r, w') \<Longrightarrow> later w w'"
begin

lemma configureModem_later: "configureModem device cfg configured w = Some (r, w') \<Longrightarrow> later w w'"
  unfolding configureModem_def
  by (auto split: option.splits prod.splits sum.splits if_splits dest!: Info_later Configure_later intro: later_trans)

end

definition client_later :: "Client \<Rightarrow> Client \<Rightarrow> bool" where
  "client_later c c' \<longleftrightarrow> (\<exists>fs. came_in c c' fs) \<and> (\<exists>w. po_written (cl_port c') = po_written (cl_port c) @ w)"

lemma Request_later:
  assumes "Request t payload timeout accept c = Some (r, c')"
  shows "client_later c c'"
proof -
  note run = assms [unfolded Request_def]
  have "\<exists>fs. came_in c c' fs" using request_keeps_frames [OF run] by (auto simp: keeps_frames_def)
  moreover from run have "\<exists>w. po_written (cl_port c') = po_written (cl_port c) @ w"
  proof (cases rule: requestWithRetry_cases)
    case (sent c1 c2)
    obtain w where "po_written (cl_port c1) = po_written (cl_port c) @ w" using client_Send_form(7) [OF sent(1)] by blast
    moreover obtain v where "po_written (cl_port c2) = po_written (cl_port c1) @ v"
      using request_loop_exchanged [OF sent(4)] by (auto simp: exchanged_def)
    ultimately show ?thesis using sent(5) by simp
  next
    case (unsent e)
    then show ?thesis using client_Send_form(6) [OF unsent(1)] by auto
  qed simp
  ultimately show ?thesis by (simp add: client_later_def)
qed

interpretation configured: modem_device modem_configurator client_later
proof unfold_locales
  show "client_later w1 w3" if "client_later w1 w2" "client_later w2 w3" for w1 w2 w3
    using that came_in_trans by (fastforce simp: client_later_def)
qed (auto simp: modem_configurator_def Info_def SetConfig_def intro: Request_later)

lemma configuring_conserves:
  "configureModem modem_configurator cfg given c = Some (r, c') \<Longrightarrow> client_later c c'"
  by (rule configured.configureModem_later)

section \<open>The identity of the node\<close>

definition TrimPrefix :: "byte list \<Rightarrow> byte list \<Rightarrow> byte list" where
  "TrimPrefix s p = (if prefix p s then drop (length p) s else s)"

definition valid_node_id :: "nat \<Rightarrow> bool" where
  "valid_node_id n \<longleftrightarrow> n \<noteq> 0 \<and> n \<noteq> unat Broadcast"

definition node_id_file :: path where "node_id_file = [str ''node-id'']"

text \<open>\<open>random\<close> is what \<open>rand.Read\<close> fills the four bytes with, \<open>kept\<close> how many bytes a failing write leaves.\<close>

definition loadNodeID :: "io \<Rightarrow> nat \<Rightarrow> go_error + byte list \<Rightarrow> byte list \<Rightarrow> NodeID call" where
  "loadNodeID io kept random value fs =
     (if value \<noteq> [] then
        (case ParseUint (TrimPrefix value (str ''0x'')) 16 32 of
           Inl e \<Rightarrow> (Inl (Failure ''invalid --node-id''), fs)
         | Inr n \<Rightarrow> (if valid_node_id n then Inr (of_nat n) else Inl (Failure ''invalid --node-id''), fs))
      else if mkdir_fails io [] then (Inl IOError, fs)
      else
        (let stored = bind_err (ReadBytes io fs node_id_file) (\<lambda>b. ParseUint (TrimSpace b) 16 32) in
         if (case stored of Inl _ \<Rightarrow> False | Inr n \<Rightarrow> valid_node_id n)
         then (case stored of Inl e \<Rightarrow> (Inl e, fs) | Inr n \<Rightarrow> (Inr (of_nat n), fs))
         else case random of
             Inl e \<Rightarrow> (Inl e, fs)
           | Inr b \<Rightarrow>
             (let drawn = (get_le b :: 32 word); nid = (if drawn = 0 \<or> drawn = Broadcast then 1 else drawn)
              in and_then (WriteFile io kept node_id_file (format_08x nid @ [10]) 384) (\<lambda>_ fs. (Inr nid, fs)) fs)))"

section \<open>Starting a node\<close>

definition defaultString :: "byte list \<Rightarrow> byte list \<Rightarrow> byte list" where
  "defaultString value fallback = (if value = [] then fallback else value)"

text \<open>
  \<open>runNode\<close> from the options to the configuration of the runtime and the text of the modem, on the result of
  opening the radio. The modem is configured before the signature policy is looked at, as in the code.
\<close>

definition runNode ::
  "'w modemConfigurator \<Rightarrow> io \<Rightarrow> nat \<Rightarrow> go_error + byte list \<Rightarrow> runOptions \<Rightarrow> go_error + File \<times> byte list list \<Rightarrow>
   go_error + unit \<Rightarrow> 'w \<Rightarrow> disk \<Rightarrow> ((go_error + NodeConfig \<times> settings \<times> byte list) \<times> 'w \<times> disk) option" where
  "runNode device io kept random o' decoded opened w fs =
     (case parseRun o' decoded of
        Inl e \<Rightarrow> Some (Inl e, w, fs)
      | Inr (m, cfg) \<Rightarrow>
        (case loadNodeID io kept random (o_nodeID m) fs of
           (Inl e, fs) \<Rightarrow> Some (Inl e, w, fs)
         | (Inr nid, fs) \<Rightarrow>
           (case bind_err opened (\<lambda>_. bind_err (override_radio m cfg) (\<lambda>s. bind_err (validateRadio (fst s)) (\<lambda>_. Inr s))) of
              Inl e \<Rightarrow> Some (Inl e, w, fs)
            | Inr (v, configured) \<Rightarrow>
              (case configureModem device v configured w of
                 None \<Rightarrow> None
               | Some (Inl e, w) \<Rightarrow> Some (Inl e, w, fs)
               | Some (Inr info, w) \<Rightarrow>
                 Some (bind_err (ParseSignaturePolicy (o_signaturePolicy m)) (\<lambda>signature.
                     Inr (\<lparr>nc_ID = nid, nc_AdvertiseInterval = o_interval m, nc_StartupBackoff = o_startup m, nc_ResponseTimeout = 0,
                            nc_PollInterval = 0, nc_LogInterval = 0, nc_ReplyGap = 0,
                            nc_Policy = \<lparr>ap_MaxAutoSize = bf_value (o_maxAuto m), ap_HasMaxSize = bf_set (o_maxAuto m),
                              ap_Signature = signature, ap_HasTrust = True\<rparr>\<rparr>, (v, configured), info)), w, fs)))))"

section \<open>What holds when a node starts\<close>

lemma override_unasked: "override given change s = Inr (v, False) \<Longrightarrow> s = (v, False)"
  by (auto simp: override_def split: if_splits)

lemma RadioConfigured_none: "\<not> RadioConfigured cfg \<Longrightarrow> File_RadioConfig cfg = DefaultConfig"
  by (simp add: RadioConfigured_def File_RadioConfig_def or_default_def)

lemma override_radio_unasked: "override_radio o' cfg = Inr (v, False) \<Longrightarrow> v = DefaultConfig"
  by (auto simp: override_radio_def Let_def RadioConfigured_none dest!: override_unasked)

lemma ParseUint_less: "ParseUint s b k = Inr n \<Longrightarrow> n < 2 ^ k"
  by (auto simp: ParseUint_def Let_def split: if_splits option.splits prod.splits)

text \<open>
  What the command line and the file ask for, field by field: the option when it was given, the value of the file
  otherwise, the default when the file has none. The numbers are compared as numbers, so nothing is cut off.
\<close>

definition chosen :: "runOptions \<Rightarrow> string \<Rightarrow> 'a \<Rightarrow> 'a \<Rightarrow> 'a" where
  "chosen o' name given otherwise = (if name \<in> o_visited o' then given else otherwise)"

definition radio_options :: "string set" where
  "radio_options = {''frequency'', ''bandwidth'', ''sf'', ''cr'', ''power'', ''preamble'', ''sync''}"

definition as_asked :: "runOptions \<Rightarrow> File \<Rightarrow> RadioConfig \<Rightarrow> bool" where
  "as_asked o' cfg v \<longleftrightarrow>
     FrequencyMHz v = chosen o' ''frequency'' (to_float32 (o_frequency o')) (or_default (FrequencyMHz DefaultConfig) (f_FrequencyMHz cfg)) \<and>
     BandwidthKHz v = chosen o' ''bandwidth'' (to_float32 (o_bandwidth o')) (or_default (BandwidthKHz DefaultConfig) (f_BandwidthKHz cfg)) \<and>
     unat (SpreadingFactor v) = chosen o' ''sf'' (unat (o_sf o')) (unat (or_default (SpreadingFactor DefaultConfig) (f_SpreadingFactor cfg))) \<and>
     unat (CodingRate v) = chosen o' ''cr'' (unat (o_cr o')) (unat (or_default (CodingRate DefaultConfig) (f_CodingRate cfg))) \<and>
     sint (TXPowerDBm v) = chosen o' ''power'' (o_power o') (sint (or_default (TXPowerDBm DefaultConfig) (f_TXPowerDBm cfg))) \<and>
     unat (PreambleSymbols v) = chosen o' ''preamble'' (unat (o_preamble o')) (unat (or_default (PreambleSymbols DefaultConfig) (f_Preamble cfg))) \<and>
     (if ''sync'' \<in> o_visited o' then ParseUint (o_sync o') 0 8 = Inr (unat (SyncWord v))
      else SyncWord v = or_default (SyncWord DefaultConfig) (f_SyncWord cfg))"

lemma override_checked:
  "override given (if bad then Inl e else Inr f) s = Inr t \<Longrightarrow>
     (given \<longrightarrow> \<not> bad) \<and> fst t = (if given then f (fst s) else fst s) \<and> snd t = (given \<or> snd s)"
  "override given (Inr f) s = Inr t \<Longrightarrow> fst t = (if given then f (fst s) else fst s) \<and> snd t = (given \<or> snd s)"
  by (auto simp: override_def split: if_splits)

lemma override_parsed:
  "override given (bind_err r (\<lambda>x. Inr (f x))) s = Inr t \<Longrightarrow>
     (if given then \<exists>x. r = Inr x \<and> fst t = f x (fst s) else fst t = fst s) \<and> snd t = (given \<or> snd s)"
  by (cases r) (auto simp: override_def split: if_splits)

lemma unat_ucast_small:
  fixes x :: "64 word"
  shows "x \<le> 255 \<Longrightarrow> unat (ucast x :: 8 word) = unat x" "x \<le> 65535 \<Longrightarrow> unat (ucast x :: 16 word) = unat x"
  by (simp_all add: unsigned_ucast_eq word_le_nat_alt take_bit_nat_eq_self)

lemma sint_word_of_int_small: "- 128 \<le> i \<Longrightarrow> i \<le> 127 \<Longrightarrow> sint (word_of_int i :: byte) = i"
  by (simp add: sint_sbintrunc' signed_take_bit_int_eq_self)

lemma override_radio_asked:
  assumes "override_radio o' cfg = Inr (v, c)"
  shows "as_asked o' cfg v" "c \<longleftrightarrow> RadioConfigured cfg \<or> o_visited o' \<inter> radio_options \<noteq> {}"
proof -
  let ?g = "\<lambda>name. name \<in> o_visited o'" and ?v = "File_RadioConfig cfg"
  obtain s1 s2 s3 s4 s5 s6 where s:
    "override (?g ''frequency'') (Inr (FrequencyMHz_update (\<lambda>_. to_float32 (o_frequency o')))) (?v, RadioConfigured cfg) = Inr s1"
    "override (?g ''bandwidth'') (Inr (BandwidthKHz_update (\<lambda>_. to_float32 (o_bandwidth o')))) s1 = Inr s2"
    "override (?g ''sf'') (if o_sf o' > 255 then Inl (Failure ''sf out of range'') else Inr (SpreadingFactor_update (\<lambda>_. ucast (o_sf o')))) s2 = Inr s3"
    "override (?g ''cr'') (if o_cr o' > 255 then Inl (Failure ''cr out of range'') else Inr (CodingRate_update (\<lambda>_. ucast (o_cr o')))) s3 = Inr s4"
    "override (?g ''power'') (if o_power o' < - 128 \<or> o_power o' > 127 then Inl (Failure ''power out of range'')
       else Inr (TXPowerDBm_update (\<lambda>_. word_of_int (o_power o')))) s4 = Inr s5"
    "override (?g ''preamble'') (if o_preamble o' > 65535 then Inl (Failure ''preamble out of range'')
       else Inr (PreambleSymbols_update (\<lambda>_. ucast (o_preamble o')))) s5 = Inr s6"
    "override (?g ''sync'') (bind_err (ParseUint (o_sync o') 0 8) (\<lambda>value. Inr (SyncWord_update (\<lambda>_. of_nat value)))) s6 = Inr (v, c)"
    using assms that unfolding override_radio_def Let_def bind_err_Inr_iff by blast
  note e = override_checked(2) [OF s(1)] override_checked(2) [OF s(2)] override_checked(1) [OF s(3)] override_checked(1) [OF s(4)]
    override_checked(1) [OF s(5)] override_checked(1) [OF s(6)]
  note e7 = override_parsed [OF s(7)]
  show "c \<longleftrightarrow> RadioConfigured cfg \<or> o_visited o' \<inter> radio_options \<noteq> {}"
  proof -
    note k = e(1,2) [THEN conjunct2] e(3-6) [THEN conjunct2, THEN conjunct2] e7 [THEN conjunct2]
    have "c \<longleftrightarrow> ?g ''sync'' \<or> ?g ''preamble'' \<or> ?g ''power'' \<or> ?g ''cr'' \<or> ?g ''sf'' \<or> ?g ''bandwidth'' \<or> ?g ''frequency'' \<or>
        RadioConfigured cfg"
      using k(7) unfolding k(1-6) snd_conv .
    moreover have "V \<inter> insert a B \<noteq> {} \<longleftrightarrow> a \<in> V \<or> V \<inter> B \<noteq> {}" for V B and a :: string by blast
    ultimately show ?thesis by (simp only: radio_options_def Int_empty_right simp_thms disj_ac)
  qed
  have six: "FrequencyMHz v = FrequencyMHz (fst s6)" "BandwidthKHz v = BandwidthKHz (fst s6)" "SpreadingFactor v = SpreadingFactor (fst s6)"
    "CodingRate v = CodingRate (fst s6)" "TXPowerDBm v = TXPowerDBm (fst s6)" "PreambleSymbols v = PreambleSymbols (fst s6)"
    using e7 by (auto split: if_splits)
  have sync: "SyncWord (fst s6) = SyncWord ?v" using e by simp
  show "as_asked o' cfg v"
    unfolding as_asked_def
  proof (intro conjI)
    show "FrequencyMHz v = chosen o' ''frequency'' (to_float32 (o_frequency o')) (or_default (FrequencyMHz DefaultConfig) (f_FrequencyMHz cfg))"
      "BandwidthKHz v = chosen o' ''bandwidth'' (to_float32 (o_bandwidth o')) (or_default (BandwidthKHz DefaultConfig) (f_BandwidthKHz cfg))"
      unfolding six chosen_def using e by (simp_all add: File_RadioConfig_def)
    show "unat (SpreadingFactor v) = chosen o' ''sf'' (unat (o_sf o')) (unat (or_default (SpreadingFactor DefaultConfig) (f_SpreadingFactor cfg)))"
      "unat (CodingRate v) = chosen o' ''cr'' (unat (o_cr o')) (unat (or_default (CodingRate DefaultConfig) (f_CodingRate cfg)))"
      "unat (PreambleSymbols v) = chosen o' ''preamble'' (unat (o_preamble o')) (unat (or_default (PreambleSymbols DefaultConfig) (f_Preamble cfg)))"
      unfolding six chosen_def using e by (simp_all add: File_RadioConfig_def unat_ucast_small not_less)
    show "sint (TXPowerDBm v) = chosen o' ''power'' (o_power o') (sint (or_default (TXPowerDBm DefaultConfig) (f_TXPowerDBm cfg)))"
      unfolding six chosen_def using e by (simp add: File_RadioConfig_def sint_word_of_int_small not_less)
    show "if ?g ''sync'' then ParseUint (o_sync o') 0 8 = Inr (unat (SyncWord v)) else SyncWord v = or_default (SyncWord DefaultConfig) (f_SyncWord cfg)"
    proof (cases "?g ''sync''")
      case True
      then obtain n where n: "ParseUint (o_sync o') 0 8 = Inr n" "v = SyncWord_update (\<lambda>_. of_nat n) (fst s6)" using e7 by auto
      have "unat (of_nat n :: byte) = n" using ParseUint_less [OF n(1)] by (intro unat_of_nat_fits) simp
      then show ?thesis using True n by simp
    next
      case False
      then show ?thesis using e7 sync by (simp add: File_RadioConfig_def)
    qed
  qed
qed

lemma validateRadio_finite: "validateRadio v = Inr () \<Longrightarrow> settings_finite v"
  by (auto simp: validateRadio_def settings_finite_def f32_finite_def f32_NaN_def f32_Inf_def split: if_splits)

lemma validateRadio_iff:
  "validateRadio v = Inr () \<longleftrightarrow> \<not> bad_float (FrequencyMHz v) \<and> \<not> bad_float (BandwidthKHz v) \<and>
     5 \<le> SpreadingFactor v \<and> SpreadingFactor v \<le> 12 \<and> 5 \<le> CodingRate v \<and> CodingRate v \<le> 8 \<and>
     - 9 \<le> sint (TXPowerDBm v) \<and> sint (TXPowerDBm v) \<le> 22 \<and> PreambleSymbols v \<noteq> 0"
  by (auto simp: validateRadio_def bad_float_def not_less)

text \<open>The file's own check and the check of the node agree on the radio settings.\<close>

lemma Validate_validateRadio:
  assumes "Validate cfg = Inr ()"
  shows "validateRadio (File_RadioConfig cfg) = Inr ()"
proof -
  have d: "\<not> bad_float (FrequencyMHz DefaultConfig)" "\<not> bad_float (BandwidthKHz DefaultConfig)"
    by (simp_all add: bad_float_def DefaultConfig_def f32_not_positive_def f32_NaN_def f32_Inf_def f32_exponent_def f32_negative_def)
  have s: "sint (TXPowerDBm DefaultConfig) = 5" "SpreadingFactor DefaultConfig = 7" "CodingRate DefaultConfig = 5"
    "PreambleSymbols DefaultConfig = 8" by (simp_all add: DefaultConfig_def)
  have v: "\<not> (case f_FrequencyMHz cfg of None \<Rightarrow> False | Some x \<Rightarrow> bad_float x)"
    "\<not> (case f_BandwidthKHz cfg of None \<Rightarrow> False | Some x \<Rightarrow> bad_float x)"
    "\<not> (case f_SpreadingFactor cfg of None \<Rightarrow> False | Some x \<Rightarrow> x < 5 \<or> x > 12)"
    "\<not> (case f_CodingRate cfg of None \<Rightarrow> False | Some x \<Rightarrow> x < 5 \<or> x > 8)"
    "\<not> (case f_TXPowerDBm cfg of None \<Rightarrow> False | Some x \<Rightarrow> sint x < - 9 \<or> sint x > 22)" "f_Preamble cfg \<noteq> Some 0"
    using assms unfolding Validate_def by (simp_all only: split: if_splits) simp_all
  have "\<not> bad_float (or_default (FrequencyMHz DefaultConfig) (f_FrequencyMHz cfg))"
    "\<not> bad_float (or_default (BandwidthKHz DefaultConfig) (f_BandwidthKHz cfg))"
    using v(1,2) d by (simp_all add: or_default_def split: option.splits)
  moreover have "5 \<le> or_default (SpreadingFactor DefaultConfig) (f_SpreadingFactor cfg) \<and> or_default (SpreadingFactor DefaultConfig) (f_SpreadingFactor cfg) \<le> 12"
    "5 \<le> or_default (CodingRate DefaultConfig) (f_CodingRate cfg) \<and> or_default (CodingRate DefaultConfig) (f_CodingRate cfg) \<le> 8"
    using v(3,4) s by (simp_all add: or_default_def not_less split: option.splits)
  moreover have "- 9 \<le> sint (or_default (TXPowerDBm DefaultConfig) (f_TXPowerDBm cfg)) \<and> sint (or_default (TXPowerDBm DefaultConfig) (f_TXPowerDBm cfg)) \<le> 22"
    using v(5) s(1) by (simp add: or_default_def not_less split: option.splits)
  moreover have "or_default (PreambleSymbols DefaultConfig) (f_Preamble cfg) \<noteq> 0"
    using v(6) s(4) by (auto simp: or_default_def split: option.splits)
  ultimately show ?thesis by (simp add: validateRadio_iff File_RadioConfig_def)
qed

lemma valid_node_id_word:
  assumes "n < 2 ^ 32" "valid_node_id n"
  shows "(of_nat n :: NodeID) \<noteq> 0 \<and> (of_nat n :: NodeID) \<noteq> Broadcast"
proof -
  have "unat (of_nat n :: NodeID) = n" using assms(1) by (intro unat_of_nat_fits) simp
  then show ?thesis using assms(2) by (auto simp: valid_node_id_def)
qed

lemma loadNodeID_valid:
  assumes "loadNodeID io kept random value fs = (Inr nid, fs')"
  shows "nid \<noteq> 0 \<and> nid \<noteq> Broadcast"
proof -
  have p: "(of_nat n :: NodeID) \<noteq> 0 \<and> (of_nat n :: NodeID) \<noteq> Broadcast" if "ParseUint s 16 32 = Inr n" "valid_node_id n" for s n
    using valid_node_id_word ParseUint_less that by blast
  show ?thesis
    using assms p unfolding loadNodeID_def Let_def
    by (auto split: if_splits sum.splits simp del: Broadcast_def) (auto split: if_splits)
qed

lemma configureModem_confirmed:
  assumes "configureModem device v configured w = Some (Inr info, w')"
  shows "if configured
    then ConfirmRadioStatus info v = Inr () \<and> (\<exists>i w1 status w2. mc_Info device (3 * Second) w = Some (Inr i, w1) \<and>
      mc_Configure device v (5 * Second) w1 = Some (Inr status, w2) \<and> mc_Info device (3 * Second) w2 = Some (Inr info, w'))
    else \<not> sublist (str ''radio: ERROR'') info"
  using assms by (auto simp: configureModem_def split: option.splits sum.splits if_splits prod.splits)

lemma merge_options_kept:
  "o_visited (merge_options o' cfg) = o_visited o'"
  "o_frequency (merge_options o' cfg) = o_frequency o'"
  "o_bandwidth (merge_options o' cfg) = o_bandwidth o'"
  "o_sf (merge_options o' cfg) = o_sf o'"
  "o_cr (merge_options o' cfg) = o_cr o'"
  "o_power (merge_options o' cfg) = o_power o'"
  "o_preamble (merge_options o' cfg) = o_preamble o'"
  "o_sync (merge_options o' cfg) = o_sync o'"
  by (simp_all add: merge_options_def Let_def)

lemma merge_options_asked: "as_asked (merge_options o' cfg) conf v = as_asked o' conf v"
  by (simp only: as_asked_def chosen_def merge_options_kept)

lemma parseRun_Inr:
  assumes "parseRun o' decoded = Inr (m, cfg)"
  shows "(if o_configPath o' \<noteq> [] then Config_Decode decoded else Inr zero_File) = Inr cfg" "m = merge_options o' cfg"
    "0 \<le> o_interval m" "0 \<le> o_startup m"
  using assms by (auto simp: parseRun_def Let_def split: if_splits)

lemma merged_options:
  assumes "m = merge_options o' cfg"
  shows "o_interval m = chosen o' ''advertise-interval'' (o_interval o') (f_AdvertiseInterval cfg)"
    "o_startup m = chosen o' ''startup-backoff'' (o_startup o') (f_StartupBackoff cfg)"
    "o_nodeID m = chosen o' ''node-id'' (o_nodeID o') (f_ID cfg)"
    "o_signaturePolicy m = chosen o' ''signature-policy'' (o_signaturePolicy o') (f_SignaturePolicy cfg)"
    "o_maxAuto m = (if ''max-auto-size'' \<notin> o_visited o' \<and> bs_Set (f_MaxAutoSize cfg)
       then \<lparr>bf_value = bs_Value (f_MaxAutoSize cfg), bf_set = True\<rparr> else o_maxAuto o')"
  by (simp_all add: assms merge_options_def Let_def chosen_def)

lemma loadNodeID_given:
  assumes "loadNodeID io kept random value fs = (Inr nid, fs')" "value \<noteq> []"
  shows "ParseUint (TrimPrefix value (str ''0x'')) 16 32 = Inr (unat nid)"
proof -
  obtain n where n: "ParseUint (TrimPrefix value (str ''0x'')) 16 32 = Inr n" "nid = of_nat n"
    using assms by (auto simp: loadNodeID_def split: sum.splits if_splits)
  have "unat (of_nat n :: NodeID) = n" using ParseUint_less [OF n(1)] by (intro unat_of_nat_fits) simp
  then show ?thesis using n by simp
qed

section \<open>Properties\<close>

text \<open>
  C17: A node that starts runs on the settings it was given, the option before the file before the default: its
  radio settings are field by field the ones asked for (nothing is cut off) and passed the checks, its two
  intervals, its size limit and its signature policy are the ones asked for, the intervals are not negative, a
  given identity is the one it has, and no identity is zero or the broadcast address. When any radio setting
  was given, exactly these settings were sent to the modem, and the status it reported last, after that, confirms
  them: if it was printed from some settings, these are the requested ones, up to the digits printed of the
  frequency and the bandwidth. When none was given, they are the default ones, and the modem did not report a
  failed radio.
\<close>

theorem node_starts_as_configured:
  assumes "runNode device io kept random o' decoded opened w fs = Some (Inr (cfg, (v, configured), info), w', fs')"
  shows "\<exists>conf. (if o_configPath o' \<noteq> [] then Config_Decode decoded else Inr zero_File) = Inr conf \<and>
    as_asked o' conf v \<and> validateRadio v = Inr () \<and>
    nc_AdvertiseInterval cfg = chosen o' ''advertise-interval'' (o_interval o') (f_AdvertiseInterval conf) \<and> 0 \<le> nc_AdvertiseInterval cfg \<and>
    nc_StartupBackoff cfg = chosen o' ''startup-backoff'' (o_startup o') (f_StartupBackoff conf) \<and> 0 \<le> nc_StartupBackoff cfg \<and>
    (if ''max-auto-size'' \<notin> o_visited o' \<and> bs_Set (f_MaxAutoSize conf)
     then ap_HasMaxSize (nc_Policy cfg) \<and> ap_MaxAutoSize (nc_Policy cfg) = bs_Value (f_MaxAutoSize conf)
     else ap_HasMaxSize (nc_Policy cfg) = bf_set (o_maxAuto o') \<and> ap_MaxAutoSize (nc_Policy cfg) = bf_value (o_maxAuto o')) \<and>
    ParseSignaturePolicy (chosen o' ''signature-policy'' (o_signaturePolicy o') (f_SignaturePolicy conf)) = Inr (ap_Signature (nc_Policy cfg)) \<and>
    nc_ID cfg \<noteq> 0 \<and> nc_ID cfg \<noteq> Broadcast \<and>
    (let given = chosen o' ''node-id'' (o_nodeID o') (f_ID conf)
     in given \<noteq> [] \<longrightarrow> ParseUint (TrimPrefix given (str ''0x'')) 16 32 = Inr (unat (nc_ID cfg))) \<and>
    configured = (RadioConfigured conf \<or> o_visited o' \<inter> radio_options \<noteq> {}) \<and>
    (if configured
     then (\<exists>i w1 status w2. mc_Info device (3 * Second) w = Some (Inr i, w1) \<and>
         mc_Configure device v (5 * Second) w1 = Some (Inr status, w2) \<and> mc_Info device (3 * Second) w2 = Some (Inr info, w')) \<and>
       ConfirmRadioStatus info v = Inr () \<and>
       (\<forall>state u oled. info = modem_status state u oled \<and> oled_name oled \<and> settings_finite u \<longrightarrow> same_settings v u)
     else v = DefaultConfig \<and> \<not> sublist (str ''radio: ERROR'') info)"
proof -
  obtain m conf where m: "parseRun o' decoded = Inr (m, conf)" using assms by (auto simp: runNode_def split: sum.splits)
  obtain nid fs1 where nid: "loadNodeID io kept random (o_nodeID m) fs = (Inr nid, fs1)"
    using assms m by (auto simp: runNode_def split: sum.splits prod.splits)
  obtain v1 c1 where s: "opened = Inr ()" "override_radio m conf = Inr (v1, c1)" "validateRadio v1 = Inr ()"
    using assms m nid by (auto simp: runNode_def split: sum.splits)
  then obtain info1 w1 where c: "configureModem device v1 c1 w = Some (Inr info1, w1)"
    using assms m nid by (auto simp: runNode_def split: sum.splits option.splits prod.splits)
  then have r: "v = v1" "configured = c1" "info = info1" "w' = w1" "nc_ID cfg = nid" "nc_AdvertiseInterval cfg = o_interval m"
      "nc_StartupBackoff cfg = o_startup m" "ap_HasMaxSize (nc_Policy cfg) = bf_set (o_maxAuto m)"
      "ap_MaxAutoSize (nc_Policy cfg) = bf_value (o_maxAuto m)"
      "ParseSignaturePolicy (o_signaturePolicy m) = Inr (ap_Signature (nc_Policy cfg))"
    using assms m nid s by (auto simp: runNode_def)
  note p = parseRun_Inr [OF m] and g = merged_options [OF parseRun_Inr(2) [OF m]] and a = override_radio_asked [OF s(2)]
  have asked: "as_asked o' conf v" "configured = (RadioConfigured conf \<or> o_visited o' \<inter> radio_options \<noteq> {})"
    using a unfolding p(2) merge_options_asked merge_options_kept(1) r(1,2) .
  have close: "same_settings v u" if "configured" "info = modem_status state u oled" "oled_name oled" "settings_finite u" for state u oled
    using configureModem_confirmed [OF c] r(1-3) that confirmed_close validateRadio_finite s(3) by auto
  have unasked: "v = DefaultConfig" if "\<not> configured" using that override_radio_unasked s(2) r(1,2) by simp
  have policy: "ParseSignaturePolicy (chosen o' ''signature-policy'' (o_signaturePolicy o') (f_SignaturePolicy conf)) =
      Inr (ap_Signature (nc_Policy cfg))" using r(10) unfolding g(4) .
  show ?thesis
    using p(1,3,4) asked close unasked policy configureModem_confirmed [OF c] loadNodeID_valid [OF nid] loadNodeID_given [OF nid] s(3)
    unfolding r(1-9) g Let_def by (intro exI [of _ conf] conjI) (simp_all split: if_splits)
qed

definition example_modem :: "unit modemConfigurator" where
  "example_modem =
     \<lparr>mc_Info = \<lambda>_ w. Some (Inr (modem_status (str ''OK RX_READY'') DefaultConfig ''minimal''), w),
      mc_Configure = \<lambda>_ _ w. Some (Inr (modem_status (str ''OK RX_READY'') DefaultConfig ''minimal''), w)\<rparr>"

definition example_options :: runOptions where
  "example_options = \<lparr>o_configPath = [], o_device = str ''/dev/ttyUSB0'', o_dir = str ''data'', o_nodeID = str ''0x7'',
     o_signaturePolicy = [], o_interval = 0, o_startup = 0, o_maxAuto = \<lparr>bf_value = 0, bf_set = False\<rparr>, o_frequency = 0, o_bandwidth = 0,
     o_sf = 7, o_cr = 0, o_preamble = 0, o_power = 0, o_sync = [], o_visited = {''device'', ''data-dir'', ''node-id'', ''sf''}\<rparr>"

lemma example_run:
  "\<exists>cfg. runNode example_modem no_faults 0 (Inl IOError) example_options (Inl NotExist) (Inr ()) () [] =
     Some (Inr (cfg, (DefaultConfig, True), modem_status (str ''OK RX_READY'') DefaultConfig ''minimal''), (), []) \<and> nc_ID cfg = 7"
proof -
  let ?s = "modem_status (str ''OK RX_READY'') DefaultConfig ''minimal''"
  have m: "merge_options example_options zero_File = example_options"
    by (simp add: merge_options_def example_options_def zero_File_def)
  have p: "parseRun example_options (Inl NotExist) = Inr (example_options, zero_File)"
    by (simp add: parseRun_def m) (simp add: example_options_def str_def)
  have n: "loadNodeID no_faults 0 (Inl IOError) (o_nodeID example_options) [] = (Inr 7, [])"
    by (simp add: loadNodeID_def example_options_def str_def TrimPrefix_def ParseUint_def digit_value_def valid_node_id_def)
  have o': "override_radio example_options zero_File = Inr (DefaultConfig, True)"
    by (simp add: override_radio_def override_def example_options_def zero_File_def File_RadioConfig_def or_default_def)
       (simp add: DefaultConfig_def)
  have v: "validateRadio DefaultConfig = Inr ()"
    by (simp add: validateRadio_iff bad_float_def f32_not_positive_def f32_NaN_def f32_Inf_def f32_exponent_def f32_negative_def)
       (simp add: DefaultConfig_def)
  have "ConfirmRadioStatus ?s DefaultConfig = Inr ()"
    using confirm_modem_status [of "''minimal''"] by (simp add: oled_name_def)
  then have c: "configureModem example_modem DefaultConfig True () = Some (Inr ?s, ())"
    by (simp add: configureModem_def example_modem_def)
  have "ParseSignaturePolicy (o_signaturePolicy example_options) = Inr SignaturePermissive"
    by (simp add: ParseSignaturePolicy_def example_options_def)
  then show ?thesis by (simp add: runNode_def p n o' v c)
qed

theorem node_starts_as_configured_witness:
  "\<exists>cfg info. runNode example_modem no_faults 0 (Inl IOError) example_options (Inl NotExist) (Inr ()) () [] =
     Some (Inr (cfg, (DefaultConfig, True), info), (), []) \<and> nc_ID cfg \<noteq> Broadcast \<and> nc_AdvertiseInterval cfg = 0 \<and>
     as_asked example_options zero_File DefaultConfig"
proof -
  obtain cfg where r: "runNode example_modem no_faults 0 (Inl IOError) example_options (Inl NotExist) (Inr ()) () [] =
      Some (Inr (cfg, (DefaultConfig, True), modem_status (str ''OK RX_READY'') DefaultConfig ''minimal''), (), [])"
    using example_run by blast
  have "o_configPath example_options = []" "f_AdvertiseInterval zero_File = 0" "''advertise-interval'' \<notin> o_visited example_options"
    by (simp_all add: example_options_def zero_File_def)
  with node_starts_as_configured [OF r] r show ?thesis by (auto simp: chosen_def)
qed

lemma write_read_id:
  assumes "WriteFile io kept node_id_file (format_08x nid @ [10]) mode fs = (Inr (), fs')" "nid \<noteq> 0" "nid \<noteq> Broadcast"
  shows "bind_err (ReadBytes no_faults fs' node_id_file) (\<lambda>b. ParseUint (TrimSpace b) 16 32) = Inr (unat nid)" "valid_node_id (unat nid)"
proof -
  obtain m where f: "lookup fs' node_id_file = Some (File m (Raw (format_08x nid @ [10])))"
    using assms(1) by (auto simp: WriteFile_def Let_def disk_simps split: if_splits)
  have "list_all visible (format_08x nid)"
    using hex_lower [of "rev (put_le 4 nid)"] hex_visible by (simp add: format_08x_def)
  moreover have "blank [10]" "blank []" by (simp_all add: blank_def space_rune_def)
  moreover have "format_08x nid \<noteq> []" by (simp add: format_08x_def flip: length_greater_0_conv)
  ultimately have "TrimSpace (format_08x nid @ [10]) = format_08x nid" using TrimSpace_visible [of "format_08x nid" "[]" "[10]"] by simp
  moreover have "ReadBytes no_faults fs' node_id_file = Inr (format_08x nid @ [10])" using f by simp
  ultimately show "bind_err (ReadBytes no_faults fs' node_id_file) (\<lambda>b. ParseUint (TrimSpace b) 16 32) = Inr (unat nid)"
    by (simp only: bind_err.simps ParseUint_format_08x)
  show "valid_node_id (unat nid)" using assms(2,3)
    by (simp only: valid_node_id_def unat_eq_zero word_unat_eq_iff [symmetric] not_False_eq_True simp_thms)
qed

text \<open>
  C30: The identity of a node lasts: when a node without a given identity gets one, from its file or drawn, it is a
  valid one, and the next start finds the same identity and changes nothing, whatever is drawn then. Only the
  identity file is ever written.
\<close>

theorem node_identity_lasts:
  assumes "loadNodeID io kept random [] fs = (Inr nid, fs')"
  shows "nid \<noteq> 0 \<and> nid \<noteq> Broadcast \<and> (\<forall>kept' random'. loadNodeID no_faults kept' random' [] fs' = (Inr nid, fs')) \<and>
    (\<forall>q. q \<noteq> node_id_file \<longrightarrow> lookup fs' q = lookup fs q)"
proof -
  let ?stored = "\<lambda>io fs. bind_err (ReadBytes io fs node_id_file) (\<lambda>b. ParseUint (TrimSpace b) 16 32)"
  note valid = loadNodeID_valid [OF assms]
  have again: "loadNodeID no_faults kept' random' [] gs = (Inr nid, gs)"
    if "?stored no_faults gs = Inr (unat nid)" "valid_node_id (unat nid)" for kept' random' gs
    unfolding loadNodeID_def that(1) using that(2) by simp
  have nofail: "\<not> mkdir_fails io []" using assms by (auto simp: loadNodeID_def)
  show ?thesis
  proof (cases "case ?stored io fs of Inl _ \<Rightarrow> False | Inr n \<Rightarrow> valid_node_id n")
    case True
    then obtain n where n: "?stored io fs = Inr n" "valid_node_id n" by (cases "?stored io fs") simp_all
    then have r: "nid = of_nat n" "fs' = fs" using assms nofail unfolding loadNodeID_def Let_def n(1) by simp_all
    obtain b where b: "ReadBytes io fs node_id_file = Inr b" "ParseUint (TrimSpace b) 16 32 = Inr n"
      using n(1) by (cases "ReadBytes io fs node_id_file") simp_all
    have "unat nid = n" using r(1) ParseUint_less [OF b(2)] by (simp add: unat_of_nat_fits)
    moreover have "ReadBytes no_faults fs node_id_file = Inr b" using b(1) by auto
    ultimately show ?thesis using again [of fs] b(2) n(2) r(2) valid by (simp only: bind_err.simps) simp
  next
    case False
    then obtain b where b: "random = Inr b" using assms nofail unfolding loadNodeID_def Let_def by (auto split: sum.splits)
    then have w: "WriteFile io kept node_id_file (format_08x nid @ [10]) 384 fs = (Inr (), fs')"
      using assms nofail False unfolding loadNodeID_def Let_def
      by (auto simp: and_then_def split: sum.splits prod.splits)
    have "\<forall>q. q \<noteq> node_id_file \<longrightarrow> lookup fs' q = lookup fs q"
      using w by (auto simp: WriteFile_def Let_def disk_simps split: if_splits)
    then show ?thesis using write_read_id [OF w] valid again by blast
  qed
qed

theorem node_identity_lasts_witness:
  "loadNodeID no_faults 0 (Inr [1, 2, 3, 4]) [] [] = (Inr 0x04030201, [(node_id_file, File 384 (Raw (str ''04030201'' @ [10])))]) \<and>
   loadNodeID no_faults 0 (Inr [9, 9, 9, 9]) [] [(node_id_file, File 384 (Raw (str ''04030201'' @ [10])))] =
     (Inr 0x04030201, [(node_id_file, File 384 (Raw (str ''04030201'' @ [10])))])"
proof -
  have w: "WriteFile no_faults 0 node_id_file (format_08x 0x04030201 @ [10]) 384 [] =
      (Inr (), [(node_id_file, File 384 (Raw (str ''04030201'' @ [10])))])"
    by (simp add: WriteFile_def node_id_file_def is_dir_def lookup_def put_def format_08x_def put_le_def upt_rec hex_digit_def str_def)
  have d: "(get_le [1, 2, 3, 4] :: 32 word) = 0x04030201" by simp
  have "ReadBytes no_faults [] node_id_file = Inl NotExist" by (simp add: ReadBytes_def ReadFile_def lookup_def)
  then have r: "loadNodeID no_faults 0 (Inr [1, 2, 3, 4]) [] [] = (Inr 0x04030201, [(node_id_file, File 384 (Raw (str ''04030201'' @ [10])))])"
    unfolding loadNodeID_def d Let_def by (simp add: and_then_def w)
  from node_identity_lasts [OF r] r show ?thesis by blast
qed

end
