(* ===== verification/Node_Commands.thy ===== *)
theory Node_Commands
  imports Catalog Node_Settings
begin

text \<open>
  The commands of \<open>cmd/ghost-node\<close> that work on the store: \<open>add\<close> and \<open>want\<close> of \<open>main.go\<close>, and \<open>keygen\<close>, \<open>trust\<close>,
  \<open>library\<close>, \<open>inspect\<close> and \<open>config\<close> of \<open>commands.go\<close>. Reading the options is the \<open>flag\<close> package's, the argument
  \<open>parse\<close>: from the name of a flag set and the arguments to the value of each option and the arguments left. What
  a command prints is a value of \<open>printed\<close>, one constructor for each form of output. The data directory is the
  root of the modelled disk; \<open>files\<close> is what reading a file elsewhere returns, \<open>toml\<close> what the TOML decoder makes
  of one.

  Lemmas: the signature status that is printed is what the admission policy decides on, the size that is printed
  is the size, and what \<open>add\<close> leaves on the disk is what \<open>inspect\<close> shows.
\<close>

section \<open>Options and output\<close>

definition data_dir :: "flags \<Rightarrow> byte list" where "data_dir f = fl_string f ''data-dir''"

record row =
  row_State :: "byte list"
  row_Size :: "byte list"
  row_Signature :: "byte list"
  row_Filename :: "byte list"
  row_ID :: ID

record details =
  d_State :: "byte list"
  d_Wanted :: bool
  d_ID :: ID
  d_Filename :: "byte list"
  d_Length :: "64 word"
  d_SHA256 :: hash256
  d_ChunkSize :: "16 word"
  d_ChunkCount :: "16 word"
  d_Signature :: "byte list"

datatype printed =
    Added Manifest "byte list" path
  | MarkedWanted ID
  | CreatedKey "byte list"
  | Keys "byte list list"
  | Removed
  | NowTrusted "byte list"
  | Library "row list"
  | Details details
  | Line "byte list"
  | Contents "byte list"

section \<open>What is shown of a publication\<close>

definition nodeSignatureStatus :: "crypto \<Rightarrow> io \<Rightarrow> disk \<Rightarrow> Manifest \<Rightarrow> byte list" where
  "nodeSignatureStatus c io fs m =
     (case m_Signature m of
        None \<Rightarrow> str ''unsigned''
      | Some sig \<Rightarrow>
        if VerifyManifestSignature c m \<noteq> Inr () then str ''invalid''
        else (let kid = KeyID c (array_bytes (PublicKey sig)) in
              if Trusted c io fs (array_bytes (PublicKey sig)) then str ''trusted:'' @ kid else str ''signed/untrusted:'' @ kid))"

text \<open>
  \<open>float64(size)\<close>: the nearest number with 53 bits, halves to even. The divisions by 1024 are exact, so the value is
  kept as this integer and its divisor.
\<close>

definition to_float64 :: "64 word \<Rightarrow> nat" where
  "to_float64 sz =
     (let n = unat sz; k = bit_length n - 53
      in if k = 0 then n else nat (round_even (int n) (2 ^ k)) * 2 ^ k)"

fun larger_unit :: "byte list list \<Rightarrow> nat \<Rightarrow> nat \<Rightarrow> byte list \<Rightarrow> nat \<times> byte list" where
  "larger_unit [] value divisor unit = (divisor, unit)"
| "larger_unit (next_unit # units) value divisor unit =
     (if value \<ge> 1024 * divisor then larger_unit units value (1024 * divisor) next_unit else (divisor, unit))"

definition humanSize :: "64 word \<Rightarrow> byte list" where
  "humanSize sz =
     (let value = to_float64 sz;
          (divisor, unit) = larger_unit [str ''KiB'', str ''MiB'', str ''GiB''] value 1 (str ''B'')
      in if unit = str ''B'' then Itoa (unat sz) @ str '' B''
         else fixed_digits 1 (nat (round_even (10 * int value) (int divisor))) @ [32] @ unit)"

section \<open>Publishing and asking for a publication\<close>

text \<open>The identity \<open>add\<close> signs with: none is no error when the file of the key does not exist.\<close>

definition signing_identity :: "crypto \<Rightarrow> io \<Rightarrow> disk \<Rightarrow> bool \<Rightarrow> go_error + Identity option" where
  "signing_identity c io fs plain =
     (if plain then Inr None
      else case LoadIdentity c io fs of
          Inr loaded \<Rightarrow> Inr (Some loaded)
        | Inl e \<Rightarrow> if e = NotExist then Inr None else Inl e)"

definition add_command ::
  "crypto \<Rightarrow> io \<Rightarrow> parser \<Rightarrow> (byte list \<Rightarrow> go_error + byte list) \<Rightarrow> byte list list \<Rightarrow> printed call" where
  "add_command c io parse files args fs =
     (case parse ''add'' args of
        Inl e \<Rightarrow> (Inl e, fs)
      | Inr f \<Rightarrow>
        if data_dir f = [] \<or> length (fl_Args f) \<noteq> 1 then (usage ''usage: ghost-node add --data-dir DIR [--unsigned] FILE'', fs)
        else (case signing_identity c io fs (fl_bool f ''unsigned'') of
           Inl e \<Rightarrow> (Inl e, fs)
         | Inr identity \<Rightarrow>
           and_then (AddFileSigned c io (hd (fl_Args f)) (files (hd (fl_Args f))) identity) (\<lambda>(manifest, p) fs.
             (Inr (Added manifest (nodeSignatureStatus c io fs manifest) p), fs)) fs))"

definition want_command ::
  "crypto \<Rightarrow> io \<Rightarrow> (CatalogEntry list \<Rightarrow> CatalogEntry list) \<Rightarrow> parser \<Rightarrow> byte list list \<Rightarrow> printed call" where
  "want_command c io order parse args fs =
     (case parse ''want'' args of
        Inl e \<Rightarrow> (Inl e, fs)
      | Inr f \<Rightarrow>
        if data_dir f = [] \<or> length (fl_Args f) \<noteq> 1 then (usage ''usage: ghost-node want --data-dir DIR ID_OR_PREFIX'', fs)
        else and_then (Resolve c io order (hd (fl_Args f))) (\<lambda>pid.
             and_then (Want c io pid) (\<lambda>_ fs. (Inr (MarkedWanted pid), fs))) fs)"

section \<open>Keys\<close>

definition keygen_command :: "crypto \<Rightarrow> io \<Rightarrow> parser \<Rightarrow> go_error + byte list \<Rightarrow> byte list list \<Rightarrow> printed call" where
  "keygen_command c io parse generated args fs =
     (case parse ''keygen'' args of
        Inl e \<Rightarrow> (Inl e, fs)
      | Inr f \<Rightarrow>
        if data_dir f = [] then (usage ''--data-dir is required'', fs)
        else and_then (GenerateIdentity c io (fl_string f ''name'') generated) (\<lambda>identity fs.
             (Inr (CreatedKey (KeyID c (i_PublicKey identity))), fs)) fs)"

definition trust_command ::
  "crypto \<Rightarrow> io \<Rightarrow> parser \<Rightarrow> (byte list \<Rightarrow> go_error + byte list) \<Rightarrow> byte list list \<Rightarrow> printed call" where
  "trust_command c io parse files args fs =
     (if args \<noteq> [] \<and> (hd args = str ''list'' \<or> hd args = str ''remove'') then
        (case parse (if hd args = str ''list'' then ''trust list'' else ''trust remove'') (tl args) of
           Inl e \<Rightarrow> (Inl e, fs)
         | Inr f \<Rightarrow>
           if data_dir f = [] then (usage ''--data-dir is required'', fs)
           else if hd args = str ''list'' then (bind_err (Trust_IDs io fs) (\<lambda>ids. Inr (Keys (sort ids))), fs)
           else if length (fl_Args f) \<noteq> 1 then (usage ''key ID is required'', fs)
           else and_then (Trust_Remove io (hd (fl_Args f))) (\<lambda>_ fs. (Inr Removed, fs)) fs)
      else
        (case parse ''trust'' args of
           Inl e \<Rightarrow> (Inl e, fs)
         | Inr f \<Rightarrow>
           if data_dir f = [] \<or> length (fl_Args f) \<noteq> 1 then (usage ''usage: ghost-node trust --data-dir DIR PUBLISHER.pub'', fs)
           else and_then (Trust_Add c io (files (hd (fl_Args f)))) (\<lambda>kid fs. (Inr (NowTrusted kid), fs)) fs))"

section \<open>Looking at the store\<close>

definition library_row :: "crypto \<Rightarrow> io \<Rightarrow> disk \<Rightarrow> CatalogEntry \<Rightarrow> row" where
  "library_row c io fs entry =
     \<lparr>row_State = (if ce_State entry = str ''known'' then str ''deferred'' else ce_State entry) @
        (if ce_Wanted entry then str ''+want'' else []),
      row_Size = humanSize (m_Length (ce_Manifest entry)),
      row_Signature = nodeSignatureStatus c io fs (ce_Manifest entry),
      row_Filename = m_Filename (ce_Manifest entry),
      row_ID = m_ID (ce_Manifest entry)\<rparr>"

definition library_command ::
  "crypto \<Rightarrow> io \<Rightarrow> (CatalogEntry list \<Rightarrow> CatalogEntry list) \<Rightarrow> parser \<Rightarrow> byte list list \<Rightarrow> printed call" where
  "library_command c io order parse args fs =
     (case parse ''library'' args of
        Inl e \<Rightarrow> (Inl e, fs)
      | Inr f \<Rightarrow>
        if data_dir f = [] then (usage ''--data-dir is required'', fs)
        else and_then (Catalog c io order) (\<lambda>entries fs. (Inr (Library (map (library_row c io fs) entries)), fs)) fs)"

definition entry_details :: "crypto \<Rightarrow> io \<Rightarrow> disk \<Rightarrow> ID \<Rightarrow> CatalogEntry \<Rightarrow> details" where
  "entry_details c io fs pid entry =
     (let m = ce_Manifest entry in
      \<lparr>d_State = ce_State entry, d_Wanted = ce_Wanted entry, d_ID = pid, d_Filename = m_Filename m, d_Length = m_Length m,
       d_SHA256 = m_SHA256 m, d_ChunkSize = m_ChunkSize m, d_ChunkCount = m_ChunkCount m,
       d_Signature = nodeSignatureStatus c io fs m\<rparr>)"

definition inspect_command ::
  "crypto \<Rightarrow> io \<Rightarrow> (CatalogEntry list \<Rightarrow> CatalogEntry list) \<Rightarrow> parser \<Rightarrow> byte list list \<Rightarrow> printed call" where
  "inspect_command c io order parse args fs =
     (case parse ''inspect'' args of
        Inl e \<Rightarrow> (Inl e, fs)
      | Inr f \<Rightarrow>
        if data_dir f = [] \<or> length (fl_Args f) \<noteq> 1 then (usage ''usage: ghost-node inspect --data-dir DIR ID_OR_PREFIX'', fs)
        else and_then (Resolve c io order (hd (fl_Args f))) (\<lambda>pid.
             and_then (Catalog c io order) (\<lambda>entries fs.
               (case find (\<lambda>entry. entry_ID entry = pid) entries of
                  Some entry \<Rightarrow> Inr (Details (entry_details c io fs pid entry))
                | None \<Rightarrow> Inl (Failure ''publication not found''), fs))) fs)"

section \<open>The configuration\<close>

definition configCommand ::
  "parser \<Rightarrow> (byte list \<Rightarrow> go_error + File \<times> byte list list) \<Rightarrow> (byte list \<Rightarrow> go_error + byte list) \<Rightarrow> byte list list \<Rightarrow>
   go_error + printed" where
  "configCommand parse toml files args =
     (if args = [] \<or> hd args \<notin> {str ''check'', str ''show'', str ''device'', str ''data-dir''}
      then usage ''usage: ghost-node config <check|show|device|data-dir> --config FILE''
      else bind_err (parse ''config'' (tl args)) (\<lambda>f.
        let p = fl_string f ''config'' in
        if p = [] then usage ''--config is required''
        else bind_err (Config_Load (toml p)) (\<lambda>cfg.
          if hd args = str ''check'' then Inr (Line (str ''configuration valid''))
          else if hd args = str ''device'' then Inr (Line (f_Device cfg))
          else if hd args = str ''data-dir'' then Inr (Line (f_DataDir cfg))
          else bind_err (files p) (\<lambda>b. Inr (Contents b)))))"

section \<open>The program\<close>

datatype command = AddCmd | RunCmd | WantCmd | KeygenCmd | TrustCmd | LibraryCmd | InspectCmd | ConfigCmd | VersionCmd

definition select_command :: "byte list list \<Rightarrow> go_error + command \<times> byte list list" where
  "select_command args =
     (case args of
        [] \<Rightarrow> usage ''usage: ghost-node <add|run|want|keygen|trust|library|inspect|config>''
      | name # rest \<Rightarrow>
        (case map_of [(str ''add'', AddCmd), (str ''run'', RunCmd), (str ''want'', WantCmd), (str ''keygen'', KeygenCmd), (str ''trust'', TrustCmd),
            (str ''library'', LibraryCmd), (str ''inspect'', InspectCmd), (str ''config'', ConfigCmd), (str ''version'', VersionCmd),
            (str ''--version'', VersionCmd)] name of
           Some cmd \<Rightarrow> Inr (cmd, rest)
         | None \<Rightarrow> Inl (Failure ''unknown command'')))"

section \<open>Properties\<close>

lemma status_words:
  "nodeSignatureStatus c io fs m = str ''unsigned'' \<longleftrightarrow> m_Signature m = None"
  "nodeSignatureStatus c io fs m = str ''invalid'' \<longleftrightarrow> VerifyManifestSignature c m \<noteq> Inr ()"
  "prefix (str ''trusted:'') (nodeSignatureStatus c io fs m) \<longleftrightarrow> VerifyManifestSignature c m = Inr () \<and>
     (\<exists>sig. m_Signature m = Some sig \<and> Trusted c io fs (array_bytes (PublicKey sig)))"
  "prefix (str ''signed/untrusted:'') (nodeSignatureStatus c io fs m) \<longleftrightarrow> VerifyManifestSignature c m = Inr () \<and>
     (\<exists>sig. m_Signature m = Some sig \<and> \<not> Trusted c io fs (array_bytes (PublicKey sig)))"
  by (cases "m_Signature m"; simp add: nodeSignatureStatus_def VerifyManifestSignature_def str_def Let_def)+

text \<open>
  C24: What the commands show of a signature is what the node acts on: a publication shown as invalid is never
  accepted, not even when it is wanted; a wanted one that is not invalid always is; and among those within the
  size limit, or partly held already, the trusted policy accepts exactly those shown as trusted, the signed one
  those shown as trusted or signed, and the permissive one all that are not invalid.
\<close>

theorem signature_status_is_policy:
  "Accept c io fs (p\<lparr>ap_HasTrust := True\<rparr>) m partial wanted \<longleftrightarrow>
     nodeSignatureStatus c io fs m \<noteq> str ''invalid'' \<and>
     (wanted \<or> (if ap_HasMaxSize p then partial \<or> m_Length m \<le> ap_MaxAutoSize p else True) \<and>
       (case ap_Signature p of
          SignaturePermissive \<Rightarrow> True
        | SignatureRequired \<Rightarrow> prefix (str ''trusted:'') (nodeSignatureStatus c io fs m) \<or>
            prefix (str ''signed/untrusted:'') (nodeSignatureStatus c io fs m)
        | SignatureTrusted \<Rightarrow> prefix (str ''trusted:'') (nodeSignatureStatus c io fs m)))"
  unfolding Accept_iff status_words
  by (cases "ap_Signature p"; cases "m_Signature m") auto

section \<open>The size that is shown\<close>

lemma bit_length_bound: "0 < n \<Longrightarrow> 2 ^ (bit_length n - 1) \<le> n \<and> n < 2 ^ bit_length n"
proof (induction n rule: bit_length.induct)
  case (1 n)
  show ?case
  proof (cases "n div 2 = 0")
    case True
    then have "n = 1" using 1(2) by simp
    then show ?thesis by (simp add: bit_length.simps)
  next
    case False
    let ?b = "bit_length (n div 2)"
    have IH: "2 ^ (?b - 1) \<le> n div 2" "n div 2 < 2 ^ ?b" using 1(1) 1(2) False by auto
    then have "?b \<noteq> 0" using False by (intro notI) simp
    then have "(2 :: nat) ^ ?b = 2 * 2 ^ (?b - 1)" by (cases ?b) simp_all
    moreover have "bit_length n = Suc ?b" using 1(2) by (simp add: bit_length.simps [of n])
    moreover have "2 * x \<le> n \<and> n < 2 * y" if "x \<le> n div 2" "n div 2 < y" for x y using that by linarith
    ultimately show ?thesis using IH by (metis diff_Suc_1 power_Suc)
  qed
qed

lemma to_float64_near: "2 ^ 53 * \<bar>int (to_float64 sz) - int (unat sz)\<bar> \<le> int (unat sz)"
proof (cases "bit_length (unat sz) \<le> 53")
  case True
  then show ?thesis by (simp add: to_float64_def Let_def)
next
  case False
  let ?n = "unat sz" and ?k = "bit_length (unat sz) - 53"
  have "0 < ?n" using False by (intro gr0I) (simp add: bit_length.simps)
  then have "2 ^ (bit_length ?n - 1) \<le> ?n" using bit_length_bound by blast
  then have low: "2 ^ (52 + ?k) \<le> ?n" using False by simp
  have "0 \<le> round_even (int ?n) (2 ^ ?k)" by (intro round_even_nonneg) simp_all
  then have f: "int (to_float64 sz) = round_even (int ?n) (2 ^ ?k) * 2 ^ ?k" using False by (simp add: to_float64_def Let_def)
  have "2 * \<bar>int (to_float64 sz) - int ?n\<bar> \<le> 2 ^ ?k" unfolding f by (intro round_even_near) simp
  then have "2 ^ 52 * (2 * \<bar>int (to_float64 sz) - int ?n\<bar>) \<le> 2 ^ 52 * 2 ^ ?k" by (intro mult_left_mono) simp_all
  also have "(2 :: int) ^ 52 * 2 ^ ?k = int (2 ^ (52 + ?k))" by (simp add: power_add)
  also have "\<dots> \<le> int ?n" using low by (simp only: of_nat_le_iff)
  finally show ?thesis by simp
qed

lemma larger_unit_spec:
  assumes "larger_unit units value d u = (d', u')" "d = 1 \<or> d \<le> value"
  shows "(d' = 1 \<or> d' \<le> value) \<and> (\<exists>i \<le> length units. d' = d * 1024 ^ i \<and> u' = (u # units) ! i \<and> (i < length units \<longrightarrow> value < 1024 * d'))"
  using assms
proof (induction units arbitrary: d u)
  case (Cons v units)
  show ?case
  proof (cases "value \<ge> 1024 * d")
    case True
    then have "larger_unit units value (1024 * d) v = (d', u')" using Cons.prems(1) by simp
    from Cons.IH [OF this disjI2 [OF True]] obtain i where i: "d' = 1 \<or> d' \<le> value" "i \<le> length units" "d' = 1024 * d * 1024 ^ i"
      "u' = (v # units) ! i" "i < length units \<longrightarrow> value < 1024 * d'" by blast
    then show ?thesis by (intro conjI exI [of _ "Suc i"]) simp_all
  next
    case False
    then show ?thesis using Cons.prems by (intro conjI exI [of _ 0]) auto
  qed
qed auto

text \<open>
  What is shown is the number of bytes, or a number of larger units with one decimal: the largest unit that is not
  larger than the size, and the nearest number of tenths.
\<close>

lemma humanSize_close:
  obtains "to_float64 sz < 1024" "humanSize sz = Itoa (unat sz) @ str '' B''"
  | k i where "0 < i" "i \<le> 3" "humanSize sz = fixed_digits 1 k @ [32] @ [str ''B'', str ''KiB'', str ''MiB'', str ''GiB''] ! i"
    "1024 ^ i \<le> to_float64 sz" "i < 3 \<longrightarrow> to_float64 sz < 1024 ^ Suc i"
    "2 * \<bar>int (k * 1024 ^ i) - 10 * int (to_float64 sz)\<bar> \<le> int (1024 ^ i)"
proof -
  let ?us = "[str ''KiB'', str ''MiB'', str ''GiB'']"
  obtain d u where l: "larger_unit ?us (to_float64 sz) 1 (str ''B'') = (d, u)" by (rule prod.exhaust)
  have "length ?us = 3" by simp
  then obtain i where i: "d = 1 \<or> d \<le> to_float64 sz" "i \<le> 3" "d = 1024 ^ i" "u = (str ''B'' # ?us) ! i"
    "i < 3 \<longrightarrow> to_float64 sz < 1024 * d" using larger_unit_spec [OF l] unfolding mult_1 by metis
  have u: "u = str ''B'' \<longleftrightarrow> i = 0" using i(2,4) by (auto simp: str_def le_Suc_eq numeral_3_eq_3)
  show thesis
  proof (cases "i = 0")
    case True
    then show thesis using that(1) i u l by (simp add: humanSize_def Let_def)
  next
    case False
    let ?k = "nat (round_even (10 * int (to_float64 sz)) (int d))"
    have d: "0 < int d" "1 < d" using False i(3) one_less_power [of "1024 :: nat" i] by simp_all
    have "0 \<le> round_even (10 * int (to_float64 sz)) (int d)" using d(1) by (intro round_even_nonneg) simp_all
    then have "2 * \<bar>int (?k * d) - 10 * int (to_float64 sz)\<bar> \<le> int d" using round_even_near [OF d(1)] by simp
    moreover have "humanSize sz = fixed_digits 1 ?k @ [32] @ u" using False u l by (simp add: humanSize_def Let_def)
    ultimately show thesis using that(2) [of i ?k] False i d by simp
  qed
qed

section \<open>What \<open>add\<close> leaves on the disk\<close>

lemma publish_files_dirs:
  assumes "publish_files c io m content fs = (Inr (), fs')"
  shows "lookup fs' [str ''objects''] = Some Dir" "lookup fs' (objectDir (m_ID m)) = Some Dir"
proof -
  let ?q = "objectDir (m_ID m)"
  obtain fs1 fs2 fs3 where m: "MkdirAll io ?q fs = (Inr (), fs1)" and w: "fs2 = put (content_file (m_ID m)) (File 384 (Raw content)) fs1"
      "fs3 = put (manifest_file ?q) (File 384 (encoded_manifest c m)) fs2"
      "fs' = put (complete_file (m_ID m)) (File 384 (Raw (str ''verified'' @ [10]))) fs3"
    using assms unfolding publish_files_def by (auto dest!: writeAtomic_Inr)
  have "is_dir fs1 ?q" "is_dir fs1 [str ''objects'']" by (rule MkdirAll_is_dir [OF m], simp add: objectDir_def)+
  then have "lookup fs1 ?q = Some Dir" "lookup fs1 [str ''objects''] = Some Dir" by (auto simp: is_dir_def objectDir_def)
  then show "lookup fs' [str ''objects''] = Some Dir" "lookup fs' ?q = Some Dir"
    unfolding w by (simp_all add: disk_simps path_defs)
qed

lemma add_chunks_frame:
  assumes "assembly_inv a" "add_chunks io a es fs = (Inr b, fs')" "\<not> in_partial (m_ID (a_Manifest a)) q"
  shows "lookup fs' q = lookup fs q"
  using assms
proof (induction es arbitrary: a fs)
  case (Cons e es)
  obtain i data where e: "e = (i, data)" by (cases e)
  obtain a' fs1 where step: "Store_Add io a (of_nat i) data fs = (Inr (), a', fs1)"
    and rest: "add_chunks io a' es fs1 = (Inr b, fs')"
    using Cons.prems(2) by (auto simp: e split: prod.splits sum.splits)
  have add: "Add a (of_nat i) data = Inr a'" using step by (rule Store_Add_Inr)
  have "q \<noteq> chunk_file (m_ID (a_Manifest a)) j" for j using Cons.prems(3) by auto
  then have "lookup fs1 q = lookup fs q" using Store_Add_frame [OF Cons.prems(1) step] by blast
  moreover have "lookup fs' q = lookup fs1 q"
    using Cons.IH [OF _ rest] Cons.prems(3) Add_Manifest [OF add] Add_inv [OF Cons.prems(1) add] by simp
  ultimately show ?case by simp
qed simp

lemma add_chunks_Manifest: "add_chunks io a es fs = (Inr b, fs') \<Longrightarrow> a_Manifest b = a_Manifest a"
proof (induction es arbitrary: a fs)
  case (Cons e es)
  obtain i data where e: "e = (i, data)" by (cases e)
  obtain a' fs1 where step: "Store_Add io a (of_nat i) data fs = (Inr (), a', fs1)" "add_chunks io a' es fs1 = (Inr b, fs')"
    using Cons.prems by (auto simp: e split: prod.splits sum.splits)
  then show ?case using Cons.IH [OF step(2)] Add_Manifest [OF Store_Add_Inr [OF step(1)]] by simp
qed simp

lemma AddFileSigned_effect:
  assumes "AddFileSigned c io path (Inr content) identity fs = (Inr (m, p), fs')" "\<not> Complete c io fs (copy_array (take 16 (array_bytes (sha256 c content))))"
  shows "\<And>q. \<not> in_object (m_ID m) q \<Longrightarrow> \<not> in_partial (m_ID m) q \<Longrightarrow> q \<noteq> [str ''objects''] \<Longrightarrow> q \<noteq> [str ''partial''] \<Longrightarrow>
      lookup fs' q = lookup fs q"
    and "lookup fs' [str ''objects''] = Some Dir" "lookup fs' (objectDir (m_ID m)) = Some Dir"
    and "\<And>q. in_partial (m_ID m) q \<Longrightarrow> lookup fs' q = None" "lookup fs' [str ''partial''] = Some Dir"
proof -
  note new = assms(2)
  obtain a fs1 b fs2 where ok: "geometry m" "length content = unat (m_Length m)" and steps: "Restart c io m fs = (Inr a, fs1)"
      "add_chunks io a (file_chunks content) fs1 = (Inr b, fs2)" "Commit c io b fs2 = (Inr p, fs')"
    using AddFileSigned_Inr [OF assms(1) new] AddFileSigned_written [OF assms(1) new] by (auto simp: manifest_ok_def)
  have a: "holds a content" "a_Manifest a = m" using fresh_Begin [OF steps(1) ok] by simp_all
  have b: "a_Manifest b = m" using add_chunks_Manifest [OF steps(2)] a(2) by simp
  obtain fs0 where r: "RemoveAll io (partialDir (m_ID m)) fs = (Inr (), fs0)" "Begin c io m fs0 = (Inr a, fs1)"
    using steps(1) by (auto simp: Restart_def)
  have before: "lookup fs1 q = lookup fs q" if "\<not> in_partial (m_ID m) q" "q \<noteq> [str ''partial'']" for q
    using Begin_frame [OF r(2) that] RemoveAll_other [OF r(1), of q] that(1) by (simp add: in_partial_def)
  have mid: "lookup fs2 q = lookup fs1 q" if "\<not> in_partial (m_ID m) q" for q
    using add_chunks_frame [OF _ steps(2)] a that by (simp add: holds_def)
  obtain content' fs3 where c: "publish_files c io m content' fs2 = (Inr (), fs3)"
      "RemoveAll io (partialDir (m_ID m)) fs3 = (Inr (), fs')"
    using steps(3) unfolding Commit_alt b by (auto split: sum.splits)
  have after: "lookup fs' q = lookup fs3 q" if "\<not> in_partial (m_ID m) q" for q
    using RemoveAll_other [OF c(2)] that by (simp add: in_partial_def)
  show "lookup fs' q = lookup fs q"
    if "\<not> in_object (m_ID m) q" "\<not> in_partial (m_ID m) q" "q \<noteq> [str ''objects'']" "q \<noteq> [str ''partial'']" for q
    using that before mid after publish_files_frame [OF c(1) that(1,3)] by simp
  show "lookup fs' [str ''objects''] = Some Dir" "lookup fs' (objectDir (m_ID m)) = Some Dir"
    using publish_files_dirs [OF c(1)] after by (simp_all add: in_partial_def path_defs)
  show "lookup fs' q = None" if "in_partial (m_ID m) q" for q
    using RemoveAll_Inr [OF c(2)] that by (simp add: in_partial_def)
  have "lookup fs1 [str ''partial''] = Some Dir"
    using Begin_Inr(3) [OF r(2) ok(1)] a(2) by (simp add: mirrors_def dirs_ok_def chunks_dir_def path_defs)
  moreover have "\<not> in_partial (m_ID m) [str ''partial'']" by (simp add: in_partial_def path_defs)
  ultimately show "lookup fs' [str ''partial''] = Some Dir"
    using mid after publish_files_frame [OF c(1), of "[str ''partial'']"] by (simp add: in_object_def path_defs)
qed

text \<open>Every manifest of the store still stands at its place.\<close>

lemma AddFileSigned_ids_match:
  assumes "AddFileSigned c no_faults path (Inr content) identity fs = (Inr (m, p), fs')"
    and "\<not> Complete c no_faults fs (copy_array (take 16 (array_bytes (sha256 c content))))"
    and "utf8_valid (Base path)" "ids_match c no_faults fs"
  shows "ids_match c no_faults fs'" "LoadManifest c no_faults fs' (m_ID m) = Inr m" "Complete c no_faults fs' (m_ID m)"
proof -
  note x = AddFileSigned_effect [OF assms(1,2)] and w = AddFileSigned_written [OF assms(1,2)]
  show load: "LoadManifest c no_faults fs' (m_ID m) = Inr m" "Complete c no_faults fs' (m_ID m)"
    using written_Complete [of c fs' m content] w assms(3) by simp_all
  have "m_ID n = pid" if "LoadManifest c no_faults fs' pid = Inr n" for pid n
  proof (cases "pid = m_ID m")
    case True
    then show ?thesis using that load(1) by simp
  next
    case False
    then have "lookup fs' (manifest_file (objectDir pid)) = lookup fs (manifest_file (objectDir pid))"
      by (intro x(1)) (force | simp add: path_defs)+
    then have "LoadManifest c no_faults fs pid = Inr n" using that by (simp add: LoadManifest_def readManifest_iff)
    then show ?thesis using assms(4) by (simp add: ids_match_def)
  qed
  moreover have "m_ID n = pid" if "readManifest c no_faults fs' (manifest_file (partialDir pid)) = Inr n" for pid n
  proof -
    have "pid \<noteq> m_ID m" using that x(4) [of "manifest_file (partialDir pid)"] by (auto simp: readManifest_iff)
    then have "lookup fs' (manifest_file (partialDir pid)) = lookup fs (manifest_file (partialDir pid))"
      by (intro x(1)) (force | simp add: path_defs)+
    then have "readManifest c no_faults fs (manifest_file (partialDir pid)) = Inr n" using that by (simp add: readManifest_iff)
    then show ?thesis using assms(4) by (simp add: ids_match_def)
  qed
  ultimately show "ids_match c no_faults fs'" unfolding ids_match_def by blast
qed

text \<open>The catalog of a disk that works can be listed.\<close>

definition listable :: "disk \<Rightarrow> bool" where
  "listable fs \<longleftrightarrow> (\<forall>name \<in> {''objects'', ''partial'', ''known''}. lookup fs [str name] \<in> {None, Some Dir})"

lemma list_ids_total: "lookup fs [name] \<in> {None, Some Dir} \<Longrightarrow> \<exists>ids. list_ids no_faults fs [name] keep = Inr ids"
  by (auto simp: list_ids_def ReadDir_def is_dir_def)

lemma Catalog_total:
  assumes "listable fs" "ids_match c no_faults fs"
  shows "\<exists>out fs'. Catalog c no_faults order fs = (Inr out, fs')"
proof -
  have l: "lookup fs [str ''objects''] \<in> {None, Some Dir}" "lookup fs [str ''partial''] \<in> {None, Some Dir}"
    "lookup fs [str ''known''] \<in> {None, Some Dir}" using assms(1) by (simp_all add: listable_def)
  obtain known partial where k: "KnownIDs c no_faults fs = Inr known" "PartialIDs no_faults fs = Inr partial"
    using list_ids_total [OF l(2)] list_ids_total [OF l(3)] unfolding KnownIDs_def PartialIDs_def by blast
  obtain byID fs1 where p: "note_partial c no_faults partial (note_known c no_faults fs known []) fs = (byID, fs1)" by fastforce
  have "\<forall>pid \<in> set known. HasKnown c no_faults fs pid" using k(1) list_ids_keep by (fastforce simp: KnownIDs_def)
  then have "noted (entry_true c no_faults fs) (note_known c no_faults fs known [])"
    using note_known_noted [of c no_faults fs "[]" known] by (simp add: noted_def)
  then have "same_files fs fs1" using note_partial_noted [OF _ same_files_refl assms(2) p] by simp
  then have "lookup fs1 [str ''objects''] = lookup fs [str ''objects'']" by (rule same_files_other) simp
  then obtain full where "IDs c no_faults fs1 = Inr full" using list_ids_total [of fs1] l(1) unfolding IDs_def by metis
  then show ?thesis using k p by (simp add: Catalog_def)
qed

lemma Trusted_cong:
  "lookup fs' (trust_path (KeyID c key)) = lookup fs (trust_path (KeyID c key)) \<Longrightarrow> Trusted c no_faults fs' key = Trusted c no_faults fs key"
  by (simp add: Trusted_no_faults_iff)

lemma trust_path_outside [simp]:
  "\<not> in_object pid (trust_path kid)" "\<not> in_partial pid (trust_path kid)" "\<not> prefix (trust_path kid) (chunks_dir pid)"
  by (simp_all add: in_object_def in_partial_def trust_path_def trust_dir_def path_defs chunks_dir_def str_def)

lemma identity_doc_Inr:
  "(case b of IdentityDoc d \<Rightarrow> f d | _ \<Rightarrow> Inl e) = Inr i \<longleftrightarrow> (\<exists>d. b = IdentityDoc d \<and> f d = Inr i)"
  by (cases b) auto

lemma LoadIdentity_key: "LoadIdentity c io fs = Inr i \<Longrightarrow> length (i_PublicKey i) = 32"
  by (auto simp: LoadIdentity_def ed_public_def identity_doc_Inr dest!: decode_key_length split: if_splits)

lemma signing_identity_key: "signing_identity c io fs plain = Inr (Some i) \<Longrightarrow> length (i_PublicKey i) = 32"
  by (auto simp: signing_identity_def split: if_splits sum.splits intro: LoadIdentity_key)

definition shown_status :: "crypto \<Rightarrow> disk \<Rightarrow> Identity option \<Rightarrow> byte list" where
  "shown_status c fs identity =
     (case identity of
        None \<Rightarrow> str ''unsigned''
      | Some i \<Rightarrow> (if Trusted c no_faults fs (i_PublicKey i) then str ''trusted:'' else str ''signed/untrusted:'') @ KeyID c (i_PublicKey i))"

lemma status_of_added:
  assumes "AddFileSigned c no_faults path (Inr content) identity fs = (Inr (m, p), fs')"
    and "\<not> Complete c no_faults fs (copy_array (take 16 (array_bytes (sha256 c content))))"
    and "\<And>i. identity = Some i \<Longrightarrow> length (i_PublicKey i) = 32"
  shows "nodeSignatureStatus c no_faults fs' m = shown_status c fs identity"
proof -
  have made: "(case identity of None \<Rightarrow> Inr (file_manifest c path content)
       | Some i \<Rightarrow> SignManifest c (file_manifest c path content) i) = Inr m" using AddFileSigned_Inr [OF assms(1,2)] by blast
  have verified: "VerifyManifestSignature c m = Inr ()" using AddFileSigned_written [OF assms(1,2)] by blast
  have "Trusted c no_faults fs' key = Trusted c no_faults fs key" for key
    by (intro Trusted_cong AddFileSigned_effect(1) [OF assms(1,2)]) (simp_all, simp_all add: trust_path_def trust_dir_def)
  then show ?thesis
    using made verified assms(3) by (cases identity)
      (auto simp: nodeSignatureStatus_def shown_status_def file_manifest_def Let_def dest!: SignManifest_Inr(1))
qed

lemma nodeSignatureStatus_same_files:
  assumes "same_files fs fs'"
  shows "nodeSignatureStatus c no_faults fs' m = nodeSignatureStatus c no_faults fs m"
proof -
  have "Trusted c no_faults fs' key = Trusted c no_faults fs key" for key
    by (intro Trusted_cong same_files_other [OF assms]) simp
  then show ?thesis by (simp add: nodeSignatureStatus_def split: option.split)
qed

lemma listable_same_files: "listable fs \<Longrightarrow> same_files fs fs' \<Longrightarrow> listable fs'"
  unfolding listable_def same_files_def by (metis insertCI insertE singletonD)

text \<open>\<open>inspect\<close> shows a complete publication.\<close>

lemma inspect_complete:
  assumes "Complete c no_faults fs pid" "LoadManifest c no_faults fs pid = Inr m" "lookup fs [str ''objects''] = Some Dir"
    "lookup fs (objectDir pid) = Some Dir" "listable fs" "ids_match c no_faults fs" "permutes order"
    and "parse ''inspect'' args = Inr g" "data_dir g \<noteq> []" "fl_Args g = [ID_String pid]"
  shows "\<exists>fs'. inspect_command c no_faults order parse args fs =
    (Inr (Details \<lparr>d_State = str ''complete'', d_Wanted = Wanted no_faults fs pid, d_ID = pid, d_Filename = m_Filename m,
      d_Length = m_Length m, d_SHA256 = m_SHA256 m, d_ChunkSize = m_ChunkSize m, d_ChunkCount = m_ChunkCount m,
      d_Signature = nodeSignatureStatus c no_faults fs m\<rparr>), fs') \<and> same_files fs fs'"
proof -
  obtain out fs1 where cat: "Catalog c no_faults order fs = (Inr out, fs1)" using Catalog_total [OF assms(5,6)] by blast
  note x = Catalog_exact [OF cat assms(7,6)]
  obtain e where e: "e \<in> set out" "entry_ID e = pid" using x(4) [OF assms(3,4,1)] by blast
  have "Resolve c no_faults order ([] @ ID_String pid @ []) fs = (Inr pid, fs1)"
    using Resolve_finds [OF cat assms(7,6) e(1), of "[]" "[]" "ID_String pid"] e(2) by (simp add: blank_def)
  then have r: "Resolve c no_faults order (ID_String pid) fs = (Inr pid, fs1)" by simp
  have match: "ids_match c no_faults fs1" using assms(6) same_files_ids_match [OF x(2)] by simp
  obtain out2 fs2 where cat2: "Catalog c no_faults order fs1 = (Inr out2, fs2)"
    using Catalog_total [OF listable_same_files [OF assms(5) x(2)] match] by blast
  note y = Catalog_exact [OF cat2 assms(7) match]
  have same: "same_files fs fs2" using same_files_trans [OF x(2) y(2)] .
  have reads: "Complete c no_faults fs1 pid" "LoadManifest c no_faults fs1 pid = Inr m" "Wanted no_faults fs1 pid = Wanted no_faults fs pid"
    using assms(1,2) same_files_reads [OF x(2)] by simp_all
  have "\<exists>e \<in> set out2. entry_ID e = pid \<and> ce_State e = str ''complete''"
    by (rule y(4) [OF same_files_kept [OF x(2) assms(3)] same_files_kept [OF x(2) assms(4)] reads(1)])
  then obtain e2 where e2: "e2 \<in> set out2" "entry_ID e2 = pid" "ce_State e2 = str ''complete''" by (elim bexE conjE)
  have only: "f = e2" if mem: "f \<in> set out2" and id: "entry_ID f = pid" for f
  proof -
    obtain i where f: "i < length out2" "out2 ! i = f" using mem by (auto simp: in_set_conv_nth)
    obtain j where "j < length out2" "out2 ! j = e2" using e2(1) by (auto simp: in_set_conv_nth)
    note i = f this
    have "\<not> i < j" using sorted_wrt_nth_less [OF y(1), of i j] i(2-4) id e2(2) by (intro notI) simp
    moreover have "\<not> j < i" using sorted_wrt_nth_less [OF y(1), of j i] i(1,2,4) id e2(2) by (intro notI) simp
    ultimately have "i = j" by simp
    then show ?thesis using i by simp
  qed
  then have find: "find (\<lambda>entry. entry_ID entry = pid) out2 = Some e2"
  proof (cases "find (\<lambda>entry. entry_ID entry = pid) out2")
    case None
    then show ?thesis using e2(1,2) unfolding find_None_iff by blast
  next
    case (Some f)
    then have "f \<in> set out2" "entry_ID f = pid" unfolding find_Some_iff by auto
    then show ?thesis using Some only by simp
  qed
  have "entry_true c no_faults fs1 pid e2" using y(3) [OF e2(1)] e2(2) by simp
  then have "ce_Manifest e2 = m" "ce_Wanted e2 = Wanted no_faults fs pid"
    using e2(3) reads by (auto simp: entry_true_def str_def)
  then show ?thesis
    using r cat2 find e2(3) same nodeSignatureStatus_same_files [OF same] assms(8-10)
    by (simp add: inspect_command_def and_then_def entry_details_def Let_def)
qed

text \<open>
  C18: What is added is what is shown: after \<open>add\<close> reported a new publication, \<open>inspect\<close> of the identifier it printed
  shows it complete, under the name of the file, with its length, its hash and its number of chunks, and with
  the signature status \<open>add\<close> printed: unsigned without an identity or when asked for, and otherwise that of the
  identity's key, trusted exactly when the key was trusted before.
\<close>

theorem added_file_is_shown:
  assumes "parse ''add'' args = Inr f" and "files (hd (fl_Args f)) = Inr content" and "utf8_valid (Base (hd (fl_Args f)))"
    and "add_command c no_faults parse files args fs = (Inr (Added m status p), fs')"
    and "\<not> Complete c no_faults fs (copy_array (take 16 (array_bytes (sha256 c content))))"
    and "listable fs" and "ids_match c no_faults fs" and "permutes order"
    and "parse ''inspect'' args' = Inr g" and "data_dir g \<noteq> []" and "fl_Args g = [ID_String (m_ID m)]"
  shows "(\<exists>fs''. inspect_command c no_faults order parse args' fs' =
      (Inr (Details \<lparr>d_State = str ''complete'', d_Wanted = Wanted no_faults fs (m_ID m), d_ID = m_ID m,
         d_Filename = Base (hd (fl_Args f)), d_Length = of_nat (length content), d_SHA256 = sha256 c content,
         d_ChunkSize = 178, d_ChunkCount = of_nat ((length content + 177) div 178), d_Signature = status\<rparr>), fs'')) \<and>
    (\<exists>identity. signing_identity c no_faults fs (fl_bool f ''unsigned'') = Inr identity \<and> status = shown_status c fs identity)"
proof -
  obtain identity where i: "signing_identity c no_faults fs (fl_bool f ''unsigned'') = Inr identity"
    and add: "AddFileSigned c no_faults (hd (fl_Args f)) (Inr content) identity fs = (Inr (m, p), fs')"
    and status: "status = nodeSignatureStatus c no_faults fs' m"
    using assms(1,2,4) by (auto simp: add_command_def usage_def split: if_splits sum.splits)
  note x = AddFileSigned_effect [OF add assms(5)] and w = AddFileSigned_written [OF add assms(5)]
    and k = AddFileSigned_ids_match [OF add assms(5,3,7)]
    
  have "lookup fs' [str ''known''] = lookup fs [str ''known'']"
    by (intro x(1)) (simp_all add: in_object_def in_partial_def path_defs str_def)
  then have listable: "listable fs'" using assms(6) x(2,5) by (simp add: listable_def)
  have "lookup fs' (want_file (m_ID m)) = lookup fs (want_file (m_ID m))"
    by (intro x(1)) (simp_all, simp_all add: path_defs)
  then have "Wanted no_faults fs' (m_ID m) = Wanted no_faults fs (m_ID m)" by (simp add: Wanted_def Stat_def)
  moreover have "m_Filename m = Base (hd (fl_Args f))" "m_SHA256 m = sha256 c content" using w by simp_all
  moreover have "m_Length m = of_nat (length content)" "m_ChunkSize m = 178" "m_ChunkCount m = of_nat ((length content + 177) div 178)"
    using signed_file [OF AddFileSigned_Inr [OF add assms(5), THEN conjunct2, THEN conjunct2, THEN conjunct1]]
    by (simp_all add: file_manifest_def add.commute)
  moreover have "status = shown_status c fs identity"
    unfolding status using status_of_added [OF add assms(5)] signing_identity_key i by blast
  moreover have "\<exists>fs''. inspect_command c no_faults order parse args' fs' =
    (Inr (Details \<lparr>d_State = str ''complete'', d_Wanted = Wanted no_faults fs' (m_ID m), d_ID = m_ID m, d_Filename = m_Filename m,
      d_Length = m_Length m, d_SHA256 = m_SHA256 m, d_ChunkSize = m_ChunkSize m, d_ChunkCount = m_ChunkCount m,
      d_Signature = nodeSignatureStatus c no_faults fs' m\<rparr>), fs'') \<and> same_files fs' fs''"
    by (rule inspect_complete) fact+
  ultimately show ?thesis using i status by auto
qed

definition example_parser :: parser where
  "example_parser name args = Inr \<lparr>fl_string = \<lambda>_. str ''/data'', fl_bool = \<lambda>_. False, fl_int = \<lambda>_. 0, fl_set = [], fl_Args = args\<rparr>"

lemma empty_disk_added:
  obtains m p fs' where "AddFileSigned toy_crypto no_faults (str ''note.txt'') (Inr [1, 2, 3]) None [] = (Inr (m, p), fs')"
    and "add_command toy_crypto no_faults example_parser (\<lambda>_. Inr [1, 2, 3]) [str ''note.txt''] [] =
      (Inr (Added m (nodeSignatureStatus toy_crypto no_faults fs' m) p), fs')"
proof -
  have base: "Base (str ''note.txt'') = str ''note.txt''" by (simp add: Base_def str_def)
  obtain m p fs' where run: "AddFileSigned toy_crypto no_faults (str ''note.txt'') (Inr [1, 2, 3]) None [] = (Inr (m, p), fs')"
    using AddFileSigned_total [of "[1, 2, 3]" "str ''note.txt''" toy_crypto None "[]"] empty_place_ok empty_not_Complete
    unfolding base by (auto simp: str_def)
  have "signing_identity toy_crypto no_faults [] False = Inr None"
    by (simp add: signing_identity_def LoadIdentity_def Stat_def lookup_def)
  then show thesis using that [OF run] run
    by (simp add: add_command_def example_parser_def data_dir_def str_def)
qed

theorem added_file_is_shown_witness:
  "\<exists>m status p fs' d fs''.
     add_command toy_crypto no_faults example_parser (\<lambda>_. Inr [1, 2, 3]) [str ''note.txt''] [] = (Inr (Added m status p), fs') \<and>
     inspect_command toy_crypto no_faults id example_parser [ID_String (m_ID m)] fs' = (Inr (Details d), fs'') \<and>
     d_State d = str ''complete'' \<and> d_Length d = 3"
proof -
  obtain m p fs' where run: "add_command toy_crypto no_faults example_parser (\<lambda>_. Inr [1, 2, 3]) [str ''note.txt''] [] =
      (Inr (Added m (nodeSignatureStatus toy_crypto no_faults fs' m) p), fs')" by (rule empty_disk_added)
  let ?f = "\<lambda>args. \<lparr>fl_string = \<lambda>_. str ''/data'', fl_bool = \<lambda>_. False, fl_int = \<lambda>_. 0, fl_set = [], fl_Args = args\<rparr>"
  have base: "Base (str ''note.txt'') = str ''note.txt''" by (simp add: Base_def str_def)
  have "utf8_valid (str ''note.txt'')" by (rule utf8_valid_ascii) (simp add: str_def)
  then have utf8: "utf8_valid (Base (hd (fl_Args (?f [str ''note.txt'']))))" by (simp add: base)
  have parse: "example_parser name args = Inr (?f args)" for name args by (simp add: example_parser_def)
  have l: "listable []" "ids_match toy_crypto no_faults []" "permutes id" "data_dir (?f [ID_String (m_ID m)]) \<noteq> []"
    by (simp_all add: listable_def lookup_def ids_match_def LoadManifest_def readManifest_iff permutes_def data_dir_def str_def)
  from added_file_is_shown [OF parse refl utf8 run empty_not_Complete l(1-3) parse l(4)]
  obtain fs'' d where "inspect_command toy_crypto no_faults id example_parser [ID_String (m_ID m)] fs' = (Inr (Details d), fs'')"
    "d_State d = str ''complete''" "d_Length d = of_nat (length [1, 2, 3 :: byte])" by fastforce
  then show ?thesis using run by auto
qed

text \<open>
  C40: A key without its metadata is passed over in silence: when \<open>keygen\<close> failed after it wrote the key and before it
  wrote \<open>identity.json\<close>, another \<open>keygen\<close> refuses to make an identity because there is one, and \<open>add\<close> publishes
  without a signature as if there were none, although it was not asked to.
\<close>

theorem interrupted_keygen_adds_unsigned:
  assumes "keygen_command c io parse (Inr key) args fs = (Inl e, fs1)" and "length key = 64"
    and "lookup fs1 (identity_dir @ [str ''signing.key'']) = Some (File 384 (Raw (base64_EncodeToString key @ [10])))"
    and "lookup fs1 (identity_dir @ [str ''identity.json'']) = None"
  shows "(\<forall>generated. snd (keygen_command c no_faults parse generated args fs1) = fs1 \<and>
      (\<exists>e. fst (keygen_command c no_faults parse generated args fs1) = Inl e)) \<and>
    (\<forall>files args' f content m status p fs2. parse ''add'' args' = Inr f \<and> files (hd (fl_Args f)) = Inr content \<and>
      \<not> Complete c no_faults fs1 (copy_array (take 16 (array_bytes (sha256 c content)))) \<and>
      add_command c no_faults parse files args' fs1 = (Inr (Added m status p), fs2) \<longrightarrow>
      m_Signature m = None \<and> status = str ''unsigned'')"
proof (intro conjI allI impI)
  fix generated
  have "GenerateIdentity c no_faults name generated fs1 = (Inl (Failure ''signing identity already exists''), fs1)" for name
    by (simp add: GenerateIdentity_def Stat_def assms(3))
  then show "snd (keygen_command c no_faults parse generated args fs1) = fs1"
    "\<exists>e. fst (keygen_command c no_faults parse generated args fs1) = Inl e"
    by (auto simp: keygen_command_def and_then_def usage_def split: sum.split)
next
  fix files args' f content m status p fs2
  assume a: "parse ''add'' args' = Inr f \<and> files (hd (fl_Args f)) = Inr content \<and>
      \<not> Complete c no_faults fs1 (copy_array (take 16 (array_bytes (sha256 c content)))) \<and>
      add_command c no_faults parse files args' fs1 = (Inr (Added m status p), fs2)"
  have "LoadIdentity c no_faults fs1 = Inl NotExist"
    by (simp add: LoadIdentity_def Stat_def ReadBytes_def ReadFile_def assms(3,4) decode_key_line assms(2))
  then have none: "signing_identity c no_faults fs1 plain = Inr None" for plain by (simp add: signing_identity_def)
  have add: "AddFileSigned c no_faults (hd (fl_Args f)) (Inr content) None fs1 = (Inr (m, p), fs2)"
    and s: "status = nodeSignatureStatus c no_faults fs2 m"
    using a by (auto simp: add_command_def usage_def none split: if_splits)
  then show "m_Signature m = None" using AddFileSigned_Inr [OF add] a by (auto simp: file_manifest_def)
  then show "status = str ''unsigned''" by (simp add: s nodeSignatureStatus_def)
qed

theorem interrupted_keygen_adds_unsigned_witness:
  "\<exists>io fs1 e m p fs2. keygen_command toy_crypto io example_parser (Inr (replicate 64 7)) [] [] = (Inl e, fs1) \<and>
     add_command toy_crypto no_faults example_parser (\<lambda>_. Inr [1, 2, 3]) [str ''note.txt''] fs1 = (Inr (Added m (str ''unsigned'') p), fs2)"
proof -
  let ?io = "no_faults\<lparr>write_result := \<lambda>q. if q = identity_dir @ [str ''identity.json''] then WFail else WOK\<rparr>"
  let ?key = "replicate 64 (7 :: byte)"
  let ?fs = "put (identity_dir @ [str ''signing.pub'']) (File 420 (Raw (base64_EncodeToString (ed_public ?key) @ [10])))
    (put (identity_dir @ [str ''signing.key'']) (File 384 (Raw (base64_EncodeToString ?key @ [10]))) [(identity_dir, Dir)])"
  let ?pid = "copy_array (take 16 (array_bytes (sha256 toy_crypto [1, 2, 3]))) :: ID"
  have "GenerateIdentity toy_crypto ?io name (Inr ?key) [] = (Inl IOError, ?fs)" for name
    by (simp add: GenerateIdentity_def Stat_def lookup_def MkdirAll_def identity_dir_def and_then_def writeAtomic_def is_dir_def put_def str_def)
  then have gen: "keygen_command toy_crypto ?io example_parser (Inr ?key) [] [] = (Inl IOError, ?fs)"
    by (simp add: keygen_command_def example_parser_def data_dir_def and_then_def str_def)
  have look: "lookup ?fs q = (if q = identity_dir @ [str ''signing.pub''] then Some (File 420 (Raw (base64_EncodeToString (ed_public ?key) @ [10])))
      else if q = identity_dir @ [str ''signing.key''] then Some (File 384 (Raw (base64_EncodeToString ?key @ [10])))
      else if q = identity_dir then Some Dir else None)" for q
    by (simp add: disk_simps) (simp add: lookup_def)
  have key: "lookup ?fs (identity_dir @ [str ''signing.key'']) = Some (File 384 (Raw (base64_EncodeToString ?key @ [10])))"
    "lookup ?fs (identity_dir @ [str ''identity.json'']) = None" "length ?key = 64" unfolding look by (simp_all add: str_def identity_dir_def)
  have base: "Base (str ''note.txt'') = str ''note.txt''" by (simp add: Base_def str_def)
  have free: "place_ok ?fs ?pid" "\<not> Complete toy_crypto no_faults ?fs ?pid"
    unfolding place_ok_def Complete_iff ReadBytes_Inr_iff look by (auto simp: identity_dir_def path_defs chunks_dir_def str_def prefix_Cons)
  then obtain m p fs2 where run: "AddFileSigned toy_crypto no_faults (str ''note.txt'') (Inr [1, 2, 3]) None ?fs = (Inr (m, p), fs2)"
    using AddFileSigned_total [of "[1, 2, 3]" "str ''note.txt''" toy_crypto None ?fs] unfolding base by (auto simp: str_def)
  have "LoadIdentity toy_crypto no_faults ?fs = Inl NotExist"
    using key(2,3) by (simp add: LoadIdentity_def Stat_def ReadBytes_def ReadFile_def key(1) decode_key_line)
  then have "add_command toy_crypto no_faults example_parser (\<lambda>_. Inr [1, 2, 3]) [str ''note.txt''] ?fs =
      (Inr (Added m (nodeSignatureStatus toy_crypto no_faults fs2 m) p), fs2)"
    using run by (simp add: add_command_def example_parser_def data_dir_def signing_identity_def str_def)
  moreover from this have "nodeSignatureStatus toy_crypto no_faults fs2 m = str ''unsigned''"
    using interrupted_keygen_adds_unsigned [OF gen key(3,1,2), THEN conjunct2, rule_format, of "[str ''note.txt'']" _ "\<lambda>_. Inr [1, 2, 3]" "[1, 2, 3]"] free(2)
    unfolding example_parser_def by simp
  ultimately show ?thesis using gen by metis
qed

text \<open>
  C31: Asking for a publication asks for that one only: when \<open>want\<close> reports an identifier, it is the only one in the
  catalog that begins as asked; from then on the node treats it as wanted, so whatever its policy it accepts it
  unless its signature is invalid; every other publication is wanted exactly when it was, and nothing but the
  mark was written.
\<close>

theorem wanted_is_admitted:
  assumes "parse ''want'' args = Inr f" and "want_command c no_faults order parse args fs = (Inr (MarkedWanted pid), fs')"
    and "permutes order" and "ids_match c no_faults fs"
  shows "(\<exists>out. fst (Catalog c no_faults order fs) = Inr out \<and> pid \<in> entry_ID ` set out \<and>
      (\<forall>e \<in> set out. prefix (ToLower (TrimSpace (hd (fl_Args f)))) (ID_String (entry_ID e)) \<longleftrightarrow> entry_ID e = pid)) \<and>
    (\<forall>other. Wanted no_faults fs' other \<longleftrightarrow> other = pid \<or> Wanted no_faults fs other) \<and>
    (\<forall>p m partial. Accept c no_faults fs' p m partial (Wanted no_faults fs' pid) \<longleftrightarrow> VerifyManifestSignature c m = Inr ()) \<and>
    (\<forall>q mode b. lookup fs' q = Some (File mode b) \<longrightarrow> q = want_file pid \<or> lookup fs q = Some (File mode b))"
proof -
  obtain fs1 where r: "Resolve c no_faults order (hd (fl_Args f)) fs = (Inr pid, fs1)" and w: "Want c no_faults pid fs1 = (Inr (), fs')"
    using assms(1,2) by (auto simp: want_command_def usage_def split: if_splits)
  obtain out where cat: "Catalog c no_faults order fs = (Inr out, fs1)" using r by (auto simp: Resolve_Inr)
  note same = Catalog_exact(2) [OF cat assms(3,4)]
  obtain fs2 where m: "MkdirAll no_faults (knownDir pid) fs1 = (Inr (), fs2)"
    and fs': "fs' = put (want_file pid) (File 384 (Raw (str ''wanted'' @ [10]))) fs2"
    using w by (auto simp: Want_def split: if_splits dest!: writeAtomic_Inr)
  have keep: "lookup fs' q = lookup fs1 q \<or> lookup fs1 q = None \<and> lookup fs' q = Some Dir \<and> prefix q (knownDir pid)" if "q \<noteq> want_file pid" for q
    using MkdirAll_lookup [OF m, of q] that by (auto simp: fs' disk_simps)
  have wanted: "Wanted no_faults gs other \<longleftrightarrow> lookup gs (want_file other) \<noteq> None" for gs other
    by (simp add: Wanted_def Stat_def split: option.split)
  have mark: "want_file other = want_file pid \<longleftrightarrow> other = pid" "\<not> prefix (want_file other) (knownDir pid)" for other
    by (auto simp: path_defs)
  have all: "Wanted no_faults fs' other \<longleftrightarrow> other = pid \<or> Wanted no_faults fs other" for other
  proof (cases "other = pid")
    case True
    then show ?thesis by (simp add: wanted fs' disk_simps)
  next
    case False
    then show ?thesis using keep [of "want_file other"] mark [of other] same_files_reads(2) [OF same, of no_faults other] by (auto simp: wanted)
  qed
  have files: "q = want_file pid \<or> lookup fs q = Some (File mode b)" if "lookup fs' q = Some (File mode b)" for q mode b
    using keep [of q] that same unfolding same_files_def by (metis node.distinct(1) option.inject)
  show ?thesis
  proof (intro conjI allI impI)
    show "\<exists>out. fst (Catalog c no_faults order fs) = Inr out \<and> pid \<in> entry_ID ` set out \<and>
      (\<forall>e \<in> set out. prefix (ToLower (TrimSpace (hd (fl_Args f)))) (ID_String (entry_ID e)) \<longleftrightarrow> entry_ID e = pid)"
      using Resolve_only [OF cat, of "hd (fl_Args f)" pid] r cat by simp
    show "Accept c no_faults fs' p m partial (Wanted no_faults fs' pid) \<longleftrightarrow> VerifyManifestSignature c m = Inr ()" for p m partial
      unfolding Accept_iff all by simp
  qed (use all files in blast)+
qed

theorem wanted_is_admitted_witness:
  "\<exists>fs'. want_command toy_crypto no_faults id example_parser [ID_String (m_ID example_manifest)] (known_disk example_manifest) =
     (Inr (MarkedWanted (m_ID example_manifest)), fs') \<and> Wanted no_faults fs' (m_ID example_manifest)"
proof -
  let ?pid = "m_ID example_manifest" and ?fs = "known_disk example_manifest"
  let ?f = "\<lparr>fl_string = \<lambda>_. str ''/data'', fl_bool = \<lambda>_. False, fl_int = \<lambda>_. 0, fl_set = [], fl_Args = [ID_String ?pid]\<rparr>"
  note k = known_disk_Catalog [OF example_stored] and l = known_disk_lookup [of example_manifest]
  have "Resolve toy_crypto no_faults id ([] @ ID_String ?pid @ []) ?fs = (Inr ?pid, ?fs)"
    using Resolve_finds [OF k(1) _ k(2), of _ "[]" "[]"] by (simp add: permutes_def blank_def entry_ID_def)
  moreover have "MkdirAll no_faults (knownDir ?pid) ?fs = (Inr (), ?fs)"
    using l(1,2) by (simp add: MkdirAll_def knownDir_def)
  moreover have "writeAtomic no_faults (want_file ?pid) b 384 ?fs = (Inr (), put (want_file ?pid) (File 384 b) ?fs)" for b
    using l(2,8) by (simp add: writeAtomic_def is_dir_def)
  moreover have "HasKnown toy_crypto no_faults ?fs ?pid" by (simp add: HasKnown_def k(3))
  ultimately obtain fs' where run: "want_command toy_crypto no_faults id example_parser [ID_String ?pid] ?fs = (Inr (MarkedWanted ?pid), fs')"
    by (simp add: want_command_def example_parser_def data_dir_def str_def Want_def and_then_def)
  have "example_parser ''want'' [ID_String ?pid] = Inr ?f" by (simp add: example_parser_def)
  from wanted_is_admitted [OF this run _ k(2)] show ?thesis using run by (auto simp: permutes_def)
qed

end
