(* ===== verification/Radio_Tool.thy ===== *)
theory Radio_Tool
  imports Modem_Link Go_Text
begin

text \<open>
  \<open>cmd/ghost-radio/main.go\<close>, the tool that talks to one modem: \<open>info\<close>, \<open>send\<close>, \<open>monitor\<close>, \<open>config\<close> and \<open>oled\<close>. The
  device is the result of opening its serial port; \<open>files\<close> reads a file. What a command prints is a list of
  \<open>shown\<close>, one constructor for each form of a line. A command that may run forever has the value \<open>None\<close> then.

  Lemmas: the handler of \<open>ReadFrames\<close> sees the frames of the line in order, each once.
\<close>

section \<open>Printing a frame\<close>

datatype shown =
    ShownText "byte list"
  | ShownResult byte Result
  | ShownFrame Frame
  | ShownRX RXPacket

type_synonym outcome_of_tool = "(go_error + unit) \<times> shown list"

definition printFrame :: "Frame \<Rightarrow> outcome_of_tool" where
  "printFrame frame =
     (if frame_type frame = MsgStatus then (Inr (), [ShownText (frame_payload frame)])
      else if frame_type frame = MsgTXResult \<or> frame_type frame = MsgError then
        (case DecodeResult (frame_payload frame) of
           Inl e \<Rightarrow> (Inl e, [])
         | Inr result \<Rightarrow>
           (if frame_type frame = MsgError \<or> result_Code result \<noteq> 0
            then Inl (ModemFailed (result_Code result) (result_Message result)) else Inr (),
            [ShownResult (frame_type frame) result]))
      else (Inr (), [ShownFrame frame]))"

section \<open>One request\<close>

definition open_modem :: "byte list \<Rightarrow> (byte list \<Rightarrow> go_error + Port) \<Rightarrow> (go_error + Client) option" where
  "open_modem device serial = (if device = [] then Some (Inl (Failure ''--device is required'')) else Open (serial device))"

text \<open>
  Opening the modem, a request, and printing the answer, as \<open>info\<close>, \<open>send\<close>, \<open>config\<close> and \<open>oled\<close> do; the last
  component is the client when it is closed.
\<close>

definition one_request ::
  "byte list \<Rightarrow> (byte list \<Rightarrow> go_error + Port) \<Rightarrow> byte \<Rightarrow> byte list \<Rightarrow> duration \<Rightarrow> (Frame \<Rightarrow> bool) \<Rightarrow>
   (outcome_of_tool \<times> Client option) option" where
  "one_request device serial t payload timeout accept =
     (case open_modem device serial of
        None \<Rightarrow> None
      | Some (Inl e) \<Rightarrow> Some ((Inl e, []), None)
      | Some (Inr c) \<Rightarrow>
        map_option (\<lambda>(r, c). (case r of Inl e \<Rightarrow> (Inl e, []) | Inr frame \<Rightarrow> printFrame frame, Some c))
          (Request t payload timeout accept c))"

definition device_of :: "flags \<Rightarrow> byte list" where "device_of f = fl_string f ''device''"

definition runInfo :: "parser \<Rightarrow> (byte list \<Rightarrow> go_error + Port) \<Rightarrow> byte list list \<Rightarrow> (outcome_of_tool \<times> Client option) option" where
  "runInfo parse serial args =
     (case parse ''info'' args of
        Inl e \<Rightarrow> Some ((Inl e, []), None)
      | Inr f \<Rightarrow> one_request (device_of f) serial MsgInfoRequest [] (3 * Second) status_or_error)"

text \<open>The payload of \<open>send\<close>: exactly one of the three options; spaces in the hexadecimal one do not count.\<close>

definition send_payload :: "(byte list \<Rightarrow> go_error + byte list) \<Rightarrow> flags \<Rightarrow> go_error + byte list" where
  "send_payload files f =
     (let given = fl_string f ''text''; path = fl_string f ''file''; hex = fl_string f ''hex'';
          selected = length (filter (\<lambda>s. s \<noteq> []) [given, path, hex])
      in if selected \<noteq> 1 then usage ''specify exactly one of --text, --file, or --hex''
         else bind_err
           (if given \<noteq> [] then Inr given
            else if path \<noteq> [] then files path
            else hex_DecodeString (filter (\<lambda>b. b \<noteq> 32) hex)) (\<lambda>payload.
           if length payload > MaxRadioPayload then Inl (Failure ''payload exceeds the SX1262 packet maximum'') else Inr payload))"

definition runSend ::
  "parser \<Rightarrow> (byte list \<Rightarrow> go_error + byte list) \<Rightarrow> (byte list \<Rightarrow> go_error + Port) \<Rightarrow> byte list list \<Rightarrow>
   (outcome_of_tool \<times> Client option) option" where
  "runSend parse files serial args =
     (case bind_err (parse ''send'' args) (\<lambda>f. bind_err (send_payload files f) (\<lambda>payload. Inr (f, payload))) of
        Inl e \<Rightarrow> Some ((Inl e, []), None)
      | Inr (f, payload) \<Rightarrow> one_request (device_of f) serial MsgTXRequest payload (10 * Second) tx_or_error)"

section \<open>Settings\<close>

text \<open>The four value types: the variable is set even when the text is refused, to what \<open>strconv\<close> returns with the error.\<close>

definition float32Value_Set :: "(byte list \<Rightarrow> (go_error + unit) \<times> float32) \<Rightarrow> byte list \<Rightarrow> (go_error + unit) \<times> float32" where
  "float32Value_Set ParseFloat s = ParseFloat s"

definition range_error :: go_error where "range_error = Failure ''value out of range''"

definition uint8Value_Set :: "byte list \<Rightarrow> (go_error + unit) \<times> byte" where
  "uint8Value_Set s =
     (case ParseUint s 10 8 of Inr n \<Rightarrow> (Inr (), of_nat n) | Inl e \<Rightarrow> (Inl e, if e = range_error then 255 else 0))"

definition int8Value_Set :: "byte list \<Rightarrow> (go_error + unit) \<times> byte" where
  "int8Value_Set s =
     (case ParseInt10 s 8 of
        Inr n \<Rightarrow> (Inr (), of_int n)
      | Inl e \<Rightarrow> (Inl e, if e = range_error then (if take 1 s = [45] then 128 else 127) else 0))"

definition uint16Value_Set :: "byte list \<Rightarrow> (go_error + unit) \<times> 16 word" where
  "uint16Value_Set s =
     (case ParseUint s 10 16 of Inr n \<Rightarrow> (Inr (), of_nat n) | Inl e \<Rightarrow> (Inl e, if e = range_error then 65535 else 0))"

definition set_option ::
  "(byte list \<Rightarrow> (go_error + unit) \<times> float32) \<Rightarrow> string \<Rightarrow> byte list \<Rightarrow> RadioConfig \<Rightarrow> (go_error + unit) \<times> RadioConfig" where
  "set_option ParseFloat name s cfg =
     (if name = ''frequency'' then (case float32Value_Set ParseFloat s of (r, v) \<Rightarrow> (r, cfg\<lparr>FrequencyMHz := v\<rparr>))
      else if name = ''bandwidth'' then (case float32Value_Set ParseFloat s of (r, v) \<Rightarrow> (r, cfg\<lparr>BandwidthKHz := v\<rparr>))
      else if name = ''sf'' then (case uint8Value_Set s of (r, v) \<Rightarrow> (r, cfg\<lparr>SpreadingFactor := v\<rparr>))
      else if name = ''cr'' then (case uint8Value_Set s of (r, v) \<Rightarrow> (r, cfg\<lparr>CodingRate := v\<rparr>))
      else if name = ''power'' then (case int8Value_Set s of (r, v) \<Rightarrow> (r, cfg\<lparr>TXPowerDBm := v\<rparr>))
      else if name = ''preamble'' then (case uint16Value_Set s of (r, v) \<Rightarrow> (r, cfg\<lparr>PreambleSymbols := v\<rparr>))
      else (Inr (), cfg))"

text \<open>The options in the order they were given; the first one refused ends the command.\<close>

fun set_options ::
  "(byte list \<Rightarrow> (go_error + unit) \<times> float32) \<Rightarrow> (string \<times> byte list) list \<Rightarrow> RadioConfig \<Rightarrow> go_error + RadioConfig" where
  "set_options ParseFloat [] cfg = Inr cfg"
| "set_options ParseFloat ((name, s) # given) cfg =
     (case set_option ParseFloat name s cfg of (Inl e, _) \<Rightarrow> Inl e | (Inr _, cfg) \<Rightarrow> set_options ParseFloat given cfg)"

definition runConfig ::
  "parser \<Rightarrow> (byte list \<Rightarrow> (go_error + unit) \<times> float32) \<Rightarrow> (byte list \<Rightarrow> go_error + Port) \<Rightarrow> byte list list \<Rightarrow>
   (outcome_of_tool \<times> Client option) option" where
  "runConfig parse ParseFloat serial args =
     (case bind_err (parse ''config'' args) (\<lambda>f.
             bind_err (set_options ParseFloat (fl_set f) DefaultConfig) (\<lambda>cfg.
             bind_err (ParseUint (fl_string f ''sync'') 0 8) (\<lambda>sync. Inr (f, cfg\<lparr>SyncWord := of_nat sync\<rparr>)))) of
        Inl e \<Rightarrow> Some ((Inl e, []), None)
      | Inr (f, cfg) \<Rightarrow> one_request (device_of f) serial MsgSetConfig (EncodeConfig cfg) (5 * Second) status_or_error)"

definition oled_mode :: "byte list \<Rightarrow> go_error + byte" where
  "oled_mode name =
     (let lower = ToLower name in
      if lower = str ''diagnostic'' then Inr OLEDDiagnostic
      else if lower = str ''minimal'' then Inr OLEDMinimal
      else if lower = str ''off'' then Inr OLEDOff
      else Inl (Failure ''unknown OLED mode''))"

definition runOLED :: "parser \<Rightarrow> (byte list \<Rightarrow> go_error + Port) \<Rightarrow> byte list list \<Rightarrow> (outcome_of_tool \<times> Client option) option" where
  "runOLED parse serial args =
     (case bind_err (parse ''oled'' args) (\<lambda>f.
             if length (fl_Args f) \<noteq> 1 then usage ''OLED mode is required: diagnostic, minimal, or off''
             else bind_err (oled_mode (hd (fl_Args f))) (\<lambda>mode. Inr (f, mode))) of
        Inl e \<Rightarrow> Some ((Inl e, []), None)
      | Inr (f, mode) \<Rightarrow> one_request (device_of f) serial MsgSetOLED [mode] (3 * Second) status_or_error)"

section \<open>Watching the radio\<close>

record monitor =
  mo_received :: int
  mo_shown :: "shown list"
  mo_written :: "byte list list"

definition errComplete :: go_error where "errComplete = Failure ''complete''"

text \<open>The handler of \<open>monitor\<close>; \<open>writable\<close> says whether the output file can be written.\<close>

definition monitor_frame :: "bool \<Rightarrow> byte list \<Rightarrow> int \<Rightarrow> Frame \<Rightarrow> monitor \<Rightarrow> (go_error + unit) \<times> monitor" where
  "monitor_frame writable output count frame st =
     (if frame_type frame \<noteq> MsgRXPacket
      then (case printFrame frame of (r, lines) \<Rightarrow> (r, st\<lparr>mo_shown := mo_shown st @ lines\<rparr>))
      else case DecodeRXPacket (frame_payload frame) of
          Inl e \<Rightarrow> (Inl e, st)
        | Inr rx \<Rightarrow>
          (let st = st\<lparr>mo_shown := mo_shown st @ [ShownRX rx]\<rparr> in
           if output \<noteq> [] \<and> \<not> writable then (Inl IOError, st)
           else let st = (if output \<noteq> [] then st\<lparr>mo_written := mo_written st @ [rx_Payload rx]\<rparr> else st);
                    st = st\<lparr>mo_received := mo_received st + 1\<rparr>
                in (if count > 0 \<and> mo_received st \<ge> count then Inl errComplete else Inr (), st)))"

definition new_monitor :: monitor where
  "new_monitor = \<lparr>mo_received = 0, mo_shown = [], mo_written = []\<rparr>"

text \<open>As for the other commands, the last component is the client when it is closed.\<close>

definition runMonitor ::
  "parser \<Rightarrow> bool \<Rightarrow> (byte list \<Rightarrow> go_error + Port) \<Rightarrow> byte list list \<Rightarrow> ((go_error + unit) \<times> monitor \<times> Client option) option" where
  "runMonitor parse writable serial args =
     (case bind_err (parse ''monitor'' args) (\<lambda>f.
             if fl_string f ''output'' \<noteq> [] \<and> fl_int f ''count'' \<noteq> 1 then usage ''--output requires --count=1'' else Inr f) of
        Inl e \<Rightarrow> Some (Inl e, new_monitor, None)
      | Inr f \<Rightarrow>
        (case open_modem (device_of f) serial of
           None \<Rightarrow> None
         | Some (Inl e) \<Rightarrow> Some (Inl e, new_monitor, None)
         | Some (Inr c) \<Rightarrow>
           map_option (\<lambda>(e, st, c). (if e = errComplete then Inr () else Inl e, st, Some c))
             (ReadFrames (monitor_frame writable (fl_string f ''output'') (fl_int f ''count'')) new_monitor c)))"

section \<open>The program\<close>

datatype tool_command = InfoCommand | MonitorCommand | SendCommand | ConfigCommand | OLEDCommand | HelpCommand

definition select_tool :: "byte list list \<Rightarrow> go_error + tool_command \<times> byte list list" where
  "select_tool args =
     (case args of
        [] \<Rightarrow> usage ''a command is required''
      | name # rest \<Rightarrow>
        (case map_of [(str ''info'', InfoCommand), (str ''monitor'', MonitorCommand), (str ''send'', SendCommand), (str ''config'', ConfigCommand),
            (str ''oled'', OLEDCommand), (str ''help'', HelpCommand), (str ''-h'', HelpCommand), (str ''--help'', HelpCommand)] name of
           Some cmd \<Rightarrow> Inr (cmd, rest)
         | None \<Rightarrow> Inl (Failure ''unknown command'')))"

section \<open>The frames the handler sees\<close>

text \<open>A handler over a list of frames, as long as it does not fail.\<close>

fun handle_all :: "(Frame \<Rightarrow> 's \<Rightarrow> (go_error + unit) \<times> 's) \<Rightarrow> Frame list \<Rightarrow> 's \<Rightarrow> 's option" where
  "handle_all handle [] s = Some s"
| "handle_all handle (f # fs) s = (case handle f s of (Inl e, _) \<Rightarrow> None | (Inr _, s) \<Rightarrow> handle_all handle fs s)"

lemma readAvailable_error: "readAvailable deadline c = (Inl e, c') \<Longrightarrow> e \<in> {ModemTimeout, IOError}"
  by (auto simp: readAvailable_def SetReadTimeout_def Let_def split: option.splits prod.splits if_splits sum.splits)

lemma read_loop_error: "read_loop deadline c = Some rc \<Longrightarrow> fst rc = Inl e \<Longrightarrow> e \<in> {ModemTimeout, IOError}"
proof (erule read_loop.raw_induct [rotated, THEN mp])
  fix loop deadline c rc
  assume IH: "\<And>deadline c rc. loop deadline c = Some rc \<Longrightarrow> fst rc = Inl e \<longrightarrow> e \<in> {ModemTimeout, IOError}"
    and step: "(case readAvailable deadline c of
        (Inl e, c) \<Rightarrow> Some (Inl e, c)
      | (Inr [], c) \<Rightarrow> (case deadline of None \<Rightarrow> loop deadline c
         | Some d \<Rightarrow> (let (t, c) = clock_Now c in if \<not> t < d then Some (Inl ModemTimeout, c) else loop deadline c))
      | (Inr (frame # frames), c) \<Rightarrow> Some (Inr frame, c\<lparr>cl_pending := cl_pending c @ frames\<rparr>)) = Some rc"
  obtain x c1 where s: "readAvailable deadline c = (x, c1)" by fastforce
  show "fst rc = Inl e \<longrightarrow> e \<in> {ModemTimeout, IOError}"
  proof (cases x)
    case (Inl d)
    then have "rc = (Inl d, c1)" using step s by simp
    then show ?thesis using readAvailable_error [of deadline c d c1] s Inl by auto
  next
    case (Inr fs)
    then show ?thesis using step s IH by (cases fs) (auto simp: Let_def split: option.splits prod.splits if_splits)
  qed
qed

lemma ReadFrame_error: "ReadFrame timeout c = Some (Inl e, c') \<Longrightarrow> e \<in> {ModemTimeout, IOError}"
  using read_loop_error [of _ _ "(Inl e, c')"]
  by (auto simp: ReadFrame_def Let_def split: list.splits if_splits prod.splits)

text \<open>
  When \<open>ReadFrames\<close> returns, the handler saw the oldest frames of the line, in order and each once, and either it
  failed on the last of them or reading failed; the others are still there.
\<close>

definition frames_handled ::
  "(Frame \<Rightarrow> 's \<Rightarrow> (go_error + unit) \<times> 's) \<Rightarrow> 's \<Rightarrow> Client \<Rightarrow> go_error \<times> 's \<times> Client \<Rightarrow> bool" where
  "frames_handled handle s c rc \<longleftrightarrow> (case rc of (e, s', c') \<Rightarrow>
     \<exists>gs fs. came_in c c' gs \<and> cl_pending c @ gs = fs @ cl_pending c' \<and>
       (handle_all handle fs s = Some s' \<and> e \<in> {ModemTimeout, IOError} \<or>
        (\<exists>us f s1. fs = us @ [f] \<and> handle_all handle us s = Some s1 \<and> handle f s1 = (Inl e, s'))))"

lemma frames_handled_later:
  assumes "frame_read c (Inr f, c1)" "handle f s = (Inr u, s1)" "frames_handled handle s1 c1 rc"
  shows "frames_handled handle s c rc"
proof -
  obtain e s' c' where rc: "rc = (e, s', c')" by (cases rc)
  obtain gs where g: "came_in c c1 gs" "cl_pending c @ gs = f # cl_pending c1" using assms(1) by (auto simp: frame_read_def)
  obtain hs fs where h: "came_in c1 c' hs" "cl_pending c1 @ hs = fs @ cl_pending c'"
    and r: "handle_all handle fs s1 = Some s' \<and> e \<in> {ModemTimeout, IOError} \<or>
      (\<exists>us f s2. fs = us @ [f] \<and> handle_all handle us s1 = Some s2 \<and> handle f s2 = (Inl e, s'))"
    using assms(3) unfolding frames_handled_def rc by auto
  have "came_in c c' (gs @ hs)" "cl_pending c @ gs @ hs = (f # fs) @ cl_pending c'"
    using came_in_trans [OF g(1) h(1)] g(2) h(2) by (simp_all, simp flip: append_assoc)
  moreover have "handle_all handle (f # us) s = handle_all handle us s1" for us using assms(2) by simp
  ultimately show ?thesis using r unfolding frames_handled_def rc prod.case by (metis append_Cons)
qed

lemma ReadFrames_form: "ReadFrames handle s c = Some rc \<Longrightarrow> frames_handled handle s c rc"
proof (erule ReadFrames.raw_induct [rotated])
  fix loop :: "(Frame \<Rightarrow> 's \<Rightarrow> (go_error + unit) \<times> 's) \<Rightarrow> 's \<Rightarrow> Client \<Rightarrow> (go_error \<times> 's \<times> Client) option" and handle s c rc
  assume IH: "\<And>handle s c rc. loop handle s c = Some rc \<Longrightarrow> frames_handled handle s c rc"
    and step: "(case ReadFrame NoTimeout c of None \<Rightarrow> None | Some (Inl e, c) \<Rightarrow> Some (e, s, c)
      | Some (Inr frame, c) \<Rightarrow> (case handle frame s of (Inl e, s) \<Rightarrow> Some (e, s, c) | (Inr _, s) \<Rightarrow> loop handle s c)) = Some rc"
  then obtain x c1 where x: "ReadFrame NoTimeout c = Some (x, c1)" by (auto split: option.splits)
  have fr: "frame_read c (x, c1)" using ReadFrame_form [OF x] .
  show "frames_handled handle s c rc"
  proof (cases x)
    case (Inl e)
    then have "rc = (e, s, c1)" using step x by simp
    moreover have "e \<in> {ModemTimeout, IOError}" using ReadFrame_error x Inl by blast
    moreover obtain gs where "came_in c c1 gs" "cl_pending c @ gs = [] @ cl_pending c1" using fr Inl by (auto simp: frame_read_def)
    moreover have "handle_all handle [] s = Some s" by simp
    ultimately show ?thesis unfolding frames_handled_def by blast
  next
    case (Inr f)
    obtain y s1 where y: "handle f s = (y, s1)" by fastforce
    show ?thesis
    proof (cases y)
      case (Inl e)
      then have "rc = (e, s1, c1)" using step x Inr y by simp
      moreover obtain gs where "came_in c c1 gs" "cl_pending c @ gs = [f] @ cl_pending c1" using fr Inr by (auto simp: frame_read_def)
      moreover have "[f] = [] @ [f] \<and> handle_all handle [] s = Some s \<and> handle f s = (Inl e, s1)" using y Inl by simp
      ultimately show ?thesis unfolding frames_handled_def by blast
    next
      case (Inr u)
      then have "loop handle s1 c1 = Some rc" using step x \<open>x = Inr f\<close> y by simp
      from frames_handled_later [OF _ _ IH [OF this]] show ?thesis using fr \<open>x = Inr f\<close> y Inr by blast
    qed
  qed
qed

section \<open>What the monitor shows\<close>

definition is_rx :: "Frame \<Rightarrow> bool" where "is_rx f \<longleftrightarrow> frame_type f = MsgRXPacket"

definition frame_lines :: "Frame \<Rightarrow> shown list" where
  "frame_lines f =
     (if is_rx f then (case DecodeRXPacket (frame_payload f) of Inl _ \<Rightarrow> [] | Inr rx \<Rightarrow> [ShownRX rx]) else snd (printFrame f))"

definition packet_of :: "Frame \<Rightarrow> byte list" where "packet_of f = drop 8 (frame_payload f)"

lemma printFrame_not_complete: "fst (printFrame f) \<noteq> Inl errComplete"
  by (auto simp: printFrame_def DecodeResult_def errComplete_def split: if_splits sum.splits)

lemma monitor_frame_Inr:
  assumes "monitor_frame writable output n f st = (Inr u, st')"
  shows "mo_shown st' = mo_shown st @ frame_lines f" "mo_received st' = mo_received st + (if is_rx f then 1 else 0)"
    "n > 0 \<Longrightarrow> mo_received st < n \<Longrightarrow> mo_received st' < n"
    "mo_written st' = mo_written st @ (if output = [] then [] else map packet_of (filter is_rx [f]))"
  using assms by (auto simp: monitor_frame_def is_rx_def packet_of_def DecodeRXPacket_def frame_lines_def Let_def split: if_splits sum.splits prod.splits)

lemma monitor_frame_complete:
  assumes "monitor_frame writable output n f st = (Inl errComplete, st')"
  shows "is_rx f" "0 < n" "n \<le> mo_received st + 1" "mo_received st' = mo_received st + 1" "mo_shown st' = mo_shown st @ frame_lines f"
    "mo_written st' = mo_written st @ (if output = [] then [] else map packet_of [f])"
proof -
  have p: "printFrame f \<noteq> (Inl errComplete, ls)" for ls using printFrame_not_complete [of f] by (metis fst_conv)
  show "is_rx f" "0 < n" "n \<le> mo_received st + 1" "mo_received st' = mo_received st + 1" "mo_shown st' = mo_shown st @ frame_lines f"
    "mo_written st' = mo_written st @ (if output = [] then [] else map packet_of [f])"
    using assms p by (auto simp: monitor_frame_def is_rx_def frame_lines_def packet_of_def DecodeRXPacket_def Let_def errComplete_def
        split: if_splits sum.splits prod.splits)
qed

lemma handle_all_monitor:
  assumes "handle_all (monitor_frame writable output n) fs st = Some st'" "mo_received st < n" "0 < n"
  shows "mo_shown st' = mo_shown st @ concat (map frame_lines fs) \<and> mo_received st' < n \<and>
    mo_received st' = mo_received st + int (length (filter is_rx fs)) \<and>
    mo_written st' = mo_written st @ (if output = [] then [] else map packet_of (filter is_rx fs))"
  using assms(1,2)
proof (induction fs arbitrary: st)
  case (Cons f fs)
  obtain u st1 where s: "monitor_frame writable output n f st = (Inr u, st1)" "handle_all (monitor_frame writable output n) fs st1 = Some st'"
    using Cons.prems(1) by (auto split: prod.splits sum.splits)
  note m = monitor_frame_Inr [OF s(1)]
  show ?case using Cons.IH [OF s(2) m(3) [OF assms(3) Cons.prems(2)]] m(1,2,4) by simp
qed simp

section \<open>Properties\<close>

text \<open>
  C27: The monitor misses nothing: when \<open>monitor\<close> ends without an error, it was asked to stop after some number of
  packets and has shown exactly that many. Between opening the modem (\<open>c\<close>) and closing it (\<open>c'\<close>) the port delivered
  some bytes, in which the decoder found some frames: these, behind the ones the opening left, are the frames
  the monitor printed, each once and in order, followed by the ones still waiting when it closed. The last
  printed is the last packet; an output file holds exactly the bytes of the one packet it was asked for. It never
  ends so by itself when it was not asked to stop.
\<close>

theorem monitor_shows_every_packet:
  assumes "parse ''monitor'' args = Inr f" and "runMonitor parse writable serial args = Some (Inr (), st, final)"
  shows "0 < fl_int f ''count'' \<and> mo_received st = fl_int f ''count'' \<and>
    (\<exists>c c' b gs errs fs f'. Open (serial (device_of f)) = Some (Inr c) \<and> final = Some c' \<and>
       po_got (cl_port c') = po_got (cl_port c) @ b \<and> Push (cl_decoder c) b = (cl_decoder c', gs, errs) \<and>
       cl_pending c @ gs = (fs @ [f']) @ cl_pending c' \<and>
       mo_shown st = concat (map frame_lines (fs @ [f'])) \<and> is_rx f' \<and>
       int (length (filter is_rx (fs @ [f']))) = fl_int f ''count'' \<and>
       mo_written st = (if fl_string f ''output'' = [] then [] else [packet_of f']))"
proof -
  let ?out = "fl_string f ''output''" and ?n = "fl_int f ''count''"
  let ?handle = "monitor_frame writable ?out ?n"
  have ok: "?out \<noteq> [] \<Longrightarrow> ?n = 1" using assms by (auto simp: runMonitor_def usage_def split: if_splits)
  have run: "runMonitor parse writable serial args = (case open_modem (device_of f) serial of
           None \<Rightarrow> None
         | Some (Inl e) \<Rightarrow> Some (Inl e, new_monitor, None)
         | Some (Inr c) \<Rightarrow> map_option (\<lambda>(e, st, c). (if e = errComplete then Inr () else Inl e, st, Some c)) (ReadFrames ?handle new_monitor c))"
  proof -
    have "\<not> (?out \<noteq> [] \<and> ?n \<noteq> 1)" using ok by blast
    then show ?thesis using assms(1) by (simp only: runMonitor_def bind_err.simps if_False sum.case)
  qed
  obtain c c' where c: "open_modem (device_of f) serial = Some (Inr c)" "ReadFrames ?handle new_monitor c = Some (errComplete, st, c')"
    "final = Some c'"
    using assms(2) unfolding run by (auto split: option.splits sum.splits if_splits)
  have opened: "Open (serial (device_of f)) = Some (Inr c)" using c(1) by (auto simp: open_modem_def split: if_splits)
  have "errComplete \<notin> {ModemTimeout, IOError}" by (simp add: errComplete_def)
  then obtain gs us f' s1 where g: "came_in c c' gs" "cl_pending c @ gs = (us @ [f']) @ cl_pending c'"
    and h: "handle_all ?handle us new_monitor = Some s1" "?handle f' s1 = (Inl errComplete, st)"
    using ReadFrames_form [OF c(2)] unfolding frames_handled_def by auto
  note m = monitor_frame_complete [OF h(2)]
  have start: "mo_received new_monitor < ?n" using m(2) by (simp add: new_monitor_def)
  note a = handle_all_monitor [OF h(1) start m(2)]
  have n: "mo_received st = ?n" "int (length (filter is_rx (us @ [f']))) = ?n" using a m(1,3,4) by (simp_all add: new_monitor_def)
  have shown: "mo_shown st = concat (map frame_lines (us @ [f']))" using a m(5) by (simp add: new_monitor_def)
  have "filter is_rx us = []" if "?out \<noteq> []" using n(2) ok [OF that] m(1) by simp
  then have "mo_written st = (if ?out = [] then [] else [packet_of f'])" using a m(6) by (auto simp: new_monitor_def)
  moreover obtain b errs where "po_got (cl_port c') = po_got (cl_port c) @ b" "Push (cl_decoder c) b = (cl_decoder c', gs, errs)"
    using g(1) by (auto simp: came_in_def)
  ultimately show ?thesis using m(1,2) n shown opened c(3) g(2) by blast
qed

text \<open>A modem that answers the opening request and then reports a packet.\<close>

definition packet_frame :: Frame where
  "packet_frame = \<lparr>frame_type = MsgRXPacket, frame_seq = 0, frame_payload = [0, 0, 0, 0, 0, 0, 0, 0, 7]\<rparr>"

definition packet_port :: Port where
  "packet_port = (cl_port example_client)\<lparr>po_reads := Inr [6, 71, 67, 1, 131, 1, 2, 2, 7, 111, 107, 10, 111, 247, 84, 0] ##
     Inr [5, 71, 67, 1, 129, 1, 2, 9, 1, 1, 1, 1, 1, 1, 1, 1, 6, 7, 80, 212, 35, 241, 0] ## sconst (Inr [])\<rparr>"

definition monitor_parser :: parser where
  "monitor_parser name args = Inr \<lparr>fl_string = \<lambda>name. if name = ''device'' then str ''/dev/ttyACM0'' else [], fl_bool = \<lambda>_. False,
     fl_int = \<lambda>_. 1, fl_set = [], fl_Args = args\<rparr>"

lemma packet_port_opens:
  "\<exists>c. Open (Inr packet_port) = Some (Inr c) \<and> cl_pending c = [] \<and> cl_decoder c = empty_decoder \<and> shd (po_settable (cl_port c)) \<and>
     shd (po_reads (cl_port c)) = Inr [5, 71, 67, 1, 129, 1, 2, 9, 1, 1, 1, 1, 1, 1, 1, 1, 6, 7, 80, 212, 35, 241, 0]"
proof -
  have "EncodeFrame ok_frame = Inr [6, 71, 67, 1, 131, 1, 2, 2, 7, 111, 107, 10, 111, 247, 84, 0]" by code_simp
  note came = Push_EncodeFrame [OF this]
  show ?thesis
    by (simp add: Open_def packet_port_def example_client_def evaluate_request came)
       (simp add: answers_request_def ok_frame_def status_or_error_def)
qed

lemma packet_monitored:
  "\<exists>st final. runMonitor monitor_parser True (\<lambda>_. Inr packet_port) [] = Some (Inr (), st, final) \<and> mo_shown st = frame_lines packet_frame"
proof -
  obtain c where c: "Open (Inr packet_port) = Some (Inr c)" "cl_pending c = []" "cl_decoder c = empty_decoder" "shd (po_settable (cl_port c))"
    "shd (po_reads (cl_port c)) = Inr [5, 71, 67, 1, 129, 1, 2, 9, 1, 1, 1, 1, 1, 1, 1, 1, 6, 7, 80, 212, 35, 241, 0]"
    using packet_port_opens by blast
  have "EncodeFrame packet_frame = Inr [5, 71, 67, 1, 129, 1, 2, 9, 1, 1, 1, 1, 1, 1, 1, 1, 6, 7, 80, 212, 35, 241, 0]" by code_simp
  note came = Push_EncodeFrame [OF this]
  have "\<exists>c'. ReadFrame NoTimeout c = Some (Inr packet_frame, c')"
    using c by (simp add: ReadFrame_def read_loop.simps readAvailable_def SetReadTimeout_def port_Read_def came)
  then obtain c' where "ReadFrame NoTimeout c = Some (Inr packet_frame, c')" ..
  moreover have "monitor_frame True [] 1 packet_frame new_monitor =
      (Inl errComplete, \<lparr>mo_received = 1, mo_shown = frame_lines packet_frame, mo_written = []\<rparr>)"
    by (simp add: monitor_frame_def new_monitor_def packet_frame_def frame_lines_def is_rx_def DecodeRXPacket_def)
  ultimately have "ReadFrames (monitor_frame True [] 1) new_monitor c =
      Some (errComplete, \<lparr>mo_received = 1, mo_shown = frame_lines packet_frame, mo_written = []\<rparr>, c')"
    by (simp add: ReadFrames.simps)
  then show ?thesis
    by (simp add: runMonitor_def monitor_parser_def open_modem_def device_of_def c(1) str_def)
qed

theorem monitor_shows_every_packet_witness:
  "\<exists>st c'. runMonitor monitor_parser True (\<lambda>_. Inr packet_port) [] = Some (Inr (), st, Some c') \<and> mo_received st = 1 \<and>
     mo_shown st = frame_lines packet_frame"
proof -
  obtain st final where run: "runMonitor monitor_parser True (\<lambda>_. Inr packet_port) [] = Some (Inr (), st, final)"
      "mo_shown st = frame_lines packet_frame" using packet_monitored by blast
  from monitor_shows_every_packet [OF _ run(1)] have "mo_received st = 1 \<and> (\<exists>c'. final = Some c')" by (auto simp: monitor_parser_def)
  then show ?thesis using run by blast
qed

text \<open>A request reads the clock and leaves the rest of it.\<close>

lemma request_loop_clock:
  "request_loop request accept deadline interval nextRetry c = Some rc \<Longrightarrow> \<exists>k. po_clock (cl_port (snd rc)) = sdrop k (po_clock (cl_port c))"
proof (erule request_loop.raw_induct [rotated])
  fix loop request accept deadline interval nextRetry c rc
  assume IH: "\<And>request accept deadline interval nextRetry c rc. loop request accept deadline interval nextRetry c = Some rc \<Longrightarrow>
      \<exists>k. po_clock (cl_port (snd rc)) = sdrop k (po_clock (cl_port c))"
    and step: "(case loop_step request accept deadline interval nextRetry c of
        (Inl e, c) \<Rightarrow> Some (Inl e, c) | (Inr (Inl frame), c) \<Rightarrow> Some (Inr frame, c)
      | (Inr (Inr nextRetry), c) \<Rightarrow> loop request accept deadline interval nextRetry c) = Some rc"
  obtain x c1 where s: "loop_step request accept deadline interval nextRetry c = (x, c1)" by fastforce
  obtain k where k: "po_clock (cl_port c1) = sdrop (Suc k) (po_clock (cl_port c))" using loop_step_form(2) [OF s] by blast
  have "snd rc = c1 \<or> (\<exists>n. loop request accept deadline interval n c1 = Some rc)" using step s by (auto split: sum.splits)
  then show "\<exists>j. po_clock (cl_port (snd rc)) = sdrop j (po_clock (cl_port c))"
  proof
    assume "snd rc = c1"
    then show ?thesis using k by blast
  next
    assume "\<exists>n. loop request accept deadline interval n c1 = Some rc"
    then obtain j where "po_clock (cl_port (snd rc)) = sdrop j (po_clock (cl_port c1))" using IH by blast
    then have "po_clock (cl_port (snd rc)) = sdrop (Suc k + j) (po_clock (cl_port c))" by (simp only: k sdrop_add)
    then show ?thesis by blast
  qed
qed

lemma Open_clock:
  assumes "Open (Inr port) = Some (Inr c)" "clock_ok (po_clock port)"
  shows "clock_ok (po_clock (cl_port c))"
proof -
  let ?c = "\<lparr>cl_port = port, cl_seq = 0, cl_decoder = empty_decoder, cl_pending = []\<rparr>"
  obtain f where "requestWithRetry MsgInfoRequest [] startupTimeout requestRetryInterval status_or_error ?c = Some (Inr f, c)"
    using assms(1) by (auto simp: Open_def split: option.splits sum.splits)
  then show ?thesis
  proof (cases rule: requestWithRetry_cases)
    case (sent c1 c2)
    from request_loop_clock [OF sent(4)] obtain k where
      "po_clock (cl_port c2) = sdrop k (stl (stl (po_clock (cl_port c1))))" by auto
    then show ?thesis using client_Send_form(2) [OF sent(1)] sent(5) assms(2) by simp
  qed simp_all
qed

lemma send_payload_Inr:
  assumes "send_payload files f = Inr payload"
  shows "length payload \<le> 255" "length (filter (\<lambda>s. s \<noteq> []) [fl_string f ''text'', fl_string f ''file'', fl_string f ''hex'']) = 1"
    "fl_string f ''text'' \<noteq> [] \<Longrightarrow> payload = fl_string f ''text''"
    "fl_string f ''file'' \<noteq> [] \<Longrightarrow> files (fl_string f ''file'') = Inr payload"
    "fl_string f ''hex'' \<noteq> [] \<Longrightarrow> hex_DecodeString (filter (\<lambda>b. b \<noteq> 32) (fl_string f ''hex'')) = Inr payload"
  using assms by (auto simp: send_payload_def Let_def usage_def split: if_splits)

text \<open>
  What the tool sends is what it was given: when \<open>send\<close> ends without an error, the payload is the text, the file
  or the bytes the hexadecimal option renders, with spaces anywhere, whichever one was given; it is at most 255
  bytes; one transmit request with exactly these bytes was written to the open modem, and the modem confirmed
  that request.
\<close>

theorem tool_sends_what_was_given:
  assumes "parse ''send'' args = Inr f" and "runSend parse files serial args = Some ((Inr (), lines), Some c')"
    and "serial (device_of f) = Inr port" and "clock_ok (po_clock port)"
  shows "\<exists>payload c w. Open (Inr port) = Some (Inr c) \<and> po_written (cl_port c') = po_written (cl_port c) @ w \<and>
    EncodeFrame \<lparr>frame_type = MsgTXRequest, frame_seq = cl_seq c + 1, frame_payload = payload\<rparr> = Inr w \<and> length payload \<le> 255 \<and>
    (fl_string f ''text'' \<noteq> [] \<longrightarrow> payload = fl_string f ''text'') \<and>
    (fl_string f ''file'' \<noteq> [] \<longrightarrow> files (fl_string f ''file'') = Inr payload) \<and>
    (\<forall>b. fl_string f ''hex'' \<noteq> [] \<and> filter (\<lambda>x. x \<noteq> 32) (fl_string f ''hex'') = hex_EncodeToString b \<longrightarrow> payload = b) \<and>
    (\<exists>result. lines = [ShownResult MsgTXResult result] \<and> result_Code result = 0)"
proof -
  obtain payload where p: "send_payload files f = Inr payload"
    and one: "one_request (device_of f) serial MsgTXRequest payload (10 * Second) tx_or_error = Some ((Inr (), lines), Some c')"
    using assms(1,2) by (cases "send_payload files f") (auto simp: runSend_def)
  obtain c where c1: "open_modem (device_of f) serial = Some (Inr c)"
    using one by (auto simp: one_request_def split: option.splits sum.splits)
  obtain q d where q: "Request MsgTXRequest payload (10 * Second) tx_or_error c = Some (q, d)"
    using one c1 by (cases "Request MsgTXRequest payload (10 * Second) tx_or_error c") (auto simp: one_request_def)
  have shown: "(case q of Inl e \<Rightarrow> (Inl e, []) | Inr frame \<Rightarrow> printFrame frame) = (Inr (), lines)" and d: "d = c'"
    using one unfolding one_request_def c1 option.case sum.case q by simp_all
  note c = c1 q [unfolded d]
  have opened: "Open (Inr port) = Some (Inr c)" using c(1) assms(3) by (auto simp: open_modem_def split: if_splits)
  note s = request_sent_once [OF Open_clock [OF opened assms(4)] c(2)]
  obtain frame where frame: "q = Inr frame" "printFrame frame = (Inr (), lines)" using shown by (auto split: sum.splits)
  then obtain w where w: "po_written (cl_port c') = po_written (cl_port c) @ w" "tx_or_error frame"
    "EncodeFrame \<lparr>frame_type = MsgTXRequest, frame_seq = cl_seq c + 1, frame_payload = payload\<rparr> = Inr w" using s by blast
  have "\<exists>result. lines = [ShownResult MsgTXResult result] \<and> result_Code result = 0"
    using frame(2) w(2) by (auto simp: printFrame_def tx_or_error_def split: if_splits sum.splits)
  moreover have "payload = b" if "fl_string f ''hex'' \<noteq> []" "filter (\<lambda>x. x \<noteq> 32) (fl_string f ''hex'') = hex_EncodeToString b" for b
    using send_payload_Inr(5) [OF p that(1)] that(2) by simp
  ultimately show ?thesis using opened w send_payload_Inr(1,3,4) [OF p] by blast
qed

text \<open>The modem confirms the packet 07.\<close>

definition sending_port :: Port where
  "sending_port = (cl_port example_client)\<lparr>po_reads := Inr [6, 71, 67, 1, 131, 1, 2, 2, 7, 111, 107, 10, 111, 247, 84, 0] ##
     Inr [6, 71, 67, 1, 130, 2, 2, 2, 1, 1, 5, 168, 217, 17, 76, 0] ## sconst (Inr [])\<rparr>"

definition send_parser :: parser where
  "send_parser name args = Inr \<lparr>fl_string = \<lambda>name. if name = ''device'' then str ''/dev/ttyACM0'' else if name = ''hex'' then str ''0 7'' else [],
     fl_bool = \<lambda>_. False, fl_int = \<lambda>_. 0, fl_set = [], fl_Args = args\<rparr>"

lemma sending_port_opens:
  "\<exists>c. Open (Inr sending_port) = Some (Inr c) \<and> cl_pending c = [] \<and> cl_decoder c = empty_decoder \<and> cl_seq c = 1 \<and>
     po_settable (cl_port c) = sconst True \<and> po_writes (cl_port c) = sconst (Inr 1000) \<and>
     (\<exists>t. po_clock (cl_port c) = counting t) \<and> shd (po_reads (cl_port c)) = Inr [6, 71, 67, 1, 130, 2, 2, 2, 1, 1, 5, 168, 217, 17, 76, 0]"
proof -
  have "EncodeFrame ok_frame = Inr [6, 71, 67, 1, 131, 1, 2, 2, 7, 111, 107, 10, 111, 247, 84, 0]" by code_simp
  note came = Push_EncodeFrame [OF this]
  show ?thesis
    by (simp add: Open_def sending_port_def example_client_def evaluate_request came)
       (simp add: answers_request_def ok_frame_def status_or_error_def, blast)
qed

lemma sending_client_sends:
  "\<exists>c'. runSend send_parser (\<lambda>_. Inl IOError) (\<lambda>_. Inr sending_port) [] = Some ((Inr (), [ShownResult MsgTXResult \<lparr>result_Code = 0, result_Message = []\<rparr>]), Some c')"
proof -
  obtain c t where c: "Open (Inr sending_port) = Some (Inr c)" "cl_pending c = []" "cl_decoder c = empty_decoder" "cl_seq c = 1"
     "po_settable (cl_port c) = sconst True" "po_writes (cl_port c) = sconst (Inr 1000)" "po_clock (cl_port c) = counting t"
     "shd (po_reads (cl_port c)) = Inr [6, 71, 67, 1, 130, 2, 2, 2, 1, 1, 5, 168, 217, 17, 76, 0]"
    using sending_port_opens by blast
  let ?f = "\<lparr>frame_type = MsgTXResult, frame_seq = 2, frame_payload = [0, 0]\<rparr>"
  have "EncodeFrame ?f = Inr [6, 71, 67, 1, 130, 2, 2, 2, 1, 1, 5, 168, 217, 17, 76, 0]" by code_simp
  note came = Push_EncodeFrame [OF this]
  have sent: "EncodeFrame \<lparr>frame_type = MsgTXRequest, frame_seq = 2, frame_payload = [7]\<rparr> = Inr [6, 71, 67, 1, 2, 2, 2, 1, 6, 7, 37, 185, 49, 245, 0]"
    by code_simp
  have "\<exists>c'. Request MsgTXRequest [7] (10 * Second) tx_or_error c = Some (Inr ?f, c')"
    by (simp add: Request_def evaluate_request c sent [simplified] came [simplified])
       (simp add: answers_request_def tx_or_error_def)
  then obtain c' where r: "Request MsgTXRequest [7] (10 * Second) tx_or_error c = Some (Inr ?f, c')" ..
  obtain g where g: "send_parser ''send'' [] = Inr g" "send_payload files g = Inr [7]" "device_of g \<noteq> []" for files
    by (simp add: send_parser_def send_payload_def device_of_def Let_def str_def hex_value_def)
  have "one_request (device_of g) (\<lambda>_. Inr sending_port) MsgTXRequest [7] (10 * Second) tx_or_error = Some (printFrame ?f, Some c')"
    using c(1) g(3) r by (simp add: one_request_def open_modem_def del: MsgTXRequest_def)
  moreover have "printFrame ?f = (Inr (), [ShownResult MsgTXResult \<lparr>result_Code = 0, result_Message = []\<rparr>])"
    by (simp add: printFrame_def DecodeResult_def gslice_def)
  ultimately show ?thesis using g by (simp add: runSend_def del: MsgTXRequest_def)
qed

theorem tool_sends_what_was_given_witness:
  "\<exists>c c' w. runSend send_parser (\<lambda>_. Inl IOError) (\<lambda>_. Inr sending_port) [] =
       Some ((Inr (), [ShownResult MsgTXResult \<lparr>result_Code = 0, result_Message = []\<rparr>]), Some c') \<and>
     Open (Inr sending_port) = Some (Inr c) \<and> po_written (cl_port c') = po_written (cl_port c) @ w \<and> w \<noteq> []"
proof -
  obtain c' where run: "runSend send_parser (\<lambda>_. Inl IOError) (\<lambda>_. Inr sending_port) [] =
      Some ((Inr (), [ShownResult MsgTXResult \<lparr>result_Code = 0, result_Message = []\<rparr>]), Some c')"
    using sending_client_sends by blast
  have "clock_ok (po_clock sending_port)" using counting_clock by (simp add: sending_port_def example_client_def)
  from tool_sends_what_was_given [OF _ run refl this] obtain payload c w where
    w: "Open (Inr sending_port) = Some (Inr c)" "po_written (cl_port c') = po_written (cl_port c) @ w"
      "EncodeFrame \<lparr>frame_type = MsgTXRequest, frame_seq = cl_seq c + 1, frame_payload = payload\<rparr> = Inr w"
    by (auto simp: send_parser_def)
  have "w \<noteq> []" using w(3) by (auto simp: EncodeFrame_def Let_def split: if_splits)
  then show ?thesis using run w by blast
qed

end
