(* ===== verification/Deviations.thy ===== *)
theory Deviations
  imports Store_Safety Runtime
begin

text \<open>
  Places where the code does less than its checks or its documents say, each as the behaviour of the modelled
  definitions: the bound on acquisitions and packets from the source zero (\<open>addCandidate\<close> of
  \<open>internal/node/runtime.go\<close>), the check of filenames (\<open>Begin\<close> of \<open>internal/publication/store.go\<close>), and the body of
  a summary request (\<open>decodePrefix\<close> of \<open>internal/node/protocol.go\<close>). The other deviations are theorems of the
  theories of their components.
\<close>

text \<open>
  Candidates named by a packet whose source is zero are added however many acquisitions there are; the zero that
  marks an acquisition resumed from disk is not refused on the air.
\<close>

theorem zero_source_ignores_bound:
  "acq r pid = None \<Longrightarrow> length (rt_acquisitions (snd (addCandidate pid 0 r))) = Suc (length (rt_acquisitions r))"
proof -
  assume none: "acq r pid = None"
  have "length (AList.update k v xs) = Suc (length xs)" if "map_of xs k = None" for k :: ID and v :: acquisition and xs
    using that by (induction xs) (auto split: if_splits)
  then show ?thesis
    using none by (simp add: addCandidate_def put_acq_def add_source_def new_acquisition_def acq_def Let_def)
qed

theorem bound_is_reached_otherwise:
  "source \<noteq> 0 \<Longrightarrow> acq r pid = None \<Longrightarrow> maxAcquisitions \<le> length (rt_acquisitions r) \<Longrightarrow> addCandidate pid source r = (None, r)"
  by (simp add: addCandidate_def)

text \<open>The names \<open>..\<close> and \<open>/\<close> pass the test for unsafe filenames.\<close>

theorem unsafe_names_pass: "safe_name (str ''..'')" "safe_name (str ''/'')"
  by (simp_all add: safe_name_def Base_def str_def)

text \<open>A summary request is read without regard to what follows its prefix.\<close>

theorem summary_request_tail_ignored:
  assumes "DecodeSummaryRequest p = Inr r"
  shows "DecodeSummaryRequest (p\<lparr>np_Body := np_Body p @ tail\<rparr>) = Inr r"
proof -
  let ?b = "np_Body p" and ?d = "unat (np_Body p ! 4)"
  have b: "5 \<le> length ?b" "5 + (?d + 1) div 2 \<le> length ?b" "np_Type p = gnSummaryRequest"
    using assms by (auto simp: DecodeSummaryRequest_def decodePrefix_def Let_def split: if_splits)
  have nth: "(?b @ tail) ! i = ?b ! i" if "i < 5 + (?d + 1) div 2" for i using that b(2) by (simp add: nth_append)
  have eq: "(?b @ tail) ! (5 + i div 2) = ?b ! (5 + i div 2)" if "i < ?d" for i using that by (intro nth) linarith
  have four: "(?b @ tail) ! 4 = ?b ! 4" using b(1) by (simp add: nth_append)
  have odd: "?d mod 2 = 1 \<Longrightarrow> (?b @ tail) ! (5 + ?d div 2) = ?b ! (5 + ?d div 2)" by (intro nth) presburger
  let ?n = "\<lambda>body i. let packed = body ! (5 + i div 2) in if i mod 2 = 0 then drop_bit 4 packed else packed AND 15"
  have same: "map (?n (?b @ tail)) [0..<?d] = map (?n ?b) [0..<?d]" by (rule map_cong) (simp_all add: eq)
  have "(?d mod 2 = 1 \<and> (?b @ tail) ! (5 + ?d div 2) AND 15 \<noteq> 0) = (?d mod 2 = 1 \<and> ?b ! (5 + ?d div 2) AND 15 \<noteq> 0)"
    using odd by metis
  then have "decodePrefix (?b @ tail) = decodePrefix ?b"
    using b unfolding decodePrefix_def decodePrefixWithTail_def Let_def four by (simp add: same [unfolded Let_def])
  then show ?thesis using assms b(3) by (simp add: DecodeSummaryRequest_def)
qed

end
