(* ===== verification/Spec2Isabelle.thy ===== *)
theory Spec2Isabelle
  imports Stream_Decoder Assembly Radix Node_Protocol Store_Safety Policy Controller Runtime_Properties Runtime_Lifecycle Runtime_Liveness
    Runtime_Packets Publisher Catalog Node_Commands Radio_Tool Deviations
begin

text \<open>
  Ghost Cache moves small signed publications over a packet radio of at most 200 bytes a packet. This development
  models its Go programs, all of \<open>internal\<close> and \<open>cmd\<close> but the reading of options and the formatting of text.

  THE PROGRAM. A publication is a file with a manifest: identifier (the first 16 bytes of its SHA-256), name,
  length, chunks of 178 bytes, and maybe an Ed25519 signature. A node (\<open>ghost-node run\<close>) keeps publications on
  disk, advertises a digest of the complete ones, compares digests with its peers branch by branch until it knows
  which identifiers it lacks, asks for their manifests and signatures, decides by its policy whether to transfer
  them, fetches the missing chunks in small batches and commits the result when its hash is right. It talks to the
  radio through a USB modem by records with a checksum. Two more programs transfer one file directly
  (\<open>ghost-publish\<close> to \<open>ghost-broadcast\<close>), and \<open>ghost-radio\<close> drives a modem by hand.

  THEORIES, in the order of their dependence:

  \<^item> \<open>Prelude\<close>, \<open>Bytes\<close>, \<open>Go_Strings\<close>, \<open>Go_Text\<close>: errors as values (\<open>go_error + 'a\<close> with \<open>bind_err\<close>), slices, fixed
    arrays with their order, little-endian integers, and what the code uses of Go's libraries on strings, numbers and
    options. The locales \<open>wire_format\<close> and \<open>canonical_format\<close> state what an encoder and its decoder promise each other.
  \<^item> \<open>Modem_Protocol\<close>, \<open>Stream_Decoder\<close>: \<open>internal/modem/protocol.go\<close> and \<open>decoder.go\<close>, the records of the serial line
    (COBS, CRC-32) and their incremental decoder.
  \<^item> \<open>Modem_Client\<close>, \<open>Modem_Link\<close>: \<open>internal/modem/client.go\<close>, \<open>internal/node/radio.go\<close> and \<open>internal/publication/link.go\<close>,
    requests with their retries and deadlines, and sending and receiving packets. The serial port and the clock are
    streams of what their calls return. The locale \<open>receiver\<close> is the contract of the two receive loops.
  \<^item> \<open>Pub_Protocol\<close>, \<open>Assembly\<close>: \<open>internal/publication/protocol.go\<close> and \<open>assembly.go\<close>, manifests, the packets of direct
    transfers, and collecting chunks.
  \<^item> \<open>Radix\<close>, \<open>Node_Protocol\<close>: \<open>internal/node/radix.go\<close> and \<open>protocol.go\<close>, digests of inventories and their comparison,
    and the packets between nodes.
  \<^item> \<open>Disk\<close>, \<open>Signing\<close>, \<open>Store\<close>, \<open>Store_Safety\<close>, \<open>Catalog\<close>: \<open>internal/publication/store.go\<close>, \<open>signing.go\<close> and
    \<open>catalog.go\<close> over a disk whose every call may fail (\<open>io\<close>); \<open>no_faults\<close> is the disk that works. The locale
    \<open>path_store\<close> is the contract of a store of paths. \<open>Disk\<close> says how JSON documents are kept.
  \<^item> \<open>Scheduler\<close>, \<open>Policy\<close>, \<open>Controller\<close>: \<open>internal/node/scheduler.go\<close>, \<open>policy.go\<close> and \<open>controller.go\<close>, what to ask
    for next and when, which publications to accept, and when to stay silent.
  \<^item> \<open>Runtime\<close>: \<open>internal/node/runtime.go\<close>, the node's state and handlers. \<open>Runtime_Inv\<close> and \<open>Runtime_Steps\<close> prove its
    invariant; \<open>Runtime_Lifecycle\<close> states the protocol as an inductive step relation on phases and proves that the
    handlers refine it; \<open>Runtime_Liveness\<close>, \<open>Runtime_Serving\<close>, \<open>Runtime_Storage\<close> and \<open>Runtime_Packets\<close> hold what the
    node gets done, serves, writes and transmits; \<open>Runtime_Examples\<close> and \<open>Runtime_Properties\<close> hold concrete nodes and
    the properties of reachable states.
  \<^item> \<open>Broadcaster\<close>, \<open>Publisher\<close>: \<open>cmd/ghost-broadcast\<close> and \<open>cmd/ghost-publish\<close>, composed over a perfect channel, over a
    hostile one and over two modem clients; the locale \<open>hearing_link\<close> is what the publisher relies on.
  \<^item> \<open>Config\<close>, \<open>Node_Settings\<close>, \<open>Node_Commands\<close>: \<open>internal/config/config.go\<close> and \<open>cmd/ghost-node\<close>, from the file and the
    options to the node that starts, and the commands on the store. The locale \<open>modem_device\<close> is the contract of the
    interface the modem is configured through.
  \<^item> \<open>Radio_Tool\<close>: \<open>cmd/ghost-radio\<close>. \<open>Deviations\<close>: where the code does less than its checks or documents say.

  CORRESPONDENCE. A struct is a record and an enumeration a datatype with the source's constructors; machine integers
  are words of their width, so they wrap as in Go; a slice is a list, a map an association list or a function, with
  the order of iteration an argument where it can matter; an error is the left side of a sum; a pointer that is
  written through is a result beside the error. A function that reads the clock, draws random numbers or calls the
  file system takes what these return as an argument: \<open>env\<close> for a node, \<open>io\<close> for a disk, streams for a port. The
  cryptography (\<open>crypto\<close>: SHA-256, Ed25519) is an argument too. The theorems that need more of it say so:
  \<open>signs_correctly\<close> is that a signature with a generated key verifies under its public key, and a few theorems assume that two particular hashes differ.

  LEMMAS AND PROPERTIES. The codecs: what is encoded is decoded, what is decoded has one encoding, bad input is
  refused. The store: an assembly and its files agree after any failures, a commit is atomic for a reader, a complete
  publication is servable. The node: its invariant in every reachable state, from which follow the bounds on its
  memory, one exchange at a time and only verified manifests transferred; the refinement of the protocol's phases;
  the recovery from silence; what it may write and transmit. The programs: a transfer over a perfect channel succeeds,
  success over any channel means that the publication was stored; a node starts only with the settings it was
  asked for, confirmed by the modem; what the commands show is what the store holds and what the policy decides.

  BOUNDS AND TERMINATION. There is no fuel. Loops over data are recursive functions with a measure; loops that wait
  for a port, a packet or a deadline are partial functions with value \<open>None\<close> when they run forever, and that they
  return is proved under a hypothesis that time passes (\<open>request_returns\<close>, \<open>transfer_succeeds\<close>). The main loop of
  a node is a step for each event (\<open>run_event\<close>), so its properties are over all sequences of events.

  NOT MODELLED. Reading options (the package \<open>flag\<close>), the TOML decoder, \<open>time.ParseDuration\<close> and
  \<open>strconv.ParseFloat\<close> are libraries whose results are arguments. JSON text is its decoded record, with the change
  \<open>encoding/json\<close> makes to strings that are not UTF-8 written out. Log output and the layout of printed tables have
  no effect on the state. Float64 sums of the traffic controller are real numbers. The mutexes of the modem client
  make each call one step; no interleaving inside a call is modelled. The modem firmware (C++), the scripts, the
  deployment files, documents, tests and presentation are not Go code of the programs; of the firmware only the
  status line is a definition (\<open>modem_status\<close>), as the text the host reads back.
\<close>

end
